(* ===== verification/SF_Prelude.thy ===== *)
theory SF_Prelude
  imports Main "HOL-Library.Word"
begin

unbundle bit_operations_syntax

text \<open>
  Shared vocabulary of the development: the machine integer types of the C
  sources, the status codes of \<^verbatim>\<open>include/sf.h\<close> as a datatype, results as
  sums, bounded search loops, and the generic lemmas the component theories use.

  A C array of objects (tasks, endpoints, capabilities, modules, nodes) is a
  function from indices; every index the model forms is guarded by the bound the
  source guards it with.  A byte buffer is a list of 8-bit words, and a C string
  is the list of its bytes before the terminating zero.
\<close>

section \<open>Machine integers\<close>

type_synonym u8 = "8 word"
type_synonym u16 = "16 word"
type_synonym u32 = "32 word"
type_synonym u64 = "64 word"
type_synonym bytes = "u8 list"

section \<open>Status codes (include/sf.h)\<close>

datatype sf_error =
    SF_INVALID | SF_DENIED | SF_BAD_FORMAT | SF_BAD_SIGNATURE | SF_ABI_MISMATCH
  | SF_DEPENDENCY | SF_BUSY | SF_DRAINING | SF_TIMEOUT | SF_DEVICE_GONE
  | SF_NOT_SEEKABLE | SF_STALE_HANDLE | SF_REVOKED | SF_RESTART_REQUIRED
  | SF_WOULD_BLOCK | SF_NOT_FOUND | SF_READ_ONLY | SF_NO_SPACE
  | SF_EVENT_OVERFLOW | SF_COMMIT_UNCERTAIN | SF_VERSION_REJECTED

primrec sf_code :: "sf_error \<Rightarrow> int" where
  "sf_code SF_INVALID = -1"
| "sf_code SF_DENIED = -2"
| "sf_code SF_BAD_FORMAT = -3"
| "sf_code SF_BAD_SIGNATURE = -4"
| "sf_code SF_ABI_MISMATCH = -5"
| "sf_code SF_DEPENDENCY = -6"
| "sf_code SF_BUSY = -7"
| "sf_code SF_DRAINING = -8"
| "sf_code SF_TIMEOUT = -9"
| "sf_code SF_DEVICE_GONE = -10"
| "sf_code SF_NOT_SEEKABLE = -11"
| "sf_code SF_STALE_HANDLE = -12"
| "sf_code SF_REVOKED = -13"
| "sf_code SF_RESTART_REQUIRED = -14"
| "sf_code SF_WOULD_BLOCK = -15"
| "sf_code SF_NOT_FOUND = -16"
| "sf_code SF_READ_ONLY = -17"
| "sf_code SF_NO_SPACE = -18"
| "sf_code SF_EVENT_OVERFLOW = -19"
| "sf_code SF_COMMIT_UNCERTAIN = -20"
| "sf_code SF_VERSION_REJECTED = -21"

type_synonym 'a res = "sf_error + 'a"

abbreviation Ok :: "'a \<Rightarrow> 'a res" where "Ok \<equiv> Inr"
abbreviation Err :: "sf_error \<Rightarrow> 'a res" where "Err \<equiv> Inl"

lemma sf_code_neg: "sf_code e < 0"
  by (cases e) simp_all

lemma sf_code_inj: "sf_code a = sf_code b \<longleftrightarrow> a = b"
  by (cases a; cases b) simp_all

section \<open>Bounded search loops\<close>

text \<open>\<^verbatim>\<open>for(i=0;i<n;i++)if(P(i))return i;\<close> is \<open>first_index P n\<close>.\<close>

definition first_index :: "(nat \<Rightarrow> bool) \<Rightarrow> nat \<Rightarrow> nat option" where
  "first_index P n = find P [0..<n]"

lemma first_index_Some:
  "first_index P n = Some i \<longleftrightarrow> i < n \<and> P i \<and> (\<forall>j<i. \<not> P j)"
  by (auto simp: first_index_def find_Some_iff)

lemma first_index_None: "first_index P n = None \<longleftrightarrow> (\<forall>i<n. \<not> P i)"
  by (auto simp: first_index_def find_None_iff)

lemma first_index_SomeD:
  "first_index P n = Some i \<Longrightarrow> i < n" "first_index P n = Some i \<Longrightarrow> P i"
  "first_index P n = Some i \<Longrightarrow> j < i \<Longrightarrow> \<not> P j"
  by (auto simp: first_index_Some)

lemma first_index_ex: "i < n \<Longrightarrow> P i \<Longrightarrow> \<exists>j. first_index P n = Some j"
  by (metis first_index_None option.exhaust)

section \<open>Words as numbers\<close>

lemma unat_less_width [simp]:
  "unat (a::u8) < 256" "unat (b::u16) < 65536" "unat (c::u32) < 4294967296"
  "unat (d::u64) < 18446744073709551616"
  using unsigned_less[of a, where ?'a = nat] unsigned_less[of b, where ?'a = nat]
    unsigned_less[of c, where ?'a = nat] unsigned_less[of d, where ?'a = nat] by simp_all

lemma unat_ucast_up:
  "LENGTH('a) \<le> LENGTH('b) \<Longrightarrow> unat (ucast (x::'a::len word) :: 'b::len word) = unat x"
  by (metis unsigned_ucast_eq take_bit_nat_eq_self unsigned_less power_increasing
      one_le_numeral order_less_le_trans)

lemma unat_ucast_mod: "unat (ucast (x::'a::len word) :: 'b::len word) = unat x mod 2 ^ LENGTH('b)"
  by (simp add: unsigned_ucast_eq take_bit_eq_mod)

lemma unat_ucast_u32_u64 [simp]: "unat (ucast (x::u32) :: u64) = unat x"
  by (rule unat_ucast_up) simp

lemma unat_Suc_less: "c < (m::'a::len word) \<Longrightarrow> unat (c + 1) = Suc (unat c)"
proof -
  assume "c < m"
  then have "unat c + 1 < 2 ^ LENGTH('a)"
    using unsigned_less[of m, where ?'a = nat] unfolding word_less_nat_alt by linarith
  then show ?thesis by (simp add: unat_word_ariths(1))
qed

lemma unat_Suc_neq_max: "c \<noteq> (-1::'a::len word) \<Longrightarrow> unat (c + 1) = Suc (unat c)"
  by (rule unat_Suc_less[of c "-1"]) (simp add: word_order.not_eq_extremum)

lemma unat_pred: "c \<noteq> (0::'a::len word) \<Longrightarrow> unat (c - 1) = unat c - 1"
  by (simp add: unat_minus_one)

lemma unat_max: "unat (- 1 :: 'a::len word) = 2 ^ LENGTH('a) - 1"
  by (simp add: unsigned_minus_1_eq_mask mask_eq_exp_minus_1)

lemma unat_room: "unat (- 1 - a :: 'a::len word) = 2 ^ LENGTH('a) - 1 - unat a"
  by (simp add: unat_sub word_order.extremum unat_max)

text \<open>\<^verbatim>\<open>b > MAX - a ? MAX : a + b\<close> is saturating addition.\<close>

lemma unat_saturating_add:
  fixes a b :: "'a::len word"
  shows "unat (if b > - 1 - a then - 1 else a + b) = min (unat a + unat b) (2 ^ LENGTH('a) - 1)"
proof -
  have a: "unat a < 2 ^ LENGTH('a)" by (rule unsigned_less)
  have iff: "b > - 1 - a \<longleftrightarrow> 2 ^ LENGTH('a) - 1 - unat a < unat b"
    by (simp add: word_less_nat_alt unat_room)
  show ?thesis
  proof (cases "b > - 1 - a")
    case True
    then show ?thesis using iff by (simp add: unat_max min_def)
  next
    case False
    then have "unat a + unat b < 2 ^ LENGTH('a)" using iff a by linarith
    then have "unat (a + b) = unat a + unat b" "unat a + unat b \<le> 2 ^ LENGTH('a) - 1"
      by (simp_all only: unat_word_ariths mod_less)
    then show ?thesis using False by simp
  qed
qed

lemma bit_drop_zero: "drop_bit n (w::'a::len word) = 0 \<Longrightarrow> bit w j \<Longrightarrow> j < n"
  by (metis bit_drop_bit_eq comp_apply le_add_diff_inverse not_le bit_0_eq bot_apply bot_bool_def)

section \<open>Reachable states and inductive invariants\<close>

inductive reachable :: "('s \<Rightarrow> bool) \<Rightarrow> ('s \<Rightarrow> 's \<Rightarrow> bool) \<Rightarrow> 's \<Rightarrow> bool"
  for start :: "'s \<Rightarrow> bool" and step :: "'s \<Rightarrow> 's \<Rightarrow> bool" where
  reach_start: "start s \<Longrightarrow> reachable start step s"
| reach_step: "reachable start step s \<Longrightarrow> step s t \<Longrightarrow> reachable start step t"

text \<open>The contract every stateful component of the system satisfies: an invariant
  of the start states that each operation keeps.\<close>

locale invariant_system =
  fixes start :: "'s \<Rightarrow> bool"
    and step :: "'s \<Rightarrow> 's \<Rightarrow> bool"
    and invar :: "'s \<Rightarrow> bool"
  assumes start_invar: "start s \<Longrightarrow> invar s"
    and step_invar: "invar s \<Longrightarrow> step s t \<Longrightarrow> invar t"
begin

lemma reachable_invar: "reachable start step s \<Longrightarrow> invar s"
  by (induction rule: reachable.induct) (auto intro: start_invar step_invar)

lemma run_invar: "invar s \<Longrightarrow> step\<^sup>*\<^sup>* s t \<Longrightarrow> invar t"
  by (erule rtranclp_induct) (auto intro: step_invar)

end

end
