(* ===== verification/SF_Sched.thy ===== *)
theory SF_Sched
  imports SF_Prelude
begin

text \<open>
  Process identifiers (\<^verbatim>\<open>kernel/pid.c\<close>) and the scheduling policy
  (\<^verbatim>\<open>kernel/sched_policy.c\<close>): priorities 0 to 3, aging by one level per four
  ticks of waiting, and round robin inside a level.
\<close>

section \<open>Process identifiers\<close>

definition SF_PID_MAX :: u32 where "SF_PID_MAX = 0x7fffffff"

text \<open>The counter is passed by pointer: \<open>None\<close> is the null pointer; the second
  component is the counter afterwards.\<close>

definition sf_pid_take :: "u32 option \<Rightarrow> u32 res \<times> u32 option" where
  "sf_pid_take next =
     (case next of
        None \<Rightarrow> (Err SF_INVALID, None)
      | Some pid \<Rightarrow>
          if pid = 0 \<or> pid > SF_PID_MAX then (Err SF_NO_SPACE, next)
          else (Ok pid, Some (pid + 1)))"

text \<open>Repeated calls on the same counter.\<close>

fun take_pids :: "nat \<Rightarrow> u32 \<Rightarrow> u32 res list" where
  "take_pids 0 c = []"
| "take_pids (Suc n) c =
     (case sf_pid_take (Some c) of (r, c') \<Rightarrow> r # take_pids n (the c'))"

section \<open>Scheduling policy\<close>

definition SF_MAX_TASKS :: nat where "SF_MAX_TASKS = 12"
definition SF_PRIORITY_MAX :: u32 where "SF_PRIORITY_MAX = 3"
definition SF_PRIORITY_AGING_TICKS :: u64 where "SF_PRIORITY_AGING_TICKS = 4"

record SfSchedEntry =
  se_ready_since :: u64
  se_priority :: u32
  se_ready :: u32

definition sched_score :: "SfSchedEntry \<Rightarrow> u64 \<Rightarrow> u32" where
  "sched_score e now =
     (let age = (if now \<ge> se_ready_since e then now - se_ready_since e else 0);
          boost = age div SF_PRIORITY_AGING_TICKS
      in if boost \<ge> ucast (SF_PRIORITY_MAX - se_priority e) then SF_PRIORITY_MAX
         else se_priority e + ucast boost)"

definition sched_index :: "int \<Rightarrow> nat \<Rightarrow> nat \<Rightarrow> nat" where
  "sched_index current count step = nat ((current + int step) mod int count)"

definition sched_skip :: "SfSchedEntry \<Rightarrow> bool" where
  "sched_skip e \<longleftrightarrow> se_ready e = 0 \<or> se_priority e > SF_PRIORITY_MAX"

definition sched_body ::
  "(nat \<Rightarrow> SfSchedEntry) \<Rightarrow> nat \<Rightarrow> int \<Rightarrow> u64 \<Rightarrow> nat \<Rightarrow> int \<times> u32 \<Rightarrow> int \<times> u32" where
  "sched_body entries count current now step = (\<lambda>(selected, best).
     let i = sched_index current count step; e = entries i
     in if sched_skip e then (selected, best)
        else let score = sched_score e now
             in if selected < 0 \<or> score > best then (int i, score) else (selected, best))"

definition sf_sched_pick ::
  "(nat \<Rightarrow> SfSchedEntry) option \<Rightarrow> nat \<Rightarrow> int \<Rightarrow> u64 \<Rightarrow> int" where
  "sf_sched_pick entries count current now =
     (case entries of
        None \<Rightarrow> -1
      | Some es \<Rightarrow>
          if count = 0 \<or> count > SF_MAX_TASKS \<or> current < -1 \<or> current \<ge> int count then -1
          else fst (fold (sched_body es count current now) [1..<count + 1] (-1, 0)))"

section \<open>Properties: process identifiers\<close>

text \<open>C6: starting from any usable counter, repeated calls of \<open>sf_pid_take\<close> hand
  out consecutive identifiers, each exactly once, up to 0x7fffffff, and refuse
  every later call: an identifier is never reused and never negative as an
  \<open>int32_t\<close>.\<close>

theorem pid_take_sequence:
  assumes "0 < c" "c \<le> SF_PID_MAX + 1"
  shows "take_pids n c =
    map (\<lambda>i. if unat c + i \<le> unat SF_PID_MAX then Ok (of_nat (unat c + i)) else Err SF_NO_SPACE) [0..<n]"
  using assms
proof (induction n arbitrary: c)
  case 0
  then show ?case by simp
next
  case (Suc n)
  have ub: "unat c \<le> 2147483648" 
    using Suc.prems(2) by (simp add: SF_PID_MAX_def word_le_nat_alt)
  have pos: "unat c > 0" using Suc.prems(1) by (simp add: unat_gt_0)
  show ?case
  proof (cases "c \<le> SF_PID_MAX")
    case True
    then have le: "unat c \<le> 2147483647" by (simp add: SF_PID_MAX_def word_le_nat_alt)
    have suc: "unat (c + 1) = Suc (unat c)"
      using True by (intro unat_Suc_less[of _ "SF_PID_MAX + 1"]) (simp add: SF_PID_MAX_def word_le_nat_alt word_less_nat_alt)
    have IH: "take_pids n (c + 1) = map (\<lambda>i. if unat (c + 1) + i \<le> unat SF_PID_MAX then Ok (of_nat (unat (c + 1) + i)) else Err SF_NO_SPACE) [0..<n]"
      using suc le by (intro Suc.IH) (auto simp: SF_PID_MAX_def word_le_nat_alt word_less_nat_alt)
    show ?thesis using True Suc.prems(1) IH suc le
      by (simp add: sf_pid_take_def map_upt_Suc SF_PID_MAX_def not_less del: upt_Suc)
  next
    case False
    then have c: "c = 0x80000000" using ub 
      by (simp add: SF_PID_MAX_def word_le_nat_alt  word_unat_eq_iff )
    have IH: "take_pids n c = map (\<lambda>i. if unat c + i \<le> unat SF_PID_MAX then Ok (of_nat (unat c + i)) else Err SF_NO_SPACE) [0..<n]"
      using Suc.prems by (rule Suc.IH)
    show ?thesis using IH c
      by (simp add: sf_pid_take_def map_upt_Suc SF_PID_MAX_def del: upt_Suc)
  qed
qed

theorem pid_take_sequence_witness:
  "take_pids 3 0x7ffffffe = [Ok 0x7ffffffe, Ok 0x7fffffff, Err SF_NO_SPACE]"
  unfolding pid_take_sequence[of "0x7ffffffe" 3, simplified SF_PID_MAX_def, simplified]
  by (simp add: upt_rec)

section \<open>Cyclic distance and the selection loop\<close>

text \<open>The number of loop steps after which the traversal that starts behind
  \<open>current\<close> reaches slot \<open>i\<close>.\<close>

definition sched_dist :: "int \<Rightarrow> nat \<Rightarrow> nat \<Rightarrow> nat" where
  "sched_dist current count i = nat ((int i - current - 1) mod int count) + 1"

lemma sched_dist_bounds: "0 < count \<Longrightarrow> 1 \<le> sched_dist current count i \<and> sched_dist current count i \<le> count"
  by (simp add: sched_dist_def Suc_le_eq nat_less_iff)

lemma sched_index_less: "0 < count \<Longrightarrow> sched_index current count s < count"
  by (simp add: sched_index_def nat_less_iff)

lemma int_sched_index: "0 < count \<Longrightarrow> int (sched_index current count s) = (current + int s) mod int count"
  by (simp add: sched_index_def)

lemma int_sched_dist: "0 < count \<Longrightarrow> int (sched_dist current count i) = (int i - current - 1) mod int count + 1"
  by (simp add: sched_dist_def)

lemma sched_index_dist:
  assumes "i < count"
  shows "sched_index current count (sched_dist current count i) = i"
proof -
  have "(current + ((int i - current - 1) mod int count + 1)) mod int count = int i mod int count"
    using mod_add_right_eq[of "current + 1" "int i - current - 1" "int count"] by (simp add: algebra_simps)
  then show ?thesis using assms by (simp add: sched_index_def int_sched_dist)
qed

lemma sched_dist_of_index:
  assumes "1 \<le> s" "s \<le> count"
  shows "sched_dist current count (sched_index current count s) = s"
proof -
  have "((current + int s) mod int count - current - 1) mod int count = (int s - 1) mod int count"
    by (metis (no_types, opaque_lifting) add_diff_cancel_left' diff_diff_eq mod_diff_left_eq)
  also have "\<dots> = int s - 1" using assms by (intro mod_pos_pos_trivial) auto
  finally show ?thesis using assms by (simp add: sched_dist_def int_sched_index)
qed

lemma sched_dist_index:
  assumes "s < sched_dist current count i" "0 < count"
  shows "sched_dist (int (sched_index current count s)) count i = sched_dist current count i - s"
proof -
  let ?d = "(int i - current - 1) mod int count"
  have d: "int s \<le> ?d" using assms(1) int_sched_dist[OF assms(2), of current i] by linarith
  have "(int i - (current + int s) mod int count - 1) mod int count = (int i - (current + int s) - 1) mod int count"
    by (metis diff_right_commute mod_diff_right_eq)
  also have "\<dots> = (?d - int s) mod int count"
    by (simp add: mod_diff_left_eq algebra_simps)
  also have "\<dots> = ?d - int s"
    using d assms(2) by (intro mod_pos_pos_trivial) (auto intro: le_less_trans[of _ ?d])
  finally show ?thesis using d assms(2)
    by (simp add: sched_dist_def int_sched_index nat_diff_distrib Suc_diff_le)
qed

definition first_max :: "(nat \<Rightarrow> bool) \<Rightarrow> (nat \<Rightarrow> 'b::linorder) \<Rightarrow> nat \<Rightarrow> nat \<Rightarrow> bool" where
  "first_max ok score k s \<longleftrightarrow> 1 \<le> s \<and> s \<le> k \<and> ok s \<and>
     (\<forall>r. 1 \<le> r \<and> r \<le> k \<and> ok r \<longrightarrow> score r \<le> score s) \<and>
     (\<forall>r. 1 \<le> r \<and> r < s \<and> ok r \<longrightarrow> score r < score s)"

lemma first_max_keep:
  "first_max ok score k s \<Longrightarrow> \<not> ok (Suc k) \<or> score (Suc k) \<le> score s \<Longrightarrow> first_max ok score (Suc k) s"
  by (auto simp: first_max_def le_Suc_eq)

lemma first_max_new:
  "ok (Suc k) \<Longrightarrow> (\<And>r. 1 \<le> r \<Longrightarrow> r \<le> k \<Longrightarrow> ok r \<Longrightarrow> score r < score (Suc k)) \<Longrightarrow>
   first_max ok score (Suc k) (Suc k)"
  by (auto simp: first_max_def le_Suc_eq less_Suc_eq_le intro: less_imp_le)

lemma sched_steps_spec:
  fixes es count current now
  defines "e \<equiv> \<lambda>s. es (sched_index current count s)"
  shows "case fold (sched_body es count current now) [1..<k + 1] (-1, 0) of (selected, best) \<Rightarrow>
     (if \<forall>s. 1 \<le> s \<and> s \<le> k \<longrightarrow> sched_skip (e s) then selected = -1
      else \<exists>s. selected = int (sched_index current count s) \<and> best = sched_score (e s) now \<and>
             first_max (\<lambda>s. \<not> sched_skip (e s)) (\<lambda>s. sched_score (e s) now) k s)"
proof (induction k)
  case 0
  show ?case by simp
next
  case (Suc k)
  let ?ok = "\<lambda>s. \<not> sched_skip (e s)" and ?sc = "\<lambda>s. sched_score (e s) now"
  obtain sel best where sb: "fold (sched_body es count current now) [1..<k + 1] (-1, 0) = (sel, best)"
    by fastforce
  have step: "fold (sched_body es count current now) [1..<Suc k + 1] (-1, 0) =
      sched_body es count current now (Suc k) (sel, best)"
    using sb by simp
  note IH = Suc.IH[unfolded sb prod.case]
  consider (skip) "sched_skip (e (Suc k))"
    | (none) "\<not> sched_skip (e (Suc k))" "\<forall>s. 1 \<le> s \<and> s \<le> k \<longrightarrow> sched_skip (e s)"
    | (some) "\<not> sched_skip (e (Suc k))" "\<not> (\<forall>s. 1 \<le> s \<and> s \<le> k \<longrightarrow> sched_skip (e s))"
    by blast
  then show ?case
  proof cases
    case skip
    then have "(\<forall>s. 1 \<le> s \<and> s \<le> Suc k \<longrightarrow> sched_skip (e s)) = (\<forall>s. 1 \<le> s \<and> s \<le> k \<longrightarrow> sched_skip (e s))"
      by (auto simp: le_Suc_eq)
    then show ?thesis using skip IH unfolding step
      by (auto simp: sched_body_def e_def intro: first_max_keep split: if_splits)
  next
    case none
    then have "sel = -1" using IH by simp
    moreover have "first_max ?ok ?sc (Suc k) (Suc k)"
      using none by (intro first_max_new) auto
    ultimately show ?thesis using none unfolding step
      by (auto simp: sched_body_def e_def Let_def)
  next
    case some
    then obtain s where s: "sel = int (sched_index current count s)" "best = ?sc s" "first_max ?ok ?sc k s"
      using IH[unfolded if_not_P[OF some(2)]] by blast
    show ?thesis
    proof (cases "best < ?sc (Suc k)")
      case True
      then have "first_max ?ok ?sc (Suc k) (Suc k)"
        using some s by (intro first_max_new) (auto simp: first_max_def intro: le_less_trans)
      then show ?thesis using some True unfolding step
        by (auto simp: sched_body_def e_def Let_def)
    next
      case False
      then have "first_max ?ok ?sc (Suc k) s" using s by (intro first_max_keep) auto
      then show ?thesis using some s False unfolding step
        by (auto simp: sched_body_def e_def Let_def)
    qed
  qed
qed

lemma sched_score_le: "sched_score e now \<le> SF_PRIORITY_MAX" if "\<not> sched_skip e"
proof -
  have p: "se_priority e \<le> 3" using that by (simp add: sched_skip_def SF_PRIORITY_MAX_def not_less)
  { fix b :: u64 
    assume "\<not> ucast (3 - se_priority e) \<le> b"
    then have "b < ucast (3 - se_priority e)" by simp
    then have u: "unat b < unat (3 - se_priority e)"
      by (simp add: word_less_nat_alt )
    moreover have "unat (3 - se_priority e) = 3 - unat (se_priority e)" using p by (simp add: unat_sub)
    ultimately have "unat (ucast b :: u32) = unat b" "unat b + unat (se_priority e) < 3"
      by (auto simp: unat_ucast_mod)
    then have "se_priority e + ucast b \<le> 3"
      by (simp add: word_le_nat_alt unat_word_ariths) }
  then show ?thesis by (auto simp: sched_score_def Let_def SF_PRIORITY_MAX_def)
qed

lemma sched_score_aged:
  assumes "\<not> sched_skip e" "se_ready_since e \<le> now" "12 \<le> now - se_ready_since e"
  shows "sched_score e now = SF_PRIORITY_MAX"
proof -
  let ?a = "now - se_ready_since e"
  have p: "se_priority e \<le> 3" using assms(1) by (simp add: sched_skip_def SF_PRIORITY_MAX_def not_less)
  have "unat (3 - se_priority e) \<le> 3" using p by (simp add: unat_sub)
  moreover have "3 \<le> unat (?a div 4)" using assms(3) by (simp add: unat_div word_le_nat_alt)
  ultimately have "ucast (3 - se_priority e) \<le> ?a div 4"
    by (simp add: word_le_nat_alt )
  then show ?thesis using assms(2) by (simp add: sched_score_def Let_def SF_PRIORITY_MAX_def SF_PRIORITY_AGING_TICKS_def)
qed

lemma sched_pick_cases:
  fixes es count current now
  assumes "0 < count" "count \<le> SF_MAX_TASKS" "-1 \<le> current" "current < int count"
  defines "e \<equiv> \<lambda>s. es (sched_index current count s)"
  obtains (idle) "sf_sched_pick (Some es) count current now = -1" "\<forall>i<count. sched_skip (es i)"
  | (pick) s where "sf_sched_pick (Some es) count current now = int (sched_index current count s)"
      "first_max (\<lambda>s. \<not> sched_skip (e s)) (\<lambda>s. sched_score (e s) now) count s"
proof -
  have *: "sf_sched_pick (Some es) count current now =
      fst (fold (sched_body es count current now) [1..<count + 1] (-1, 0))"
    using assms(1-4) by (simp add: sf_sched_pick_def)
  have cover: "\<forall>i<count. sched_skip (es i)" if "\<forall>s. 1 \<le> s \<and> s \<le> count \<longrightarrow> sched_skip (e s)"
    using that sched_dist_bounds[OF assms(1)] sched_index_dist unfolding e_def by metis
  show thesis
    using sched_steps_spec[where k = count and es = es and count = count and current = current and now = now] pick idle cover *
    by (auto simp: e_def split: if_splits prod.splits)
qed

section \<open>Properties: scheduling\<close>

text \<open>C4: \<open>sf_sched_pick\<close> returns -1 exactly when no slot is eligible; otherwise it
  returns an eligible slot of the highest effective priority, and among the slots
  of that level the one the round-robin traversal behind \<open>current\<close> meets first.\<close>

theorem sched_pick_correct:
  assumes "0 < count" "count \<le> SF_MAX_TASKS" "-1 \<le> current" "current < int count"
  shows "if \<forall>i<count. sched_skip (es i) then sf_sched_pick (Some es) count current now = -1
       else \<exists>i<count. sf_sched_pick (Some es) count current now = int i \<and> \<not> sched_skip (es i) \<and>
         (\<forall>j<count. \<not> sched_skip (es j) \<longrightarrow> sched_score (es j) now \<le> sched_score (es i) now \<and>
            (sched_score (es j) now = sched_score (es i) now \<longrightarrow>
               sched_dist current count i \<le> sched_dist current count j))"
  using assms
proof (cases rule: sched_pick_cases[where es = es and now = now])
  case idle
  then show ?thesis by simp
next
  case (pick s)
  let ?i = "sched_index current count s"
  have s: "1 \<le> s" "s \<le> count" using pick(2) by (auto simp: first_max_def)
  have i: "?i < count" "sched_dist current count ?i = s"
    using assms(1) s by (auto simp: sched_index_less sched_dist_of_index)
  have "sched_score (es j) now \<le> sched_score (es ?i) now \<and>
      (sched_score (es j) now = sched_score (es ?i) now \<longrightarrow> s \<le> sched_dist current count j)"
    if "j < count" "\<not> sched_skip (es j)" for j
    using pick(2) sched_dist_bounds[OF assms(1), of current j] sched_index_dist[OF that(1)] that(2)
    unfolding first_max_def by (metis less_irrefl not_le)
  then show ?thesis using pick i by (auto simp: first_max_def)
qed

theorem sched_pick_correct_witness:
  "sf_sched_pick (Some (\<lambda>i. \<lparr>se_ready_since = 0, se_priority = of_nat i, se_ready = 1\<rparr>)) 3 0 4 = 2"
proof -
  define es where "es = (\<lambda>i. \<lparr>se_ready_since = 0, se_priority = of_nat i, se_ready = 1\<rparr>)"
  note defs = es_def sched_skip_def SF_PRIORITY_MAX_def sched_score_def SF_PRIORITY_AGING_TICKS_def
  have r: "\<not> sched_skip (es 2)" by (simp add: defs)
  then have "\<not> (\<forall>i<3. sched_skip (es i))" by (auto intro!: exI[of _ 2])
  with sched_pick_correct[of 3 0 es 4] r obtain i where i: "i < 3"
    "sf_sched_pick (Some es) 3 0 4 = int i" "sched_score (es 2) 4 \<le> sched_score (es i) 4"
    by (auto simp: SF_MAX_TASKS_def)
  then have "i = 2" by (cases "i = 0"; cases "i = 1") (auto simp: defs word_le_nat_alt)
  then show ?thesis using i unfolding es_def by simp
qed

text \<open>C5: no starvation. A slot that stays ready and has waited twelve ticks is
  picked within \<open>count\<close> consecutive scheduling decisions, whatever the other
  slots do and whatever their priorities are.\<close>

theorem sched_no_starvation:
  assumes "0 < count" "count \<le> SF_MAX_TASKS" "i < count" "-1 \<le> c 0" "c 0 < int count"
    and run: "\<forall>k<count. c (Suc k) = sf_sched_pick (Some (es k)) count (c k) (now k)"
    and aged: "\<forall>k<count. \<not> sched_skip (es k i) \<and> se_ready_since (es k i) \<le> now k \<and> 12 \<le> now k - se_ready_since (es k i)"
  shows "\<exists>k<count. c (Suc k) = int i"
proof (rule ccontr)
  assume no: "\<not> ?thesis"
  have step: "-1 \<le> c (Suc k) \<and> c (Suc k) < int count \<and> sched_dist (c (Suc k)) count i < sched_dist (c k) count i"
    if k: "k < count" "-1 \<le> c k" "c k < int count" for k
    using assms(1,2) k(2,3)
  proof (cases rule: sched_pick_cases[where es = "es k" and now = "now k"])
    case idle
    then show ?thesis using aged assms(3) k by blast
  next
    case (pick s)
    let ?d = "sched_dist (c k) count i"
    have top: "sched_score (es k i) (now k) = SF_PRIORITY_MAX"
      using aged k by (intro sched_score_aged) auto
    have ci: "c (Suc k) = int (sched_index (c k) count s)" using run k pick by simp
    have d: "1 \<le> ?d" "?d \<le> count" "sched_index (c k) count ?d = i"
      using sched_dist_bounds[OF assms(1)] sched_index_dist[OF assms(3)] by auto
    have "s \<noteq> ?d" using no ci d k by metis
    moreover have "\<not> ?d < s"
      using pick(2) d aged k top sched_score_le[of "es k (sched_index (c k) count s)" "now k"]
      unfolding first_max_def by (metis leD)
    ultimately have "s < ?d" by simp
    moreover have "1 \<le> s" using pick(2) by (simp add: first_max_def)
    ultimately show ?thesis using sched_dist_index[of s "c k" count i] assms(1) sched_index_less[of count "c k" s]
      unfolding ci by simp
  qed
  have "-1 \<le> c k \<and> c k < int count \<and> sched_dist (c k) count i + k \<le> sched_dist (c 0) count i" if "k \<le> count" for k
    using that
  proof (induction k)
    case 0
    then show ?case using assms by simp
  next
    case (Suc k)
    then show ?case using step[of k] by simp
  qed
  from this[of count] show False
    using sched_dist_bounds[OF assms(1), of "c 0" i] sched_dist_bounds[OF assms(1), of "c count" i] by simp
qed

theorem sched_no_starvation_witness:
  "\<exists>k<2. (\<lambda>k. if k = 1 then 1 else 0 :: int) (Suc k) = int 0"
  by (rule sched_no_starvation[where now = "\<lambda>_. 12"
        and es = "\<lambda>_ _. \<lparr>se_ready_since = 0, se_priority = 0, se_ready = 1\<rparr>"])
    (auto simp: SF_MAX_TASKS_def less_2_cases_iff sf_sched_pick_def sched_body_def sched_index_def
      upt_rec sched_skip_def SF_PRIORITY_MAX_def sched_score_def SF_PRIORITY_AGING_TICKS_def)

end
