(* ===== verification/SF_Manager.thy ===== *)
theory SF_Manager
  imports SF_Prelude
begin

text \<open>
  The module manager (\<^verbatim>\<open>services/manager.c\<close>): sixteen registration slots, the
  life cycle of a module, dependency leases and the resource ledger.  Every call
  sequence keeps the ledger exact: the lease count of a module is the number of
  started modules that depend on it plus the leases clients took themselves.
\<close>

section \<open>State\<close>

datatype mod_state =
    MOD_DISCOVERED | MOD_VERIFIED | MOD_RESOLVED | MOD_STAGED | MOD_INITIALIZED | MOD_ACTIVE
  | MOD_QUIESCING | MOD_DRAINING | MOD_STOPPED | MOD_UNLOADED | MOD_FAILED | MOD_QUARANTINED

text \<open>Resource kinds are indices into the ledger: \<open>RES_LEASE\<close> is 0, \<open>RES_DIRTY\<close> 7,
  \<open>RES_DMA\<close> 9.\<close>

definition RES_LEASE :: nat where "RES_LEASE = 0"
definition RES_OPEN :: nat where "RES_OPEN = 1"
definition RES_DIRTY :: nat where "RES_DIRTY = 7"
definition RES_DMA :: nat where "RES_DMA = 9"
definition RES_COUNT :: nat where "RES_COUNT = 10"

record SfModule =
  md_id :: bytes
  md_generation :: u32
  md_state :: mod_state
  md_pinned :: u32
  md_dependencies :: u32
  md_resources :: "nat \<Rightarrow> u32"
  md_dependency_generations :: "nat \<Rightarrow> u32"

record SfManager =
  mg_modules :: "nat \<Rightarrow> SfModule"
  mg_next_generation :: u32

definition zero_module :: SfModule where
  "zero_module = \<lparr>md_id = [], md_generation = 0, md_state = MOD_DISCOVERED, md_pinned = 0,
     md_dependencies = 0, md_resources = (\<lambda>_. 0), md_dependency_generations = (\<lambda>_. 0)\<rparr>"

definition zero_manager :: SfManager where
  "zero_manager = \<lparr>mg_modules = (\<lambda>_. zero_module), mg_next_generation = 0\<rparr>"

definition put_module :: "nat \<Rightarrow> SfModule \<Rightarrow> SfManager \<Rightarrow> SfManager" where
  "put_module i x m = m\<lparr>mg_modules := (mg_modules m)(i := x)\<rparr>"

definition set_resource :: "nat \<Rightarrow> u32 \<Rightarrow> SfModule \<Rightarrow> SfModule" where
  "set_resource r v x = x\<lparr>md_resources := (md_resources x)(r := v)\<rparr>"

section \<open>Operations\<close>

definition registered :: "SfModule \<Rightarrow> bool" where
  "registered x \<longleftrightarrow>
     md_generation x \<noteq> 0 \<and> md_state x \<noteq> MOD_DISCOVERED \<and> md_state x \<noteq> MOD_UNLOADED"

definition free_slot :: "SfModule \<Rightarrow> bool" where
  "free_slot x \<longleftrightarrow> md_state x = MOD_DISCOVERED \<or> md_state x = MOD_UNLOADED"

definition sfmod_add :: "SfManager \<Rightarrow> bytes \<Rightarrow> u32 \<Rightarrow> int \<Rightarrow> nat res \<times> SfManager" where
  "sfmod_add m name deps pinned =
     (if name = [] \<or> length name \<ge> 64 then (Err SF_INVALID, m)
      else if drop_bit 16 deps \<noteq> 0 then (Err SF_DEPENDENCY, m)
      else if list_ex (\<lambda>j. bit deps j \<and> \<not> registered (mg_modules m j)) [0..<16]
        then (Err SF_DEPENDENCY, m)
      else if mg_next_generation m = -1 then (Err SF_NO_SPACE, m)
      else case first_index (\<lambda>i. free_slot (mg_modules m i)) 16 of
        None \<Rightarrow> (Err SF_NO_SPACE, m)
      | Some i \<Rightarrow>
          let g = mg_next_generation m + 1;
              x = \<lparr>md_id = name, md_generation = g, md_state = MOD_VERIFIED,
                   md_pinned = of_int pinned, md_dependencies = deps,
                   md_resources = (\<lambda>_. 0),
                   md_dependency_generations =
                     (\<lambda>j. if j < 16 \<and> bit deps j then
                             (if j = i then g else md_generation (mg_modules m j)) else 0)\<rparr>
          in (Ok i, (put_module i x m)\<lparr>mg_next_generation := g\<rparr>))"

fun start_check :: "SfManager \<Rightarrow> nat \<Rightarrow> nat list \<Rightarrow> sf_error option" where
  "start_check m i [] = None"
| "start_check m i (j # js) =
     (let x = mg_modules m i; p = mg_modules m j
      in if \<not> bit (md_dependencies x) j then start_check m i js
         else if j = i \<or> md_state p \<noteq> MOD_ACTIVE
              \<or> md_generation p \<noteq> md_dependency_generations x j then Some SF_DEPENDENCY
         else if md_resources p RES_LEASE = -1 then Some SF_NO_SPACE
         else start_check m i js)"

definition add_leases :: "u32 \<Rightarrow> u32 \<Rightarrow> SfManager \<Rightarrow> SfManager" where
  "add_leases deps d m =
     fold (\<lambda>j m. if bit deps j then
              put_module j (set_resource RES_LEASE
                (md_resources (mg_modules m j) RES_LEASE + d) (mg_modules m j)) m
            else m) [0..<16] m"

definition set_state :: "nat \<Rightarrow> mod_state \<Rightarrow> SfManager \<Rightarrow> SfManager" where
  "set_state i st m = put_module i ((mg_modules m i)\<lparr>md_state := st\<rparr>) m"

definition sfmod_start :: "SfManager \<Rightarrow> nat \<Rightarrow> unit res \<times> SfManager" where
  "sfmod_start m i =
     (if i \<ge> 16 then (Err SF_INVALID, m)
      else let x = mg_modules m i in
        if md_state x \<noteq> MOD_VERIFIED \<and> md_state x \<noteq> MOD_STOPPED then (Err SF_INVALID, m)
        else if drop_bit 16 (md_dependencies x) \<noteq> 0 then (Err SF_DEPENDENCY, m)
        else case start_check m i [0..<16] of
          Some e \<Rightarrow> (Err e, m)
        | None \<Rightarrow>
            let m = set_state i MOD_RESOLVED m;
                m = set_state i MOD_STAGED m;
                m = set_state i MOD_INITIALIZED m;
                m = add_leases (md_dependencies x) 1 m
            in (Ok (), set_state i MOD_ACTIVE m))"

definition sfmod_acquire :: "SfManager \<Rightarrow> nat \<Rightarrow> nat \<Rightarrow> unit res \<times> SfManager" where
  "sfmod_acquire m i r =
     (if i \<ge> 16 \<or> r \<ge> RES_COUNT then (Err SF_INVALID, m)
      else let x = mg_modules m i in
        if md_state x = MOD_QUIESCING \<or> md_state x = MOD_DRAINING then (Err SF_DRAINING, m)
        else if md_state x \<noteq> MOD_ACTIVE then (Err SF_STALE_HANDLE, m)
        else if md_resources x r = -1 then (Err SF_NO_SPACE, m)
        else (Ok (), put_module i (set_resource r (md_resources x r + 1) x) m))"

definition sfmod_release :: "SfManager \<Rightarrow> nat \<Rightarrow> nat \<Rightarrow> unit res \<times> SfManager" where
  "sfmod_release m i r =
     (if i \<ge> 16 \<or> r \<ge> RES_COUNT \<or> md_resources (mg_modules m i) r = 0 then (Err SF_INVALID, m)
      else let x = mg_modules m i in
        (Ok (), put_module i (set_resource r (md_resources x r - 1) x) m))"

definition sfmod_prepare :: "SfManager \<Rightarrow> nat \<Rightarrow> unit res \<times> SfManager" where
  "sfmod_prepare m i =
     (if i \<ge> 16 then (Err SF_INVALID, m)
      else let x = mg_modules m i in
        if md_pinned x \<noteq> 0 then (Err SF_DENIED, m)
        else if md_state x \<noteq> MOD_ACTIVE then (Err SF_INVALID, m)
        else (Ok (), set_state i MOD_DRAINING (set_state i MOD_QUIESCING m)))"

definition sfmod_cancel :: "SfManager \<Rightarrow> nat \<Rightarrow> unit res \<times> SfManager" where
  "sfmod_cancel m i =
     (if i \<ge> 16 \<or> md_state (mg_modules m i) \<noteq> MOD_DRAINING then (Err SF_INVALID, m)
      else (Ok (), set_state i MOD_ACTIVE m))"

fun stop_check :: "SfManager \<Rightarrow> nat \<Rightarrow> nat list \<Rightarrow> sf_error option" where
  "stop_check m i [] = None"
| "stop_check m i (j # js) =
     (let x = mg_modules m i; p = mg_modules m j
      in if \<not> bit (md_dependencies x) j then stop_check m i js
         else if \<not> registered p \<or> md_generation p \<noteq> md_dependency_generations x j
           then Some SF_DEPENDENCY
         else if md_resources p RES_LEASE = 0 then Some SF_INVALID
         else stop_check m i js)"

definition sfmod_stop :: "SfManager \<Rightarrow> nat \<Rightarrow> unit res \<times> SfManager" where
  "sfmod_stop m i =
     (if i \<ge> 16 \<or> md_state (mg_modules m i) \<noteq> MOD_DRAINING then (Err SF_INVALID, m)
      else let x = mg_modules m i in
        case first_index (\<lambda>r. md_resources x r \<noteq> 0) RES_COUNT of
          Some r \<Rightarrow> (Err (if r = RES_LEASE then SF_DEPENDENCY else SF_BUSY), m)
        | None \<Rightarrow>
            if drop_bit 16 (md_dependencies x) \<noteq> 0 then (Err SF_DEPENDENCY, m)
            else case stop_check m i [0..<16] of
              Some e \<Rightarrow> (Err e, m)
            | None \<Rightarrow> (Ok (), set_state i MOD_STOPPED (add_leases (md_dependencies x) (-1) m)))"

definition sfmod_unload :: "SfManager \<Rightarrow> nat \<Rightarrow> unit res \<times> SfManager" where
  "sfmod_unload m i =
     (if i \<ge> 16 \<or> md_state (mg_modules m i) \<noteq> MOD_STOPPED then (Err SF_INVALID, m)
      else (Ok (), set_state i MOD_UNLOADED m))"

section \<open>The ledger invariant\<close>

text \<open>A module holds a lease on each of its dependencies from the moment it starts
  until it is stopped.\<close>

definition live :: "SfModule \<Rightarrow> bool" where
  "live x \<longleftrightarrow> md_state x = MOD_ACTIVE \<or> md_state x = MOD_DRAINING"

definition holders :: "SfManager \<Rightarrow> nat \<Rightarrow> nat set" where
  "holders m j = {i. i < 16 \<and> live (mg_modules m i) \<and> bit (md_dependencies (mg_modules m i)) j}"

text \<open>\<open>ext j\<close> counts the leases on module \<open>j\<close> taken by clients through
  \<open>sfmod_acquire\<close> (the application launcher takes one per running program).\<close>

definition mgr_deps :: "SfManager \<Rightarrow> bool" where
  "mgr_deps m \<longleftrightarrow> (\<forall>i<16. live (mg_modules m i) \<longrightarrow>
     drop_bit 16 (md_dependencies (mg_modules m i)) = 0 \<and>
     (\<forall>j. bit (md_dependencies (mg_modules m i)) j \<longrightarrow> j \<noteq> i \<and> live (mg_modules m j) \<and>
        md_generation (mg_modules m j) = md_dependency_generations (mg_modules m i) j))"

definition mgr_idle :: "SfManager \<Rightarrow> bool" where
  "mgr_idle m \<longleftrightarrow> (\<forall>i<16. \<not> live (mg_modules m i) \<longrightarrow>
     (\<forall>r<RES_COUNT. md_resources (mg_modules m i) r = 0))"

definition mgr_slots :: "SfManager \<Rightarrow> bool" where
  "mgr_slots m \<longleftrightarrow> (\<forall>i<16. registered (mg_modules m i) \<or> free_slot (mg_modules m i))"

definition mgr_leases :: "SfManager \<Rightarrow> (nat \<Rightarrow> nat) \<Rightarrow> bool" where
  "mgr_leases m ext \<longleftrightarrow> (\<forall>j<16.
     unat (md_resources (mg_modules m j) RES_LEASE) = card (holders m j) + ext j)"

definition mgr_inv :: "SfManager \<times> (nat \<Rightarrow> nat) \<Rightarrow> bool" where
  "mgr_inv = (\<lambda>(m, ext). mgr_deps m \<and> mgr_idle m \<and> mgr_slots m \<and> mgr_leases m ext)"

text \<open>One call of the interface by a client that gives back only leases it acquired: \<open>sfmod_release\<close>
  itself checks no owner, and \<open>unowned_release\<close> below shows what an unowned release does.\<close>

inductive mgr_step :: "SfManager \<times> (nat \<Rightarrow> nat) \<Rightarrow> SfManager \<times> (nat \<Rightarrow> nat) \<Rightarrow> bool" where
  add: "sfmod_add m name deps pinned = (r, m') \<Longrightarrow> mgr_step (m, ext) (m', ext)"
| start: "sfmod_start m i = (r, m') \<Longrightarrow> mgr_step (m, ext) (m', ext)"
| acquire: "sfmod_acquire m i r = (Ok (), m') \<Longrightarrow>
    mgr_step (m, ext) (m', if r = RES_LEASE then ext(i := ext i + 1) else ext)"
| acquire_refused: "sfmod_acquire m i r = (Err e, m') \<Longrightarrow> mgr_step (m, ext) (m', ext)"
| release: "sfmod_release m i r = (res, m') \<Longrightarrow> r \<noteq> RES_LEASE \<Longrightarrow> mgr_step (m, ext) (m', ext)"
| release_lease: "sfmod_release m i RES_LEASE = (Ok (), m') \<Longrightarrow> 0 < ext i \<Longrightarrow>
    mgr_step (m, ext) (m', ext(i := ext i - 1))"
| prepare: "sfmod_prepare m i = (r, m') \<Longrightarrow> mgr_step (m, ext) (m', ext)"
| cancel: "sfmod_cancel m i = (r, m') \<Longrightarrow> mgr_step (m, ext) (m', ext)"
| stop: "sfmod_stop m i = (r, m') \<Longrightarrow> mgr_step (m, ext) (m', ext)"
| unload: "sfmod_unload m i = (r, m') \<Longrightarrow> mgr_step (m, ext) (m', ext)"

definition mgr_start :: "SfManager \<times> (nat \<Rightarrow> nat) \<Rightarrow> bool" where
  "mgr_start s \<longleftrightarrow> s = (zero_manager, \<lambda>_. 0)"

subsection \<open>Closed forms of the loops\<close>

lemma put_module_simps [simp]:
  "mg_modules (put_module i x m) = (mg_modules m)(i := x)"
  "mg_next_generation (put_module i x m) = mg_next_generation m"
  by (simp_all add: put_module_def)

lemma set_state_simps [simp]:
  "mg_modules (set_state i st m) = (mg_modules m)(i := (mg_modules m i)\<lparr>md_state := st\<rparr>)"
  by (simp add: set_state_def)

lemma set_state_next [simp]: "mg_next_generation (set_state i st m) = mg_next_generation m"
  by (simp add: set_state_def)

lemma set_resource_simps [simp]:
  "md_state (set_resource r v x) = md_state x"
  "md_generation (set_resource r v x) = md_generation x"
  "md_pinned (set_resource r v x) = md_pinned x"
  "md_dependencies (set_resource r v x) = md_dependencies x"
  "md_dependency_generations (set_resource r v x) = md_dependency_generations x"
  "md_resources (set_resource r v x) = (md_resources x)(r := v)"
  by (simp_all add: set_resource_def)

lemma live_simps [simp]:
  "live (x\<lparr>md_state := st\<rparr>) \<longleftrightarrow> st = MOD_ACTIVE \<or> st = MOD_DRAINING"
  "live (set_resource r v x) = live x"
  "live (x\<lparr>md_resources := f\<rparr>) = live x"
  by (simp_all add: live_def)

lemma add_leases_fold:
  assumes "distinct js"
  shows "mg_modules (fold (\<lambda>j m. if bit deps j then
              put_module j (set_resource RES_LEASE
                (md_resources (mg_modules m j) RES_LEASE + d) (mg_modules m j)) m
            else m) js m) k =
    (if k \<in> set js \<and> bit deps k then
       set_resource RES_LEASE (md_resources (mg_modules m k) RES_LEASE + d) (mg_modules m k)
     else mg_modules m k)"
  using assms by (induction js arbitrary: m) auto

lemma add_leases_simp [simp]:
  "mg_modules (add_leases deps d m) k =
    (if k < 16 \<and> bit deps k then
       set_resource RES_LEASE (md_resources (mg_modules m k) RES_LEASE + d) (mg_modules m k)
     else mg_modules m k)"
  unfolding add_leases_def by (subst add_leases_fold) auto

lemma add_leases_next [simp]: "mg_next_generation (add_leases deps d m) = mg_next_generation m"
proof -
  have "mg_next_generation (fold (\<lambda>j m. if bit deps j then
              put_module j (set_resource RES_LEASE
                (md_resources (mg_modules m j) RES_LEASE + d) (mg_modules m j)) m
            else m) js m) = mg_next_generation m" for js
    by (induction js arbitrary: m) auto
  then show ?thesis by (simp add: add_leases_def)
qed

lemma start_check_None:
  "start_check m i js = None \<longleftrightarrow>
     (\<forall>j\<in>set js. bit (md_dependencies (mg_modules m i)) j \<longrightarrow> j \<noteq> i \<and>
        md_state (mg_modules m j) = MOD_ACTIVE \<and>
        md_generation (mg_modules m j) = md_dependency_generations (mg_modules m i) j \<and>
        md_resources (mg_modules m j) RES_LEASE \<noteq> -1)"
  by (induction js) (auto simp: Let_def)

lemma stop_check_None:
  "stop_check m i js = None \<longleftrightarrow>
     (\<forall>j\<in>set js. bit (md_dependencies (mg_modules m i)) j \<longrightarrow>
        registered (mg_modules m j) \<and>
        md_generation (mg_modules m j) = md_dependency_generations (mg_modules m i) j \<and>
        md_resources (mg_modules m j) RES_LEASE \<noteq> 0)"
  by (induction js) (auto simp: Let_def)

subsection \<open>Each operation keeps the invariant\<close>

lemmas mgr_inv_defs = mgr_inv_def mgr_deps_def mgr_idle_def mgr_slots_def mgr_leases_def

lemma finite_holders [simp]: "finite (holders m j)"
  by (simp add: holders_def)

lemma holders_cong:
  "(\<And>i. i < 16 \<Longrightarrow> live (mg_modules m' i) = live (mg_modules m i)) \<Longrightarrow>
   (\<And>i. i < 16 \<Longrightarrow> live (mg_modules m i) \<Longrightarrow>
      md_dependencies (mg_modules m' i) = md_dependencies (mg_modules m i)) \<Longrightarrow>
   holders m' j = holders m j"
  by (auto simp: holders_def)

lemma RES_LEASE_less [simp]: "RES_LEASE < RES_COUNT"
  by (simp add: RES_LEASE_def RES_COUNT_def)

lemma not_live_free: "free_slot x \<Longrightarrow> \<not> live x"
  by (auto simp: free_slot_def live_def)

lemma registered_state [simp]:
  "registered (set_resource r v x) = registered x"
  "free_slot (set_resource r v x) = free_slot x"
  by (simp_all add: registered_def free_slot_def)

lemma live_registered: "mgr_slots m \<Longrightarrow> i < 16 \<Longrightarrow> live (mg_modules m i) \<Longrightarrow> registered (mg_modules m i)"
  by (auto simp: mgr_slots_def dest: not_live_free)

lemma mgr_inv_dep:
  assumes inv: "mgr_inv (m, ext)" and "i < 16" "live (mg_modules m i)"
    and "bit (md_dependencies (mg_modules m i)) j"
  shows "j < 16" "j \<noteq> i" "live (mg_modules m j)" "registered (mg_modules m j)"
    "md_generation (mg_modules m j) = md_dependency_generations (mg_modules m i) j"
    "i \<in> holders m j" "0 < card (holders m j)" "md_resources (mg_modules m j) RES_LEASE \<noteq> 0"
proof -
  have d: "mgr_deps m" and l: "mgr_leases m ext" and sl: "mgr_slots m"
    using inv by (simp_all add: mgr_inv_def)
  have z: "drop_bit 16 (md_dependencies (mg_modules m i)) = 0"
    using d assms(2,3) by (simp add: mgr_deps_def)
  show j: "j < 16" by (rule bit_drop_zero[OF z assms(4)])
  show "j \<noteq> i" "live (mg_modules m j)"
    "md_generation (mg_modules m j) = md_dependency_generations (mg_modules m i) j"
    using d assms(2-4) by (simp_all add: mgr_deps_def)
  then show "registered (mg_modules m j)" using live_registered[OF sl j] by simp
  show h: "i \<in> holders m j" using assms by (simp add: holders_def)
  then show c: "0 < card (holders m j)" by (auto simp: card_gt_0_iff)
  then show "md_resources (mg_modules m j) RES_LEASE \<noteq> 0"
    using l j by (auto simp: mgr_leases_def)
qed

lemma add_inv:
  assumes inv: "mgr_inv (m, ext)" and op: "sfmod_add m name deps pinned = (r, m')"
  shows "mgr_inv (m', ext)"
proof (cases r)
  case (Inl e)
  then have "m' = m" using op by (auto simp: sfmod_add_def Let_def split: if_splits option.splits)
  then show ?thesis using inv by simp
next
  case (Inr i)
  let ?x = "mg_modules m' i"
  have i: "i < 16" "free_slot (mg_modules m i)" and ng: "mg_next_generation m \<noteq> -1"
    and frame: "\<And>k. k \<noteq> i \<Longrightarrow> mg_modules m' k = mg_modules m k"
    and x: "md_state ?x = MOD_VERIFIED" "md_resources ?x = (\<lambda>_. 0)"
       "md_generation ?x = mg_next_generation m + 1"
    using op Inr by (auto simp: sfmod_add_def Let_def first_index_Some split: if_splits option.splits)
  have nl: "\<not> live (mg_modules m i)" "\<not> live ?x" using i x by (auto simp: free_slot_def live_def)
  have h: "holders m' j = holders m j" for j
    using nl frame by (intro holders_cong) metis+
  have "mg_next_generation m + 1 \<noteq> 0" using ng by (metis add.commute add_left_cancel add.right_inverse)
  then have reg: "registered ?x" using x by (simp add: registered_def)
  have z: "md_resources (mg_modules m i) RES_LEASE = 0" using inv nl i by (auto simp: mgr_inv_defs)
  have "mgr_deps m'" unfolding mgr_deps_def
    using inv nl frame by (simp add: mgr_inv_defs) metis
  moreover have "mgr_idle m'" unfolding mgr_idle_def
    using inv x frame by (simp add: mgr_inv_defs) metis
  moreover have "mgr_slots m'" unfolding mgr_slots_def
    using inv reg frame by (simp add: mgr_inv_defs) metis
  moreover have "mgr_leases m' ext" unfolding mgr_leases_def h
    using inv x z frame by (simp add: mgr_inv_defs) (metis unat_0)
  ultimately show ?thesis by (simp add: mgr_inv_def)
qed

lemma start_inv:
  assumes inv: "mgr_inv (m, ext)" and op: "sfmod_start m i = (r, m')"
  shows "mgr_inv (m', ext)"
proof (cases r)
  case (Inl e)
  then have "m' = m" using op by (auto simp: sfmod_start_def Let_def split: if_splits option.splits)
  then show ?thesis using inv by simp
next
  case (Inr u)
  let ?d = "md_dependencies (mg_modules m i)"
  have i: "i < 16" "drop_bit 16 ?d = 0" "\<not> live (mg_modules m i)" "\<not> free_slot (mg_modules m i)"
    and chk: "start_check m i [0..<16] = None"
    and m': "\<And>k. mg_modules m' k = (if k = i then (mg_modules m i)\<lparr>md_state := MOD_ACTIVE\<rparr>
        else if bit ?d k then set_resource RES_LEASE (md_resources (mg_modules m k) RES_LEASE + 1) (mg_modules m k)
        else mg_modules m k)"
    using op Inr bit_drop_zero[of 16 ?d]
    by (auto simp: sfmod_start_def Let_def live_def free_slot_def start_check_None split: if_splits option.splits)
  have dep: "j < 16 \<and> j \<noteq> i \<and> live (mg_modules m j) \<and> md_generation (mg_modules m j) = md_dependency_generations (mg_modules m i) j
      \<and> md_resources (mg_modules m j) RES_LEASE \<noteq> -1" if "bit ?d j" for j
    using chk bit_drop_zero[OF i(2) that] that by (auto simp: start_check_None live_def)
  have live': "live (mg_modules m' k) \<longleftrightarrow> k = i \<or> live (mg_modules m k)" for k
    by (simp add: m')
  have h: "holders m' j = (if bit ?d j then insert i (holders m j) else holders m j)" for j
    using i by (auto simp: holders_def m')
  have ni: "i \<notin> holders m j" for j using i by (simp add: holders_def)
  have same: "md_generation (mg_modules m' k) = md_generation (mg_modules m k)"
    "md_dependencies (mg_modules m' k) = md_dependencies (mg_modules m k)"
    "md_dependency_generations (mg_modules m' k) = md_dependency_generations (mg_modules m k)" for k
    by (simp_all add: m')
  have "mgr_deps m'" unfolding mgr_deps_def live' same
    using inv dep i by (simp add: mgr_inv_defs)
  moreover have "mgr_idle m'" unfolding mgr_idle_def live'
    using inv dep by (auto simp: mgr_inv_defs m')
  moreover have "mgr_slots m'"
    using inv i by (auto simp: mgr_inv_defs m' registered_def free_slot_def)
  moreover have "mgr_leases m' ext" unfolding mgr_leases_def h
    using inv dep ni by (auto simp: mgr_inv_defs m' unat_Suc_neq_max)
  ultimately show ?thesis by (simp add: mgr_inv_def)
qed


lemma acquire_inv:
  assumes inv: "mgr_inv (m, ext)" and op: "sfmod_acquire m i r = (Ok (), m')"
  shows "mgr_inv (m', if r = RES_LEASE then ext(i := ext i + 1) else ext)"
proof -
  let ?x = "mg_modules m i"
  have i: "i < 16" "r < RES_COUNT" "live ?x" "md_resources ?x r \<noteq> -1"
    and m': "mg_modules m' = (mg_modules m)(i := set_resource r (md_resources ?x r + 1) ?x)"
    using op by (auto simp: sfmod_acquire_def Let_def live_def split: if_splits)
  have h: "holders m' j = holders m j" for j by (intro holders_cong) (simp_all add: m')
  show ?thesis unfolding mgr_inv_defs prod.case h
    using inv i by (auto simp: mgr_inv_defs m' unat_Suc_neq_max)
qed

lemma release_inv:
  assumes inv: "mgr_inv (m, ext)" and op: "sfmod_release m i r = (Ok (), m')"
    and own: "r = RES_LEASE \<Longrightarrow> 0 < ext i"
  shows "mgr_inv (m', if r = RES_LEASE then ext(i := ext i - 1) else ext)"
proof -
  let ?x = "mg_modules m i"
  have i: "i < 16" "r < RES_COUNT" "md_resources ?x r \<noteq> 0"
    and m': "mg_modules m' = (mg_modules m)(i := set_resource r (md_resources ?x r - 1) ?x)"
    using op by (auto simp: sfmod_release_def Let_def split: if_splits)
  have l: "live ?x" using inv i by (auto simp: mgr_inv_defs)
  have h: "holders m' j = holders m j" for j by (intro holders_cong) (simp_all add: m')
  show ?thesis unfolding mgr_inv_defs prod.case h
    using inv i l own by (auto simp: mgr_inv_defs m' unat_pred)
qed

lemma set_state_inv:
  assumes inv: "mgr_inv (m, ext)" and "i < 16" "live (mg_modules m i)" "st = MOD_ACTIVE \<or> st = MOD_DRAINING"
  shows "mgr_inv (set_state i st m, ext)"
proof -
  have h: "holders (set_state i st m) j = holders m j" for j 
    using assms by (intro holders_cong) auto
  show ?thesis unfolding mgr_inv_defs prod.case h
    using assms by (auto simp: mgr_inv_defs registered_def free_slot_def live_def)
qed

lemma prepare_inv:
  assumes inv: "mgr_inv (m, ext)" and op: "sfmod_prepare m i = (r, m')"
  shows "mgr_inv (m', ext)"
proof (cases r)
  case (Inl e)
  then have "m' = m" using op by (auto simp: sfmod_prepare_def Let_def split: if_splits)
  then show ?thesis using inv by simp
next
  case (Inr u)
  then have "i < 16" "live (mg_modules m i)" "m' = set_state i MOD_DRAINING m"
    using op by (auto simp: sfmod_prepare_def Let_def live_def set_state_def put_module_def split: if_splits)
  then show ?thesis using set_state_inv[OF inv] by simp
qed

lemma cancel_inv:
  assumes inv: "mgr_inv (m, ext)" and op: "sfmod_cancel m i = (r, m')"
  shows "mgr_inv (m', ext)"
  using op set_state_inv[OF inv, of i MOD_ACTIVE] inv
  by (auto simp: sfmod_cancel_def live_def split: if_splits)

lemma stop_inv:
  assumes inv: "mgr_inv (m, ext)" and op: "sfmod_stop m i = (r, m')"
  shows "mgr_inv (m', ext)"
proof (cases r)
  case (Inl e)
  then have "m' = m" using op by (auto simp: sfmod_stop_def Let_def split: if_splits option.splits)
  then show ?thesis using inv by simp
next
  case (Inr u)
  let ?d = "md_dependencies (mg_modules m i)"
  have i: "i < 16" "drop_bit 16 ?d = 0" "live (mg_modules m i)" "\<forall>r<RES_COUNT. md_resources (mg_modules m i) r = 0"
    and chk: "stop_check m i [0..<16] = None"
    and m'': "m' = set_state i MOD_STOPPED (add_leases ?d (-1) m)"
    using op Inr 
    by (auto simp: sfmod_stop_def Let_def live_def first_index_None split: if_splits option.splits)
  note dep = mgr_inv_dep[OF inv i(1,3)]
  have m': "mg_modules m' k = (if k = i then (mg_modules m i)\<lparr>md_state := MOD_STOPPED\<rparr>
        else if bit ?d k then set_resource RES_LEASE (md_resources (mg_modules m k) RES_LEASE - 1) (mg_modules m k)
        else mg_modules m k)" for k
    using dep(1,2) unfolding m'' by auto
  have live': "live (mg_modules m' k) \<longleftrightarrow> k \<noteq> i \<and> live (mg_modules m k)" for k
    by (simp add: m')
  have h: "holders m' j = holders m j - (if bit ?d j then {i} else {})" for j
    using i by (auto simp: holders_def m')
  have same: "md_generation (mg_modules m' k) = md_generation (mg_modules m k)"
    "md_dependencies (mg_modules m' k) = md_dependencies (mg_modules m k)"
    "md_dependency_generations (mg_modules m' k) = md_dependency_generations (mg_modules m k)" for k
    by (simp_all add: m')
  have "card (holders m i) = 0" using inv i by (auto simp: mgr_inv_defs)
  then have none: "\<not> bit (md_dependencies (mg_modules m k)) i" if "k < 16" "live (mg_modules m k)" for k
    using that by (auto simp: holders_def)
  have "mgr_deps m'" unfolding mgr_deps_def live' same
    using inv none by (simp add: mgr_inv_defs) metis
  moreover have "mgr_idle m'" unfolding mgr_idle_def live'
    using inv dep i by (auto simp: mgr_inv_defs m')
  moreover have "mgr_slots m'"
    using inv i live_registered[of m i] by (auto simp: mgr_inv_defs m' registered_def free_slot_def live_def)
  moreover have "mgr_leases m' ext" unfolding mgr_leases_def h
    using inv dep by (auto simp: mgr_inv_defs m' unat_pred Suc_leI)
  ultimately show ?thesis by (simp add: mgr_inv_def)
qed

lemma unload_inv:
  assumes inv: "mgr_inv (m, ext)" and op: "sfmod_unload m i = (r, m')"
  shows "mgr_inv (m', ext)"
proof (cases r)
  case (Inl e)
  then have "m' = m" using op by (auto simp: sfmod_unload_def split: if_splits)
  then show ?thesis using inv by simp
next
  case (Inr u)
  then have i: "i < 16" "\<not> live (mg_modules m i)" "m' = set_state i MOD_UNLOADED m"
    using op by (auto simp: sfmod_unload_def live_def split: if_splits)
  have h: "holders m' j = holders m j" for j using i by (intro holders_cong) auto
  show ?thesis unfolding mgr_inv_defs prod.case h
    using inv i by (auto simp: mgr_inv_defs registered_def free_slot_def)
qed

lemma refused_unchanged:
  "sfmod_acquire m i r = (Err e, m') \<Longrightarrow> m' = m"
  "sfmod_release m i r = (Err e, m') \<Longrightarrow> m' = m"
  by (auto simp: sfmod_acquire_def sfmod_release_def Let_def split: if_splits)

interpretation mgr: invariant_system mgr_start mgr_step mgr_inv
proof unfold_locales
  fix s :: "SfManager \<times> (nat \<Rightarrow> nat)"
  assume "mgr_start s"
  then show "mgr_inv s"
    by (auto simp: mgr_start_def mgr_inv_defs zero_manager_def zero_module_def live_def holders_def free_slot_def)
next
  fix s t assume inv: "mgr_inv s" and step: "mgr_step s t"
  from step show "mgr_inv t"
  proof cases
    case (release m i r res m' ext)
    then show ?thesis using inv release_inv[of m ext i r m'] refused_unchanged(2)[of m i r _ m']
      by (cases res) auto
  next
    case (release_lease m i m' ext)
    then show ?thesis using inv release_inv[of m ext i RES_LEASE m'] by simp
  next
    case (acquire m i r m' ext)
    then show ?thesis using inv acquire_inv[of m ext i r m'] by simp
  qed (use inv in \<open>auto intro: add_inv start_inv prepare_inv cancel_inv stop_inv unload_inv
         dest: refused_unchanged\<close>)
qed


section \<open>Sequences of calls\<close>

datatype mgr_call = Add bytes u32 int | Start nat | Acquire nat nat | Release nat nat
  | Prepare nat | Cancel nat | Stop nat | Unload nat

text \<open>The call, with whether it succeeded.\<close>

definition isOk :: "'a res \<Rightarrow> bool" where
  "isOk r \<longleftrightarrow> \<not> isl r"

fun mgr_do :: "mgr_call \<Rightarrow> SfManager \<Rightarrow> bool \<times> SfManager" where
  "mgr_do (Add name deps pinned) m = map_prod isOk id (sfmod_add m name deps pinned)"
| "mgr_do (Start i) m = map_prod isOk id (sfmod_start m i)"
| "mgr_do (Acquire i r) m = map_prod isOk id (sfmod_acquire m i r)"
| "mgr_do (Release i r) m = map_prod isOk id (sfmod_release m i r)"
| "mgr_do (Prepare i) m = map_prod isOk id (sfmod_prepare m i)"
| "mgr_do (Cancel i) m = map_prod isOk id (sfmod_cancel m i)"
| "mgr_do (Stop i) m = map_prod isOk id (sfmod_stop m i)"
| "mgr_do (Unload i) m = map_prod isOk id (sfmod_unload m i)"

primrec mgr_run :: "mgr_call list \<Rightarrow> SfManager \<Rightarrow> SfManager" where
  "mgr_run [] m = m"
| "mgr_run (c # cs) m = mgr_run cs (snd (mgr_do c m))"

text \<open>The leases clients hold after a call.\<close>

fun client_leases :: "mgr_call \<Rightarrow> bool \<Rightarrow> (nat \<Rightarrow> nat) \<Rightarrow> nat \<Rightarrow> nat" where
  "client_leases (Acquire i r) ok ext = (if ok \<and> r = RES_LEASE then ext(i := ext i + 1) else ext)"
| "client_leases (Release i r) ok ext = (if ok \<and> r = RES_LEASE then ext(i := ext i - 1) else ext)"
| "client_leases c ok ext = ext"

text \<open>A client that holds \<open>ext\<close> releases no lease it does not hold.\<close>

primrec disciplined :: "mgr_call list \<Rightarrow> SfManager \<Rightarrow> (nat \<Rightarrow> nat) \<Rightarrow> bool" where
  "disciplined [] m ext \<longleftrightarrow> True"
| "disciplined (c # cs) m ext \<longleftrightarrow> (\<forall>i. c = Release i RES_LEASE \<longrightarrow> 0 < ext i) \<and>
     disciplined cs (snd (mgr_do c m)) (client_leases c (fst (mgr_do c m)) ext)"

lemma mgr_do_step:
  assumes "\<forall>i. c = Release i RES_LEASE \<longrightarrow> 0 < ext i"
  shows "mgr_step\<^sup>=\<^sup>= (m, ext) (snd (mgr_do c m), client_leases c (fst (mgr_do c m)) ext)"
proof (cases c)
  case (Acquire i r)
  obtain v m' where a: "sfmod_acquire m i r = (v, m')" by fastforce
  show ?thesis
  proof (cases v)
    case (Inr u)
    then show ?thesis using a mgr_step.acquire[of m i r m' ext] by (simp add: Acquire isOk_def)
  next
    case (Inl e)
    then show ?thesis using a mgr_step.acquire_refused[of m i r e m' ext] by (simp add: Acquire isOk_def)
  qed
next
  case (Release i r)
  obtain v m' where a: "sfmod_release m i r = (v, m')" by fastforce
  show ?thesis
  proof (cases "r = RES_LEASE")
    case True
    show ?thesis
    proof (cases v)
      case (Inr u)
      then show ?thesis using a True assms mgr_step.release_lease[of m i m' ext] by (simp add: Release isOk_def)
    next
      case (Inl e)
      then show ?thesis using a refused_unchanged(2)[of m i r e m'] by (simp add: Release isOk_def)
    qed
  next
    case False
    then show ?thesis using a mgr_step.release[of m i r v m' ext] by (simp add: Release)
  qed
next
  case (Add name deps pinned)
  then show ?thesis using mgr_step.add[OF prod.collapse[symmetric]] by simp
next
  case (Start i)
  then show ?thesis using mgr_step.start[OF prod.collapse[symmetric]] by simp
next
  case (Prepare i)
  then show ?thesis using mgr_step.prepare[OF prod.collapse[symmetric]] by simp
next
  case (Cancel i)
  then show ?thesis using mgr_step.cancel[OF prod.collapse[symmetric]] by simp
next
  case (Stop i)
  then show ?thesis using mgr_step.stop[OF prod.collapse[symmetric]] by simp
next
  case (Unload i)
  then show ?thesis using mgr_step.unload[OF prod.collapse[symmetric]] by simp
qed

lemma mgr_run_inv: "mgr_inv (m, ext) \<Longrightarrow> disciplined cs m ext \<Longrightarrow> \<exists>ext'. mgr_inv (mgr_run cs m, ext')"
proof (induction cs arbitrary: m ext)
  case (Cons c cs)
  let ?s = "(snd (mgr_do c m), client_leases c (fst (mgr_do c m)) ext)"
  have "mgr_inv ?s" using mgr_do_step[of c ext m] Cons.prems mgr.step_invar[of "(m, ext)" ?s] by auto
  then show ?case using Cons.IH[of "snd (mgr_do c m)"] Cons.prems(2) by simp
qed auto

lemma run_zero_inv: "disciplined cs zero_manager (\<lambda>_. 0) \<Longrightarrow> \<exists>ext. mgr_inv (mgr_run cs zero_manager, ext)"
  by (rule mgr_run_inv[OF mgr.start_invar]) (simp_all add: mgr_start_def)

section \<open>A concrete sequence\<close>

text \<open>A provider and a consumer that depends on it are registered and started; then the
  consumer is drained.\<close>

definition demo_calls :: "mgr_call list" where
  "demo_calls = [Add [65] 0 0, Start 0, Add [66] 1 0, Start 1]"

lemma bit_1_0: "bit (1::u32) n \<longleftrightarrow> n = 0" by (simp add: bit_1_iff)

lemmas mgr_eval = sfmod_start_def sfmod_add_def zero_manager_def zero_module_def first_index_def upt_rec free_slot_def
  registered_def Let_def live_def isOk_def sfmod_prepare_def sfmod_release_def sfmod_stop_def RES_COUNT_def RES_LEASE_def

section \<open>Correctness of the life cycle\<close>

text \<open>C1: after any sequence of calls, successful or not, by clients that release only leases they
  acquired, a running or draining module's dependencies are other modules that are themselves
  running or draining, in exactly the registration the module was linked against; none of
  them can be stopped or unloaded.\<close>

theorem providers_stay_live:
  assumes "disciplined cs zero_manager (\<lambda>_. 0)" "m = mgr_run cs zero_manager" "i < 16" "live (mg_modules m i)"
    and "bit (md_dependencies (mg_modules m i)) j"
  shows "j < 16 \<and> j \<noteq> i \<and> live (mg_modules m j) \<and>
    md_generation (mg_modules m j) = md_dependency_generations (mg_modules m i) j \<and>
    fst (sfmod_stop m j) \<noteq> Ok () \<and> fst (sfmod_unload m j) \<noteq> Ok ()"
proof -
  obtain ext where inv: "mgr_inv (m, ext)" using run_zero_inv[OF assms(1)] assms(2) by blast
  note dep = mgr_inv_dep[OF inv assms(3-5)]
  have "first_index (\<lambda>r. md_resources (mg_modules m j) r \<noteq> 0) RES_COUNT \<noteq> None"
    using dep(8) by (auto simp: first_index_None intro!: exI[of _ RES_LEASE])
  then have "fst (sfmod_stop m j) \<noteq> Ok ()" by (auto simp: sfmod_stop_def Let_def)
  moreover have "fst (sfmod_unload m j) \<noteq> Ok ()"
    using dep(3) by (auto simp: sfmod_unload_def live_def)
  ultimately show ?thesis using dep by blast
qed

lemma demo_state:
  "disciplined demo_calls zero_manager (\<lambda>_. 0)" "disciplined (demo_calls @ [Prepare 1]) zero_manager (\<lambda>_. 0)"
  "live (mg_modules (mgr_run demo_calls zero_manager) 1)"
  "bit (md_dependencies (mg_modules (mgr_run demo_calls zero_manager) 1)) 0"
  by (simp_all add: demo_calls_def mgr_eval)

theorem providers_stay_live_witness:
  "live (mg_modules (mgr_run demo_calls zero_manager) 0) \<and>
   fst (sfmod_stop (mgr_run demo_calls zero_manager) 0) \<noteq> Ok () \<and> fst (sfmod_unload (mgr_run demo_calls zero_manager) 0) \<noteq> Ok ()"
  using providers_stay_live[OF demo_state(1) refl _ demo_state(3,4)] by simp

text \<open>C2: after any sequence of calls by clients that release only leases they acquired, stopping a
  module succeeds exactly when the module is draining and its ledger is empty: the lease
  bookkeeping of its dependencies never blocks an orderly shutdown.\<close>

theorem stop_succeeds_iff_drained:
  assumes "disciplined cs zero_manager (\<lambda>_. 0)" "m = mgr_run cs zero_manager"
  shows "fst (sfmod_stop m i) = Ok () \<longleftrightarrow> i < 16 \<and> md_state (mg_modules m i) = MOD_DRAINING \<and>
    (\<forall>r<RES_COUNT. md_resources (mg_modules m i) r = 0)"
proof -
  obtain ext where inv: "mgr_inv (m, ext)" using run_zero_inv[OF assms(1)] assms(2) by blast
  have "drop_bit 16 (md_dependencies (mg_modules m i)) = 0 \<and> stop_check m i [0..<16] = None"
    if i: "i < 16" "md_state (mg_modules m i) = MOD_DRAINING"
  proof -
    have l: "live (mg_modules m i)" using i by (simp add: live_def)
    have "stop_check m i [0..<16] = None"
      using mgr_inv_dep[OF inv i(1) l] unfolding stop_check_None by blast
    moreover have "drop_bit 16 (md_dependencies (mg_modules m i)) = 0"
      using inv l i(1) by (simp add: mgr_inv_def mgr_deps_def)
    ultimately show ?thesis by simp
  qed
  then show ?thesis
    by (auto simp: sfmod_stop_def Let_def first_index_None split: option.splits dest: first_index_SomeD)
qed

lemma demo_drained:
  "md_state (mg_modules (mgr_run (demo_calls @ [Prepare 1]) zero_manager) 1) = MOD_DRAINING"
  "r < RES_COUNT \<Longrightarrow> md_resources (mg_modules (mgr_run (demo_calls @ [Prepare 1]) zero_manager) 1) r = 0"
  by (simp_all add: demo_calls_def mgr_eval)

theorem stop_succeeds_iff_drained_witness:
  "fst (sfmod_stop (mgr_run (demo_calls @ [Prepare 1]) zero_manager) 1) = Ok () \<and>
   fst (sfmod_stop (mgr_run demo_calls zero_manager) 1) \<noteq> Ok ()"
  using stop_succeeds_iff_drained[OF demo_state(2) refl, of 1] stop_succeeds_iff_drained[OF demo_state(1) refl, of 1]
    demo_drained by (simp add: demo_calls_def mgr_eval)


end
