(* ===== verification/SF_Cycle.thy ===== *)
theory SF_Cycle
  imports SF_Prelude
begin

text \<open>
  The dependency cycle check of \<^verbatim>\<open>services/manager.c\<close> (\<^verbatim>\<open>visit\<close>, \<^verbatim>\<open>sfmod_cycle\<close>): a
  depth-first search with three colours that writes the path it is on into a
  caller's character buffer.  The recursion carries fuel; \<open>n + 1\<close> is enough because
  every nested call turns a white node grey.
\<close>

fun visit :: "nat \<Rightarrow> (nat \<Rightarrow> u32) \<Rightarrow> nat \<Rightarrow> nat \<Rightarrow> (nat \<Rightarrow> nat) \<Rightarrow> bytes \<Rightarrow> nat
    \<Rightarrow> (bool \<times> (nat \<Rightarrow> nat) \<times> bytes) option"
  and visit_deps :: "nat \<Rightarrow> (nat \<Rightarrow> u32) \<Rightarrow> nat \<Rightarrow> nat \<Rightarrow> nat list \<Rightarrow> (nat \<Rightarrow> nat) \<Rightarrow> bytes \<Rightarrow> nat
    \<Rightarrow> (bool \<times> (nat \<Rightarrow> nat) \<times> bytes) option" where
  "visit 0 deps n i marks chain depth = None"
| "visit (Suc fuel) deps n i marks chain depth =
     (let size = length chain in
      if marks i = 1 then
        Some (True, marks,
          if depth + 2 < size then chain[depth := 65 + of_nat i, depth + 1 := 0] else chain)
      else if marks i = 2 then Some (False, marks, chain)
      else let marks = marks(i := 1) in
        if depth + 2 \<ge> size then Some (True, marks, chain)
        else let chain = chain[depth := 65 + of_nat i, depth + 1 := 62, depth + 2 := 0] in
          case visit_deps fuel deps n i [0..<n] marks chain depth of
            None \<Rightarrow> None
          | Some (found, marks, chain) \<Rightarrow>
              if found then Some (True, marks, chain)
              else Some (False, marks(i := 2), chain[depth := 0]))"
| "visit_deps fuel deps n i [] marks chain depth = Some (False, marks, chain)"
| "visit_deps fuel deps n i (j # js) marks chain depth =
     (if bit (deps i) j then
        (case visit fuel deps n j marks chain (depth + 2) of
           None \<Rightarrow> None
         | Some (found, marks, chain) \<Rightarrow>
             if found then Some (True, marks, chain)
             else visit_deps fuel deps n i js marks chain depth)
      else visit_deps fuel deps n i js marks chain depth)"

fun cycle_loop :: "(nat \<Rightarrow> u32) \<Rightarrow> nat \<Rightarrow> nat list \<Rightarrow> (nat \<Rightarrow> nat) \<Rightarrow> bytes \<Rightarrow> (unit res \<times> bytes) option" where
  "cycle_loop deps n [] marks chain = Some (Ok (), chain[0 := 0])"
| "cycle_loop deps n (i # is) marks chain =
     (if drop_bit n (deps i) \<noteq> 0 then Some (Err SF_DEPENDENCY, chain)
      else case visit (n + 1) deps n i marks chain 0 of
        None \<Rightarrow> None
      | Some (found, marks, chain) \<Rightarrow>
          if found then Some (Err SF_DEPENDENCY, chain) else cycle_loop deps n is marks chain)"

definition sfmod_cycle :: "(nat \<Rightarrow> u32) \<Rightarrow> nat \<Rightarrow> bytes \<Rightarrow> (unit res \<times> bytes) option" where
  "sfmod_cycle deps n chain =
     (if n > 16 \<or> length chain < 4 then Some (Err SF_INVALID, chain)
      else cycle_loop deps n [0..<n] (\<lambda>_. 0) chain)"

definition dep_edges :: "(nat \<Rightarrow> u32) \<Rightarrow> nat \<Rightarrow> (nat \<times> nat) set" where
  "dep_edges deps n = {(i, j). i < n \<and> j < n \<and> bit (deps i) j}"

text \<open>Finished nodes: closed under dependencies and on no cycle.\<close>

definition black_ok :: "(nat \<Rightarrow> u32) \<Rightarrow> nat \<Rightarrow> (nat \<Rightarrow> nat) \<Rightarrow> bool" where
  "black_ok deps n marks \<longleftrightarrow> (\<forall>b<n. marks b = 2 \<longrightarrow>
     (\<forall>j. (b, j) \<in> dep_edges deps n \<longrightarrow> marks j = 2) \<and> (b, b) \<notin> (dep_edges deps n)\<^sup>+)"

definition greys :: "nat \<Rightarrow> (nat \<Rightarrow> nat) \<Rightarrow> nat set" where
  "greys n marks = {g. g < n \<and> marks g = 1}"

definition whites :: "nat \<Rightarrow> (nat \<Rightarrow> nat) \<Rightarrow> nat set" where
  "whites n marks = {w. w < n \<and> marks w \<noteq> 1 \<and> marks w \<noteq> 2}"

text \<open>What a completed visit leaves behind.\<close>

definition advanced :: "(nat \<Rightarrow> u32) \<Rightarrow> nat \<Rightarrow> (nat \<Rightarrow> nat) \<Rightarrow> (nat \<Rightarrow> nat) \<Rightarrow> bool" where
  "advanced deps n marks marks' \<longleftrightarrow> black_ok deps n marks' \<and>
     (\<forall>k<n. (marks' k = 1 \<longleftrightarrow> marks k = 1) \<and> (marks k = 2 \<longrightarrow> marks' k = 2))"

lemma finite_colours [simp]: "finite (greys n marks)" "finite (whites n marks)"
  by (simp_all add: greys_def whites_def)

lemma advanced_greys: "advanced deps n marks marks' \<Longrightarrow> greys n marks' = greys n marks"
  by (auto simp: advanced_def greys_def)

lemma advanced_whites: "advanced deps n marks marks' \<Longrightarrow> whites n marks' \<subseteq> whites n marks"
  by (auto simp: advanced_def whites_def)

lemma advanced_trans:
  "advanced deps n m1 m2 \<Longrightarrow> advanced deps n m2 m3 \<Longrightarrow> advanced deps n m1 m3"
  by (simp add: advanced_def)

lemma black_reach:
  assumes "black_ok deps n marks" "(a, b) \<in> (dep_edges deps n)\<^sup>*" "marks a = 2" "a < n"
  shows "marks b = 2"
proof -
  from assms(2,3,4) have "marks b = 2 \<and> b < n"
  proof (induction rule: rtrancl_induct)
    case (step y z)
    then show ?case using assms(1) by (auto simp: black_ok_def dep_edges_def)
  qed auto
  then show ?thesis ..
qed

lemma blacken:
  assumes b: "black_ok deps n marks" and i: "i < n" "marks i = 1"
    and succ: "\<forall>j<n. bit (deps i) j \<longrightarrow> marks j = 2"
  shows "black_ok deps n (marks(i := 2))"
proof -
  have "(i, i) \<notin> (dep_edges deps n)\<^sup>+"
  proof
    assume "(i, i) \<in> (dep_edges deps n)\<^sup>+"
    then obtain j where j: "(i, j) \<in> dep_edges deps n" "(j, i) \<in> (dep_edges deps n)\<^sup>*"
      by (blast dest: tranclD)
    then have "marks j = 2" "j < n" using succ by (simp_all add: dep_edges_def)
    then have "marks i = 2" using black_reach[OF b j(2)] by simp
    then show False using i by simp
  qed
  moreover have "\<forall>j. (b, j) \<in> dep_edges deps n \<longrightarrow> marks j = 2" if "b = i \<or> marks b = 2" "b < n" for b
    using that b succ by (cases "b = i") (simp add: dep_edges_def, simp add: black_ok_def)
  moreover have "(b, b) \<notin> (dep_edges deps n)\<^sup>+" if "marks b = 2" "b < n" for b
    using that b unfolding black_ok_def by blast
  ultimately show ?thesis unfolding black_ok_def fun_upd_apply by metis
qed

lemma black_ok_grey:
  assumes "black_ok deps n marks" "marks i \<noteq> 2"
  shows "black_ok deps n (marks(i := 1))"
  unfolding black_ok_def
proof (intro allI impI)
  fix b assume b: "b < n" "(marks(i := 1)) b = 2"
  then have "b \<noteq> i" by auto
  with b have "marks b = 2" by simp
  then have "(\<forall>j. (b, j) \<in> dep_edges deps n \<longrightarrow> marks j = 2) \<and> (b, b) \<notin> (dep_edges deps n)\<^sup>+"
    using assms(1) b(1) by (simp add: black_ok_def)
  then show "(\<forall>j. (b, j) \<in> dep_edges deps n \<longrightarrow> (marks(i := 1)) j = 2) \<and> (b, b) \<notin> (dep_edges deps n)\<^sup>+"
    using assms(2) by fastforce
qed

lemma white_greys:
  assumes "i \<in> whites n marks"
  shows "card (greys n (marks(i := 1))) = Suc (card (greys n marks))"
    "card (whites n (marks(i := 1))) < card (whites n marks)"
    "card (greys n marks) < n"
proof -
  have g: "greys n (marks(i := 1)) = insert i (greys n marks)" "i \<notin> greys n marks"
    using assms by (auto simp: greys_def whites_def)
  then show "card (greys n (marks(i := 1))) = Suc (card (greys n marks))" by simp
  have w: "whites n (marks(i := 1)) = whites n marks - {i}"
    by (auto simp: whites_def)
  show "card (whites n (marks(i := 1))) < card (whites n marks)"
    unfolding w using assms by (intro psubset_card_mono) auto
  have "greys n marks \<subset> {..<n}" using assms by (auto simp: greys_def whites_def)
  then show "card (greys n marks) < n" using psubset_card_mono[of "{..<n}" "greys n marks"] by simp
qed

text \<open>The outcome of a visit: a cycle, a buffer that may be too short for the path, or progress
  that finishes the nodes of \<open>D\<close>.\<close>

inductive visit_ok :: "(nat \<Rightarrow> u32) \<Rightarrow> nat \<Rightarrow> (nat \<Rightarrow> nat) \<Rightarrow> bytes \<Rightarrow> nat set \<Rightarrow>
    (bool \<times> (nat \<Rightarrow> nat) \<times> bytes) option \<Rightarrow> bool"
  for deps n marks chain D where
  found: "\<not> acyclic (dep_edges deps n) \<or> length chain \<le> 2 * n \<Longrightarrow> length chain' = length chain \<Longrightarrow>
    visit_ok deps n marks chain D (Some (True, marks', chain'))"
| finished: "advanced deps n marks marks' \<Longrightarrow> \<forall>j\<in>D. marks' j = 2 \<Longrightarrow> length chain' = length chain \<Longrightarrow>
    visit_ok deps n marks chain D (Some (False, marks', chain'))"

lemma visit_correct:
  "i < n \<Longrightarrow> black_ok deps n marks \<Longrightarrow> card (whites n marks) < fuel \<Longrightarrow>
   depth = 2 * card (greys n marks) \<Longrightarrow>
   \<forall>g\<in>greys n marks. (g, i) \<in> (dep_edges deps n)\<^sup>+ \<Longrightarrow>
   visit_ok deps n marks chain {i} (visit fuel deps n i marks chain depth)"
  "i < n \<Longrightarrow> black_ok deps n marks \<Longrightarrow> card (whites n marks) < fuel \<Longrightarrow>
   depth + 2 = 2 * card (greys n marks) \<Longrightarrow> marks i = 1 \<Longrightarrow>
   \<forall>g\<in>greys n marks. (g, i) \<in> (dep_edges deps n)\<^sup>* \<Longrightarrow> set js \<subseteq> {..<n} \<Longrightarrow>
   visit_ok deps n marks chain {j\<in>set js. bit (deps i) j} (visit_deps fuel deps n i js marks chain depth)"
proof (induction fuel deps n i marks chain depth and fuel deps n i js marks chain depth
    rule: visit_visit_deps.induct)
  case (1 deps n i marks chain depth)
  then show ?case by simp
next
  case (2 fuel deps n i marks chain depth)
  consider (grey) "marks i = 1" | (black) "marks i = 2" | (white) "i \<in> whites n marks"
    using "2.prems"(1) by (auto simp: whites_def)
  then show ?case
  proof cases
    case grey
    then have "i \<in> greys n marks" using "2.prems"(1) by (simp add: greys_def)
    then have "\<not> acyclic (dep_edges deps n)" using "2.prems"(5) unfolding acyclic_def by blast
    then show ?thesis using grey by (simp add: Let_def visit_ok.found)
  next
    case black
    then have "advanced deps n marks marks" using "2.prems"(2) by (simp add: advanced_def)
    then show ?thesis using black by (simp add: Let_def visit_ok.finished)
  next
    case white
    let ?m = "marks(i := 1)" and ?c = "chain[depth := 65 + of_nat i, depth + 1 := 62, depth + 2 := 0]"
    have nm: "marks i \<noteq> 1" "marks i \<noteq> 2" using white by (auto simp: whites_def)
    note w = white_greys[OF white]
    show ?thesis
    proof (cases "length chain \<le> depth + 2")
      case True
      then have "length chain \<le> 2 * n" using w(3) "2.prems"(4) by simp
      then show ?thesis using True nm by (simp add: Let_def visit_ok.found)
    next
      case size: False
      have "visit_ok deps n ?m ?c {j\<in>set [0..<n]. bit (deps i) j} (visit_deps fuel deps n i [0..<n] ?m ?c depth)"
      proof (rule "2.IH"[OF refl nm refl size refl "2.prems"(1) black_ok_grey[OF "2.prems"(2) nm(2)]])
        show "card (whites n ?m) < fuel" using w(2) "2.prems"(3) by linarith
        show "depth + 2 = 2 * card (greys n ?m)" using w(1) "2.prems"(4) by linarith
        show "?m i = 1" by simp
        show "\<forall>g\<in>greys n ?m. (g, i) \<in> (dep_edges deps n)\<^sup>*"
          using "2.prems"(5) by (auto simp: greys_def intro: trancl_into_rtrancl)
        show "set [0..<n] \<subseteq> {..<n}" by auto
      qed
      then show ?thesis
      proof cases
        case (found chain' marks')
        then show ?thesis using nm size by (simp add: Let_def visit_ok.found)
      next
        case (finished m' chain')
        have "m' i = 1" "black_ok deps n m'" "\<forall>j<n. bit (deps i) j \<longrightarrow> m' j = 2"
          using finished(2,3) "2.prems"(1) by (simp_all add: advanced_def)
        then have "black_ok deps n (m'(i := 2))" using blacken "2.prems"(1) by blast
        then have "advanced deps n marks (m'(i := 2))" using finished(2) nm
          by (simp add: advanced_def)
        then have "visit_ok deps n marks chain {i} (Some (False, m'(i := 2), chain'[depth := 0]))"
          by (rule visit_ok.finished) (use finished(4) in simp_all)
        then show ?thesis using finished(1) nm size by (simp add: Let_def del: fun_upd_apply)
      qed
    qed
  qed
next
  case (3 fuel deps n i marks chain depth)
  then show ?case by (simp add: visit_ok.finished advanced_def)
next
  case (4 fuel deps n i j js marks chain depth)
  show ?case
  proof (cases "bit (deps i) j")
    case False
    then have "{k \<in> set (j # js). bit (deps i) k} = {k \<in> set js. bit (deps i) k}" by auto
    then show ?thesis using "4.IH"(3)[OF False] "4.prems" False by simp
  next
    case True
    have e: "(i, j) \<in> dep_edges deps n" using True "4.prems"(1,7) by (simp add: dep_edges_def)
    have "visit_ok deps n marks chain {j} (visit fuel deps n j marks chain (depth + 2))"
    proof (rule "4.IH"(1)[OF True _ "4.prems"(2,3,4)])
      show "j < n" using "4.prems"(7) by simp
      show "\<forall>g\<in>greys n marks. (g, j) \<in> (dep_edges deps n)\<^sup>+"
        using "4.prems"(6) e by (blast intro: rtrancl_into_trancl1)
    qed
    then show ?thesis
    proof cases
      case (found chain' marks')
      then show ?thesis using True by (simp add: visit_ok.found)
    next
      case (finished m' c')
      note adv = finished(2)
      have "visit_ok deps n m' c' {k\<in>set js. bit (deps i) k} (visit_deps fuel deps n i js m' c' depth)"
      proof (rule "4.IH"(2)[OF True finished(1) refl refl])
        show "card (whites n m') < fuel"
          using card_mono[OF finite_colours(2) advanced_whites[OF adv]] "4.prems"(3) by (rule le_less_trans)
        show "m' i = 1" "black_ok deps n m'" using adv "4.prems"(1,5) unfolding advanced_def by auto
        show "set js \<subseteq> {..<n}" using "4.prems"(7) by simp
        show "depth + 2 = 2 * card (greys n m')" "\<forall>g\<in>greys n m'. (g, i) \<in> (dep_edges deps n)\<^sup>*"
          using "4.prems"(4,6) by (simp_all only: advanced_greys[OF adv])
      qed (use "4.prems"(1) in simp_all)
      then show ?thesis
      proof cases
        case f2: (found chain' marks')
        then show ?thesis using True finished(1,4) by (simp add: visit_ok.found)
      next
        case f2: (finished m2 c2)
        have "m2 j = 2" using f2(2) finished(3) "4.prems"(7) unfolding advanced_def by auto
        then have "visit_ok deps n marks chain {k \<in> set (j # js). bit (deps i) k} (Some (False, m2, c2))"
          using f2(3,4) finished(4) by (intro visit_ok.finished[OF advanced_trans[OF adv f2(2)]]) auto
        then show ?thesis using True finished(1) f2(1) by simp
      qed
    qed
  qed
qed


lemma cycle_loop_correct:
  "set js \<subseteq> {..<n} \<Longrightarrow> black_ok deps n marks \<Longrightarrow> greys n marks = {} \<Longrightarrow>
   \<exists>r chain'. cycle_loop deps n js marks chain = Some (r, chain') \<and>
     (r = Ok () \<and> (\<forall>i\<in>set js. drop_bit n (deps i) = 0 \<and> (i, i) \<notin> (dep_edges deps n)\<^sup>+) \<or>
      r = Err SF_DEPENDENCY \<and> ((\<exists>i\<in>set js. drop_bit n (deps i) \<noteq> 0) \<or> \<not> acyclic (dep_edges deps n) \<or> length chain \<le> 2 * n))"
proof (induction deps n js marks chain rule: cycle_loop.induct)
  case (1 deps n marks chain)
  then show ?case by simp
next
  case (2 deps n i js marks chain)
  show ?case
  proof (cases "drop_bit n (deps i) = 0")
    case True
    have "whites n marks \<subseteq> {..<n}" by (auto simp: whites_def)
    then have "card (whites n marks) < n + 1" using card_mono[of "{..<n}" "whites n marks"] by simp
    then have "visit_ok deps n marks chain {i} (visit (n + 1) deps n i marks chain 0)"
      using "2.prems" by (intro visit_correct(1)) simp_all
    then show ?thesis
    proof cases
      case (found chain' marks')
      then show ?thesis using True by auto
    next
      case (finished m' c')
      have "black_ok deps n m'" using finished(2) by (simp add: advanced_def)
      moreover have "i < n" "m' i = 2" using finished(3) "2.prems"(1) by simp_all
      ultimately have c: "(i, i) \<notin> (dep_edges deps n)\<^sup>+" unfolding black_ok_def by blast
      have "greys n m' = {}" using advanced_greys[OF finished(2)] "2.prems"(3) by simp
      note ih = "2.IH"[of "(False, m', c')" False "(m', c')" m' c', OF _ finished(1) refl refl _ _ \<open>black_ok deps n m'\<close> this]
      then obtain r chain' where "cycle_loop deps n js m' c' = Some (r, chain')"
        "r = Ok () \<and> (\<forall>i\<in>set js. drop_bit n (deps i) = 0 \<and> (i, i) \<notin> (dep_edges deps n)\<^sup>+) \<or>
         r = Err SF_DEPENDENCY \<and> ((\<exists>i\<in>set js. drop_bit n (deps i) \<noteq> 0) \<or> \<not> acyclic (dep_edges deps n) \<or> length c' \<le> 2 * n)"
        using ih True "2.prems"(1) by auto
      then show ?thesis using finished(1,4) True c by (intro exI[of _ r] exI[of _ chain']) auto
    qed
  qed auto
qed

text \<open>C3: the cycle check returns for every matrix and every buffer.  More than sixteen modules
  or a buffer below four bytes are \<open>SF_INVALID\<close>.  Otherwise it succeeds only on matrices that
  name existing modules and have no cycle, and answers \<open>SF_DEPENDENCY\<close> else; when the buffer
  has more than two bytes per module it succeeds on all of those matrices.  A shorter buffer
  can make it refuse an acyclic matrix.\<close>

theorem cycle_check_correct:
  "\<exists>r chain'. sfmod_cycle deps n chain = Some (r, chain') \<and>
     (if n > 16 \<or> length chain < 4 then r = Err SF_INVALID
      else (r = Ok () \<or> r = Err SF_DEPENDENCY) \<and>
        (r = Ok () \<longrightarrow> (\<forall>i<n. drop_bit n (deps i) = 0) \<and> acyclic (dep_edges deps n)) \<and>
        ((\<forall>i<n. drop_bit n (deps i) = 0) \<and> acyclic (dep_edges deps n) \<and> 2 * n < length chain \<longrightarrow> r = Ok ()))"
proof (cases "n > 16 \<or> length chain < 4")
  case False
  have on: "acyclic (dep_edges deps n) \<longleftrightarrow> (\<forall>i<n. (i, i) \<notin> (dep_edges deps n)\<^sup>+)"
    unfolding acyclic_def dep_edges_def by (auto dest: tranclD)
  have "black_ok deps n (\<lambda>_. 0)" "greys n (\<lambda>_. 0) = {}" by (simp_all add: black_ok_def greys_def)
  then obtain r chain' where c: "cycle_loop deps n [0..<n] (\<lambda>_. 0) chain = Some (r, chain')"
    and r: "r = Ok () \<and> (\<forall>i\<in>set [0..<n]. drop_bit n (deps i) = 0 \<and> (i, i) \<notin> (dep_edges deps n)\<^sup>+) \<or>
      r = Err SF_DEPENDENCY \<and> ((\<exists>i\<in>set [0..<n]. drop_bit n (deps i) \<noteq> 0) \<or> \<not> acyclic (dep_edges deps n) \<or> length chain \<le> 2 * n)"
    using cycle_loop_correct[of "[0..<n]" n deps "\<lambda>_. 0" chain] by (metis atLeast_upt order_refl)
  have "sfmod_cycle deps n chain = Some (r, chain')" using False c by (simp add: sfmod_cycle_def)
  then show ?thesis using False r by (intro exI[of _ r] exI[of _ chain']) (auto simp: on)
qed (simp add: sfmod_cycle_def)

text \<open>A chain of three modules, which is accepted with eight bytes and refused with four.\<close>

lemma short_buffer_refuses:
  "map_option fst (sfmod_cycle (\<lambda>i. if i = 0 then 2 else if i = 1 then 4 else 0) 3 (replicate 4 0)) = Some (Err SF_DEPENDENCY)"
  by code_simp

lemma demo_chain_acyclic: "acyclic (dep_edges (\<lambda>i. if i = 0 then 2 else if i = 1 then 4 else 0) 3)"
proof (rule acyclicI, safe)
  fix x assume "(x, x) \<in> (dep_edges (\<lambda>i. if i = 0 then 2 else if i = 1 then 4 else 0) 3)\<^sup>+"
  then have "x < x"
    by (rule trancl_induct) (auto simp: dep_edges_def bit_iff_odd numeral_3_eq_3 less_Suc_eq split: if_splits)
  then show False by simp
qed

theorem cycle_check_correct_witness:
  "\<exists>chain'. sfmod_cycle (\<lambda>i. if i = 0 then 2 else if i = 1 then 4 else 0) 3 (replicate 8 0) = Some (Ok (), chain')"
  using cycle_check_correct[of "\<lambda>i. if i = 0 then 2 else if i = 1 then 4 else 0" 3 "replicate 8 0"] demo_chain_acyclic
  by (auto simp: numeral_3_eq_3 less_Suc_eq drop_bit_eq_div)

end
