(* ===== verification/SF_Supervisor.thy ===== *)
theory SF_Supervisor
  imports SF_Prelude
begin

text \<open>
  The restart supervisor (\<^verbatim>\<open>services/supervisor.c\<close>): a bounded number of restart
  attempts with a waiting time, and a fresh budget after a stable run.
\<close>

section \<open>State and operations\<close>

datatype sup_state = SF_SUP_STOPPED | SF_SUP_WAITING | SF_SUP_STARTING | SF_SUP_RUNNING | SF_SUP_BLOCKED

record SfSupervisor =
  su_retry_ticks :: u64
  su_stable_ticks :: u64
  su_next_tick :: u64
  su_running_since :: u64
  su_max_attempts :: u32
  su_attempts :: u32
  su_state :: sup_state

definition sf_supervisor_init :: "u32 \<Rightarrow> u64 \<Rightarrow> u64 \<Rightarrow> SfSupervisor res" where
  "sf_supervisor_init attempts retry stable_time =
     (if attempts = 0 \<or> attempts > 16 \<or> retry = 0 \<or> stable_time = 0 then Err SF_INVALID
      else Ok \<lparr>su_retry_ticks = retry, su_stable_ticks = stable_time, su_next_tick = 0,
               su_running_since = 0, su_max_attempts = attempts, su_attempts = 0,
               su_state = SF_SUP_STOPPED\<rparr>)"

definition sf_supervisor_enable :: "SfSupervisor \<Rightarrow> u64 \<Rightarrow> bool \<Rightarrow> SfSupervisor" where
  "sf_supervisor_enable p now running =
     p\<lparr>su_attempts := 0, su_state := (if running then SF_SUP_RUNNING else SF_SUP_WAITING),
       su_running_since := now, su_next_tick := now\<rparr>"

definition sf_supervisor_disable :: "SfSupervisor \<Rightarrow> SfSupervisor" where
  "sf_supervisor_disable p =
     p\<lparr>su_state := SF_SUP_STOPPED, su_attempts := 0, su_next_tick := 0, su_running_since := 0\<rparr>"

text \<open>A run that lasted at least \<open>stable_ticks\<close>.\<close>

definition stable_run :: "SfSupervisor \<Rightarrow> u64 \<Rightarrow> bool" where
  "stable_run p now \<longleftrightarrow> su_state p = SF_SUP_RUNNING \<and> now \<ge> su_running_since p \<and>
     now - su_running_since p \<ge> su_stable_ticks p"

definition sf_supervisor_failure :: "SfSupervisor \<Rightarrow> u64 \<Rightarrow> unit res \<times> SfSupervisor" where
  "sf_supervisor_failure p now =
     (if su_state p \<noteq> SF_SUP_RUNNING \<and> su_state p \<noteq> SF_SUP_STARTING then (Err SF_INVALID, p)
      else let p = (if stable_run p now then p\<lparr>su_attempts := 0\<rparr> else p) in
        if su_attempts p \<ge> su_max_attempts p
        then (Ok (), p\<lparr>su_state := SF_SUP_BLOCKED, su_next_tick := 0\<rparr>)
        else (Ok (), p\<lparr>su_state := SF_SUP_WAITING,
                su_next_tick := (if su_retry_ticks p > -1 - now then -1 else now + su_retry_ticks p)\<rparr>))"

definition sf_supervisor_begin :: "SfSupervisor \<Rightarrow> u64 \<Rightarrow> unit res \<times> SfSupervisor" where
  "sf_supervisor_begin p now =
     (if su_state p \<noteq> SF_SUP_WAITING \<or> su_attempts p \<ge> su_max_attempts p then (Err SF_INVALID, p)
      else if now < su_next_tick p then (Err SF_WOULD_BLOCK, p)
      else (Ok (), p\<lparr>su_attempts := su_attempts p + 1, su_state := SF_SUP_STARTING\<rparr>))"

definition sf_supervisor_started :: "SfSupervisor \<Rightarrow> u64 \<Rightarrow> unit res \<times> SfSupervisor" where
  "sf_supervisor_started p now =
     (if su_state p \<noteq> SF_SUP_STARTING then (Err SF_INVALID, p)
      else (Ok (), p\<lparr>su_state := SF_SUP_RUNNING, su_running_since := now\<rparr>))"

section \<open>Runs\<close>

datatype sup_event = Enable u64 bool | Disable | Failure u64 | Begin u64 | Started u64

primrec sup_apply :: "sup_event \<Rightarrow> SfSupervisor \<Rightarrow> unit res \<times> SfSupervisor" where
  "sup_apply (Enable now running) p = (Ok (), sf_supervisor_enable p now running)"
| "sup_apply Disable p = (Ok (), sf_supervisor_disable p)"
| "sup_apply (Failure now) p = sf_supervisor_failure p now"
| "sup_apply (Begin now) p = sf_supervisor_begin p now"
| "sup_apply (Started now) p = sf_supervisor_started p now"

primrec sup_run :: "sup_event list \<Rightarrow> SfSupervisor \<Rightarrow> SfSupervisor" where
  "sup_run [] p = p"
| "sup_run (e # es) p = sup_run es (snd (sup_apply e p))"

text \<open>A successful restart, and the events that grant a fresh budget: an enable, a disable and a
  failure after a stable run.\<close>

fun sup_restart :: "sup_event \<Rightarrow> SfSupervisor \<Rightarrow> nat" where
  "sup_restart (Begin now) p = (if fst (sf_supervisor_begin p now) = Ok () then 1 else 0)"
| "sup_restart e p = 0"

fun sup_reset :: "sup_event \<Rightarrow> SfSupervisor \<Rightarrow> nat" where
  "sup_reset (Enable now running) p = 1"
| "sup_reset Disable p = 1"
| "sup_reset (Failure now) p = (if stable_run p now then 1 else 0)"
| "sup_reset e p = 0"

primrec sup_restarts :: "sup_event list \<Rightarrow> SfSupervisor \<Rightarrow> nat" where
  "sup_restarts [] p = 0"
| "sup_restarts (e # es) p = sup_restart e p + sup_restarts es (snd (sup_apply e p))"

primrec sup_resets :: "sup_event list \<Rightarrow> SfSupervisor \<Rightarrow> nat" where
  "sup_resets [] p = 0"
| "sup_resets (e # es) p = sup_reset e p + sup_resets es (snd (sup_apply e p))"

lemmas supervisor_defs = sf_supervisor_enable_def sf_supervisor_disable_def sf_supervisor_failure_def
  sf_supervisor_begin_def sf_supervisor_started_def

lemma sup_apply_max [simp]: "su_max_attempts (snd (sup_apply e p)) = su_max_attempts p"
  by (cases e) (auto simp: supervisor_defs Let_def)

lemma sup_apply_budget:
  "su_attempts p \<le> su_max_attempts p \<Longrightarrow> su_attempts (snd (sup_apply e p)) \<le> su_max_attempts p"
  using unat_Suc_less[of "su_attempts p" "su_max_attempts p"]
  by (cases e) (auto simp: supervisor_defs Let_def word_le_nat_alt word_less_nat_alt)

lemma sup_apply_attempts:
  "if sup_reset e p = 0 then unat (su_attempts (snd (sup_apply e p))) = unat (su_attempts p) + sup_restart e p
   else sup_reset e p = 1 \<and> sup_restart e p = 0 \<and> su_attempts (snd (sup_apply e p)) = 0"
  using unat_Suc_less[of "su_attempts p" "su_max_attempts p"]
  by (cases e) (auto simp: supervisor_defs stable_run_def Let_def not_le)

text \<open>C9: over every sequence of supervisor calls, enabling and disabling included, the attempt counter
  stays within the limit and the service is restarted at most as often as the budget left
  plus one full budget for each event that renews it: an enable, a disable, or a failure after
  a stable run.  While no such event happens the counter is exactly the number of restarts.\<close>

theorem supervisor_restart_budget:
  assumes "su_attempts p \<le> su_max_attempts p"
  shows "su_attempts (sup_run es p) \<le> su_max_attempts p \<and>
    sup_restarts es p \<le> (unat (su_max_attempts p) - unat (su_attempts p)) + unat (su_max_attempts p) * sup_resets es p \<and>
    (sup_resets es p = 0 \<longrightarrow> unat (su_attempts (sup_run es p)) = unat (su_attempts p) + sup_restarts es p)"
  using assms
proof (induction es arbitrary: p)
  case (Cons e es)
  let ?q = "snd (sup_apply e p)" and ?M = "unat (su_max_attempts p)"
  have b: "su_attempts ?q \<le> su_max_attempts p" using sup_apply_budget[OF Cons.prems] .
  then have n: "unat (su_attempts ?q) \<le> ?M" by (simp add: word_le_nat_alt)
  note ih = Cons.IH[of ?q, unfolded sup_apply_max, OF b]
  note a = sup_apply_attempts[of e p]
  show ?case
  proof (cases "sup_reset e p = 0")
    case True
    then show ?thesis using ih a n by auto
  next
    case False
    then show ?thesis using ih a by (auto simp: algebra_simps)
  qed
qed simp

definition demo_supervisor :: SfSupervisor where
  "demo_supervisor = \<lparr>su_retry_ticks = 5, su_stable_ticks = 100, su_next_tick = 0,
     su_running_since = 0, su_max_attempts = 2, su_attempts = 0, su_state = SF_SUP_RUNNING\<rparr>"

definition demo_crashes :: "sup_event list" where
  "demo_crashes = [Failure 10, Begin 20, Started 21, Failure 22, Begin 30, Failure 31, Begin 99, Enable 100 False, Begin 100]"

theorem supervisor_restart_budget_witness:
  "sup_restarts demo_crashes demo_supervisor = 3 \<and> sup_resets demo_crashes demo_supervisor = 1 \<and>
   (3 :: nat) \<le> (unat (su_max_attempts demo_supervisor) - unat (su_attempts demo_supervisor)) + unat (su_max_attempts demo_supervisor) * 1"
proof -
  have "su_attempts demo_supervisor \<le> su_max_attempts demo_supervisor" by (simp add: demo_supervisor_def)
  moreover have "sup_restarts demo_crashes demo_supervisor = 3" "sup_resets demo_crashes demo_supervisor = 1"
    by code_simp+
  ultimately show ?thesis using supervisor_restart_budget[of demo_supervisor demo_crashes] by simp
qed

text \<open>Calls between two enables.\<close>

definition no_enable :: "sup_event list \<Rightarrow> bool" where
  "no_enable es \<longleftrightarrow> (\<forall>now r. Enable now r \<notin> set es)"

lemma stopped_no_restarts:
  "su_state p = SF_SUP_BLOCKED \<or> su_state p = SF_SUP_STOPPED \<Longrightarrow> no_enable es \<Longrightarrow> sup_restarts es p = 0"
proof (induction es arbitrary: p)
  case (Cons e es)
  have n: "no_enable es" and e: "\<And>now r. e \<noteq> Enable now r" using Cons.prems(2) by (auto simp: no_enable_def)
  have "su_state (snd (sup_apply e p)) = SF_SUP_BLOCKED \<or> su_state (snd (sup_apply e p)) = SF_SUP_STOPPED"
    using Cons.prems(1) e by (cases e) (auto simp: supervisor_defs)
  moreover have "sup_restart e p = 0" using Cons.prems(1) e by (cases e) (auto simp: supervisor_defs)
  ultimately show ?case using Cons.IH n by simp
qed simp

lemma waiting_no_restarts:
  assumes "su_state p = SF_SUP_WAITING" "no_enable es" "\<forall>later. Begin later \<in> set es \<longrightarrow> later < su_next_tick p"
  shows "sup_restarts es p = 0"
  using assms
proof (induction es)
  case (Cons e es)
  have n: "no_enable es" and e: "\<And>now r. e \<noteq> Enable now r" using Cons.prems(2) by (auto simp: no_enable_def)
  show ?case
  proof (cases "e = Disable")
    case True
    then show ?thesis using stopped_no_restarts[OF _ n, of "sf_supervisor_disable p"] by (simp add: supervisor_defs)
  next
    case False
    then have "snd (sup_apply e p) = p \<and> sup_restart e p = 0"
      using Cons.prems(1,3) e by (cases e) (auto simp: supervisor_defs)
    then show ?thesis using Cons n by simp
  qed
qed simp

text \<open>C10: after a failure, until the service is enabled anew, it is either blocked and no sequence of
  calls restarts it, or it waits: it is restarted exactly by an attempt at or after the retry
  time (saturating at the end of the clock), and no sequence of calls whose restart attempts
  all come earlier restarts it.\<close>

theorem supervisor_backoff:
  assumes "sf_supervisor_failure p now = (Ok (), q)"
  shows "if su_state q = SF_SUP_BLOCKED then \<forall>es. no_enable es \<longrightarrow> sup_restarts es q = 0
    else (\<forall>later. fst (sf_supervisor_begin q later) = Ok () \<longleftrightarrow>
        min (unat now + unat (su_retry_ticks p)) (2 ^ 64 - 1) \<le> unat later) \<and>
      (\<forall>es. no_enable es \<longrightarrow>
        (\<forall>later. Begin later \<in> set es \<longrightarrow> unat later < min (unat now + unat (su_retry_ticks p)) (2 ^ 64 - 1)) \<longrightarrow>
        sup_restarts es q = 0)"
proof (cases "su_state q = SF_SUP_BLOCKED")
  case True
  then show ?thesis using stopped_no_restarts by auto
next
  case False
  have q: "su_next_tick q = (if su_retry_ticks p > - 1 - now then - 1 else now + su_retry_ticks p)"
    "su_state q = SF_SUP_WAITING" "su_attempts q < su_max_attempts q"
    using assms False by (auto simp: sf_supervisor_failure_def Let_def not_le split: if_splits)
  have t: "unat (su_next_tick q) = min (unat now + unat (su_retry_ticks p)) (2 ^ 64 - 1)"
    unfolding q(1) unat_saturating_add by simp
  have "fst (sf_supervisor_begin q later) = Ok () \<longleftrightarrow> unat (su_next_tick q) \<le> unat later" for later
    using q(2,3) by (auto simp: sf_supervisor_begin_def not_less not_le word_less_nat_alt)
  moreover have "sup_restarts es q = 0"
    if "no_enable es" "\<forall>later. Begin later \<in> set es \<longrightarrow> unat later < unat (su_next_tick q)" for es
    using waiting_no_restarts[OF q(2) that(1)] that(2) by (simp add: word_less_nat_alt)
  ultimately show ?thesis using False unfolding t by simp
qed

theorem supervisor_backoff_witness:
  "fst (sf_supervisor_begin (snd (sf_supervisor_failure demo_supervisor 10)) 15) = Ok () \<and>
   fst (sf_supervisor_begin (snd (sf_supervisor_failure demo_supervisor 10)) 14) \<noteq> Ok () \<and>
   sup_restarts [Begin 12, Disable, Started 13, Begin 14] (snd (sf_supervisor_failure demo_supervisor 10)) = 0"
proof -
  let ?q = "snd (sf_supervisor_failure demo_supervisor 10)"
  have f: "sf_supervisor_failure demo_supervisor 10 = (Ok (), ?q)" "su_state ?q \<noteq> SF_SUP_BLOCKED" "su_retry_ticks demo_supervisor = 5"
    by (simp_all add: demo_supervisor_def sf_supervisor_failure_def stable_run_def Let_def)
  let ?es = "[Begin 12, Disable, Started 13, Begin 14]"
  have n: "no_enable ?es" by (simp add: no_enable_def)
  note b = supervisor_backoff[OF f(1), unfolded if_not_P[OF f(2)] f(3)]
  have "sup_restarts ?es ?q = 0" by (rule mp[OF mp[OF spec[OF conjunct2[OF b]] n]]) auto
  moreover have "fst (sf_supervisor_begin ?q 15) = Ok ()" "fst (sf_supervisor_begin ?q 14) \<noteq> Ok ()" using conjunct1[OF b] by auto
  ultimately show ?thesis by blast
qed

end
