(* ===== verification/SF_Decimal.thy ===== *)
theory SF_Decimal
  imports SF_Prelude
begin

text \<open>
  Canonical decimal notation over bytes: the reference that the number parsers
  and printers of the system (version strings, IPv4 addresses, formatted output)
  are compared with.
\<close>

definition digit :: "u8 \<Rightarrow> bool" where
  "digit c \<longleftrightarrow> 48 \<le> c \<and> c \<le> 57"

definition digit_value :: "u8 \<Rightarrow> nat" where
  "digit_value c = unat (c - 48)"

definition dec_value :: "nat \<Rightarrow> bytes \<Rightarrow> nat" where
  "dec_value v bs = foldl (\<lambda>v c. v * 10 + digit_value c) v bs"

fun dec :: "nat \<Rightarrow> bytes" where
  "dec n = (if n < 10 then [48 + of_nat n] else dec (n div 10) @ [48 + of_nat (n mod 10)])"

declare dec.simps [simp del]

text \<open>No superfluous leading zero.\<close>

definition canonical_dec :: "bytes \<Rightarrow> bool" where
  "canonical_dec bs \<longleftrightarrow> bs \<noteq> [] \<and> (\<forall>c\<in>set bs. digit c) \<and> (hd bs = 48 \<longrightarrow> length bs = 1)"

lemma dec_value_simps [simp]:
  "dec_value v [] = v"
  "dec_value v (c # cs) = dec_value (v * 10 + digit_value c) cs"
  "dec_value v (bs @ [c]) = dec_value v bs * 10 + digit_value c"
  by (simp_all add: dec_value_def)

lemma unat_digit: "d < 10 \<Longrightarrow> unat (48 + of_nat d :: u8) = 48 + d"
  by (simp add: unat_word_ariths unat_of_nat)

lemma digit_of_nat: "d < 10 \<Longrightarrow> digit (48 + of_nat d)"
  by (simp add: digit_def word_le_nat_alt unat_digit del: unat_of_nat)

lemma digit_value_of_nat: "d < 10 \<Longrightarrow> digit_value (48 + of_nat d) = d"
  by (simp add: digit_value_def unat_of_nat)

lemma digit_unat: "digit c \<longleftrightarrow> 48 \<le> unat c \<and> unat c \<le> 57"
  by (simp add: digit_def word_le_nat_alt)

lemma digit_value_unat: "digit c \<Longrightarrow> digit_value c = unat c - 48"
  by (simp add: digit_def digit_value_def unat_sub)

lemma digit_value_less: "digit c \<Longrightarrow> digit_value c < 10"
  by (simp add: digit_value_unat digit_unat) linarith

lemma digit_restore: "digit c \<Longrightarrow> 48 + of_nat (digit_value c) = c"
  by (simp add: digit_value_def)

lemma digit_value_0: "digit_value c = 0 \<longleftrightarrow> c = 48"
  by (simp add: digit_value_def unsigned_eq_0_iff)

lemma dec_digits: "\<forall>c\<in>set (dec n). digit c"
  by (induction n rule: dec.induct) (subst dec.simps, auto simp: digit_of_nat)

lemma dec_nonempty [simp]: "dec n \<noteq> []"
  by (subst dec.simps) simp

lemma dec_value_dec: "dec_value 0 (dec n) = n"
  by (induction n rule: dec.induct) (subst dec.simps, auto simp: digit_value_of_nat)

lemma dec_inj: "dec m = dec n \<longleftrightarrow> m = n"
  by (metis dec_value_dec)

lemma dec_head: "0 < n \<Longrightarrow> hd (dec n) \<noteq> 48"
proof (induction n rule: dec.induct)
  case (1 n)
  show ?case
  proof (cases "n < 10")
    case True
    then have "unat (hd (dec n)) \<noteq> 48" using 1(2) by (subst dec.simps) (simp add: unat_digit)
    then show ?thesis by auto
  next
    case False
    then show ?thesis using 1 by (subst dec.simps) (simp add: hd_append)
  qed
qed

lemma dec_canonical: "canonical_dec (dec n)"
proof -
  have "dec 0 = [48]" by (simp add: dec.simps)
  then show ?thesis
    using dec_head[of n] dec_digits[of n] by (cases "n = 0") (auto simp: canonical_dec_def)
qed

lemma dec_value_pos: "\<forall>c\<in>set bs. digit c \<Longrightarrow> bs \<noteq> [] \<Longrightarrow> hd bs \<noteq> 48 \<Longrightarrow> 0 < dec_value 0 bs"
proof (induction bs rule: rev_induct)
  case (snoc c bs)
  then have "bs = [] \<Longrightarrow> digit_value c \<noteq> 0" using digit_value_0[of c] by simp
  then show ?case using snoc by (cases "bs = []") simp_all
qed simp

lemma dec_of_value: "canonical_dec bs \<Longrightarrow> dec (dec_value 0 bs) = bs"
proof (induction bs rule: rev_induct)
  case (snoc c bs)
  have c: "digit c" "digit_value c < 10" using snoc.prems digit_value_less
    by (simp_all add: canonical_dec_def)
  show ?case
  proof (cases "bs = []")
    case True
    then show ?thesis using c by (subst dec.simps) (simp add: digit_restore)
  next
    case False
    then have b: "canonical_dec bs" "hd bs \<noteq> 48" using snoc.prems by (auto simp: canonical_dec_def)
    then have "0 < dec_value 0 bs" using dec_value_pos False by (simp add: canonical_dec_def)
    then show ?thesis using snoc.IH[OF b(1)] c by (subst dec.simps) (simp add: digit_restore)
  qed
qed (simp add: canonical_dec_def)

lemma canonical_iff_dec: "canonical_dec bs \<longleftrightarrow> (\<exists>n. bs = dec n)"
  using dec_canonical dec_of_value by metis

lemma dec_value_mono: "v \<le> dec_value v bs"
proof (induction bs arbitrary: v)
  case (Cons c bs)
  have "v \<le> v * 10 + digit_value c" by simp
  also note Cons
  finally show ?case by simp
qed simp

lemma takeWhile_digits_append:
  "\<forall>c\<in>set ds. digit c \<Longrightarrow> rest = [] \<or> \<not> digit (hd rest) \<Longrightarrow>
   takeWhile digit (ds @ rest) = ds \<and> dropWhile digit (ds @ rest) = rest"
  by (cases rest) (auto simp: takeWhile_append dropWhile_append)

lemma not_digit_dot: "\<not> digit 46" by (simp add: digit_def)

lemma dec_length: "n < 10 ^ k \<Longrightarrow> 0 < k \<Longrightarrow> length (dec n) \<le> k"
proof (induction k arbitrary: n)
  case (Suc k)
  show ?case
  proof (cases "n < 10")
    case True
    then show ?thesis by (simp add: dec.simps[of n])
  next
    case False
    then have "0 < k" using Suc.prems by (cases k) auto
    moreover have "n div 10 < 10 ^ k" using Suc.prems by (simp add: div_less_iff_less_mult)
    ultimately show ?thesis using Suc.IH[of "n div 10"] False by (simp add: dec.simps[of n])
  qed
qed simp

end
