(* ===== verification/SF_Version.thy ===== *)
theory SF_Version
  imports SF_Decimal
begin

text \<open>
  Package versions (\<^verbatim>\<open>services/version.c\<close>): the parser of \<open>major.minor.patch\<close>, the
  comparison, and the rule that decides whether a candidate may replace what is
  installed.
\<close>

datatype SfVersion = SfVersion (ver_part0: u32) (ver_part1: u32) (ver_part2: u32)

section \<open>Operations\<close>

text \<open>The do-while loop over the digits of one part; \<open>None\<close> is the overflow exit.\<close>

fun version_digits :: "u32 \<Rightarrow> bytes \<Rightarrow> (u32 \<times> bytes) option" where
  "version_digits v [] = Some (v, [])"
| "version_digits v (c # cs) =
     (if digit c then
        (let d = ucast (c - 48) in
         if v > (- 1 - d) div 10 then None else version_digits (v * 10 + d) cs)
      else Some (v, c # cs))"

definition version_part :: "bytes \<Rightarrow> (u32 \<times> bytes) res" where
  "version_part text =
     (if text = [] \<or> \<not> digit (hd text) then Err SF_BAD_FORMAT
      else case version_digits 0 text of
        None \<Rightarrow> Err SF_BAD_FORMAT
      | Some (v, rest) \<Rightarrow>
          if length text - length rest > 1 \<and> hd text = 48 then Err SF_BAD_FORMAT
          else Ok (v, rest))"

text \<open>After parts 0 and 1 a dot is consumed; after part 2 the text must end.\<close>

definition version_separator :: "nat \<Rightarrow> bytes \<Rightarrow> bytes res" where
  "version_separator i text =
     (if i < 2 then (case text of c # cs \<Rightarrow> if c = 46 then Ok cs else Err SF_BAD_FORMAT
                     | [] \<Rightarrow> Err SF_BAD_FORMAT)
      else if text = [] then Ok [] else Err SF_BAD_FORMAT)"

fun version_parts :: "nat list \<Rightarrow> bytes \<Rightarrow> u32 list res" where
  "version_parts [] text = Ok []"
| "version_parts (i # is) text =
     (case version_part text of
        Err e \<Rightarrow> Err e
      | Ok (v, rest) \<Rightarrow>
          (case version_separator i rest of
             Err e \<Rightarrow> Err e
           | Ok rest \<Rightarrow>
               (case version_parts is rest of Err e \<Rightarrow> Err e | Ok vs \<Rightarrow> Ok (v # vs))))"

definition sf_version_parse :: "bytes \<Rightarrow> SfVersion res" where
  "sf_version_parse text =
     (case version_parts [0, 1, 2] text of
        Err e \<Rightarrow> Err e
      | Ok vs \<Rightarrow> Ok (SfVersion (vs ! 0) (vs ! 1) (vs ! 2)))"

fun compare_parts :: "(u32 \<times> u32) list \<Rightarrow> int" where
  "compare_parts [] = 0"
| "compare_parts ((a, b) # ps) = (if a \<noteq> b then (if a > b then 1 else -1) else compare_parts ps)"

definition sf_version_compare :: "SfVersion \<Rightarrow> SfVersion \<Rightarrow> int" where
  "sf_version_compare a b =
     compare_parts [(ver_part0 a, ver_part0 b), (ver_part1 a, ver_part1 b), (ver_part2 a, ver_part2 b)]"

text \<open>The result \<open>False\<close> is the code's 0 (upgrade), \<open>True\<close> its 1 (exact reinstall).\<close>

definition sf_version_upgrade :: "SfVersion \<Rightarrow> bytes \<Rightarrow> SfVersion \<Rightarrow> bytes \<Rightarrow> bool res" where
  "sf_version_upgrade current old candidate new =
     (let r = sf_version_compare candidate current in
      if r > 0 then Ok False
      else if r < 0 \<or> old \<noteq> new then Err SF_VERSION_REJECTED
      else Ok True)"

section \<open>The order on versions\<close>

instantiation SfVersion :: linorder
begin

definition less_SfVersion :: "SfVersion \<Rightarrow> SfVersion \<Rightarrow> bool" where
  "less_SfVersion a b \<longleftrightarrow> ver_part0 a < ver_part0 b \<or> ver_part0 a = ver_part0 b \<and>
     (ver_part1 a < ver_part1 b \<or> ver_part1 a = ver_part1 b \<and> ver_part2 a < ver_part2 b)"

definition less_eq_SfVersion :: "SfVersion \<Rightarrow> SfVersion \<Rightarrow> bool" where
  "less_eq_SfVersion a b \<longleftrightarrow> a < b \<or> a = (b :: SfVersion)"

instance
  by standard (auto simp: less_SfVersion_def less_eq_SfVersion_def SfVersion.expand not_less_iff_gr_or_eq)

end

lemma version_compare_order:
  "sf_version_compare a b = (if a < b then -1 else if a = b then 0 else 1)"
  by (cases a; cases b) (auto simp: sf_version_compare_def less_SfVersion_def)

section \<open>Parsing is inverse to printing\<close>

definition version_text :: "SfVersion \<Rightarrow> bytes" where
  "version_text v =
     dec (unat (ver_part0 v)) @ [46] @ dec (unat (ver_part1 v)) @ [46] @ dec (unat (ver_part2 v))"

lemma digit_ucast: "unat (ucast (c - 48 :: u8) :: u32) = digit_value c"
  by (simp add: digit_value_def unat_ucast_up)

lemma push_digit:
  fixes v :: u32
  assumes "digit c"
  shows "v > (- 1 - ucast (c - 48)) div 10 \<longleftrightarrow> 2 ^ 32 \<le> unat v * 10 + digit_value c"
    and "unat v * 10 + digit_value c < 2 ^ 32 \<Longrightarrow>
      unat (v * 10 + ucast (c - 48)) = unat v * 10 + digit_value c"
proof -
  have d: "digit_value c < 10" using assms by (rule digit_value_less)
  have "unat ((- 1 :: u32) - ucast (c - 48)) = 2 ^ 32 - 1 - digit_value c"
    using d by (subst unat_sub) (simp_all add: word_le_nat_alt digit_ucast unsigned_minus_1_eq_mask mask_eq_exp_minus_1)
  then have "unat (((- 1 :: u32) - ucast (c - 48)) div 10) = (2 ^ 32 - 1 - digit_value c) div 10"
    by (simp add: unat_div)
  then show "v > (- 1 - ucast (c - 48)) div 10 \<longleftrightarrow> 2 ^ 32 \<le> unat v * 10 + digit_value c"
    using d by (simp add: word_less_nat_alt div_less_iff_less_mult) linarith
  show "unat (v * 10 + ucast (c - 48)) = unat v * 10 + digit_value c"
    if "unat v * 10 + digit_value c < 2 ^ 32"
    using that by (simp add: unat_word_ariths digit_ucast)
qed

lemma version_digits_value:
  "version_digits v bs =
     (let n = dec_value (unat v) (takeWhile digit bs)
      in if n < 2 ^ 32 then Some (of_nat n, dropWhile digit bs) else None)"
proof (induction v bs rule: version_digits.induct)
  case (2 v c cs)
  show ?case
  proof (cases "digit c")
    case True
    show ?thesis
    proof (cases "unat v * 10 + digit_value c < 2 ^ 32")
      case False
      then have "\<not> dec_value (unat v * 10 + digit_value c) (takeWhile digit cs) < 2 ^ 32"
        using dec_value_mono order.strict_trans1 by blast
      then show ?thesis using True False push_digit(1)[OF True, of v] by (simp add: Let_def)
    next
      case less: True
      then show ?thesis using True 2[OF True refl] push_digit[OF True, of v] by (simp add: Let_def)
    qed
  qed (simp add: Let_def)
qed (simp add: Let_def)


lemma version_part_iff:
  "version_part text = Ok (v, rest) \<longleftrightarrow>
     text = dec (unat v) @ rest \<and> (rest = [] \<or> \<not> digit (hd rest))" (is "?L \<longleftrightarrow> ?R")
proof
  let ?ds = "takeWhile digit text" and ?n = "dec_value 0 (takeWhile digit text)"
  assume L: ?L
  then have t: "text \<noteq> []" "digit (hd text)" by (auto simp: version_part_def split: if_splits)
  from L have v: "?n < 2 ^ 32" "v = of_nat ?n" "rest = dropWhile digit text"
    and z: "length text - length rest > 1 \<longrightarrow> hd text \<noteq> 48"
    by (auto simp: version_part_def version_digits_value Let_def split: if_splits)
  have "length ?ds = length text - length rest"
    using v(3) by (metis length_append takeWhile_dropWhile_id add_diff_cancel_right')
  moreover have "?ds \<noteq> []" "hd ?ds = hd text" using t by (cases "text"; simp)+
  ultimately have "canonical_dec ?ds" using z set_takeWhileD[of _ digit "text"]
    by (cases "takeWhile digit text") (auto simp: canonical_dec_def)
  then have "dec (unat v) = ?ds" using v(1,2) dec_of_value by (simp add: unat_of_nat)
  moreover have "rest = [] \<or> \<not> digit (hd rest)" using v(3) hd_dropWhile[of digit "text"] by blast
  ultimately show ?R using v(3) by simp
next
  assume ?R
  then have t: "takeWhile digit text = dec (unat v)" "dropWhile digit text = rest" "text = dec (unat v) @ rest"
    using takeWhile_digits_append[OF dec_digits] by blast+
  have "hd (dec (unat v)) = 48 \<longrightarrow> length (dec (unat v)) = 1"
    using dec_canonical by (simp add: canonical_dec_def)
  moreover have "digit (hd (dec (unat v)))" using dec_digits hd_in_set dec_nonempty by blast
  ultimately show ?L using t by (auto simp: version_part_def version_digits_value dec_value_dec)
qed

lemma separator_iff:
  "version_separator i text = Ok rest \<longleftrightarrow> (if i < 2 then text = 46 # rest else text = [] \<and> rest = [])"
  by (auto simp: version_separator_def split: list.splits)

lemma version_parts_iff:
  "version_parts (i # is) text = Ok vs \<longleftrightarrow> (\<exists>v rest ws. version_part text = Ok (v, rest) \<and>
     (\<exists>rest'. version_separator i rest = Ok rest' \<and> version_parts is rest' = Ok ws) \<and> vs = v # ws)"
  by (auto split: sum.splits)

text \<open>C11: the version parser accepts exactly the canonical decimal notation of the three
  parts, without leading zeros, overflow or trailing text, and returns the version
  that notation denotes.\<close>

theorem version_parse_iff: "sf_version_parse text = Ok v \<longleftrightarrow> text = version_text v"
proof -
  have "sf_version_parse text = Ok v \<longleftrightarrow>
    version_parts [0, 1, 2] text = Ok [ver_part0 v, ver_part1 v, ver_part2 v]"
    by (cases v) (auto simp: sf_version_parse_def version_parts_iff split: sum.splits)
  also have "\<dots> \<longleftrightarrow> text = version_text v"
    by (auto simp: version_parts_iff version_part_iff separator_iff version_text_def not_digit_dot
        simp del: version_parts.simps(2))
  finally show ?thesis .
qed

section \<open>Upgrades never go back\<close>

text \<open>An installation history: each entry replaced the one before it because
  \<open>sf_version_upgrade\<close> accepted it.\<close>

fun accepted_history :: "(SfVersion \<times> bytes) list \<Rightarrow> bool" where
  "accepted_history ((v, h) # (w, k) # rest) \<longleftrightarrow>
     (\<exists>r. sf_version_upgrade v h w k = Ok r) \<and> accepted_history ((w, k) # rest)"
| "accepted_history _ \<longleftrightarrow> True"

definition demo_history :: "(SfVersion \<times> bytes) list" where
  "demo_history = [(SfVersion 1 2 0, [7]), (SfVersion 1 2 0, [7]), (SfVersion 1 10 0, [9])]"

lemma upgrade_accepts:
  "sf_version_upgrade v h w k = Ok r \<longleftrightarrow> (if v < w then \<not> r else v = w \<and> h = k \<and> r)"
  by (auto simp: sf_version_upgrade_def Let_def version_compare_order not_less_iff_gr_or_eq)

lemma history_head:
  "accepted_history ((v, h) # rest) \<Longrightarrow> (w, k) \<in> set rest \<Longrightarrow> v < w \<or> v = w \<and> h = k"
proof (induction rest arbitrary: v h)
  case (Cons p rest)
  obtain a b where p: "p = (a, b)" by (cases p)
  have "v < a \<or> v = a \<and> h = b" using Cons.prems(1) p by (auto simp: upgrade_accepts split: if_splits)
  moreover have "(w, k) = (a, b) \<or> a < w \<or> a = w \<and> b = k" using Cons p by auto
  ultimately show ?case by (auto dest: less_trans)
qed simp

text \<open>C12: along any history of accepted installations versions never decrease, and two
  entries with the same version have the same content hash: no downgrade and no
  replacement under an unchanged version, however many steps apart.\<close>

theorem upgrade_history_monotone:
  assumes "accepted_history hist" "i < j" "j < length hist"
  shows "fst (hist ! i) < fst (hist ! j) \<or> hist ! i = hist ! j"
  using assms
proof (induction hist arbitrary: i j)
  case (Cons p hist)
  have tl: "accepted_history hist" using Cons.prems(1) by (cases p; cases hist) auto
  show ?case
  proof (cases i)
    case 0
    then obtain j' where j: "j = Suc j'" "j' < length hist" using Cons.prems by (cases j) auto
    then show ?thesis using 0 history_head[of "fst p" "snd p" hist] Cons.prems(1) nth_mem[OF j(2)]
      by (cases p; cases "hist ! j'") auto
  next
    case (Suc i')
    then show ?thesis using Cons.IH[OF tl, of i' "j - 1"] Cons.prems by (cases j) auto
  qed
qed simp

theorem upgrade_history_monotone_witness:
  "fst (demo_history ! 0) < fst (demo_history ! 2) \<or> demo_history ! 0 = demo_history ! 2"
  by (rule upgrade_history_monotone)
    (auto simp: demo_history_def upgrade_accepts less_SfVersion_def)

end
