(* ===== verification/SF_Bytes.thy ===== *)
theory SF_Bytes
  imports SF_Prelude
begin

text \<open>
  Byte buffers: \<^verbatim>\<open>memcpy\<close> into a buffer at an offset, reading a segment, and the
  little- and big-endian accessors that the services' formats share.
\<close>

named_theorems buffer_simps \<open>reads of a buffer after a store elsewhere\<close>

section \<open>Slices and copies\<close>

definition segment :: "nat \<Rightarrow> nat \<Rightarrow> 'a list \<Rightarrow> 'a list" where
  "segment off n buf = take n (drop off buf)"

definition put_at :: "nat \<Rightarrow> 'a list \<Rightarrow> 'a list \<Rightarrow> 'a list" where
  "put_at off bs buf = take off buf @ bs @ drop (off + length bs) buf"

definition all_zero :: "bytes \<Rightarrow> bool" where
  "all_zero bs \<longleftrightarrow> list_all (\<lambda>b. b = 0) bs"

lemma length_put_at [simp]: "off + length bs \<le> length buf \<Longrightarrow> length (put_at off bs buf) = length buf"
  by (simp add: put_at_def)

lemma nth_put_at:
  "off + length bs \<le> length buf \<Longrightarrow> i < length buf \<Longrightarrow>
   put_at off bs buf ! i = (if off \<le> i \<and> i < off + length bs then bs ! (i - off) else buf ! i)"
  by (auto simp: put_at_def nth_append)

lemma length_segment [simp]: "off + n \<le> length buf \<Longrightarrow> length (segment off n buf) = n"
  by (simp add: segment_def)

lemma nth_segment [simp]: "off + n \<le> length buf \<Longrightarrow> i < n \<Longrightarrow> segment off n buf ! i = buf ! (off + i)"
  by (simp add: segment_def)

lemma segment_put_same [simp]:
  "off + n \<le> length buf \<Longrightarrow> length bs = n \<Longrightarrow> segment off n (put_at off bs buf) = bs"
  by (simp add: segment_def put_at_def)

lemma segment_put_before:
  "a + m \<le> off \<Longrightarrow> off + length bs \<le> length buf \<Longrightarrow> segment a m (put_at off bs buf) = segment a m buf"
  by (rule nth_equalityI) (simp_all add: nth_put_at)

lemma segment_put_after:
  "off + length bs \<le> a \<Longrightarrow> a + m \<le> length buf \<Longrightarrow> segment a m (put_at off bs buf) = segment a m buf"
  by (rule nth_equalityI) (simp_all add: nth_put_at)

lemma put_segment_same: "off + n \<le> length buf \<Longrightarrow> put_at off (segment off n buf) buf = buf"
  by (rule nth_equalityI) (auto simp: nth_put_at)

lemma segment_all [simp]: "segment 0 (length buf) buf = buf"
  by (simp add: segment_def)

lemma all_zero_replicate [simp]: "all_zero (replicate n 0)"
  by (simp add: all_zero_def list_all_iff)

lemma all_zero_iff: "all_zero bs \<longleftrightarrow> bs = replicate (length bs) 0"
  by (induction bs) (simp_all add: all_zero_def)

lemma all_zero_nth: "all_zero bs \<Longrightarrow> i < length bs \<Longrightarrow> bs ! i = 0"
  by (simp add: all_zero_def list_all_length)

section \<open>Big-endian fields\<close>

text \<open>\<open>get16 p i\<close> reads the two bytes of \<open>p\<close> at offset \<open>i\<close>, most significant first;
  \<open>put16 i v p\<close> stores them.\<close>

definition get16 :: "bytes \<Rightarrow> nat \<Rightarrow> u16" where
  "get16 p i = push_bit 8 (ucast (p ! i)) OR ucast (p ! (i + 1))"

definition get32 :: "bytes \<Rightarrow> nat \<Rightarrow> u32" where
  "get32 p i = push_bit 24 (ucast (p ! i)) OR push_bit 16 (ucast (p ! (i + 1))) OR
     push_bit 8 (ucast (p ! (i + 2))) OR ucast (p ! (i + 3))"

definition put16 :: "nat \<Rightarrow> u16 \<Rightarrow> bytes \<Rightarrow> bytes" where
  "put16 i v p = p[i := ucast (drop_bit 8 v), i + 1 := ucast v]"

definition put32 :: "nat \<Rightarrow> u32 \<Rightarrow> bytes \<Rightarrow> bytes" where
  "put32 i v p = p[i := ucast (drop_bit 24 v), i + 1 := ucast (drop_bit 16 v),
     i + 2 := ucast (drop_bit 8 v), i + 3 := ucast v]"

lemma length_put16 [simp]: "length (put16 i v p) = length p"
  by (simp add: put16_def)

lemma length_put32 [simp]: "length (put32 i v p) = length p"
  by (simp add: put32_def)

lemma nth_put16:
  "j < length p \<Longrightarrow> put16 i v p ! j =
     (if j = i + 1 then ucast v else if j = i then ucast (drop_bit 8 v) else p ! j)"
  by (auto simp: put16_def nth_list_update)

lemma nth_put32:
  "j < length p \<Longrightarrow> put32 i v p ! j =
     (if j = i + 3 then ucast v else if j = i + 2 then ucast (drop_bit 8 v)
      else if j = i + 1 then ucast (drop_bit 16 v) else if j = i then ucast (drop_bit 24 v) else p ! j)"
  by (auto simp: put32_def nth_list_update)

lemma bit_word_lessD: "bit (w::'a::len word) n \<Longrightarrow> n < LENGTH('a)"
  by (simp add: bit_imp_le_length)

lemma join16: "push_bit 8 (ucast (ucast (drop_bit 8 v) :: u8)) OR ucast (ucast v :: u8) = (v :: u16)"
  by (rule bit_eqI) (auto simp: bit_simps dest: bit_word_lessD)

lemma join32:
  "push_bit 24 (ucast (ucast (drop_bit 24 v) :: u8)) OR push_bit 16 (ucast (ucast (drop_bit 16 v) :: u8)) OR
   push_bit 8 (ucast (ucast (drop_bit 8 v) :: u8)) OR ucast (ucast v :: u8) = (v :: u32)" (is "?l = v")
proof (rule bit_eqI)
  fix n
  show "bit ?l n = bit v n"
    by (cases "24 \<le> n"; cases "16 \<le> n"; cases "8 \<le> n") (auto simp: bit_simps dest: bit_word_lessD)
qed

lemma get16_put16_same [simp]: "i + 1 < length p \<Longrightarrow> get16 (put16 i v p) i = v"
  by (simp add: get16_def nth_put16 join16)

lemma get32_put32_same [simp]: "i + 3 < length p \<Longrightarrow> get32 (put32 i v p) i = v"
  by (simp add: get32_def nth_put32 join32)

lemma unat_get16: "unat (get16 p i) = 256 * unat (p ! i) + unat (p ! (i + 1))"
proof -
  have "get16 p i = push_bit 8 (ucast (p ! i)) + ucast (p ! (i + 1))"
    unfolding get16_def
    by (rule disjunctive_add[symmetric]) (auto simp: bit_simps dest: bit_word_lessD)
  moreover have "unat (push_bit 8 (ucast (p ! i)) :: u16) = 256 * unat (p ! i)"
    by (simp add: push_bit_eq_mult unat_word_ariths unat_ucast_up)
  moreover have "256 * unat (p ! i) + unat (p ! (i + 1)) < 65536"
    using unat_less_width(1)[of "p ! i"] unat_less_width(1)[of "p ! (i + 1)"] by linarith
  ultimately show ?thesis by (simp add: unat_word_ariths unat_ucast_up)
qed

section \<open>Reads after stores elsewhere\<close>

lemma get16_other [buffer_simps]:
  "i + 1 < j \<or> j + 1 < i \<Longrightarrow> get16 (put16 j v p) i = get16 p i"
  "i + 1 < j \<or> j + 3 < i \<Longrightarrow> get16 (put32 j w p) i = get16 p i"
  "j \<noteq> i \<Longrightarrow> j \<noteq> i + 1 \<Longrightarrow> get16 (p[j := b]) i = get16 p i"
  by (auto simp: get16_def put16_def put32_def)

lemma get32_other [buffer_simps]:
  "i + 3 < j \<or> j + 1 < i \<Longrightarrow> get32 (put16 j v p) i = get32 p i"
  "i + 3 < j \<or> j + 3 < i \<Longrightarrow> get32 (put32 j w p) i = get32 p i"
  "j < i \<or> i + 3 < j \<Longrightarrow> get32 (p[j := b]) i = get32 p i"
  by (auto simp: get32_def put16_def put32_def)

lemma nth_other [buffer_simps]:
  "i \<noteq> j \<Longrightarrow> i \<noteq> j + 1 \<Longrightarrow> put16 j v p ! i = p ! i"
  "i < j \<or> j + 3 < i \<Longrightarrow> put32 j w p ! i = p ! i"
  by (auto simp: put16_def put32_def)

lemma nth_put_at_other [buffer_simps]:
  "off + length bs \<le> length p \<Longrightarrow> i < off \<or> off + length bs \<le> i \<Longrightarrow> put_at off bs p ! i = p ! i"
  by (auto simp: put_at_def nth_append)

lemma get_put_at_other [buffer_simps]:
  "off + length bs \<le> length p \<Longrightarrow> i + 1 < off \<or> off + length bs \<le> i \<Longrightarrow>
    get16 (put_at off bs p) i = get16 p i"
  "off + length bs \<le> length p \<Longrightarrow> i + 3 < off \<or> off + length bs \<le> i \<Longrightarrow>
    get32 (put_at off bs p) i = get32 p i"
  by (auto simp: get16_def get32_def nth_put_at_other)

lemma segment_other [buffer_simps]:
  "j + 1 < a \<or> a + n \<le> j \<Longrightarrow> segment a n (put16 j v p) = segment a n p"
  "j + 3 < a \<or> a + n \<le> j \<Longrightarrow> segment a n (put32 j w p) = segment a n p"
  "j < a \<or> a + n \<le> j \<Longrightarrow> segment a n (p[j := b]) = segment a n p"
  by (auto simp: segment_def put16_def put32_def drop_update_swap)

lemma segment_inside:
  "a \<le> j \<Longrightarrow> j + 1 < a + n \<Longrightarrow> segment a n (put16 j v p) = put16 (j - a) v (segment a n p)"
  by (auto simp: segment_def put16_def drop_update_swap take_update_swap Suc_diff_le)

lemma get_segment [buffer_simps]:
  "a + n \<le> length p \<Longrightarrow> i + 1 < n \<Longrightarrow> get16 (segment a n p) i = get16 p (a + i)"
  "a + n \<le> length p \<Longrightarrow> i + 3 < n \<Longrightarrow> get32 (segment a n p) i = get32 p (a + i)"
  by (simp_all add: get16_def get32_def add.assoc)

lemma segment_segment: "i + m \<le> n \<Longrightarrow> segment i m (segment a n p) = segment (a + i) m p"
  by (simp add: segment_def drop_take min_def add.commute)

lemma get_take:
  "i + 1 < n \<Longrightarrow> get16 (take n p) i = get16 p i"
  "i + 3 < n \<Longrightarrow> get32 (take n p) i = get32 p i"
  by (simp_all add: get16_def get32_def)

lemma segment_take: "a + m \<le> n \<Longrightarrow> segment a m (take n p) = segment a m p"
  by (simp add: segment_def drop_take min_def)

lemma take_put [buffer_simps]:
  "n \<le> j \<Longrightarrow> take n (put16 j v p) = take n p"
  "n \<le> j \<Longrightarrow> take n (put32 j w p) = take n p"
  "n \<le> j \<Longrightarrow> take n (p[j := b]) = take n p"
  "n \<le> j \<Longrightarrow> j \<le> length p \<Longrightarrow> take n (put_at j bs p) = take n p"
  by (simp_all add: put16_def put32_def put_at_def)

section \<open>Little-endian fields\<close>

definition le16 :: "u16 \<Rightarrow> bytes" where "le16 v = [ucast v, ucast (drop_bit 8 v)]"
definition le32 :: "u32 \<Rightarrow> bytes" where
  "le32 v = [ucast v, ucast (drop_bit 8 v), ucast (drop_bit 16 v), ucast (drop_bit 24 v)]"

definition rd_le16 :: "bytes \<Rightarrow> nat \<Rightarrow> u16" where
  "rd_le16 p i = push_bit 8 (ucast (p ! (i + 1))) OR ucast (p ! i)"

definition rd_le32 :: "bytes \<Rightarrow> nat \<Rightarrow> u32" where
  "rd_le32 p i = push_bit 24 (ucast (p ! (i + 3))) OR push_bit 16 (ucast (p ! (i + 2))) OR
     push_bit 8 (ucast (p ! (i + 1))) OR ucast (p ! i)"

definition rd_le64 :: "bytes \<Rightarrow> nat \<Rightarrow> u64" where
  "rd_le64 p i = push_bit 32 (ucast (rd_le32 p (i + 4))) OR ucast (rd_le32 p i)"

end
