(* ===== verification/SF_Update.thy ===== *)
theory SF_Update
  imports SF_Bytes
begin

text \<open>
  The A/B update record (\<^verbatim>\<open>services/update.c\<close>): its 160-byte encoding and the
  stage, begin and finish transitions between the good slot and a candidate.
\<close>

section \<open>State\<close>

definition SF_UPDATE_BYTES :: nat where "SF_UPDATE_BYTES = 160"
definition SF_UPDATE_STABLE :: u8 where "SF_UPDATE_STABLE = 0"
definition SF_UPDATE_PENDING :: u8 where "SF_UPDATE_PENDING = 1"
definition SF_UPDATE_TRYING :: u8 where "SF_UPDATE_TRYING = 2"

record SfUpdate =
  up_phase :: u8
  up_good :: u8
  up_candidate :: u8
  up_good_hash :: bytes
  up_candidate_hash :: bytes
  up_app_id :: bytes

text \<open>The array sizes of the C struct.\<close>

definition update_shape :: "SfUpdate \<Rightarrow> bool" where
  "update_shape s \<longleftrightarrow>
     length (up_good_hash s) = 32 \<and> length (up_candidate_hash s) = 32 \<and> length (up_app_id s) = 64"

section \<open>Operations\<close>

definition slot :: "u8 \<Rightarrow> bool" where
  "slot s \<longleftrightarrow> s = 97 \<or> s = 98"

definition identity_char :: "u8 \<Rightarrow> bool" where
  "identity_char c \<longleftrightarrow> (97 \<le> c \<and> c \<le> 122) \<or> (65 \<le> c \<and> c \<le> 90) \<or> (48 \<le> c \<and> c \<le> 57) \<or>
     c = 46 \<or> c = 45 \<or> c = 95"

text \<open>The bytes before the first zero of a fixed-size field.\<close>

definition cstr :: "bytes \<Rightarrow> bytes" where
  "cstr s = takeWhile (\<lambda>c. c \<noteq> 0) s"

definition identity :: "bytes \<Rightarrow> bool" where
  "identity s \<longleftrightarrow>
     (let n = length (cstr (take 64 s)) in
      list_all identity_char (take n s) \<and> n \<noteq> 0 \<and> n < 64 \<and> all_zero (segment n (64 - n) s))"

definition valid :: "SfUpdate \<Rightarrow> bool" where
  "valid s =
     (if up_phase s > SF_UPDATE_TRYING \<or> (\<not> slot (up_good s) \<and> up_good s \<noteq> 0) \<or>
         (\<not> slot (up_candidate s) \<and> up_candidate s \<noteq> 0) then False
      else if (up_good s = 0) \<noteq> all_zero (up_good_hash s) \<or>
         (up_candidate s = 0) \<noteq> all_zero (up_candidate_hash s) then False
      else if (if up_phase s = SF_UPDATE_STABLE then up_candidate s \<noteq> 0
               else up_candidate s = 0 \<or> up_candidate s = up_good s) then False
      else if up_good s \<noteq> 0 \<or> up_candidate s \<noteq> 0 then identity (up_app_id s)
      else all_zero (up_app_id s))"

definition update_magic :: bytes where
  "update_magic = [83, 70, 85, 80, 68, 49, 0, 0]"

definition sf_update_decode :: "bytes \<Rightarrow> SfUpdate res" where
  "sf_update_decode b =
     (if length b \<noteq> SF_UPDATE_BYTES then Err SF_BAD_FORMAT
      else if segment 0 8 b \<noteq> update_magic \<or> \<not> all_zero (segment 11 21 b) then Err SF_BAD_FORMAT
      else let s = \<lparr>up_phase = b ! 8, up_good = b ! 9, up_candidate = b ! 10,
                    up_good_hash = segment 32 32 b, up_candidate_hash = segment 64 32 b,
                    up_app_id = segment 96 64 b\<rparr>
        in if \<not> valid s then Err SF_BAD_FORMAT else Ok s)"

definition sf_update_encode :: "SfUpdate \<Rightarrow> bytes res" where
  "sf_update_encode s =
     (if \<not> valid s then Err SF_BAD_FORMAT
      else let out = replicate SF_UPDATE_BYTES 0;
               out = put_at 0 update_magic out;
               out = out[8 := up_phase s, 9 := up_good s, 10 := up_candidate s];
               out = put_at 32 (up_good_hash s) out;
               out = put_at 64 (up_candidate_hash s) out
           in Ok (put_at 96 (up_app_id s) out))"

text \<open>\<open>name\<close> is the zero-padded copy of the C string \<open>idt\<close>.\<close>

definition sf_update_stage :: "SfUpdate \<Rightarrow> bytes \<Rightarrow> bytes \<Rightarrow> unit res \<times> SfUpdate" where
  "sf_update_stage s idt hash =
     (if \<not> valid s then (Err SF_BAD_FORMAT, s)
      else if up_phase s \<noteq> SF_UPDATE_STABLE then (Err SF_BUSY, s)
      else if length idt \<ge> 64 then (Err SF_BAD_FORMAT, s)
      else let name = put_at 0 idt (replicate 64 0) in
        if \<not> identity name \<or> all_zero hash then (Err SF_BAD_FORMAT, s)
        else if up_good s \<noteq> 0 \<and> cstr (up_app_id s) \<noteq> cstr name then (Err SF_DEPENDENCY, s)
        else (Ok (), s\<lparr>up_app_id := name, up_candidate := (if up_good s = 97 then 98 else 97),
                 up_candidate_hash := hash, up_phase := SF_UPDATE_PENDING\<rparr>))"

definition sf_update_begin :: "SfUpdate \<Rightarrow> unit res \<times> SfUpdate" where
  "sf_update_begin s =
     (if \<not> valid s then (Err SF_BAD_FORMAT, s)
      else if up_phase s \<noteq> SF_UPDATE_PENDING then (Err SF_INVALID, s)
      else (Ok (), s\<lparr>up_phase := SF_UPDATE_TRYING\<rparr>))"

definition sf_update_finish :: "SfUpdate \<Rightarrow> bool \<Rightarrow> unit res \<times> SfUpdate" where
  "sf_update_finish s success =
     (if \<not> valid s then (Err SF_BAD_FORMAT, s)
      else if up_phase s \<noteq> SF_UPDATE_TRYING then (Err SF_INVALID, s)
      else let s = (if success then s\<lparr>up_good := up_candidate s, up_good_hash := up_candidate_hash s\<rparr> else s);
               s = s\<lparr>up_phase := SF_UPDATE_STABLE, up_candidate := 0, up_candidate_hash := replicate 32 0\<rparr>
           in (Ok (), if up_good s = 0 then s\<lparr>up_app_id := replicate 64 0\<rparr> else s))"

lemmas phase_defs = SF_UPDATE_STABLE_def SF_UPDATE_PENDING_def SF_UPDATE_TRYING_def

section \<open>The encoding\<close>

lemma magic_length [simp]: "length update_magic = 8"
  by (simp add: update_magic_def)

lemma encode_nth:
  assumes "update_shape s" "sf_update_encode s = Ok b"
  shows "length b = SF_UPDATE_BYTES"
    "i < SF_UPDATE_BYTES \<Longrightarrow> b ! i = (if i < 8 then update_magic ! i else if i = 8 then up_phase s
      else if i = 9 then up_good s else if i = 10 then up_candidate s else if i < 32 then 0
      else if i < 64 then up_good_hash s ! (i - 32) else if i < 96 then up_candidate_hash s ! (i - 64)
      else up_app_id s ! (i - 96))"
  using assms
  by (auto simp: sf_update_encode_def update_shape_def SF_UPDATE_BYTES_def nth_put_at nth_list_update
      split: if_splits)

lemma encode_decode:
  assumes "update_shape s" "valid s"
  shows "\<exists>b. sf_update_encode s = Ok b \<and> sf_update_decode b = Ok s"
proof -
  obtain b where e: "sf_update_encode s = Ok b"
    using assms(2) by (simp add: sf_update_encode_def Let_def)
  note n = encode_nth[OF assms(1) e] and sh = assms(1)[unfolded update_shape_def]
  have l: "length b = 160" using n(1) by (simp add: SF_UPDATE_BYTES_def)
  have "segment 0 8 b = update_magic" "segment 32 32 b = up_good_hash s"
    "segment 64 32 b = up_candidate_hash s" "segment 96 64 b = up_app_id s"
    "segment 11 21 b = replicate 21 0"
    using l sh by (auto intro!: nth_equalityI simp: n(2) SF_UPDATE_BYTES_def)
  moreover have "b ! 8 = up_phase s" "b ! 9 = up_good s" "b ! 10 = up_candidate s"
    by (simp_all add: n(2) SF_UPDATE_BYTES_def)
  ultimately have "sf_update_decode b = Ok s"
    using l assms(2) by (cases s) (simp add: sf_update_decode_def SF_UPDATE_BYTES_def)
  then show ?thesis using e by blast
qed

lemma decode_shape:
  "sf_update_decode b = Ok s \<Longrightarrow> update_shape s \<and> valid s"
  by (auto simp: sf_update_decode_def update_shape_def SF_UPDATE_BYTES_def Let_def split: if_splits)

lemma decode_encode:
  assumes "sf_update_decode b = Ok s"
  shows "sf_update_encode s = Ok b"
proof -
  have d: "length b = 160" "segment 0 8 b = update_magic" "all_zero (segment 11 21 b)"
    "s = \<lparr>up_phase = b ! 8, up_good = b ! 9, up_candidate = b ! 10,
       up_good_hash = segment 32 32 b, up_candidate_hash = segment 64 32 b, up_app_id = segment 96 64 b\<rparr>"
    using assms by (auto simp: sf_update_decode_def SF_UPDATE_BYTES_def Let_def split: if_splits)
  obtain c where e: "sf_update_encode s = Ok c"
    using decode_shape[OF assms] by (simp add: sf_update_encode_def Let_def)
  note n = encode_nth[OF decode_shape[OF assms, THEN conjunct1] e]
  have "c = b"
  proof (rule nth_equalityI)
    fix i assume "i < length c"
    then have i: "i < 160" using n(1) by (simp add: SF_UPDATE_BYTES_def)
    have "i < 8 \<Longrightarrow> b ! i = update_magic ! i"
      using d(1) by (subst d(2)[symmetric]) simp
    moreover have "b ! i = 0" if "11 \<le> i" "i < 32"
      using all_zero_nth[OF d(3), of "i - 11"] that d(1) by simp
    ultimately show "c ! i = b ! i" using i d(1) by (auto simp: n(2) d(4) SF_UPDATE_BYTES_def)
  qed (use n(1) d(1) in \<open>simp add: SF_UPDATE_BYTES_def\<close>)
  then show ?thesis using e by simp
qed

text \<open>C8: decoding and encoding the update record are inverse: a 160-byte image decodes to a
  record exactly when that record encodes to this image, so no two images share a
  record and no accepted image carries stray bytes.\<close>

theorem update_codec_inverse:
  assumes "update_shape s"
  shows "sf_update_decode b = Ok s \<longleftrightarrow> sf_update_encode s = Ok b"
proof
  assume e: "sf_update_encode s = Ok b"
  then have "valid s" by (simp add: sf_update_encode_def split: if_splits)
  then show "sf_update_decode b = Ok s" using encode_decode[OF assms] e by auto
qed (rule decode_encode)

definition demo_update :: SfUpdate where
  "demo_update = \<lparr>up_phase = 0, up_good = 97, up_candidate = 0, up_good_hash = replicate 32 5,
     up_candidate_hash = replicate 32 0, up_app_id = [65, 66] @ replicate 62 0\<rparr>"

theorem update_codec_inverse_witness:
  "sf_update_decode (replicate 160 0) = Ok demo_update \<longleftrightarrow> sf_update_encode demo_update = Ok (replicate 160 0)"
  by (rule update_codec_inverse) (simp add: demo_update_def update_shape_def)

section \<open>Transitions\<close>

lemma cstr_identity:
  assumes "identity s" "length s = 64"
  shows "s = cstr s @ replicate (64 - length (cstr s)) 0"
proof -
  let ?n = "length (cstr s)"
  have "all_zero (drop ?n s)" "?n < 64" using assms by (auto simp: identity_def Let_def segment_def)
  then have "drop ?n s = replicate (64 - ?n) 0" using assms(2) by (simp add: all_zero_iff)
  moreover have "take ?n s = cstr s" unfolding cstr_def by (rule takeWhile_eq_take[symmetric])
  ultimately show ?thesis by (metis append_take_drop_id)
qed

lemma identity_eq:
  "identity s \<Longrightarrow> identity t \<Longrightarrow> length s = 64 \<Longrightarrow> length t = 64 \<Longrightarrow> cstr s = cstr t \<Longrightarrow> s = t"
  by (metis cstr_identity)

lemma stage_effect:
  assumes "sf_update_stage s idt hash = (Ok (), s')"
  shows "valid s" "up_phase s = SF_UPDATE_STABLE" "up_candidate s = 0" "length idt < 64"
    "identity (put_at 0 idt (replicate 64 0))" "\<not> all_zero hash"
    "up_good s \<noteq> 0 \<Longrightarrow> cstr (up_app_id s) = cstr (put_at 0 idt (replicate 64 0))"
    "s' = s\<lparr>up_app_id := put_at 0 idt (replicate 64 0),
       up_candidate := (if up_good s = 97 then 98 else 97),
       up_candidate_hash := hash, up_phase := SF_UPDATE_PENDING\<rparr>"
  using assms by (auto simp: sf_update_stage_def Let_def valid_def split: if_splits)

lemma stage_valid:
  assumes "sf_update_stage s idt hash = (Ok (), s')"
  shows "valid s'"
  using stage_effect[OF assms] by (auto simp: valid_def slot_def phase_defs split: if_splits)

lemma begin_valid: "valid s \<Longrightarrow> up_phase s = SF_UPDATE_PENDING \<Longrightarrow> valid (s\<lparr>up_phase := SF_UPDATE_TRYING\<rparr>)"
  by (auto simp: valid_def phase_defs split: if_splits)

text \<open>C7: trying an update and failing puts every field back to what it was before staging;
  trying it and succeeding makes the staged image the good one, in the other slot.\<close>

theorem update_rollback:
  assumes "update_shape s" "length hash = 32" "sf_update_stage s idt hash = (Ok (), s1)"
  shows "\<exists>s2. sf_update_begin s1 = (Ok (), s2) \<and> sf_update_finish s2 False = (Ok (), s) \<and>
    (\<exists>s3. sf_update_finish s2 True = (Ok (), s3) \<and> valid s3 \<and> up_phase s3 = SF_UPDATE_STABLE \<and>
      up_good_hash s3 = hash \<and> slot (up_good s3) \<and> up_good s3 \<noteq> up_good s)"
proof -
  note e = stage_effect[OF assms(3)]
  have v1: "valid s1" using assms(3) by (rule stage_valid)
  let ?s2 = "s1\<lparr>up_phase := SF_UPDATE_TRYING\<rparr>"
  have v2: "valid ?s2" using v1 by (rule begin_valid) (simp add: e(8))
  have b: "sf_update_begin s1 = (Ok (), ?s2)" using v1 e(8) by (simp add: sf_update_begin_def)
  have "up_app_id s = (if up_good s = 0 then replicate 64 0 else put_at 0 idt (replicate 64 0))"
  proof (cases "up_good s = 0")
    case True
    then show ?thesis using e(1,2,3) assms(1) by (auto simp: valid_def update_shape_def all_zero_iff split: if_splits)
  next
    case False
    then have "identity (up_app_id s)" using e(1) by (simp add: valid_def split: if_splits)
    then show ?thesis using False e(4,5,7) assms(1) by (auto simp: update_shape_def intro!: identity_eq)
  qed
  moreover have "up_candidate_hash s = replicate 32 0"
    using e(1,3) assms(1) by (auto simp: valid_def update_shape_def all_zero_iff split: if_splits)
  ultimately have f: "sf_update_finish ?s2 False = (Ok (), s)"
    using v2 e(2,3,8) by (auto simp: sf_update_finish_def Let_def)
  let ?s3 = "snd (sf_update_finish ?s2 True)"
  have "sf_update_finish ?s2 True = (Ok (), ?s3)" using v2 by (simp add: sf_update_finish_def Let_def)
  moreover have "valid ?s3 \<and> up_phase ?s3 = SF_UPDATE_STABLE \<and> up_good_hash ?s3 = hash \<and>
      slot (up_good ?s3) \<and> up_good ?s3 \<noteq> up_good s"
    using v2 e by (auto simp: sf_update_finish_def Let_def valid_def slot_def phase_defs split: if_splits)
  ultimately show ?thesis using b f by blast
qed

theorem update_rollback_witness:
  "\<exists>s2. sf_update_begin (snd (sf_update_stage demo_update [65, 66] (replicate 32 9))) = (Ok (), s2) \<and>
     sf_update_finish s2 False = (Ok (), demo_update) \<and>
     (\<exists>s3. sf_update_finish s2 True = (Ok (), s3) \<and> valid s3 \<and> up_phase s3 = SF_UPDATE_STABLE \<and>
       up_good_hash s3 = replicate 32 9 \<and> slot (up_good s3) \<and> up_good s3 \<noteq> up_good demo_update)"
  by (rule update_rollback[where idt = "[65, 66]" and hash = "replicate 32 9"])
    (auto simp: demo_update_def update_shape_def sf_update_stage_def valid_def identity_def cstr_def
      put_at_def segment_def identity_char_def slot_def phase_defs all_zero_def list_all_iff Let_def)

end
