(* ===== verification/SF_Checksum.thy ===== *)
theory SF_Checksum
  imports SF_Bytes
begin

text \<open>
  The one's-complement checksum of \<^verbatim>\<open>services/net_proto.c\<close>: the 32-bit accumulator,
  the folding loop, and why a buffer that carries its own checksum verifies.
\<close>

section \<open>Operations\<close>

fun add_words :: "u32 \<Rightarrow> bytes \<Rightarrow> u32" where
  "add_words s (a # b # p) = add_words (s + (push_bit 8 (ucast a) OR ucast b)) p"
| "add_words s [a] = s + push_bit 8 (ucast a)"
| "add_words s [] = s"

lemma unat_drop16: "unat (drop_bit 16 (s::u32)) = unat s div 65536"
  by (simp add: drop_bit_eq_div unat_div)

lemma unat_low16: "unat ((s::u32) AND 0xffff) = unat s mod 65536"
proof -
  have "(s AND 0xffff) = take_bit 16 s" by (simp add: take_bit_eq_mask mask_eq_exp_minus_1)
  then show ?thesis by (simp add: take_bit_eq_mod unat_mod)
qed

lemma unat_fold_step:
  "unat ((s AND 0xffff) + drop_bit 16 (s::u32)) = unat s mod 65536 + unat s div 65536"
proof -
  have "unat s div 65536 < 65536" using unat_less_width(3)[of s] by linarith
  then have "unat s mod 65536 + unat s div 65536 < 4294967296" by linarith
  then show ?thesis by (simp add: unat_word_ariths unat_drop16 unat_low16)
qed

lemma drop16_zero: "drop_bit 16 (s::u32) = 0 \<longleftrightarrow> unat s < 65536"
proof -
  have "drop_bit 16 s = 0 \<longleftrightarrow> unat s div 65536 = 0"
    using unat_drop16[of s] by (metis unsigned_0 unsigned_eq_0_iff)
  then show ?thesis by linarith
qed

function fold_sum :: "u32 \<Rightarrow> u16" where
  "fold_sum s =
     (if drop_bit 16 s \<noteq> 0 then fold_sum ((s AND 0xffff) + drop_bit 16 s)
      else ucast (NOT s AND 0xffff))"
  by pat_completeness auto
termination
proof (relation "measure unat")
  fix s :: u32
  assume "drop_bit 16 s \<noteq> 0"
  then have "65536 \<le> unat s" by (simp add: drop16_zero)
  then have "unat s mod 65536 + unat s div 65536 < unat s"
    using div_mult_mod_eq[of "unat s" 65536] by linarith
  then show "((s AND 0xffff) + drop_bit 16 s, s) \<in> measure unat" by (simp add: unat_fold_step)
qed simp

declare fold_sum.simps [simp del]

definition sf_net_checksum :: "u32 \<Rightarrow> bytes \<Rightarrow> u16" where
  "sf_net_checksum s data = fold_sum (add_words s data)"

section \<open>Value of the sum\<close>

fun wsum :: "bytes \<Rightarrow> nat" where
  "wsum (a # b # p) = 256 * unat a + unat b + wsum p"
| "wsum [a] = 256 * unat a"
| "wsum [] = 0"

lemma unat_pair: "unat (push_bit 8 (ucast (a::u8)) OR ucast (b::u8) :: u32) = 256 * unat a + unat b"
proof -
  have "(push_bit 8 (ucast a) OR ucast b :: u32) = push_bit 8 (ucast a) + ucast b"
    by (rule disjunctive_add[symmetric]) (auto simp: bit_simps dest: bit_word_lessD)
  moreover have "unat a * 256 < 4294967296" using unat_less_width(1)[of a] by linarith
  then have "unat (push_bit 8 (ucast a) :: u32) = 256 * unat a"
    by (simp add: push_bit_eq_mult unat_word_ariths unat_ucast_up)
  moreover have "256 * unat a + unat b < 4294967296"
    using unat_less_width(1)[of a] unat_less_width(1)[of b] by linarith
  ultimately show ?thesis by (simp add: unat_word_ariths unat_ucast_up)
qed

lemma unat_add_words:
  "unat s + wsum p < 4294967296 \<Longrightarrow> unat (add_words s p) = unat s + wsum p"
proof (induction s p rule: add_words.induct)
  case (1 s a b p)
  then have "unat (s + (push_bit 8 (ucast a) OR ucast b)) = unat s + (256 * unat a + unat b)"
    by (simp add: unat_word_ariths unat_pair)
  then show ?case using 1 by simp
next
  case (2 s a)
  then show ?case using unat_pair[of a 0] by (simp add: unat_word_ariths)
qed simp

lemma wsum_bound: "wsum p \<le> 65535 * ((length p + 1) div 2)"
proof (induction p rule: wsum.induct)
  case (1 a b p)
  have "256 * unat a + unat b \<le> 65535"
    using unat_less_width(1)[of a] unat_less_width(1)[of b] by linarith
  then show ?case using 1 by simp
next
  case (2 a)
  have "256 * unat a \<le> 65535" using unat_less_width(1)[of a] by linarith
  then show ?case by simp
qed simp

lemma wsum_append: "even (length p) \<Longrightarrow> wsum (p @ q) = wsum p + wsum q"
  by (induction p rule: wsum.induct) auto

lemma wsum_put16:
  "even i \<Longrightarrow> i + 1 < length p \<Longrightarrow> p ! i = 0 \<Longrightarrow> p ! (i + 1) = 0 \<Longrightarrow>
   wsum (put16 i v p) = wsum p + unat v"
proof (induction p arbitrary: i rule: wsum.induct)
  case (1 a b p)
  show ?case
  proof (cases i)
    case 0
    have "unat v = 256 * unat (ucast (drop_bit 8 v) :: u8) + unat (ucast v :: u8)"
      using unat_get16[of "[ucast (drop_bit 8 v), ucast v]" 0] by (simp add: get16_def join16)
    then show ?thesis using 0 1 by (simp add: put16_def)
  next
    case (Suc k)
    then obtain j where j: "i = Suc (Suc j)" "even j" using 1(2) by (cases k) auto
    then show ?thesis using 1 by (simp add: put16_def)
  qed
qed auto

section \<open>Folding\<close>

definition ones :: "nat \<Rightarrow> nat" where
  "ones n = (if n = 0 then 0 else (n - 1) mod 65535 + 1)"

lemma ones_fold: "ones (n mod 65536 + n div 65536) = ones n"
proof (cases "n = 0")
  case False
  let ?m = "n mod 65536 + n div 65536"
  have "n = ?m + 65535 * (n div 65536)" using div_mult_mod_eq[of n 65536] by linarith
  moreover have "0 < ?m" using False by (cases "n < 65536") auto
  ultimately have "n - 1 = (?m - 1) + 65535 * (n div 65536)" by linarith
  then have "(n - 1) mod 65535 = (?m - 1) mod 65535" by (metis mod_mult_self2)
  then show ?thesis using False \<open>0 < ?m\<close> by (simp add: ones_def)
qed (simp add: ones_def)

lemma ones_small: "n < 65536 \<Longrightarrow> ones n = n"
  by (simp add: ones_def)

lemma unat_fold_sum: "unat (fold_sum s) = 65535 - ones (unat s)"
proof (induction s rule: fold_sum.induct)
  case (1 s)
  show ?case
  proof (cases "drop_bit 16 s = 0")
    case True
    then have s: "unat s < 65536" by (simp add: drop16_zero)
    have "unat (ucast (NOT s AND 0xffff) :: u16) = unat (NOT s) mod 65536"
      by (simp add: unat_ucast_mod unat_low16)
    also have "unat (NOT s) = 4294967295 - unat s"
    proof -
      have "NOT s = - 1 - s" by (simp add: not_eq_complement)
      then show ?thesis using unat_room[of s] by simp
    qed
    also have "4294967295 - unat s = (65535 - unat s) + 65536 * 65535" using s by linarith
    also have "\<dots> mod 65536 = 65535 - unat s" unfolding mod_mult_self2 using s by simp
    finally show ?thesis using True s by (simp add: fold_sum.simps[of s] ones_small)
  next
    case False
    then show ?thesis using 1[OF False] by (simp add: fold_sum.simps[of s] unat_fold_step ones_fold)
  qed
qed

section \<open>A buffer that carries its checksum verifies\<close>

lemma ones_complete: "ones (n + (65535 - ones n)) = 65535"
proof (cases "n = 0")
  case False
  let ?k = "(n - 1) div 65535"
  have "n - 1 = 65535 * ?k + (n - 1) mod 65535" by simp
  moreover have "ones n = (n - 1) mod 65535 + 1" "(n - 1) mod 65535 < 65535"
    using False by (simp_all add: ones_def)
  ultimately have "n + (65535 - ones n) = 65535 * ?k + 65535" using False by linarith
  then have "n + (65535 - ones n) - 1 = 65534 + 65535 * ?k" by simp
  then have "(n + (65535 - ones n) - 1) mod 65535 = 65534" by simp
  then show ?thesis using False by (simp add: ones_def)
qed (simp add: ones_def)

lemma fold_sum_complete:
  assumes "unat t = unat s + unat c" "c = fold_sum s \<or> fold_sum s = 0 \<and> c = 0xffff"
  shows "fold_sum t = 0"
proof -
  have o: "ones (unat s) \<le> 65535" by (simp add: ones_def Suc_le_eq)
  have "ones (unat t) = 65535"
    using assms(2)
  proof
    assume "c = fold_sum s"
    then show ?thesis using assms(1) ones_complete by (simp add: unat_fold_sum)
  next
    assume c: "fold_sum s = 0 \<and> c = 0xffff"
    then have z: "ones (unat s) = 65535" using unat_fold_sum[of s] o by simp
    then have "unat s \<noteq> 0" by (metis ones_def zero_neq_numeral)
    then have "unat t - 1 = (unat s - 1) + 65535 * 1" "unat t \<noteq> 0" using assms(1) c by simp_all
    then have "ones (unat t) = ones (unat s)" using \<open>unat s \<noteq> 0\<close>
      unfolding ones_def by (metis mod_mult_self2)
    then show ?thesis using z by simp
  qed
  then have "unat (fold_sum t) = 0" by (simp add: unat_fold_sum)
  then show ?thesis by (simp add: unsigned_eq_0_iff)
qed

lemma checksum_verifies:
  assumes "even i" "i + 1 < length p" "p ! i = 0" "p ! (i + 1) = 0"
    and "unat s + 65535 * ((length p + 1) div 2) < 4294967296"
    and "c = fold_sum (add_words s p) \<or> fold_sum (add_words s p) = 0 \<and> c = 0xffff"
  shows "fold_sum (add_words s (put16 i c p)) = 0"
proof (rule fold_sum_complete[OF _ assms(6)])
  have "unat s + wsum (put16 i c p) < 4294967296" "unat s + wsum p < 4294967296"
    using wsum_bound[of "put16 i c p"] wsum_bound[of p] assms(5) by simp_all
  then show "unat (add_words s (put16 i c p)) = unat (add_words s p) + unat c"
    using wsum_put16[OF assms(1-4), of c] by (simp add: unat_add_words)
qed

end
