(* ===== verification/SF_Net.thy ===== *)
theory SF_Net
  imports SF_Checksum SF_Decimal
begin

text \<open>
  Ethernet, ARP, IPv4, ICMP, UDP and TCP framing (\<^verbatim>\<open>services/net_proto.c\<close>).  A frame
  is the caller's buffer; pointers into it are offsets (\<^verbatim>\<open>ip\<close> is 14).  Builders
  return the bytes they fill, \<open>None\<close> being their return value 0; parsers take
  the buffer and the number of received bytes, \<open>None\<close> again being 0.
\<close>

section \<open>Constants\<close>

definition SF_NET_ARP :: u16 where "SF_NET_ARP = 0x0806"
definition SF_NET_IPV4 :: u16 where "SF_NET_IPV4 = 0x0800"
definition SF_NET_ICMP :: u8 where "SF_NET_ICMP = 1"
definition SF_NET_TCP :: u8 where "SF_NET_TCP = 6"
definition SF_NET_UDP :: u8 where "SF_NET_UDP = 17"
definition SF_NET_ICMP_ID :: u16 where "SF_NET_ICMP_ID = 0x5346"
definition SF_NET_FRAME_MAX :: nat where "SF_NET_FRAME_MAX = 1536"
definition SF_NET_PAYLOAD_MAX :: nat where "SF_NET_PAYLOAD_MAX = 248"

section \<open>IPv4 addresses\<close>

text \<open>The digits of one part: at most three, value at most 255.\<close>

fun ipv4_digits :: "u32 \<Rightarrow> nat \<Rightarrow> bytes \<Rightarrow> (u32 \<times> nat \<times> bytes) option" where
  "ipv4_digits v digits [] = Some (v, digits, [])"
| "ipv4_digits v digits (c # cs) =
     (if digit c then
        if digits = 3 then None
        else let v = v * 10 + ucast (c - 48) in
          if v > 255 then None else ipv4_digits v (digits + 1) cs
      else Some (v, digits, c # cs))"

definition ipv4_octet :: "bytes \<Rightarrow> (u32 \<times> bytes) option" where
  "ipv4_octet p =
     (if p = [] \<or> \<not> digit (hd p) then None
      else case ipv4_digits 0 0 p of
        None \<Rightarrow> None
      | Some (v, digits, rest) \<Rightarrow> if digits = 0 then None else Some (v, rest))"

fun ipv4_parts :: "nat list \<Rightarrow> u32 \<Rightarrow> bytes \<Rightarrow> (u32 \<times> bytes) option" where
  "ipv4_parts [] ip p = Some (ip, p)"
| "ipv4_parts (k # ks) ip p =
     (case ipv4_octet p of
        None \<Rightarrow> None
      | Some (v, rest) \<Rightarrow>
          let ip = push_bit 8 ip OR v in
          if k + 1 < 4 then
            (case rest of c # cs \<Rightarrow> if c = 46 then ipv4_parts ks ip cs else None | [] \<Rightarrow> None)
          else ipv4_parts ks ip rest)"

definition sf_net_parse_ipv4 :: "bytes \<Rightarrow> u32 res" where
  "sf_net_parse_ipv4 p =
     (case ipv4_parts [0, 1, 2, 3] 0 p of
        None \<Rightarrow> Err SF_INVALID
      | Some (ip, rest) \<Rightarrow> if rest \<noteq> [] then Err SF_INVALID else Ok ip)"

text \<open>The digits of a part, least significant first (the array \<^verbatim>\<open>reversed\<close>).\<close>

function reversed_digits :: "u32 \<Rightarrow> bytes" where
  "reversed_digits v = ucast (48 + v mod 10) # (if v div 10 \<noteq> 0 then reversed_digits (v div 10) else [])"
  by pat_completeness auto
termination
proof (relation "measure unat")
  fix v :: u32
  assume "v div 10 \<noteq> 0"
  then have "unat (v div 10) \<noteq> 0" by (simp only: unsigned_eq_0_iff not_False_eq_True)
  then have "unat v div 10 \<noteq> 0" by (simp add: unat_div)
  then show "(v div 10, v) \<in> measure unat" by (simp add: unat_div)
qed simp

declare reversed_digits.simps [simp del]

definition ipv4_part_text :: "u32 \<Rightarrow> nat \<Rightarrow> bytes" where
  "ipv4_part_text ip i =
     rev (reversed_digits (drop_bit (24 - 8 * i) ip AND 255)) @ (if i \<noteq> 3 then [46] else [])"

definition sf_net_format_ipv4 :: "u32 \<Rightarrow> bytes" where
  "sf_net_format_ipv4 ip = concat (map (ipv4_part_text ip) [0, 1, 2, 3])"

section \<open>Building frames\<close>

text \<open>The Ethernet and IPv4 headers every IPv4 builder writes first.\<close>

definition ipv4_head :: "bytes \<Rightarrow> bytes \<Rightarrow> u16 \<Rightarrow> u8 \<Rightarrow> u32 \<Rightarrow> u32 \<Rightarrow> bytes \<Rightarrow> bytes" where
  "ipv4_head dst_mac src_mac total_len proto src dst frame =
     (let frame = put_at 0 dst_mac frame;
          frame = put_at 6 src_mac frame;
          frame = put16 12 SF_NET_IPV4 frame;
          frame = frame[14 := 0x45];
          frame = put16 16 total_len frame;
          frame = put16 18 1 frame;
          frame = put16 20 0x4000 frame;
          frame = frame[22 := 64];
          frame = frame[23 := proto];
          frame = put32 26 src frame;
          frame = put32 30 dst frame
      in put16 24 (sf_net_checksum 0 (segment 14 20 frame)) frame)"

definition sf_net_build_arp_request :: "bytes \<Rightarrow> u32 \<Rightarrow> u32 \<Rightarrow> bytes" where
  "sf_net_build_arp_request mac src dst =
     (let frame = replicate 42 0;
          frame = put_at 0 (replicate 6 0xff) frame;
          frame = put_at 6 mac frame;
          frame = put16 12 SF_NET_ARP frame;
          frame = put16 14 1 frame;
          frame = put16 16 SF_NET_IPV4 frame;
          frame = frame[18 := 6, 19 := 4];
          frame = put16 20 1 frame;
          frame = put_at 22 mac frame;
          frame = put32 28 src frame
      in put32 38 dst frame)"

definition sf_net_build_icmp_echo :: "bytes \<Rightarrow> bytes \<Rightarrow> u32 \<Rightarrow> u32 \<Rightarrow> u16 \<Rightarrow> bytes" where
  "sf_net_build_icmp_echo src_mac dst_mac src dst seq =
     (let frame = ipv4_head dst_mac src_mac 44 1 src dst (replicate 58 0);
          frame = frame[34 := 8];
          frame = put16 38 SF_NET_ICMP_ID frame;
          frame = put16 40 seq frame;
          frame = put_at 42 (map (\<lambda>i. 0x40 + of_nat i) [0..<16]) frame
      in put16 36 (sf_net_checksum 0 (segment 34 24 frame)) frame)"

definition pseudo_checksum :: "u8 \<Rightarrow> u32 \<Rightarrow> u32 \<Rightarrow> bytes \<Rightarrow> u16" where
  "pseudo_checksum proto src dst seg =
     (let pseudo = put32 0 src (replicate 12 0);
          pseudo = put32 4 dst pseudo;
          pseudo = pseudo[8 := 0, 9 := proto];
          pseudo = put16 10 (of_nat (length seg)) pseudo
      in fold_sum (add_words (add_words 0 pseudo) seg))"

definition sf_net_udp_checksum :: "u32 \<Rightarrow> u32 \<Rightarrow> bytes \<Rightarrow> u16" where
  "sf_net_udp_checksum src dst seg = pseudo_checksum SF_NET_UDP src dst seg"

definition sf_net_tcp_checksum :: "u32 \<Rightarrow> u32 \<Rightarrow> bytes \<Rightarrow> u16" where
  "sf_net_tcp_checksum src dst seg = pseudo_checksum SF_NET_TCP src dst seg"

definition sf_net_build_udp ::
  "bytes \<Rightarrow> bytes \<Rightarrow> u32 \<Rightarrow> u16 \<Rightarrow> u32 \<Rightarrow> u16 \<Rightarrow> bytes \<Rightarrow> bytes option" where
  "sf_net_build_udp src_mac dst_mac src sport dst dport payload =
     (let n = length payload in
      if n > SF_NET_PAYLOAD_MAX \<or> n > SF_NET_FRAME_MAX - (14 + 20 + 8) then None
      else let frame = ipv4_head dst_mac src_mac (of_nat (28 + n)) SF_NET_UDP src dst
                         (replicate (14 + 20 + 8 + n) 0);
               frame = put16 34 sport frame;
               frame = put16 36 dport frame;
               frame = put16 38 (of_nat (8 + n)) frame;
               frame = put_at 42 payload frame;
               checksum = sf_net_udp_checksum src dst (segment 34 (8 + n) frame)
           in Some (put16 40 (if checksum \<noteq> 0 then checksum else 0xffff) frame))"

definition sf_net_build_tcp ::
  "bytes \<Rightarrow> bytes \<Rightarrow> u32 \<Rightarrow> u16 \<Rightarrow> u32 \<Rightarrow> u16 \<Rightarrow> u32 \<Rightarrow> u32 \<Rightarrow> u8 \<Rightarrow> u16 \<Rightarrow> bytes \<Rightarrow> bytes option" where
  "sf_net_build_tcp src_mac dst_mac src sport dst dport seq ack flags window payload =
     (let n = length payload in
      if n > SF_NET_PAYLOAD_MAX \<or> n > SF_NET_FRAME_MAX - (14 + 20 + 20) then None
      else let frame = ipv4_head dst_mac src_mac (of_nat (40 + n)) SF_NET_TCP src dst
                         (replicate (14 + 20 + 20 + n) 0);
               frame = put16 34 sport frame;
               frame = put16 36 dport frame;
               frame = put32 38 seq frame;
               frame = put32 42 ack frame;
               frame = frame[46 := 0x50];
               frame = frame[47 := flags];
               frame = put16 48 window frame;
               frame = put_at 54 payload frame
           in Some (put16 50 (sf_net_tcp_checksum src dst (segment 34 (20 + n) frame)) frame))"

section \<open>Parsing frames\<close>

definition sf_net_parse_arp_reply :: "bytes \<Rightarrow> nat \<Rightarrow> u32 \<Rightarrow> bytes option" where
  "sf_net_parse_arp_reply frame n expect_ip =
     (if n < 42 \<or> get16 frame 12 \<noteq> SF_NET_ARP then None
      else if get16 frame 14 \<noteq> 1 \<or> get16 frame 16 \<noteq> SF_NET_IPV4 \<or> frame ! 18 \<noteq> 6 \<or>
        frame ! 19 \<noteq> 4 \<or> get16 frame 20 \<noteq> 2 then None
      else if get32 frame 28 \<noteq> expect_ip then None
      else Some (segment 22 6 frame))"

text \<open>The header checks the IPv4 parsers share: \<open>need\<close> is the transport header's size;
  the result is the header length in bytes and the total length.\<close>

definition ipv4_check :: "bytes \<Rightarrow> nat \<Rightarrow> nat \<Rightarrow> u8 \<Rightarrow> u32 \<Rightarrow> (nat \<times> nat) option" where
  "ipv4_check frame n need proto expect_src =
     (if n < 34 + need \<or> get16 frame 12 \<noteq> SF_NET_IPV4 then None
      else let ihl = unat (frame ! 14 AND 15) in
        if drop_bit 4 (frame ! 14) \<noteq> 4 \<or> ihl < 5 \<or> 14 + ihl * 4 + need > n then None
        else let total_len = unat (get16 frame 16) in
          if total_len < ihl * 4 + need \<or> total_len > n - 14 then None
          else if get16 frame 20 AND 0x3fff \<noteq> 0 \<or> frame ! 23 \<noteq> proto \<or> get32 frame 26 \<noteq> expect_src \<or>
            sf_net_checksum 0 (segment 14 (ihl * 4) frame) \<noteq> 0 then None
          else Some (ihl * 4, total_len))"

definition sf_net_parse_icmp_reply :: "bytes \<Rightarrow> nat \<Rightarrow> u32 \<Rightarrow> u16 \<Rightarrow> bool" where
  "sf_net_parse_icmp_reply frame n expect_src seq =
     (case ipv4_check frame n 8 1 expect_src of
        None \<Rightarrow> False
      | Some (hl, total_len) \<Rightarrow>
          let icmp = 14 + hl in
          if frame ! icmp \<noteq> 0 \<or> frame ! (icmp + 1) \<noteq> 0 \<or> get16 frame (icmp + 4) \<noteq> SF_NET_ICMP_ID \<or>
            get16 frame (icmp + 6) \<noteq> seq then False
          else True)"

definition sf_net_parse_udp :: "bytes \<Rightarrow> nat \<Rightarrow> u32 \<Rightarrow> u16 \<Rightarrow> u16 \<Rightarrow> bytes option" where
  "sf_net_parse_udp frame n expect_src expect_sport expect_dport =
     (case ipv4_check frame n 8 SF_NET_UDP expect_src of
        None \<Rightarrow> None
      | Some (hl, total_len) \<Rightarrow>
          let udp = 14 + hl; len = unat (get16 frame (udp + 4)) in
          if len < 8 \<or> len > total_len - hl then None
          else let count = len - 8 in
            if count > SF_NET_PAYLOAD_MAX then None
            else if get16 frame udp \<noteq> expect_sport \<or> get16 frame (udp + 2) \<noteq> expect_dport then None
            else if get16 frame (udp + 6) \<noteq> 0 \<and>
              sf_net_udp_checksum (get32 frame 26) (get32 frame 30) (segment udp len frame) \<noteq> 0 then None
            else Some (segment (udp + 8) count frame))"

definition sf_net_parse_tcp ::
  "bytes \<Rightarrow> nat \<Rightarrow> u32 \<Rightarrow> u16 \<Rightarrow> u16 \<Rightarrow> (u32 \<times> u32 \<times> u8 \<times> u16 \<times> bytes) option" where
  "sf_net_parse_tcp frame n expect_src expect_sport expect_dport =
     (case ipv4_check frame n 20 SF_NET_TCP expect_src of
        None \<Rightarrow> None
      | Some (hl, total_len) \<Rightarrow>
          let tcp = 14 + hl; seg = total_len - hl; offset = unat (drop_bit 4 (frame ! (tcp + 12))) * 4 in
          if offset < 20 \<or> hl + offset > total_len then None
          else if get16 frame tcp \<noteq> expect_sport \<or> get16 frame (tcp + 2) \<noteq> expect_dport then None
          else if sf_net_tcp_checksum (get32 frame 26) (get32 frame 30) (segment tcp seg frame) \<noteq> 0 then None
          else let count = seg - offset in
            if count > SF_NET_PAYLOAD_MAX then None
            else Some (get32 frame (tcp + 4), get32 frame (tcp + 8), frame ! (tcp + 13),
                       get16 frame (tcp + 14), segment (tcp + offset) count frame))"

end
