(* ===== verification/SF_Net_Correct.thy ===== *)
theory SF_Net_Correct
  imports SF_Net
begin

text \<open>
  Correctness of the network framing: what the builders write the parsers accept and
  return, the parsers stay inside the received bytes, and the textual form of IPv4
  addresses.
\<close>

section \<open>The IPv4 header\<close>

lemma head_fields:
  fixes dst_mac src_mac :: bytes and tot :: u16 and proto :: u8 and src dst :: u32 and m i :: nat
  assumes "length dst_mac = 6" "length src_mac = 6" "34 \<le> m"
  defines "f \<equiv> ipv4_head dst_mac src_mac tot proto src dst (replicate m 0)"
  shows "length f = m" "get16 f 12 = SF_NET_IPV4" "f ! 14 = 0x45" "get16 f 16 = tot"
    "get16 f 20 = 0x4000" "f ! 23 = proto" "get32 f 26 = src" "get32 f 30 = dst"
    "sf_net_checksum 0 (segment 14 20 f) = 0" "34 \<le> i \<Longrightarrow> i < m \<Longrightarrow> f ! i = 0"
proof -
  note d = f_def ipv4_head_def Let_def
  show l: "length f = m" using assms(1-3) by (simp add: d)
  show "get16 f 12 = SF_NET_IPV4" "f ! 14 = 0x45" "get16 f 16 = tot"
    "get16 f 20 = 0x4000" "f ! 23 = proto" "get32 f 26 = src" "get32 f 30 = dst"
    using assms(1-3) by (simp_all add: d buffer_simps)
  show "34 \<le> i \<Longrightarrow> i < m \<Longrightarrow> f ! i = 0" using assms(1-3) by (simp add: d buffer_simps)
  define g where "g = put32 30 dst (put32 26 src ((put16 20 0x4000 (put16 18 1 (put16 16 tot
    ((put16 12 SF_NET_IPV4 (put_at 6 src_mac (put_at 0 dst_mac (replicate m 0))))[14 := 0x45]))))
      [22 := 64, 23 := proto]))"
  have f: "f = put16 24 (sf_net_checksum 0 (segment 14 20 g)) g" by (simp add: d g_def)
  have g: "length g = m" "g ! 24 = 0" "g ! 25 = 0" using assms(1-3) by (simp_all add: g_def buffer_simps)
  have "fold_sum (add_words 0 (put16 10 (sf_net_checksum 0 (segment 14 20 g)) (segment 14 20 g))) = 0"
    using g assms(3) by (intro checksum_verifies) (simp_all add: sf_net_checksum_def)
  then show "sf_net_checksum 0 (segment 14 20 f) = 0"
    by (simp add: f segment_inside sf_net_checksum_def)
qed

lemma head_accepted:
  assumes "length dst_mac = 6" "length src_mac = 6" "34 \<le> m"
    and "take 34 f = take 34 (ipv4_head dst_mac src_mac tot proto src dst (replicate m 0))"
    and "34 + need \<le> n" "20 + need \<le> unat tot" "unat tot \<le> n - 14"
  shows "ipv4_check f n need proto src = Some (20, unat tot)" "get32 f 26 = src" "get32 f 30 = dst"
proof -
  let ?g = "ipv4_head dst_mac src_mac tot proto src dst (replicate m 0)"
  note h = head_fields[OF assms(1-3), where tot = tot and proto = proto and src = src and dst = dst]
  have get: "get16 f i = get16 ?g i" if "i + 1 < 34" for i using that assms(4) by (metis get_take(1))
  have get32: "get32 f i = get32 ?g i" if "i + 3 < 34" for i using that assms(4) by (metis get_take(2))
  have nth: "f ! i = ?g ! i" if "i < 34" for i using that assms(4) by (metis nth_take)
  have seg: "segment 14 20 f = segment 14 20 ?g"
    using assms(4) segment_take[of 14 20 34 f] segment_take[of 14 20 34 ?g] by simp
  show "get32 f 26 = src" "get32 f 30 = dst" using h by (simp_all add: get32)
  show "ipv4_check f n need proto src = Some (20, unat tot)"
    using assms(5-7) h by (simp add: ipv4_check_def get get32 nth seg)
qed

section \<open>Round trips\<close>

lemma pseudo_verifies:
  assumes "even i" "i + 1 < length seg" "seg ! i = 0" "seg ! (i + 1) = 0" "length seg < 65536"
    and "c = pseudo_checksum proto src dst seg \<or> pseudo_checksum proto src dst seg = 0 \<and> c = 0xffff"
  shows "pseudo_checksum proto src dst (put16 i c seg) = 0"
proof -
  let ?p = "put16 10 (of_nat (length seg)) ((put32 4 dst (put32 0 src (replicate 12 0)))[8 := 0, 9 := proto])"
  have "wsum ?p \<le> 65535 * 6" using wsum_bound[of ?p] by simp
  then have "unat (add_words 0 ?p) \<le> 65535 * 6" using unat_add_words[of 0 ?p] by simp
  moreover have "(length seg + 1) div 2 \<le> 32768" using assms(5) by linarith
  ultimately have "unat (add_words 0 ?p) + 65535 * ((length seg + 1) div 2) < 4294967296" by linarith
  then show ?thesis
    using assms(6) unfolding pseudo_checksum_def Let_def
    by (subst length_put16) (rule checksum_verifies[OF assms(1-4)], assumption+)
qed

lemma unat_of_nat_u16: "n < 65536 \<Longrightarrow> unat (of_nat n :: u16) = n"
  by (simp add: unat_of_nat)

text \<open>C13: a UDP frame built from any addresses, ports and payload of at most 248 bytes is
  accepted by the parser for that sender and those ports, and yields the payload;
  in particular the IPv4 and UDP checksums the builder writes always verify, also when
  the UDP sum folds to zero.\<close>

theorem udp_roundtrip:
  assumes "length src_mac = 6" "length dst_mac = 6" "length payload \<le> SF_NET_PAYLOAD_MAX"
  shows "\<exists>f. sf_net_build_udp src_mac dst_mac src sport dst dport payload = Some f \<and>
    length f = 42 + length payload \<and> sf_net_parse_udp f (length f) src sport dport = Some payload"
proof -
  let ?n = "length payload"
  have n: "?n \<le> 248" using assms(3) by (simp add: SF_NET_PAYLOAD_MAX_def)
  define f0 where "f0 = ipv4_head dst_mac src_mac (of_nat (28 + ?n)) SF_NET_UDP src dst (replicate (42 + ?n) 0)"
  have h: "length f0 = 42 + ?n" "\<And>i. 34 \<le> i \<Longrightarrow> i < 42 + ?n \<Longrightarrow> f0 ! i = 0"
    using head_fields(1,10)[OF assms(2,1), of "42 + ?n"] unfolding f0_def by simp_all
  define f1 where "f1 = put_at 42 payload (put16 38 (of_nat (8 + ?n)) (put16 36 dport (put16 34 sport f0)))"
  define ck where "ck = sf_net_udp_checksum src dst (segment 34 (8 + ?n) f1)"
  define c where "c = (if ck \<noteq> 0 then ck else 0xffff)"
  have b: "sf_net_build_udp src_mac dst_mac src sport dst dport payload = Some (put16 40 c f1)"
    using n by (simp add: sf_net_build_udp_def SF_NET_PAYLOAD_MAX_def SF_NET_FRAME_MAX_def Let_def
      c_def ck_def f1_def f0_def)
  have l: "length f1 = 42 + ?n" using h(1) by (simp add: f1_def)
  have z: "f1 ! 40 = 0" "f1 ! 41 = 0" using h by (simp_all add: f1_def buffer_simps)
  have "pseudo_checksum SF_NET_UDP src dst (put16 6 c (segment 34 (8 + ?n) f1)) = 0"
    using l z n by (intro pseudo_verifies) (auto simp: c_def ck_def sf_net_udp_checksum_def)
  then have ok: "sf_net_udp_checksum src dst (segment 34 (8 + ?n) (put16 40 c f1)) = 0"
    by (simp add: segment_inside sf_net_udp_checksum_def)
  have "take 34 (put16 40 c f1) = take 34 f0" using h(1) by (simp add: f1_def buffer_simps)
  note a = head_accepted[OF assms(2,1) _ this[unfolded f0_def], of 8 "42 + ?n"]
  have "unat (of_nat (28 + ?n) :: u16) = 28 + ?n" "unat (of_nat (8 + ?n) :: u16) = 8 + ?n"
    using n by (simp_all only: unat_of_nat_u16)
  then have "sf_net_parse_udp (put16 40 c f1) (42 + ?n) src sport dport = Some payload"
    using a h(1) n ok l
    by (simp add: sf_net_parse_udp_def SF_NET_PAYLOAD_MAX_def f1_def buffer_simps)
  then show ?thesis using b l by simp
qed

theorem udp_roundtrip_witness:
  "\<exists>f. sf_net_build_udp (replicate 6 1) (replicate 6 2) 0x0a00020f 40001 0x0a000202 53 [1, 2, 3] = Some f \<and>
    length f = 42 + length [1, 2, 3 :: u8] \<and>
    sf_net_parse_udp f (length f) 0x0a00020f 40001 53 = Some [1, 2, 3]"
  by (rule udp_roundtrip) (simp_all add: SF_NET_PAYLOAD_MAX_def)

text \<open>C14: a TCP segment built with any ports, numbers, flags, window and payload of at most
  248 bytes is accepted by the parser, which returns exactly these fields.\<close>

theorem tcp_roundtrip:
  assumes "length src_mac = 6" "length dst_mac = 6" "length payload \<le> SF_NET_PAYLOAD_MAX"
  shows "\<exists>f. sf_net_build_tcp src_mac dst_mac src sport dst dport seq ack flags window payload = Some f \<and>
    length f = 54 + length payload \<and>
    sf_net_parse_tcp f (length f) src sport dport = Some (seq, ack, flags, window, payload)"
proof -
  let ?n = "length payload"
  have n: "?n \<le> 248" using assms(3) by (simp add: SF_NET_PAYLOAD_MAX_def)
  define f0 where "f0 = ipv4_head dst_mac src_mac (of_nat (40 + ?n)) SF_NET_TCP src dst (replicate (54 + ?n) 0)"
  have h: "length f0 = 54 + ?n" "\<And>i. 34 \<le> i \<Longrightarrow> i < 54 + ?n \<Longrightarrow> f0 ! i = 0"
    using head_fields(1,10)[OF assms(2,1), of "54 + ?n"] unfolding f0_def by simp_all
  define f1 where "f1 = put_at 54 payload (put16 48 window ((put32 42 ack (put32 38 seq
    (put16 36 dport (put16 34 sport f0))))[46 := 0x50, 47 := flags]))"
  define c where "c = sf_net_tcp_checksum src dst (segment 34 (20 + ?n) f1)"
  have b: "sf_net_build_tcp src_mac dst_mac src sport dst dport seq ack flags window payload = Some (put16 50 c f1)"
    using n by (simp add: sf_net_build_tcp_def SF_NET_PAYLOAD_MAX_def SF_NET_FRAME_MAX_def Let_def
      c_def f1_def f0_def)
  have l: "length f1 = 54 + ?n" using h(1) by (simp add: f1_def)
  have z: "f1 ! 50 = 0" "f1 ! 51 = 0" using h by (simp_all add: f1_def buffer_simps)
  have "pseudo_checksum SF_NET_TCP src dst (put16 16 c (segment 34 (20 + ?n) f1)) = 0"
    using l z n by (intro pseudo_verifies) (auto simp: c_def sf_net_tcp_checksum_def)
  then have ok: "sf_net_tcp_checksum src dst (segment 34 (20 + ?n) (put16 50 c f1)) = 0"
    by (simp add: segment_inside sf_net_tcp_checksum_def)
  have "take 34 (put16 50 c f1) = take 34 f0" using h(1) by (simp add: f1_def buffer_simps)
  note a = head_accepted[OF assms(2,1) _ this[unfolded f0_def], of 20 "54 + ?n"]
  have "unat (of_nat (40 + ?n) :: u16) = 40 + ?n" using n by (simp only: unat_of_nat_u16)
  then have "sf_net_parse_tcp (put16 50 c f1) (54 + ?n) src sport dport = Some (seq, ack, flags, window, payload)"
    using a h(1) n ok l
    by (simp add: sf_net_parse_tcp_def SF_NET_PAYLOAD_MAX_def f1_def buffer_simps)
  then show ?thesis using b l by simp
qed

theorem tcp_roundtrip_witness:
  "\<exists>f. sf_net_build_tcp (replicate 6 1) (replicate 6 2) 0x0a00020f 40002 0x0a000202 80 7 9 0x18 4096 [71] = Some f \<and>
    length f = 54 + length [71 :: u8] \<and>
    sf_net_parse_tcp f (length f) 0x0a00020f 40002 80 = Some (7, 9, 0x18, 4096, [71])"
  by (rule tcp_roundtrip) (simp_all add: SF_NET_PAYLOAD_MAX_def)

section \<open>Parsers stay inside the received bytes\<close>

lemma agree_reads:
  assumes "take n f = take n g"
  shows "i < n \<Longrightarrow> f ! i = g ! i" "i + 1 < n \<Longrightarrow> get16 f i = get16 g i"
    "i + 3 < n \<Longrightarrow> get32 f i = get32 g i" "a + m \<le> n \<Longrightarrow> segment a m f = segment a m g"
  using assms by (metis nth_take, metis get_take(1), metis get_take(2), metis segment_take)

lemma ipv4_check_bounds:
  "ipv4_check f n need proto src = Some (hl, tot) \<Longrightarrow>
   34 + need \<le> n \<and> 20 \<le> hl \<and> hl + need \<le> tot \<and> 14 + tot \<le> n"
  by (auto simp: ipv4_check_def Let_def split: if_splits)

lemma ipv4_check_agree:
  assumes "take n f = take n g"
  shows "ipv4_check f n need proto src = ipv4_check g n need proto src"
proof (cases "n < 34 + need")
  case False
  note r = agree_reads[OF assms]
  have "get16 f 12 = get16 g 12" "f ! 14 = g ! 14" "get16 f 16 = get16 g 16" "get16 f 20 = get16 g 20"
    "f ! 23 = g ! 23" "get32 f 26 = get32 g 26"
    using False by (simp_all add: r)
  moreover have "segment 14 k f = segment 14 k g" if "14 + k \<le> n" for k using that by (rule r(4))
  ultimately show ?thesis using False by (auto simp: ipv4_check_def Let_def)
qed (simp add: ipv4_check_def)

lemma udp_agree:
  assumes "take n f = take n g"
  shows "sf_net_parse_udp f n ip sp dp = sf_net_parse_udp g n ip sp dp"
proof (cases "ipv4_check g n 8 SF_NET_UDP ip")
  note r = agree_reads[OF assms] and c = ipv4_check_agree[OF assms]
  case (Some p)
  obtain hl tot where p: "p = (hl, tot)" by (cases p)
  note b = ipv4_check_bounds[OF Some[unfolded p]]
  have "get16 f (18 + hl) = get16 g (18 + hl)" "get16 f (14 + hl) = get16 g (14 + hl)"
    "get16 f (16 + hl) = get16 g (16 + hl)" "get16 f (20 + hl) = get16 g (20 + hl)"
    "get32 f 26 = get32 g 26" "get32 f 30 = get32 g 30"
    using b by (simp_all add: r)
  moreover have "segment (14 + hl) k f = segment (14 + hl) k g"
    "segment (22 + hl) (k - 8) f = segment (22 + hl) (k - 8) g"
    if "8 \<le> k" "k \<le> tot - hl" for k using b that by (auto intro: r(4))
  ultimately show ?thesis
    using Some by (auto simp: sf_net_parse_udp_def c p Let_def not_less not_le add.commute)
qed (simp add: sf_net_parse_udp_def ipv4_check_agree[OF assms])

lemma tcp_agree:
  assumes "take n f = take n g"
  shows "sf_net_parse_tcp f n ip sp dp = sf_net_parse_tcp g n ip sp dp"
proof (cases "ipv4_check g n 20 SF_NET_TCP ip")
  note r = agree_reads[OF assms] and c = ipv4_check_agree[OF assms]
  case (Some p)
  obtain hl tot where p: "p = (hl, tot)" by (cases p)
  note b = ipv4_check_bounds[OF Some[unfolded p]]
  have "get16 f (14 + hl) = get16 g (14 + hl)" "get16 f (16 + hl) = get16 g (16 + hl)"
    "get32 f (18 + hl) = get32 g (18 + hl)" "get32 f (22 + hl) = get32 g (22 + hl)"
    "f ! (26 + hl) = g ! (26 + hl)" "f ! (27 + hl) = g ! (27 + hl)" "get16 f (28 + hl) = get16 g (28 + hl)"
    "get32 f 26 = get32 g 26" "get32 f 30 = get32 g 30"
    using b by (simp_all add: r)
  moreover have "segment (14 + hl) (tot - hl) f = segment (14 + hl) (tot - hl) g"
    "hl + k \<le> tot \<Longrightarrow> segment (14 + hl + k) (tot - hl - k) f = segment (14 + hl + k) (tot - hl - k) g"
    for k using b by (auto intro: r(4))
  ultimately show ?thesis
    using Some by (simp add: sf_net_parse_tcp_def c p Let_def not_less not_le)
qed (simp add: sf_net_parse_tcp_def ipv4_check_agree[OF assms])

lemma icmp_agree:
  assumes "take n f = take n g"
  shows "sf_net_parse_icmp_reply f n ip sq = sf_net_parse_icmp_reply g n ip sq"
proof (cases "ipv4_check g n 8 1 ip")
  note r = agree_reads[OF assms] and c = ipv4_check_agree[OF assms]
  case (Some p)
  obtain hl tot where p: "p = (hl, tot)" by (cases p)
  note b = ipv4_check_bounds[OF Some[unfolded p]]
  have "f ! (14 + hl) = g ! (14 + hl)" "f ! (15 + hl) = g ! (15 + hl)"
    "get16 f (18 + hl) = get16 g (18 + hl)" "get16 f (20 + hl) = get16 g (20 + hl)"
    using b by (simp_all add: r)
  then show ?thesis using Some by (simp add: sf_net_parse_icmp_reply_def c p Let_def add.commute)
qed (simp add: sf_net_parse_icmp_reply_def ipv4_check_agree[OF assms])

lemma arp_agree:
  assumes "take n f = take n g"
  shows "sf_net_parse_arp_reply f n ip = sf_net_parse_arp_reply g n ip"
proof (cases "n < 42")
  case False
  note r = agree_reads[OF assms]
  have "get16 f 12 = get16 g 12" "get16 f 14 = get16 g 14" "get16 f 16 = get16 g 16" "f ! 18 = g ! 18"
    "f ! 19 = g ! 19" "get16 f 20 = get16 g 20" "get32 f 28 = get32 g 28" "segment 22 6 f = segment 22 6 g"
    using False by (simp_all add: r r(4)[of 22 6])
  then show ?thesis by (simp add: sf_net_parse_arp_reply_def)
qed (simp add: sf_net_parse_arp_reply_def)

lemma segment_at_most: "length (segment a k f) \<le> k"
  by (simp add: segment_def)

text \<open>C15: the frame parsers read only the received bytes: two buffers that agree on them
  give the same verdict and the same data, and the data never exceeds the 248-byte
  buffer it is copied to.\<close>

theorem net_parsers_in_bounds:
  assumes "take n f = take n g"
  shows "sf_net_parse_udp f n ip sp dp = sf_net_parse_udp g n ip sp dp \<and>
    sf_net_parse_tcp f n ip sp dp = sf_net_parse_tcp g n ip sp dp \<and>
    sf_net_parse_icmp_reply f n ip sq = sf_net_parse_icmp_reply g n ip sq \<and>
    sf_net_parse_arp_reply f n ip = sf_net_parse_arp_reply g n ip \<and>
    (\<forall>d. sf_net_parse_udp f n ip sp dp = Some d \<longrightarrow> length d \<le> SF_NET_PAYLOAD_MAX) \<and>
    (\<forall>s a fl w d. sf_net_parse_tcp f n ip sp dp = Some (s, a, fl, w, d) \<longrightarrow> length d \<le> SF_NET_PAYLOAD_MAX)"
proof (intro conjI allI impI)
  fix d assume "sf_net_parse_udp f n ip sp dp = Some d"
  then show "length d \<le> SF_NET_PAYLOAD_MAX"
    by (auto simp: sf_net_parse_udp_def Let_def not_less intro: order_trans[OF segment_at_most] split: if_splits option.splits)
next
  fix s a fl w d assume "sf_net_parse_tcp f n ip sp dp = Some (s, a, fl, w, d)"
  then show "length d \<le> SF_NET_PAYLOAD_MAX"
    by (auto simp: sf_net_parse_tcp_def Let_def not_less intro: order_trans[OF segment_at_most] split: if_splits option.splits)
qed (rule udp_agree[OF assms] tcp_agree[OF assms] icmp_agree[OF assms] arp_agree[OF assms])+

definition demo_frame :: bytes where
  "demo_frame = the (sf_net_build_udp (replicate 6 1) (replicate 6 2) 0x0a00020f 40001 0x0a000202 53 [1, 2, 3])"

theorem net_parsers_in_bounds_witness:
  "sf_net_parse_udp demo_frame 3 0 0 0 = sf_net_parse_udp (take 3 demo_frame) 3 0 0 0 \<and>
    sf_net_parse_tcp demo_frame 3 0 0 0 = sf_net_parse_tcp (take 3 demo_frame) 3 0 0 0 \<and>
    sf_net_parse_icmp_reply demo_frame 3 0 0 = sf_net_parse_icmp_reply (take 3 demo_frame) 3 0 0 \<and>
    sf_net_parse_arp_reply demo_frame 3 0 = sf_net_parse_arp_reply (take 3 demo_frame) 3 0"
proof -
  have "take 3 demo_frame = take 3 (take 3 demo_frame)" by simp
  from net_parsers_in_bounds[OF this] show ?thesis by blast
qed

section \<open>Textual addresses\<close>

definition ipv4_of :: "nat list \<Rightarrow> u32" where
  "ipv4_of vs = foldl (\<lambda>ip v. push_bit 8 ip OR of_nat v) 0 vs"

text \<open>One to three digits with a value of at most 255.\<close>

definition octet_text :: "bytes \<Rightarrow> bool" where
  "octet_text ds \<longleftrightarrow> (\<forall>c\<in>set ds. digit c) \<and> ds \<noteq> [] \<and> length ds \<le> 3 \<and> dec_value 0 ds \<le> 255"

lemma div10_zero: "(v::u32) div 10 = 0 \<longleftrightarrow> unat v < 10"
proof -
  have "v div 10 = 0 \<longleftrightarrow> unat (v div 10) = 0" by (simp only: unsigned_eq_0_iff)
  also have "unat (v div 10) = unat v div 10" by (simp add: unat_div)
  finally show ?thesis by (simp add: div_eq_0_iff)
qed

lemma reversed_digits_dec: "rev (reversed_digits v) = dec (unat v)"
proof (induction v rule: reversed_digits.induct)
  case (1 v)
  have m: "ucast (48 + v mod 10) = (48 + of_nat (unat v mod 10) :: u8)"
  proof -
    have "unat (48 + v mod 10) = 48 + unat v mod 10"
      by (simp add: unat_word_ariths unat_mod)
    then have "unat (ucast (48 + v mod 10) :: u8) = 48 + unat v mod 10"
      by (simp add: unat_ucast_mod)
    then show ?thesis using unat_digit[of "unat v mod 10"] by (simp add: word_unat_eq_iff)
  qed
  show ?case
  proof (cases "v div 10 = 0")
    case True
    then have "unat v < 10" by (simp only: div10_zero)
    then show ?thesis using True m by (subst reversed_digits.simps) (simp add: dec.simps[of "unat v"])
  next
    case False
    then have "\<not> unat v < 10" by (simp only: div10_zero not_False_eq_True)
    then show ?thesis using False m 1[OF False]
      by (subst reversed_digits.simps) (simp add: dec.simps[of "unat v"] unat_div)
  qed
qed


lemma ipv4_push_digit:
  fixes v :: u32
  assumes "digit c" "unat v \<le> 255"
  shows "unat (v * 10 + ucast (c - 48)) = unat v * 10 + digit_value c"
    and "v * 10 + ucast (c - 48) > 255 \<longleftrightarrow> 255 < unat v * 10 + digit_value c"
proof -
  have d: "unat (ucast (c - 48 :: u8) :: u32) = digit_value c" by (simp add: digit_value_def unat_ucast_up)
  show e: "unat (v * 10 + ucast (c - 48)) = unat v * 10 + digit_value c"
    using assms(2) digit_value_less[OF assms(1)] by (simp add: unat_word_ariths d)
  show "v * 10 + ucast (c - 48) > 255 \<longleftrightarrow> 255 < unat v * 10 + digit_value c"
    by (simp only: word_less_nat_alt e) simp
qed

lemma ipv4_digits_value:
  "unat v \<le> 255 \<Longrightarrow> k \<le> 3 \<Longrightarrow> ipv4_digits v k cs =
     (let ds = takeWhile digit cs in
      if k + length ds \<le> 3 \<and> dec_value (unat v) ds \<le> 255
      then Some (of_nat (dec_value (unat v) ds), k + length ds, dropWhile digit cs) else None)"
proof (induction v k cs rule: ipv4_digits.induct)
  case (2 v k c cs)
  show ?case
  proof (cases "digit c \<and> k \<noteq> 3 \<and> unat v * 10 + digit_value c \<le> 255")
    case True
    then show ?thesis using 2 ipv4_push_digit[of c v] by (simp add: Let_def)
  next
    case False
    show ?thesis
    proof (cases "digit c \<and> k \<noteq> 3")
      case True
      then have "\<not> dec_value (unat v * 10 + digit_value c) (takeWhile digit cs) \<le> 255"
        using False dec_value_mono[of "unat v * 10 + digit_value c" "takeWhile digit cs"] by linarith
      then show ?thesis using True False ipv4_push_digit[of c v] 2(2) by (simp add: Let_def)
    next
      case no: False
      then show ?thesis using 2(2,3) by auto
    qed
  qed
qed simp

lemma ipv4_octet_iff:
  "ipv4_octet p = Some (v, rest) \<longleftrightarrow> (\<exists>ds. octet_text ds \<and> p = ds @ rest \<and> v = of_nat (dec_value 0 ds) \<and>
     (rest = [] \<or> \<not> digit (hd rest)))" (is "?L \<longleftrightarrow> ?R")
proof
  have iv: "ipv4_digits 0 0 p =
      (if length (takeWhile digit p) \<le> 3 \<and> dec_value 0 (takeWhile digit p) \<le> 255
      then Some (of_nat (dec_value 0 (takeWhile digit p)), length (takeWhile digit p), dropWhile digit p) else None)"
    using ipv4_digits_value[of 0 0 p] by (simp add: Let_def)
  assume L: ?L
  let ?ds = "takeWhile digit p"
  have "octet_text ?ds \<and> v = of_nat (dec_value 0 ?ds) \<and> rest = dropWhile digit p"
    using L[unfolded ipv4_octet_def iv]
    by (auto simp: octet_text_def dest: set_takeWhileD split: if_splits)
  then show ?R using hd_dropWhile[of digit p] by (intro exI[of _ ?ds]) auto
next
  assume ?R
  then obtain ds where d: "octet_text ds" "p = ds @ rest" "v = of_nat (dec_value 0 ds)" "rest = [] \<or> \<not> digit (hd rest)"
    by blast
  then have t: "takeWhile digit p = ds" "dropWhile digit p = rest" "digit (hd ds)"
    using takeWhile_digits_append[of ds rest] by (auto simp: octet_text_def)
  then show ?L using d ipv4_digits_value[of 0 0 p] by (auto simp: ipv4_octet_def Let_def octet_text_def)
qed

lemma ipv4_parts_dot:
  "k < 3 \<Longrightarrow> ipv4_parts (k # ks) ip p = Some (r, q) \<longleftrightarrow>
     (\<exists>v cs. ipv4_octet p = Some (v, 46 # cs) \<and> ipv4_parts ks (push_bit 8 ip OR v) cs = Some (r, q))"
  by (auto simp: Let_def split: option.splits list.splits)

lemma ipv4_parts_last:
  "ipv4_parts [3] ip p = Some (r, q) \<longleftrightarrow> (\<exists>v. ipv4_octet p = Some (v, q) \<and> r = push_bit 8 ip OR v)"
  by (auto simp: Let_def split: option.splits)

lemma ipv4_parse_octets:
  "sf_net_parse_ipv4 p = Ok ip \<longleftrightarrow> (\<exists>a b c d. octet_text a \<and> octet_text b \<and> octet_text c \<and> octet_text d \<and>
     p = a @ 46 # b @ 46 # c @ 46 # d \<and>
     ip = ipv4_of [dec_value 0 a, dec_value 0 b, dec_value 0 c, dec_value 0 d])"
proof -
  have "sf_net_parse_ipv4 p = Ok ip \<longleftrightarrow> ipv4_parts [0, 1, 2, 3] 0 p = Some (ip, [])"
    by (auto simp: sf_net_parse_ipv4_def split: option.splits if_splits)
  also have "\<dots> \<longleftrightarrow> (\<exists>a b c d. octet_text a \<and> octet_text b \<and> octet_text c \<and> octet_text d \<and>
     p = a @ 46 # b @ 46 # c @ 46 # d \<and>
     ip = ipv4_of [dec_value 0 a, dec_value 0 b, dec_value 0 c, dec_value 0 d])"
    by (auto simp: ipv4_parts_dot ipv4_parts_last ipv4_octet_iff ipv4_of_def not_digit_dot
        simp del: ipv4_parts.simps(2)) blast+
  finally show ?thesis .
qed


lemma octet_dec: "n \<le> 255 \<Longrightarrow> octet_text (dec n)"
  using dec_length[of n 3] dec_digits[of n] by (simp add: octet_text_def dec_value_dec)

lemma octets_join:
  "push_bit 8 (push_bit 8 (push_bit 8 (push_bit 8 0 OR (drop_bit 24 ip AND 255)) OR (drop_bit 16 ip AND 255)) OR
     (drop_bit 8 ip AND 255)) OR (ip AND 255) = (ip :: u32)" (is "?l = ip")
proof (rule bit_eqI)
  fix n
  have m: "(255 :: u32) = mask 8" by (simp add: mask_eq_exp_minus_1)
  show "bit ?l n = bit ip n"
    unfolding m
    by (cases "24 \<le> n"; cases "16 \<le> n"; cases "8 \<le> n") (auto simp: bit_simps dest: bit_word_lessD)
qed

text \<open>C16: the address parser accepts exactly four dot-separated groups of one to three digits
  with values up to 255 and nothing else, combining them most significant first; and
  it reads back every address the formatter writes.\<close>

theorem ipv4_text_correct:
  "(sf_net_parse_ipv4 p = Ok ip \<longleftrightarrow> (\<exists>a b c d. octet_text a \<and> octet_text b \<and> octet_text c \<and> octet_text d \<and>
      p = a @ 46 # b @ 46 # c @ 46 # d \<and>
      ip = ipv4_of [dec_value 0 a, dec_value 0 b, dec_value 0 c, dec_value 0 d])) \<and>
   sf_net_parse_ipv4 (sf_net_format_ipv4 ip) = Ok ip"
proof
  let ?o = "\<lambda>i. drop_bit (24 - 8 * i) ip AND 255"
  have o: "unat (?o i) \<le> 255" for i using word_and_le1[of "drop_bit (24 - 8 * i) ip" 255]
    by (simp add: word_le_nat_alt)
  have "ip = ipv4_of [unat (?o 0), unat (?o 1), unat (?o 2), unat (?o 3)]"
    using octets_join[of ip] by (simp add: ipv4_of_def)
  then show "sf_net_parse_ipv4 (sf_net_format_ipv4 ip) = Ok ip"
    unfolding ipv4_parse_octets
    by (intro exI[of _ "dec (unat (?o 0))"] exI[of _ "dec (unat (?o 1))"] exI[of _ "dec (unat (?o 2))"]
        exI[of _ "dec (unat (?o 3))"] conjI octet_dec o)
      (simp_all add: sf_net_format_ipv4_def ipv4_part_text_def reversed_digits_dec dec_value_dec)
qed (rule ipv4_parse_octets)

end
