(* ===== verification/SF_Kernel.thy ===== *)
theory SF_Kernel
  imports SF_Sched SF_Bytes
begin

text \<open>
  The state of the kernel (\<^verbatim>\<open>kernel/kernel.h\<close> and the file-scope variables of
  \<^verbatim>\<open>core.c\<close>, \<^verbatim>\<open>ipc.c\<close>, \<^verbatim>\<open>memory.c\<close> and \<^verbatim>\<open>device.c\<close>).  Physical memory is a function
  from addresses to bytes; page tables, the page pool and user pages live in it.
  Link-time addresses (the page pool, the kernel page directory, the DMA arena) are
  fields that no operation changes.
\<close>

section \<open>Constants\<close>

definition SF_BASE :: u64 where "SF_BASE = 0x40000000"
definition SF_USER_END :: u64 where "SF_USER_END = 0x80000000"
definition SF_IMAGE_MAX :: u64 where "SF_IMAGE_MAX = 0x200000"
definition SF_PIE_MIN :: u64 where "SF_PIE_MIN = 0x44000000"
definition SF_STACK :: u64 where "SF_STACK = 0x41010000"
definition SF_ARGS :: u64 where "SF_ARGS = 0x42000000"
definition SF_BUNDLE :: u64 where "SF_BUNDLE = 0x60000000"
definition SF_DMA :: u64 where "SF_DMA = 0x50000000"
definition SF_DMA_BYTES :: nat where "SF_DMA_BYTES = 65536"
definition SF_DEVICE_MMIO :: u32 where "SF_DEVICE_MMIO = 0x51000000"
definition SF_CAP_LIMIT_MAX :: u32 where "SF_CAP_LIMIT_MAX = 32"
definition SF_PAGE_LIMIT_MAX :: u32 where "SF_PAGE_LIMIT_MAX = 4096"
definition POOL_PAGES :: nat where "POOL_PAGES = 4096"
definition ENDPOINTS :: nat where "ENDPOINTS = 64"
definition SF_MSG_BYTES :: u32 where "SF_MSG_BYTES = 256"
definition MSG_SIZE :: nat where "MSG_SIZE = 328"
definition RIGHT_SEND :: u32 where "RIGHT_SEND = 1"
definition RIGHT_RECV :: u32 where "RIGHT_RECV = 2"
definition RIGHT_DELEGATE :: u32 where "RIGHT_DELEGATE = 4"

section \<open>Tasks\<close>

datatype task_state = T_EMPTY | T_READY | T_BLOCKED | T_DEAD

text \<open>The registers of the trap frame that kernel C code reads or writes; the other
  general registers are saved and restored by the entry stub only.\<close>

record Frame =
  fr_rax :: u64
  fr_rdi :: u64
  fr_rsi :: u64
  fr_rdx :: u64
  fr_vector :: u64
  fr_rip :: u64
  fr_cs :: u64
  fr_rflags :: u64
  fr_rsp :: u64
  fr_ss :: u64

record Cap =
  cp_endpoint :: u32
  cp_epoch :: u32
  cp_rights :: u32
  cp_generation :: u32

record Task =
  tk_pid :: u32
  tk_state :: task_state
  tk_wait_endpoint :: u32
  tk_exit_status :: "32 word"
  tk_cr3 :: u64
  tk_recv_buffer :: u64
  tk_wait_deadline :: u64
  tk_frame :: Frame
  tk_device_io :: u32
  tk_device_bdf :: u32
  tk_device_fault :: u32
  tk_device_modern :: u32
  tk_priority :: u32
  tk_cap_limit :: u32
  tk_page_limit :: u32
  tk_page_count :: u32
  tk_ready_since :: u64
  tk_caps :: "nat \<Rightarrow> Cap"

section \<open>Endpoints\<close>

text \<open>A message is the 328-byte image of \<^verbatim>\<open>SfMessage\<close>; its fields are read at the offsets
  of the C layout.\<close>

record Endpoint =
  ep_owner :: u32
  ep_epoch :: u32
  ep_head :: u32
  ep_count :: u32
  ep_queue :: "nat \<Rightarrow> bytes"

section \<open>Hardware\<close>

text \<open>Device registers are environment: every read consumes the next value of an
  arbitrary stream, every write is appended to a log.\<close>

datatype hw_write = Outb u16 u8 | Outw u16 u16 | Outl u16 u32 | MmioByte u64 u8
  | Mmio32 u32 u32 | Mmio64 u32 u64 | Serial bytes

record Hardware =
  hw_reads :: "nat \<Rightarrow> u64"
  hw_log :: "hw_write list"

section \<open>Devices\<close>

text \<open>The remapping tables of \<^verbatim>\<open>iommu.h\<close> and the variables of \<^verbatim>\<open>iommu.c\<close>; \<open>im_address\<close> is where
  the tables are linked.\<close>

record SfVtdTables =
  vt_root :: "nat \<Rightarrow> u64"
  vt_context :: "nat \<Rightarrow> u64"
  vt_level3 :: "nat \<Rightarrow> u64"
  vt_level2 :: "nat \<Rightarrow> u64"
  vt_level1 :: "nat \<Rightarrow> u64"

record Iommu =
  im_mode :: u32
  im_iotlb_offset :: u32
  im_fault_offset :: u32
  im_fault_records :: u32
  im_capability :: u64
  im_covered :: "nat \<Rightarrow> u8"
  im_active_bdf :: u32
  im_tables :: SfVtdTables
  im_address :: u64

record SfDmaStatus =
  ds_size :: u32
  ds_mode :: u32
  ds_owner :: u32
  ds_faults :: u32
  ds_last_address :: u64
  ds_probe_address :: u64
  ds_source :: u32
  ds_reason :: u32
  ds_guard_intact :: u32
  ds_active_mapping :: u32

text \<open>The keyboard ring of \<^verbatim>\<open>arch.c\<close>.\<close>

record Console =
  cs_input :: "nat \<Rightarrow> u8"
  cs_head :: u32
  cs_count :: u32
  cs_overflow :: bool

section \<open>The kernel\<close>

record Kernel =
  ks_tasks :: "nat \<Rightarrow> Task"
  ks_current :: int
  ks_ticks :: u64
  ks_next_pid :: u32
  ks_endpoints :: "nat \<Rightarrow> Endpoint"
  ks_send_bytes :: u64
  ks_receive_bytes :: u64
  ks_phys :: "nat \<Rightarrow> u8"
  ks_page_owner :: "nat \<Rightarrow> u32"
  ks_mmio_ready :: bool
  ks_pool :: nat
  ks_kernel_pd :: nat
  ks_mmio_pd :: nat
  ks_dma :: nat
  ks_bundle_phys :: u64
  ks_bundle_bytes :: u64
  ks_device_owner :: u32
  ks_quarantined :: bool
  ks_hw :: Hardware
  ks_device_pt :: nat
  ks_boot_mmio_pd :: nat
  ks_guard :: nat
  ks_kernel_end :: u64
  ks_iommu :: Iommu
  ks_dma_status :: SfDmaStatus
  ks_console :: Console
  ks_mmio_pt :: nat

definition put_task :: "nat \<Rightarrow> Task \<Rightarrow> Kernel \<Rightarrow> Kernel" where
  "put_task i t ks = ks\<lparr>ks_tasks := (ks_tasks ks)(i := t)\<rparr>"

definition put_endpoint :: "nat \<Rightarrow> Endpoint \<Rightarrow> Kernel \<Rightarrow> Kernel" where
  "put_endpoint i e ks = ks\<lparr>ks_endpoints := (ks_endpoints ks)(i := e)\<rparr>"

definition put_cap :: "nat \<Rightarrow> nat \<Rightarrow> Cap \<Rightarrow> Kernel \<Rightarrow> Kernel" where
  "put_cap i k c ks =
     put_task i ((ks_tasks ks i)\<lparr>tk_caps := (tk_caps (ks_tasks ks i))(k := c)\<rparr>) ks"

text \<open>A task that runs or waits.\<close>

definition alive :: "Task \<Rightarrow> bool" where
  "alive t \<longleftrightarrow> tk_state t = T_READY \<or> tk_state t = T_BLOCKED"

lemma put_task_simps [simp]:
  "ks_tasks (put_task i t ks) = (ks_tasks ks)(i := t)"
  "ks_endpoints (put_task i t ks) = ks_endpoints ks"
  "ks_current (put_task i t ks) = ks_current ks"
  "ks_ticks (put_task i t ks) = ks_ticks ks"
  "ks_next_pid (put_task i t ks) = ks_next_pid ks"
  "ks_phys (put_task i t ks) = ks_phys ks"
  "ks_page_owner (put_task i t ks) = ks_page_owner ks"
  "ks_pool (put_task i t ks) = ks_pool ks"
  "ks_dma (put_task i t ks) = ks_dma ks"
  "ks_device_owner (put_task i t ks) = ks_device_owner ks"
  "ks_quarantined (put_task i t ks) = ks_quarantined ks"
  "ks_send_bytes (put_task i t ks) = ks_send_bytes ks"
  "ks_receive_bytes (put_task i t ks) = ks_receive_bytes ks"
  by (simp_all add: put_task_def)

lemma put_endpoint_simps [simp]:
  "ks_endpoints (put_endpoint i e ks) = (ks_endpoints ks)(i := e)"
  "ks_tasks (put_endpoint i e ks) = ks_tasks ks"
  "ks_current (put_endpoint i e ks) = ks_current ks"
  "ks_ticks (put_endpoint i e ks) = ks_ticks ks"
  "ks_next_pid (put_endpoint i e ks) = ks_next_pid ks"
  "ks_phys (put_endpoint i e ks) = ks_phys ks"
  "ks_page_owner (put_endpoint i e ks) = ks_page_owner ks"
  "ks_pool (put_endpoint i e ks) = ks_pool ks"
  "ks_dma (put_endpoint i e ks) = ks_dma ks"
  "ks_device_owner (put_endpoint i e ks) = ks_device_owner ks"
  "ks_quarantined (put_endpoint i e ks) = ks_quarantined ks"
  by (simp_all add: put_endpoint_def)

end
