(* ===== verification/SF_Memory.thy ===== *)
theory SF_Memory
  imports SF_Kernel
begin

text \<open>
  Physical pages and address spaces (\<^verbatim>\<open>kernel/memory.c\<close>): the page pool with its
  per-task quota, the page-table walk, mapping, the range check and the two copy
  routines.  Pointers are physical addresses; \<open>None\<close> is the null pointer.
\<close>

section \<open>Memory words\<close>

text \<open>A little-endian 64-bit load and store.\<close>

definition rd64 :: "(nat \<Rightarrow> u8) \<Rightarrow> nat \<Rightarrow> u64" where
  "rd64 m a = word_rcat (rev (map (\<lambda>i. m (a + i)) [0..<8]))"

definition wr64 :: "nat \<Rightarrow> u64 \<Rightarrow> (nat \<Rightarrow> u8) \<Rightarrow> nat \<Rightarrow> u8" where
  "wr64 a v m = (\<lambda>x. if a \<le> x \<and> x < a + 8 then ucast (drop_bit (8 * (x - a)) v) else m x)"

definition store :: "nat \<Rightarrow> bytes \<Rightarrow> (nat \<Rightarrow> u8) \<Rightarrow> nat \<Rightarrow> u8" where
  "store a bs m = (\<lambda>x. if a \<le> x \<and> x < a + length bs then bs ! (x - a) else m x)"

definition load :: "nat \<Rightarrow> nat \<Rightarrow> (nat \<Rightarrow> u8) \<Rightarrow> bytes" where
  "load a n m = map (\<lambda>i. m (a + i)) [0..<n]"

definition set_phys :: "((nat \<Rightarrow> u8) \<Rightarrow> nat \<Rightarrow> u8) \<Rightarrow> Kernel \<Rightarrow> Kernel" where
  "set_phys f ks = ks\<lparr>ks_phys := f (ks_phys ks)\<rparr>"

text \<open>The address bits of a page-table entry.\<close>

definition frame_addr :: "u64 \<Rightarrow> nat" where
  "frame_addr e = unat (e AND 0x000ffffffffff000)"

text \<open>The address of pool page \<open>i\<close>.\<close>

definition pool_addr :: "Kernel \<Rightarrow> nat \<Rightarrow> nat" where
  "pool_addr ks i = ks_pool ks + 4096 * i"

section \<open>The page pool\<close>

definition page_owner :: "Kernel \<Rightarrow> u32 \<Rightarrow> nat option" where
  "page_owner ks pid =
     (if pid = 0 \<or> pid > 0x7fffffff then None
      else first_index (\<lambda>i. tk_pid (ks_tasks ks i) = pid \<and>
        (tk_state (ks_tasks ks i) = T_EMPTY \<or> tk_state (ks_tasks ks i) = T_READY \<or>
         tk_state (ks_tasks ks i) = T_BLOCKED)) SF_MAX_TASKS)"

definition page_alloc :: "Kernel \<Rightarrow> u32 \<Rightarrow> nat option \<times> Kernel" where
  "page_alloc ks pid =
     (case page_owner ks pid of
        None \<Rightarrow> (None, ks)
      | Some ti \<Rightarrow>
          let t = ks_tasks ks ti in
          if tk_page_count t \<ge> tk_page_limit t then (None, ks)
          else case first_index (\<lambda>i. ks_page_owner ks i = 0) POOL_PAGES of
            None \<Rightarrow> (None, ks)
          | Some i \<Rightarrow>
              (Some (pool_addr ks i),
               set_phys (store (pool_addr ks i) (replicate 4096 0))
                 (put_task ti (t\<lparr>tk_page_count := tk_page_count t + 1\<rparr>)
                   (ks\<lparr>ks_page_owner := (ks_page_owner ks)(i := pid)\<rparr>))))"

definition free_page :: "u32 \<Rightarrow> nat \<Rightarrow> Kernel \<Rightarrow> Kernel" where
  "free_page pid i ks =
     (if ks_page_owner ks i = pid
      then (set_phys (store (pool_addr ks i) (replicate 4096 0)) ks)
             \<lparr>ks_page_owner := (ks_page_owner ks)(i := 0)\<rparr>
      else ks)"

definition clear_page_count :: "u32 \<Rightarrow> nat \<Rightarrow> Kernel \<Rightarrow> Kernel" where
  "clear_page_count pid i ks =
     (if tk_pid (ks_tasks ks i) = pid
      then put_task i ((ks_tasks ks i)\<lparr>tk_page_count := 0\<rparr>) ks else ks)"

definition pages_free :: "Kernel \<Rightarrow> u32 \<Rightarrow> Kernel" where
  "pages_free ks pid =
     (if pid = 0 \<or> pid > 0x7fffffff then ks
      else fold (clear_page_count pid) [0..<SF_MAX_TASKS] (fold (free_page pid) [0..<POOL_PAGES] ks))"

section \<open>Address spaces\<close>

definition init_kernel_pd :: "Kernel \<Rightarrow> Kernel" where
  "init_kernel_pd ks =
     (if rd64 (ks_phys ks) (ks_kernel_pd ks) = 0
      then fold (\<lambda>i. set_phys (wr64 (ks_kernel_pd ks + 8 * i) (of_nat i * 0x200000 OR 0x83))) [0..<512] ks
      else ks)"

definition space_new :: "Kernel \<Rightarrow> u32 \<Rightarrow> nat option \<times> Kernel" where
  "space_new ks pid =
     (let ks = init_kernel_pd ks;
          (p4, ks) = page_alloc ks pid;
          (p3, ks) = page_alloc ks pid
      in case (p4, p3) of
           (Some p4, Some p3) \<Rightarrow>
             let ks = set_phys (wr64 p4 (of_nat p3 OR 7)) ks;
                 ks = set_phys (wr64 p3 (of_nat (ks_kernel_pd ks) OR 3)) ks;
                 ks = (if ks_mmio_ready ks
                       then set_phys (wr64 (p3 + 24) (of_nat (ks_mmio_pd ks) OR 3)) ks else ks)
             in (Some p4, ks)
         | _ \<Rightarrow> (None, ks))"

text \<open>One level of the walk: the table behind the entry at \<open>ea\<close>, made on demand.\<close>

definition next_table :: "Kernel \<Rightarrow> u32 \<Rightarrow> nat \<Rightarrow> bool \<Rightarrow> nat option \<times> Kernel" where
  "next_table ks pid ea create =
     (if \<not> bit (rd64 (ks_phys ks) ea) 0 then
        if \<not> create then (None, ks)
        else case page_alloc ks pid of
          (None, ks) \<Rightarrow> (None, ks)
        | (Some p, ks) \<Rightarrow>
            let ks = set_phys (wr64 ea (of_nat p OR 7)) ks
            in (Some (frame_addr (rd64 (ks_phys ks) ea)), ks)
      else (Some (frame_addr (rd64 (ks_phys ks) ea)), ks))"

definition pte :: "Kernel \<Rightarrow> nat \<Rightarrow> u64 \<Rightarrow> bool \<Rightarrow> nat option \<times> Kernel" where
  "pte ks ti v create =
     (if v < SF_BASE \<or> v \<ge> SF_USER_END then (None, ks)
      else let t = ks_tasks ks ti;
               p3 = frame_addr (rd64 (ks_phys ks) (unat (tk_cr3 t)));
               a = unat (drop_bit 30 v); b = unat (drop_bit 21 v AND 511); c = unat (drop_bit 12 v AND 511)
           in case next_table ks (tk_pid t) (p3 + 8 * a) create of
                (None, ks) \<Rightarrow> (None, ks)
              | (Some p2, ks) \<Rightarrow>
                  (case next_table ks (tk_pid t) (p2 + 8 * b) create of
                     (None, ks) \<Rightarrow> (None, ks)
                   | (Some p1, ks) \<Rightarrow> (Some (p1 + 8 * c), ks)))"

definition PTE_MMIO :: u64 where "PTE_MMIO = push_bit 9 1"
definition NX :: u64 where "NX = push_bit 63 1"

definition space_map :: "Kernel \<Rightarrow> nat \<Rightarrow> u64 \<Rightarrow> u64 \<Rightarrow> u32 \<Rightarrow> unit res \<times> Kernel" where
  "space_map ks ti v physical flags =
     (if (v OR physical) AND 4095 \<noteq> 0 \<or> \<not> bit flags 0 \<or> flags AND 6 = 6 then (Err SF_DENIED, ks)
      else case pte ks ti v True of
        (None, ks) \<Rightarrow> (Err SF_NO_SPACE, ks)
      | (Some p, ks) \<Rightarrow>
          if bit (rd64 (ks_phys ks) p) 0 then (Err SF_INVALID, ks)
          else (Ok (), set_phys (wr64 p (physical OR 5 OR (if bit flags 1 then 2 else 0) OR
                 (if bit flags 2 then 0 else NX))) ks))"

definition space_map_mmio :: "Kernel \<Rightarrow> nat \<Rightarrow> u64 \<Rightarrow> u64 \<Rightarrow> unit res \<times> Kernel" where
  "space_map_mmio ks ti v physical =
     (case space_map ks ti v physical 3 of
        (Ok _, ks) \<Rightarrow>
          (case fst (pte ks ti v False) of
             Some p \<Rightarrow> (Ok (), set_phys (wr64 p (rd64 (ks_phys ks) p OR 0x18 OR PTE_MMIO)) ks)
           | None \<Rightarrow> (Ok (), ks))
      | (Err e, ks) \<Rightarrow> (Err e, ks))"

section \<open>User ranges and copies\<close>

definition page_ok :: "Kernel \<Rightarrow> nat \<Rightarrow> bool \<Rightarrow> u64 \<Rightarrow> bool" where
  "page_ok ks ti write a =
     (case fst (pte ks ti a False) of
        None \<Rightarrow> False
      | Some p \<Rightarrow> let e = rd64 (ks_phys ks) p in
          bit e 0 \<and> bit e 2 \<and> \<not> bit e 9 \<and> (write \<longrightarrow> bit e 1))"

definition user_range :: "Kernel \<Rightarrow> nat \<Rightarrow> u64 \<Rightarrow> u64 \<Rightarrow> bool \<Rightarrow> bool" where
  "user_range ks ti v n write =
     (if v < SF_BASE \<or> v \<ge> SF_USER_END \<or> n > SF_USER_END - v then False
      else if n = 0 then True
      else let start = v AND NOT 4095; last = (v + n - 1) AND NOT 4095
           in list_all (\<lambda>i. page_ok ks ti write (start + 4096 * of_nat i)) [0..<unat (last - start) div 4096 + 1])"

definition user_phys :: "Kernel \<Rightarrow> nat \<Rightarrow> u64 \<Rightarrow> nat option" where
  "user_phys ks ti v =
     (case fst (pte ks ti v False) of
        None \<Rightarrow> None
      | Some p \<Rightarrow> let e = rd64 (ks_phys ks) p in
          if bit e 0 then Some (frame_addr e + unat (v AND 4095)) else None)"

text \<open>The chunk loops; \<open>None\<close> is a copy through a null translation.\<close>

function copy_in_loop :: "Kernel \<Rightarrow> nat \<Rightarrow> u64 \<Rightarrow> nat \<Rightarrow> bytes option" where
  "copy_in_loop ks ti src n =
     (if n = 0 then Some []
      else let k = min (4096 - unat (src AND 4095)) n
           in case user_phys ks ti src of
                None \<Rightarrow> None
              | Some p \<Rightarrow> map_option (\<lambda>bs. load p k (ks_phys ks) @ bs)
                            (copy_in_loop ks ti (src + of_nat k) (n - k)))"
  by pat_completeness auto

lemma page_offset: "unat ((v::u64) AND 4095) = unat v mod 4096"
proof -
  have "v AND 4095 = take_bit 12 v" by (simp add: take_bit_eq_mask mask_eq_exp_minus_1)
  then show ?thesis by (simp add: take_bit_eq_mod unat_mod)
qed

termination copy_in_loop
  by (relation "measure (\<lambda>(_, _, _, n). n)") (auto simp: page_offset)

function copy_out_loop :: "Kernel \<Rightarrow> nat \<Rightarrow> u64 \<Rightarrow> bytes \<Rightarrow> Kernel option" where
  "copy_out_loop ks ti dst bs =
     (if bs = [] then Some ks
      else let k = min (4096 - unat (dst AND 4095)) (length bs)
           in case user_phys ks ti dst of
                None \<Rightarrow> None
              | Some p \<Rightarrow> copy_out_loop (set_phys (store p (take k bs)) ks) ti (dst + of_nat k) (drop k bs))"
  by pat_completeness auto

termination copy_out_loop
  by (relation "measure (\<lambda>(_, _, _, bs). length bs)") (auto simp: page_offset)

declare copy_in_loop.simps [simp del] copy_out_loop.simps [simp del]

definition copy_in :: "Kernel \<Rightarrow> nat \<Rightarrow> u64 \<Rightarrow> nat \<Rightarrow> bytes res option" where
  "copy_in ks ti src n =
     (if \<not> user_range ks ti src (of_nat n) False then Some (Err SF_DENIED)
      else map_option Ok (copy_in_loop ks ti src n))"

definition copy_out :: "Kernel \<Rightarrow> nat \<Rightarrow> u64 \<Rightarrow> bytes \<Rightarrow> (unit res \<times> Kernel) option" where
  "copy_out ks ti dst bs =
     (if \<not> user_range ks ti dst (of_nat (length bs)) True then Some (Err SF_DENIED, ks)
      else map_option (\<lambda>ks. (Ok (), ks)) (copy_out_loop ks ti dst bs))"

end
