(* ===== verification/SF_Memory_Inv.thy ===== *)
theory SF_Memory_Inv
  imports SF_Memory
begin

text \<open>
  The invariant of memory: every page of the pool has one owner and one role, page
  tables lead only to pages of the same owner, and a user mapping leads to the owner's
  data pages, to the DMA arena of the device owner, or read-only to the boot bundle.
  From it follow isolation of address spaces, the exactness of page quotas, and the
  correctness of the copy routines.
\<close>

section \<open>Memory words\<close>

lemma bit_rd64: "bit (rd64 m a) n \<longleftrightarrow> n < 64 \<and> bit (m (a + n div 8)) (n mod 8)"
proof (cases "n < 64")
  case True
  then have "n div 8 < 8" by (simp add: div_less_iff_less_mult)
  then show ?thesis using True
    bit_horner_sum_uint_exp_iff[of "map (\<lambda>i. m (a + i)) [0..<8]" n]
    by (simp add: rd64_def word_rcat_def bit_word_of_int_iff)
qed (auto dest: bit_word_lessD)

lemma rd64_cong: "(\<And>i. i < 8 \<Longrightarrow> m (a + i) = m' (a + i)) \<Longrightarrow> rd64 m a = rd64 m' a"
  unfolding rd64_def by (intro arg_cong[where f = word_rcat] arg_cong[where f = rev] map_cong) auto

lemma rd64_wr64_same [simp]: "rd64 (wr64 a v m) a = v"
proof (rule bit_eqI)
  fix n
  show "bit (rd64 (wr64 a v m) a) n \<longleftrightarrow> bit v n"
  proof (cases "n < 64")
    case True
    then have "n div 8 < 8" by (simp add: div_less_iff_less_mult)
    then show ?thesis using True by (simp add: bit_rd64 wr64_def bit_simps)
  qed (auto simp: bit_rd64 dest: bit_word_lessD)
qed

lemma rd64_wr64_other: "a + 8 \<le> b \<or> b + 8 \<le> a \<Longrightarrow> rd64 (wr64 b v m) a = rd64 m a"
  by (rule rd64_cong) (auto simp: wr64_def)

lemma rd64_store_other: "a + 8 \<le> p \<or> p + length bs \<le> a \<Longrightarrow> rd64 (store p bs m) a = rd64 m a"
  by (rule rd64_cong) (auto simp: store_def)

lemma rd64_store_zero: "p \<le> a \<Longrightarrow> a + 8 \<le> p + n \<Longrightarrow> rd64 (store p (replicate n 0) m) a = 0"
  by (rule bit_eqI) (auto simp: bit_rd64 store_def)

lemma frame_addr_eq: "frame_addr e = (unat e div 4096 mod 2 ^ 40) * 4096"
proof -
  have "e AND 0x000ffffffffff000 = push_bit 12 (take_bit 40 (drop_bit 12 e))"
  proof -
    have m: "(0x000ffffffffff000 :: u64) = push_bit 12 (mask 40)" by (simp add: mask_eq_exp_minus_1 push_bit_eq_mult)
    show ?thesis unfolding m by (rule bit_eqI) (auto simp: bit_simps)
  qed
  also have "unat \<dots> = (unat e div 4096 mod 2 ^ 40) * 4096"
  proof -
    have "unat e div 4096 mod 2 ^ 40 * 4096 < 2 ^ 64"
      by (rule order_less_le_trans[of _ "2 ^ 40 * 4096"]) simp_all
    moreover have "unat (take_bit 40 (drop_bit 12 e)) = unat e div 4096 mod 2 ^ 40"
      by (simp add: take_bit_eq_mod drop_bit_eq_div unat_mod unat_div)
    ultimately show ?thesis by (simp add: push_bit_eq_mult unat_word_ariths)
  qed
  finally show ?thesis by (simp add: frame_addr_def)
qed

lemma nat_or_low: "a mod 4096 = 0 \<Longrightarrow> f < 4096 \<Longrightarrow> a OR f = a + (f :: nat)"
proof -
  assume "a mod 4096 = 0" and f: "f < 4096"
  then have a: "a = push_bit 12 (a div 4096)" using div_mult_mod_eq[of a 4096] by (simp add: push_bit_eq_mult)
  have "\<not> (bit a n \<and> bit f n)" for n
  proof (cases "n < 12")
    case True
    then show ?thesis by (subst a) (simp add: bit_push_bit_iff)
  next
    case False
    have "f < 2 ^ 12" using f by simp
    also have "(2::nat) ^ 12 \<le> 2 ^ n" using False by (intro power_increasing) auto
    finally show ?thesis by (simp add: bit_iff_odd)
  qed
  then show ?thesis by (intro disjunctive_add[symmetric]) blast
qed

lemma unat_or_low:
  assumes "a mod 4096 = 0" "f < 4096" "a + f < 2 ^ 64"
  shows "unat (of_nat a OR of_nat f :: u64) = a + f"
  using assms nat_or_low[of a f] by (simp add: unsigned_or_eq unat_of_nat)

lemma frame_addr_or:
  assumes "a mod 4096 = 0" "f < 4096" "a < 2 ^ 52"
  shows "frame_addr (of_nat a OR of_nat f) = a"
proof -
  obtain k where k: "a = 4096 * k" using assms(1) by auto
  then have "k < 2 ^ 40" using assms(3) by simp
  moreover have "(a + f) div 4096 = k" using assms(2) k by simp
  moreover have "unat (of_nat a OR of_nat f :: u64) = a + f" using assms by (intro unat_or_low) simp_all
  ultimately show ?thesis by (simp only: frame_addr_eq mod_less k mult.commute)
qed

lemma bit_or_low: "f < 4096 \<Longrightarrow> a mod 4096 = 0 \<Longrightarrow> a < 2 ^ 52 \<Longrightarrow> n < 12 \<Longrightarrow>
  bit (of_nat a OR of_nat f :: u64) n = bit f n"
proof -
  assume f: "f < 4096" "a mod 4096 = 0" "a < 2 ^ 52" "n < 12"
  have "bit (of_nat a OR of_nat f :: u64) n \<longleftrightarrow> bit (unat (of_nat a OR of_nat f :: u64)) n"
    by (simp add: bit_unsigned_iff)
  also have "unat (of_nat a OR of_nat f :: u64) = a OR f"
    using f nat_or_low[of a f] by (simp add: unat_or_low)
  also have "bit (a OR f) n \<longleftrightarrow> bit f n"
  proof -
    have "a = push_bit 12 (a div 4096)" using f(2) div_mult_mod_eq[of a 4096] by (simp add: push_bit_eq_mult)
    then have "\<not> bit a n" using f(4) by (metis bit_push_bit_iff not_le)
    then show ?thesis by (simp add: bit_or_iff)
  qed
  finally show ?thesis .
qed

section \<open>Roles of pool pages\<close>

datatype page_kind = PK_P4 | PK_P3 | PK_P2 | PK_P1 | PK_Data

text \<open>Static arrays of the kernel image: aligned, below one gigabyte, disjoint.\<close>

definition layout_ok :: "Kernel \<Rightarrow> bool" where
  "layout_ok ks \<longleftrightarrow>
     ks_pool ks mod 4096 = 0 \<and> 0 < ks_pool ks \<and> ks_pool ks + 4096 * POOL_PAGES \<le> 2 ^ 30 \<and>
     ks_dma ks mod 4096 = 0 \<and> ks_dma ks + SF_DMA_BYTES \<le> 2 ^ 30 \<and>
     (ks_dma ks + SF_DMA_BYTES \<le> ks_pool ks \<or> ks_pool ks + 4096 * POOL_PAGES \<le> ks_dma ks) \<and>
     (ks_kernel_pd ks + 4096 \<le> ks_pool ks \<or> ks_pool ks + 4096 * POOL_PAGES \<le> ks_kernel_pd ks)"

definition own_page :: "Kernel \<Rightarrow> (nat \<Rightarrow> page_kind) \<Rightarrow> u32 \<Rightarrow> page_kind \<Rightarrow> nat \<Rightarrow> bool" where
  "own_page ks kind pid k p \<longleftrightarrow>
     (\<exists>i<POOL_PAGES. p = pool_addr ks i \<and> ks_page_owner ks i = pid \<and> kind i = k)"

definition table_entry :: "Kernel \<Rightarrow> (nat \<Rightarrow> page_kind) \<Rightarrow> u32 \<Rightarrow> page_kind \<Rightarrow> u64 \<Rightarrow> bool" where
  "table_entry ks kind pid k e \<longleftrightarrow> (bit e 0 \<longrightarrow> own_page ks kind pid k (frame_addr e))"

definition dma_page :: "Kernel \<Rightarrow> nat \<Rightarrow> bool" where
  "dma_page ks p \<longleftrightarrow> ks_dma ks \<le> p \<and> p + 4096 \<le> ks_dma ks + SF_DMA_BYTES"

definition bundle_page :: "Kernel \<Rightarrow> nat \<Rightarrow> bool" where
  "bundle_page ks p \<longleftrightarrow>
     unat (ks_bundle_phys ks) \<le> p \<and> p < unat (ks_bundle_phys ks) + unat (ks_bundle_bytes ks)"

definition leaf_entry :: "Kernel \<Rightarrow> (nat \<Rightarrow> page_kind) \<Rightarrow> u32 \<Rightarrow> u64 \<Rightarrow> bool" where
  "leaf_entry ks kind pid e \<longleftrightarrow> (bit e 0 \<and> \<not> bit e 9 \<longrightarrow>
     own_page ks kind pid PK_Data (frame_addr e) \<or>
     pid = ks_device_owner ks \<and> dma_page ks (frame_addr e) \<or>
     \<not> bit e 1 \<and> bundle_page ks (frame_addr e))"

text \<open>What may stand in entry \<open>j\<close> of a table of kind \<open>k\<close>; only entry 0 of the top level and
  entry 1 of the second level belong to user space.\<close>

definition entry_ok :: "Kernel \<Rightarrow> (nat \<Rightarrow> page_kind) \<Rightarrow> u32 \<Rightarrow> page_kind \<Rightarrow> nat \<Rightarrow> u64 \<Rightarrow> bool" where
  "entry_ok ks kind pid k j e = (case k of
     PK_P4 \<Rightarrow> j = 0 \<longrightarrow> table_entry ks kind pid PK_P3 e
   | PK_P3 \<Rightarrow> j = 1 \<longrightarrow> table_entry ks kind pid PK_P2 e
   | PK_P2 \<Rightarrow> table_entry ks kind pid PK_P1 e
   | PK_P1 \<Rightarrow> leaf_entry ks kind pid e
   | PK_Data \<Rightarrow> True)"

definition spaces_ok :: "Kernel \<Rightarrow> (nat \<Rightarrow> page_kind) \<Rightarrow> bool" where
  "spaces_ok ks kind \<longleftrightarrow> (\<forall>i<POOL_PAGES. ks_page_owner ks i \<noteq> 0 \<longrightarrow>
     (\<forall>j<512. entry_ok ks kind (ks_page_owner ks i) (kind i) j (rd64 (ks_phys ks) (pool_addr ks i + 8 * j))))"

text \<open>A task whose page-table root is in place.\<close>

definition has_space :: "Kernel \<Rightarrow> (nat \<Rightarrow> page_kind) \<Rightarrow> nat \<Rightarrow> bool" where
  "has_space ks kind ti \<longleftrightarrow>
     tk_pid (ks_tasks ks ti) \<noteq> 0 \<and>
     own_page ks kind (tk_pid (ks_tasks ks ti)) PK_P4 (unat (tk_cr3 (ks_tasks ks ti))) \<and>
     bit (rd64 (ks_phys ks) (unat (tk_cr3 (ks_tasks ks ti)))) 0"

lemma set_phys_simps [simp]:
  "ks_phys (set_phys f ks) = f (ks_phys ks)"
  "ks_tasks (set_phys f ks) = ks_tasks ks"
  "ks_endpoints (set_phys f ks) = ks_endpoints ks"
  "ks_page_owner (set_phys f ks) = ks_page_owner ks"
  "ks_pool (set_phys f ks) = ks_pool ks"
  "ks_dma (set_phys f ks) = ks_dma ks"
  "ks_kernel_pd (set_phys f ks) = ks_kernel_pd ks"
  "ks_mmio_pd (set_phys f ks) = ks_mmio_pd ks"
  "ks_mmio_ready (set_phys f ks) = ks_mmio_ready ks"
  "ks_bundle_phys (set_phys f ks) = ks_bundle_phys ks"
  "ks_bundle_bytes (set_phys f ks) = ks_bundle_bytes ks"
  "ks_device_owner (set_phys f ks) = ks_device_owner ks"
  "ks_next_pid (set_phys f ks) = ks_next_pid ks"
  "ks_current (set_phys f ks) = ks_current ks"
  "ks_ticks (set_phys f ks) = ks_ticks ks"
  "pool_addr (set_phys f ks) = pool_addr ks"
  by (simp_all add: set_phys_def pool_addr_def fun_eq_iff)

lemma pool_addr_aligned: "layout_ok ks \<Longrightarrow> pool_addr ks i mod 4096 = 0"
  by (simp add: layout_ok_def pool_addr_def)

lemma pool_addr_bound: "layout_ok ks \<Longrightarrow> i < POOL_PAGES \<Longrightarrow> pool_addr ks i + 4096 \<le> 2 ^ 30"
  by (simp add: layout_ok_def pool_addr_def POOL_PAGES_def)

lemma pool_addr_disjoint:
  "i \<noteq> j \<Longrightarrow> pool_addr ks i + 4096 \<le> pool_addr ks j \<or> pool_addr ks j + 4096 \<le> pool_addr ks i"
  by (cases i j rule: linorder_cases) (auto simp: pool_addr_def)

lemma pool_addr_inj: "pool_addr ks i = pool_addr ks j \<longleftrightarrow> i = j"
  by (auto simp: pool_addr_def)

lemma entry_address:
  assumes "pool_addr ks i + 8 * a = pool_addr ks j + 8 * b" "a < 512" "b < 512"
  shows "i = j \<and> a = b"
proof -
  have "i = j" using pool_addr_disjoint[of i j ks] assms by (rule_tac ccontr) auto
  then show ?thesis using assms(1) by simp
qed

lemma rd64_entry_other:
  assumes "(i, a) \<noteq> (j, b)" "a < 512" "b < 512"
  shows "rd64 (wr64 (pool_addr ks i + 8 * a) v m) (pool_addr ks j + 8 * b) = rd64 m (pool_addr ks j + 8 * b)"
proof (rule rd64_wr64_other)
  show "pool_addr ks j + 8 * b + 8 \<le> pool_addr ks i + 8 * a \<or> pool_addr ks i + 8 * a + 8 \<le> pool_addr ks j + 8 * b"
  proof (cases "i = j")
    case True
    then have "a < b \<or> b < a" using assms(1) by auto
    then show ?thesis using True by auto
  next
    case False
    then show ?thesis using pool_addr_disjoint[OF False, of ks] assms by auto
  qed
qed

lemma rd64_entry_page:
  assumes "i \<noteq> j" "b < 512" "length bs = 4096"
  shows "rd64 (store (pool_addr ks i) bs m) (pool_addr ks j + 8 * b) = rd64 m (pool_addr ks j + 8 * b)"
  by (rule rd64_store_other) (use pool_addr_disjoint[OF assms(1), of ks] assms in auto)

section \<open>Entries survive growth of the pool\<close>

text \<open>\<open>ks'\<close> owns at least the pages of \<open>ks\<close>, in the same roles.\<close>

definition pages_kept :: "Kernel \<Rightarrow> (nat \<Rightarrow> page_kind) \<Rightarrow> Kernel \<Rightarrow> (nat \<Rightarrow> page_kind) \<Rightarrow> bool" where
  "pages_kept ks kind ks' kind' \<longleftrightarrow>
     ks_pool ks' = ks_pool ks \<and> ks_dma ks' = ks_dma ks \<and> ks_kernel_pd ks' = ks_kernel_pd ks \<and>
     ks_bundle_phys ks' = ks_bundle_phys ks \<and> ks_bundle_bytes ks' = ks_bundle_bytes ks \<and>
     ks_device_owner ks' = ks_device_owner ks \<and>
     (\<forall>i<POOL_PAGES. ks_page_owner ks i \<noteq> 0 \<longrightarrow> ks_page_owner ks' i = ks_page_owner ks i \<and> kind' i = kind i)"

lemma pages_kept_refl [simp]: "pages_kept ks kind ks kind"
  by (simp add: pages_kept_def)

lemma pages_kept_trans:
  "pages_kept a k b l \<Longrightarrow> pages_kept b l c m \<Longrightarrow> pages_kept a k c m"
  by (auto simp: pages_kept_def)

lemma pages_kept_phys [simp]: "pages_kept ks kind (set_phys f ks) kind"
  by (simp add: pages_kept_def)

lemma pages_kept_layout: "pages_kept ks kind ks' kind' \<Longrightarrow> layout_ok ks' = layout_ok ks"
  by (auto simp: pages_kept_def layout_ok_def)

lemma pages_kept_addr: "pages_kept ks kind ks' kind' \<Longrightarrow> pool_addr ks' = pool_addr ks"
  by (auto simp: pages_kept_def pool_addr_def fun_eq_iff)

lemma own_page_kept:
  "pages_kept ks kind ks' kind' \<Longrightarrow> pid \<noteq> 0 \<Longrightarrow> own_page ks kind pid k p \<Longrightarrow> own_page ks' kind' pid k p"
  by (auto simp: own_page_def pages_kept_def pool_addr_def)

lemma entry_ok_kept:
  assumes "pages_kept ks kind ks' kind'" "pid \<noteq> 0" "entry_ok ks kind pid k j e"
  shows "entry_ok ks' kind' pid k j e"
proof -
  note o = own_page_kept[OF assms(1,2)]
  have "dma_page ks' = dma_page ks" "bundle_page ks' = bundle_page ks" "ks_device_owner ks' = ks_device_owner ks"
    using assms(1) by (auto simp: pages_kept_def dma_page_def bundle_page_def fun_eq_iff)
  then show ?thesis using assms(3) o
    by (cases k) (auto simp: entry_ok_def table_entry_def leaf_entry_def)
qed

lemma spaces_okD:
  "spaces_ok ks kind \<Longrightarrow> i < POOL_PAGES \<Longrightarrow> ks_page_owner ks i = pid \<Longrightarrow> pid \<noteq> 0 \<Longrightarrow> j < 512 \<Longrightarrow>
   entry_ok ks kind pid (kind i) j (rd64 (ks_phys ks) (pool_addr ks i + 8 * j))"
  by (auto simp: spaces_ok_def)

section \<open>Stores\<close>

text \<open>A store that leaves every table page alone.\<close>

definition tables_same :: "Kernel \<Rightarrow> (nat \<Rightarrow> page_kind) \<Rightarrow> (nat \<Rightarrow> u8) \<Rightarrow> bool" where
  "tables_same ks kind m \<longleftrightarrow> (\<forall>i<POOL_PAGES. ks_page_owner ks i \<noteq> 0 \<longrightarrow> kind i \<noteq> PK_Data \<longrightarrow>
     (\<forall>x. pool_addr ks i \<le> x \<longrightarrow> x < pool_addr ks i + 4096 \<longrightarrow> m x = ks_phys ks x))"

lemma tables_same_rd64:
  assumes "tables_same ks kind m" "i < POOL_PAGES" "ks_page_owner ks i \<noteq> 0" "kind i \<noteq> PK_Data" "j < 512"
  shows "rd64 m (pool_addr ks i + 8 * j) = rd64 (ks_phys ks) (pool_addr ks i + 8 * j)"
  by (rule rd64_cong) (use assms in \<open>auto simp: tables_same_def\<close>)

lemma spaces_ok_store:
  assumes "spaces_ok ks kind" "tables_same ks kind (f (ks_phys ks))"
  shows "spaces_ok (set_phys f ks) kind"
  unfolding spaces_ok_def
proof (intro allI impI)
  fix i j assume i: "i < POOL_PAGES" "ks_page_owner (set_phys f ks) i \<noteq> 0" "j < (512::nat)"
  then have o: "ks_page_owner ks i \<noteq> 0" by simp
  have e: "entry_ok ks kind (ks_page_owner ks i) (kind i) j (rd64 (ks_phys ks) (pool_addr ks i + 8 * j))"
    using spaces_okD[OF assms(1) i(1) refl o i(3)] .
  have "entry_ok ks kind (ks_page_owner ks i) (kind i) j (rd64 (f (ks_phys ks)) (pool_addr ks i + 8 * j))"
  proof (cases "kind i = PK_Data")
    case True
    then show ?thesis by (simp add: entry_ok_def)
  next
    case False
    then show ?thesis using e tables_same_rd64[OF assms(2) i(1) o False i(3)] by simp
  qed
  then show "entry_ok (set_phys f ks) kind (ks_page_owner (set_phys f ks) i) (kind i) j
      (rd64 (ks_phys (set_phys f ks)) (pool_addr (set_phys f ks) i + 8 * j))"
    using entry_ok_kept[OF pages_kept_phys o] by simp
qed

text \<open>Writing one table entry.\<close>

lemma spaces_ok_entry:
  assumes s: "spaces_ok ks kind" and i: "i < POOL_PAGES" "ks_page_owner ks i \<noteq> 0" "j < 512"
    and v: "entry_ok ks kind (ks_page_owner ks i) (kind i) j v"
  shows "spaces_ok (set_phys (wr64 (pool_addr ks i + 8 * j) v) ks) kind"
  unfolding spaces_ok_def
proof (intro allI impI)
  let ?ks = "set_phys (wr64 (pool_addr ks i + 8 * j) v) ks"
  fix a b assume a: "a < POOL_PAGES" "ks_page_owner ?ks a \<noteq> 0" "b < (512::nat)"
  then have o: "ks_page_owner ks a \<noteq> 0" by simp
  have "entry_ok ks kind (ks_page_owner ks a) (kind a) b (rd64 (ks_phys ?ks) (pool_addr ks a + 8 * b))"
  proof (cases "(i, j) = (a, b)")
    case True
    then show ?thesis using v by simp
  next
    case False
    then show ?thesis using spaces_okD[OF s a(1) refl o a(3)] rd64_entry_other[OF False i(3) a(3)] by simp
  qed
  then show "entry_ok ?ks kind (ks_page_owner ?ks a) (kind a) b (rd64 (ks_phys ?ks) (pool_addr ?ks a + 8 * b))"
    using entry_ok_kept[OF pages_kept_phys o] by simp
qed

section \<open>Allocation\<close>

lemma page_alloc_Some:
  assumes "page_alloc ks pid = (Some p, ks')"
  obtains ti i where "page_owner ks pid = Some ti" "i < POOL_PAGES" "ks_page_owner ks i = 0"
    "p = pool_addr ks i" "pid \<noteq> 0"
    "tk_page_count (ks_tasks ks ti) < tk_page_limit (ks_tasks ks ti)"
    "ks' = set_phys (store (pool_addr ks i) (replicate 4096 0))
       (put_task ti ((ks_tasks ks ti)\<lparr>tk_page_count := tk_page_count (ks_tasks ks ti) + 1\<rparr>)
         (ks\<lparr>ks_page_owner := (ks_page_owner ks)(i := pid)\<rparr>))"
  using assms
  by (auto simp: page_alloc_def page_owner_def Let_def not_le first_index_Some
      split: option.splits if_splits)

lemma page_alloc_None: "page_alloc ks pid = (None, ks') \<Longrightarrow> ks' = ks"
  by (auto simp: page_alloc_def Let_def split: option.splits if_splits)

lemma pool_addr_cong: "ks_pool ks' = ks_pool ks \<Longrightarrow> pool_addr ks' = pool_addr ks"
  by (simp add: pool_addr_def fun_eq_iff)

lemma entry_ok_zero: "entry_ok ks kind pid k j 0"
  by (cases k) (auto simp: entry_ok_def table_entry_def leaf_entry_def)

lemma spaces_ok_alloc:
  assumes s: "spaces_ok ks kind" and al: "page_alloc ks pid = (Some p, ks')"
  obtains i where "i < POOL_PAGES" "p = pool_addr ks i" "ks_page_owner ks i = 0" "ks_page_owner ks' i = pid" "pid \<noteq> 0"
    "\<forall>k. pages_kept ks kind ks' (kind(i := k))" "\<forall>k. spaces_ok ks' (kind(i := k))"
    "\<forall>x. x < pool_addr ks i \<or> pool_addr ks i + 4096 \<le> x \<longrightarrow> ks_phys ks' x = ks_phys ks x"
    "\<forall>j<512. rd64 (ks_phys ks') (pool_addr ks i + 8 * j) = 0"
proof -
  from al obtain ti i where a: "i < POOL_PAGES" "ks_page_owner ks i = 0" "p = pool_addr ks i" "pid \<noteq> 0"
    and ks': "ks' = set_phys (store (pool_addr ks i) (replicate 4096 0))
       (put_task ti ((ks_tasks ks ti)\<lparr>tk_page_count := tk_page_count (ks_tasks ks ti) + 1\<rparr>)
         (ks\<lparr>ks_page_owner := (ks_page_owner ks)(i := pid)\<rparr>))"
    by (rule page_alloc_Some)
  have pa: "pool_addr ks' = pool_addr ks" by (rule pool_addr_cong) (simp add: ks')
  have owner: "ks_page_owner ks' = (ks_page_owner ks)(i := pid)" by (simp add: ks')
  have kept: "pages_kept ks kind ks' (kind(i := k))" for k
    using a(2) by (auto simp: pages_kept_def ks' put_task_def)
  have zero: "rd64 (ks_phys ks') (pool_addr ks i + 8 * j) = 0" if "j < 512" for j
    using that by (auto simp: ks' intro!: rd64_store_zero)
  have "spaces_ok ks' (kind(i := k))" for k
    unfolding spaces_ok_def
  proof (intro allI impI)
    fix a b assume ab: "a < POOL_PAGES" "ks_page_owner ks' a \<noteq> 0" "b < (512::nat)"
    show "entry_ok ks' (kind(i := k)) (ks_page_owner ks' a) ((kind(i := k)) a) b
        (rd64 (ks_phys ks') (pool_addr ks' a + 8 * b))"
    proof (cases "a = i")
      case True
      then show ?thesis using zero[OF ab(3)] pa entry_ok_zero by simp
    next
      case False
      then have o: "ks_page_owner ks a \<noteq> 0" using ab(2) owner by simp
      have "rd64 (ks_phys ks') (pool_addr ks a + 8 * b) = rd64 (ks_phys ks) (pool_addr ks a + 8 * b)"
        using False ab(3) by (simp add: ks' rd64_entry_page)
      then show ?thesis
        using entry_ok_kept[OF kept o spaces_okD[OF s ab(1) refl o ab(3)], of k] False owner pa by simp
    qed
  qed
  moreover have "ks_phys ks' x = ks_phys ks x" if "x < pool_addr ks i \<or> pool_addr ks i + 4096 \<le> x" for x
    using that by (auto simp: ks' store_def)
  ultimately show thesis using that[of i] a kept zero owner by simp
qed

section \<open>Growth of an address space\<close>

text \<open>Memory operations touch physical memory, page ownership and page counts only.\<close>

definition mem_only :: "Kernel \<Rightarrow> Kernel \<Rightarrow> bool" where
  "mem_only ks ks' \<longleftrightarrow>
     ks' = ks\<lparr>ks_phys := ks_phys ks', ks_page_owner := ks_page_owner ks', ks_tasks := ks_tasks ks'\<rparr> \<and>
     (\<forall>ti. \<exists>n. ks_tasks ks' ti = (ks_tasks ks ti)\<lparr>tk_page_count := n\<rparr>)"

lemma task_count_self: "\<exists>n. t = (t :: Task)\<lparr>tk_page_count := n\<rparr>"
  by (rule exI[of _ "tk_page_count t"]) simp

lemma mem_only_refl [simp]: "mem_only ks ks"
  by (simp add: mem_only_def task_count_self)

lemma mem_only_trans: "mem_only a b \<Longrightarrow> mem_only b c \<Longrightarrow> mem_only a c"
proof -
  assume ab: "mem_only a b" and bc: "mem_only b c"
  have 1: "b = a\<lparr>ks_phys := ks_phys b, ks_page_owner := ks_page_owner b, ks_tasks := ks_tasks b\<rparr>"
    and 2: "c = b\<lparr>ks_phys := ks_phys c, ks_page_owner := ks_page_owner c, ks_tasks := ks_tasks c\<rparr>"
    using ab bc by (simp_all add: mem_only_def)
  have "c = a\<lparr>ks_phys := ks_phys c, ks_page_owner := ks_page_owner c, ks_tasks := ks_tasks c\<rparr>"
    by (subst 2, subst 1) simp
  moreover have "\<exists>n. ks_tasks c ti = (ks_tasks a ti)\<lparr>tk_page_count := n\<rparr>" for ti
  proof -
    obtain n where "ks_tasks c ti = (ks_tasks b ti)\<lparr>tk_page_count := n\<rparr>"
      using bc by (auto simp: mem_only_def)
    moreover obtain k where "ks_tasks b ti = (ks_tasks a ti)\<lparr>tk_page_count := k\<rparr>"
      using ab by (auto simp: mem_only_def)
    ultimately show ?thesis by (intro exI[of _ n]) simp
  qed
  ultimately show ?thesis by (simp add: mem_only_def)
qed

lemma mem_only_phys [simp]: "mem_only ks (set_phys f ks)"
  by (simp add: mem_only_def set_phys_def task_count_self)

lemma mem_only_fields:
  assumes "mem_only ks ks'"
  shows "ks_pool ks' = ks_pool ks" "ks_dma ks' = ks_dma ks" "ks_endpoints ks' = ks_endpoints ks"
    "ks_current ks' = ks_current ks" "ks_next_pid ks' = ks_next_pid ks" "ks_ticks ks' = ks_ticks ks"
    "ks_device_owner ks' = ks_device_owner ks" "ks_mmio_ready ks' = ks_mmio_ready ks"
    "ks_kernel_pd ks' = ks_kernel_pd ks"
    "tk_pid (ks_tasks ks' ti) = tk_pid (ks_tasks ks ti)" "tk_state (ks_tasks ks' ti) = tk_state (ks_tasks ks ti)"
    "tk_cr3 (ks_tasks ks' ti) = tk_cr3 (ks_tasks ks ti)" "tk_caps (ks_tasks ks' ti) = tk_caps (ks_tasks ks ti)"
    "tk_page_limit (ks_tasks ks' ti) = tk_page_limit (ks_tasks ks ti)"
    "tk_wait_endpoint (ks_tasks ks' ti) = tk_wait_endpoint (ks_tasks ks ti)"
    "tk_recv_buffer (ks_tasks ks' ti) = tk_recv_buffer (ks_tasks ks ti)"
proof -
  have e: "ks' = ks\<lparr>ks_phys := ks_phys ks', ks_page_owner := ks_page_owner ks', ks_tasks := ks_tasks ks'\<rparr>"
    using assms by (simp add: mem_only_def)
  show "ks_pool ks' = ks_pool ks" "ks_dma ks' = ks_dma ks" "ks_endpoints ks' = ks_endpoints ks"
    "ks_current ks' = ks_current ks" "ks_next_pid ks' = ks_next_pid ks" "ks_ticks ks' = ks_ticks ks"
    "ks_device_owner ks' = ks_device_owner ks" "ks_mmio_ready ks' = ks_mmio_ready ks"
    "ks_kernel_pd ks' = ks_kernel_pd ks"
    by (subst e, simp)+
  obtain n where "ks_tasks ks' ti = (ks_tasks ks ti)\<lparr>tk_page_count := n\<rparr>"
    using assms by (auto simp: mem_only_def)
  then show "tk_pid (ks_tasks ks' ti) = tk_pid (ks_tasks ks ti)" "tk_state (ks_tasks ks' ti) = tk_state (ks_tasks ks ti)"
    "tk_cr3 (ks_tasks ks' ti) = tk_cr3 (ks_tasks ks ti)" "tk_caps (ks_tasks ks' ti) = tk_caps (ks_tasks ks ti)"
    "tk_page_limit (ks_tasks ks' ti) = tk_page_limit (ks_tasks ks ti)"
    "tk_wait_endpoint (ks_tasks ks' ti) = tk_wait_endpoint (ks_tasks ks ti)"
    "tk_recv_buffer (ks_tasks ks' ti) = tk_recv_buffer (ks_tasks ks ti)" by simp_all
qed

lemma mem_only_count:
  "mem_only ks (put_task ti ((ks_tasks ks ti)\<lparr>tk_page_count := n\<rparr>) (ks\<lparr>ks_page_owner := f\<rparr>))"
  unfolding mem_only_def
proof (intro conjI allI)
  fix tj
  show "\<exists>k. ks_tasks (put_task ti ((ks_tasks ks ti)\<lparr>tk_page_count := n\<rparr>) (ks\<lparr>ks_page_owner := f\<rparr>)) tj =
    (ks_tasks ks tj)\<lparr>tk_page_count := k\<rparr>"
    by (rule exI[of _ "if tj = ti then n else tk_page_count (ks_tasks ks tj)"]) simp
qed (simp add: put_task_def)

lemma page_alloc_mem_only: "page_alloc ks pid = (r, ks') \<Longrightarrow> mem_only ks ks'"
proof (cases r)
  case (Some p)
  assume "page_alloc ks pid = (r, ks')"
  then have "page_alloc ks pid = (Some p, ks')" using Some by simp
  then obtain ti i where "ks' = set_phys (store (pool_addr ks i) (replicate 4096 0))
       (put_task ti ((ks_tasks ks ti)\<lparr>tk_page_count := tk_page_count (ks_tasks ks ti) + 1\<rparr>)
         (ks\<lparr>ks_page_owner := (ks_page_owner ks)(i := pid)\<rparr>))"
    by (rule page_alloc_Some)
  then show ?thesis by (simp only: mem_only_trans[OF mem_only_count mem_only_phys])
next
  case None
  assume "page_alloc ks pid = (r, ks')"
  then have "ks' = ks" using None page_alloc_None by blast
  then show ?thesis by simp
qed

text \<open>What is mapped stays mapped: present table entries and the contents of data pages
  are unchanged.\<close>

definition grows :: "Kernel \<Rightarrow> (nat \<Rightarrow> page_kind) \<Rightarrow> Kernel \<Rightarrow> (nat \<Rightarrow> page_kind) \<Rightarrow> bool" where
  "grows ks kind ks' kind' \<longleftrightarrow> mem_only ks ks' \<and> pages_kept ks kind ks' kind' \<and>
     (\<forall>i<POOL_PAGES. ks_page_owner ks i \<noteq> 0 \<longrightarrow> kind i \<noteq> PK_Data \<longrightarrow> (\<forall>j<512.
        bit (rd64 (ks_phys ks) (pool_addr ks i + 8 * j)) 0 \<longrightarrow>
        rd64 (ks_phys ks') (pool_addr ks i + 8 * j) = rd64 (ks_phys ks) (pool_addr ks i + 8 * j))) \<and>
     (\<forall>i<POOL_PAGES. ks_page_owner ks i \<noteq> 0 \<longrightarrow> kind i = PK_Data \<longrightarrow>
        (\<forall>x. pool_addr ks i \<le> x \<longrightarrow> x < pool_addr ks i + 4096 \<longrightarrow> ks_phys ks' x = ks_phys ks x))"

lemma growsD:
  assumes "grows ks kind ks' kind'"
  shows "mem_only ks ks'" "pages_kept ks kind ks' kind'"
    "i < POOL_PAGES \<Longrightarrow> ks_page_owner ks i \<noteq> 0 \<Longrightarrow> kind i \<noteq> PK_Data \<Longrightarrow> j < 512 \<Longrightarrow>
       bit (rd64 (ks_phys ks) (pool_addr ks i + 8 * j)) 0 \<Longrightarrow>
       rd64 (ks_phys ks') (pool_addr ks i + 8 * j) = rd64 (ks_phys ks) (pool_addr ks i + 8 * j)"
    "i < POOL_PAGES \<Longrightarrow> ks_page_owner ks i \<noteq> 0 \<Longrightarrow> kind i = PK_Data \<Longrightarrow>
       pool_addr ks i \<le> x \<Longrightarrow> x < pool_addr ks i + 4096 \<Longrightarrow> ks_phys ks' x = ks_phys ks x"
  using assms by (auto simp: grows_def)

lemma grows_refl [simp]: "grows ks kind ks kind"
  by (simp add: grows_def)

lemma grows_trans:
  assumes "grows a ka b kb" "grows b kb c kc"
  shows "grows a ka c kc"
proof -
  note A = growsD[OF assms(1)] and B = growsD[OF assms(2)]
  have addr: "pool_addr b = pool_addr a" using A(2) by (rule pages_kept_addr)
  have keep: "ks_page_owner b i = ks_page_owner a i \<and> kb i = ka i" if "i < POOL_PAGES" "ks_page_owner a i \<noteq> 0" for i
    using A(2) that by (simp add: pages_kept_def)
  show ?thesis unfolding grows_def
  proof (intro conjI allI impI)
    show "mem_only a c" using A(1) B(1) by (rule mem_only_trans)
    show "pages_kept a ka c kc" using A(2) B(2) by (rule pages_kept_trans)
  next
    fix i j assume i: "i < POOL_PAGES" "ks_page_owner a i \<noteq> 0" "ka i \<noteq> PK_Data" "j < (512::nat)"
      and p: "bit (rd64 (ks_phys a) (pool_addr a i + 8 * j)) 0"
    note e = A(3)[OF i p]
    show "rd64 (ks_phys c) (pool_addr a i + 8 * j) = rd64 (ks_phys a) (pool_addr a i + 8 * j)"
      using B(3)[of i j] keep[OF i(1,2)] i p e addr by simp
  next
    fix i x assume i: "i < POOL_PAGES" "ks_page_owner a i \<noteq> 0" "ka i = PK_Data"
      and x: "pool_addr a i \<le> x" "x < pool_addr a i + 4096"
    show "ks_phys c x = ks_phys a x"
      using A(4)[OF i x] B(4)[of i x] keep[OF i(1,2)] i x addr by simp
  qed
qed

section \<open>The page-table walk\<close>

text \<open>\<open>k'\<close> is the kind of table that entry \<open>j\<close> of a table of kind \<open>k\<close> leads to.\<close>

definition leads_to :: "page_kind \<Rightarrow> nat \<Rightarrow> page_kind \<Rightarrow> bool" where
  "leads_to k j k' \<longleftrightarrow> k = PK_P4 \<and> j = 0 \<and> k' = PK_P3 \<or> k = PK_P3 \<and> j = 1 \<and> k' = PK_P2 \<or> k = PK_P2 \<and> k' = PK_P1"

lemma entry_leads:
  "leads_to k j k' \<Longrightarrow> entry_ok ks kind pid k j e \<longleftrightarrow> table_entry ks kind pid k' e"
  by (auto simp: leads_to_def entry_ok_def)

lemma grows_has_space:
  assumes "grows ks kind ks' kind'" "has_space ks kind ti"
  shows "has_space ks' kind' ti"
proof -
  note g = growsD[OF assms(1)] and f = mem_only_fields[OF growsD(1)[OF assms(1)]]
  have pid: "tk_pid (ks_tasks ks ti) \<noteq> 0"
    and root: "own_page ks kind (tk_pid (ks_tasks ks ti)) PK_P4 (unat (tk_cr3 (ks_tasks ks ti)))"
    and set: "bit (rd64 (ks_phys ks) (unat (tk_cr3 (ks_tasks ks ti)))) 0"
    using assms(2) by (simp_all add: has_space_def)
  from root obtain i where i: "i < POOL_PAGES" "unat (tk_cr3 (ks_tasks ks ti)) = pool_addr ks i"
    "ks_page_owner ks i = tk_pid (ks_tasks ks ti)" "kind i = PK_P4"
    by (auto simp: own_page_def)
  have "rd64 (ks_phys ks') (pool_addr ks i + 8 * 0) = rd64 (ks_phys ks) (pool_addr ks i + 8 * 0)"
    using i set pid by (intro g(3)) simp_all
  then show ?thesis using own_page_kept[OF g(2) pid root] pid set i(2) f(10,12) by (simp add: has_space_def)
qed

lemma next_table_lookup:
  "next_table ks pid ea False =
     (if bit (rd64 (ks_phys ks) ea) 0 then Some (frame_addr (rd64 (ks_phys ks) ea)) else None, ks)"
  by (simp add: next_table_def)

lemma grows_write_entry:
  assumes "i < POOL_PAGES" "ks_page_owner ks i \<noteq> 0" "kind i \<noteq> PK_Data" "j < 512"
    and "\<not> bit (rd64 (ks_phys ks) (pool_addr ks i + 8 * j)) 0"
  shows "grows ks kind (set_phys (wr64 (pool_addr ks i + 8 * j) v) ks) kind"
  unfolding grows_def
proof (intro conjI allI impI)
  let ?ks = "set_phys (wr64 (pool_addr ks i + 8 * j) v) ks"
  fix a b assume "a < POOL_PAGES" "ks_page_owner ks a \<noteq> 0" "kind a \<noteq> PK_Data" "b < (512::nat)"
    and p: "bit (rd64 (ks_phys ks) (pool_addr ks a + 8 * b)) 0"
  then have "(i, j) \<noteq> (a, b)" using assms(5) by auto
  then show "rd64 (ks_phys ?ks) (pool_addr ks a + 8 * b) = rd64 (ks_phys ks) (pool_addr ks a + 8 * b)"
    using rd64_entry_other[of i j a b] assms(4) \<open>b < 512\<close> by simp
next
  fix a x assume "kind a = PK_Data" and x: "pool_addr ks a \<le> x" "x < pool_addr ks a + 4096"
  then have "i \<noteq> a" using assms(3) by auto
  then show "ks_phys (set_phys (wr64 (pool_addr ks i + 8 * j) v) ks) x = ks_phys ks x"
    using pool_addr_disjoint[of i a ks] x assms(4) by (auto simp: wr64_def)
qed simp_all

lemma grows_alloc:
  assumes "spaces_ok ks kind" "page_alloc ks pid = (Some p, ks')"
  obtains i where "i < POOL_PAGES" "p = pool_addr ks i" "ks_page_owner ks i = 0" "ks_page_owner ks' i = pid" "pid \<noteq> 0"
    "\<forall>k. grows ks kind ks' (kind(i := k))" "\<forall>k. spaces_ok ks' (kind(i := k))"
    "\<forall>j<512. rd64 (ks_phys ks') (pool_addr ks i + 8 * j) = 0"
    "\<forall>x. x < pool_addr ks i \<or> pool_addr ks i + 4096 \<le> x \<longrightarrow> ks_phys ks' x = ks_phys ks x"
proof -
  obtain i where i: "i < POOL_PAGES" "p = pool_addr ks i" "ks_page_owner ks i = 0"
    "ks_page_owner ks' i = pid" "pid \<noteq> 0" and kept: "\<forall>k. pages_kept ks kind ks' (kind(i := k))"
    and ok: "\<forall>k. spaces_ok ks' (kind(i := k))"
    and same: "\<forall>x. x < pool_addr ks i \<or> pool_addr ks i + 4096 \<le> x \<longrightarrow> ks_phys ks' x = ks_phys ks x"
    and zero: "\<forall>j<512. rd64 (ks_phys ks') (pool_addr ks i + 8 * j) = 0"
    by (rule spaces_ok_alloc[OF assms])
  have other: "ks_phys ks' x = ks_phys ks x" if "a \<noteq> i" "pool_addr ks a \<le> x" "x < pool_addr ks a + 4096" for a x
    using pool_addr_disjoint[OF that(1), of ks] that(2,3) by (intro same[rule_format]) linarith
  have "grows ks kind ks' (kind(i := k))" for k
    unfolding grows_def
  proof (intro conjI allI impI)
    show "mem_only ks ks'" using assms(2) by (rule page_alloc_mem_only)
    show "pages_kept ks kind ks' (kind(i := k))" by (rule kept[rule_format])
  next
    fix a b assume "ks_page_owner ks a \<noteq> 0" "b < (512::nat)"
    then have "a \<noteq> i" using i(3) by auto
    then show "rd64 (ks_phys ks') (pool_addr ks a + 8 * b) = rd64 (ks_phys ks) (pool_addr ks a + 8 * b)"
      using \<open>b < 512\<close> by (intro rd64_cong other) auto
  next
    fix a x assume "ks_page_owner ks a \<noteq> 0" "pool_addr ks a \<le> x" "x < pool_addr ks a + 4096"
    then show "ks_phys ks' x = ks_phys ks x" using i(3) other[of a x] by auto
  qed
  then show thesis using that[OF i _ ok zero same] by blast
qed

lemma frame_addr_pool:
  "layout_ok ks \<Longrightarrow> i < POOL_PAGES \<Longrightarrow> frame_addr (of_nat (pool_addr ks i) OR 7) = pool_addr ks i"
  using frame_addr_or[of "pool_addr ks i" 7] pool_addr_aligned[of ks i] pool_addr_bound[of ks i] by simp

text \<open>One level of a walk, possibly making the next table.\<close>

lemma next_table_step:
  assumes lay: "layout_ok ks" and s: "spaces_ok ks kind"
    and i: "i < POOL_PAGES" "ks_page_owner ks i = pid" "pid \<noteq> 0" "j < 512" and l: "leads_to (kind i) j k'"
    and nt: "next_table ks pid (pool_addr ks i + 8 * j) create = (r, ks')"
  shows "\<exists>kind'. spaces_ok ks' kind' \<and> grows ks kind ks' kind' \<and>
    (\<forall>p. r = Some p \<longrightarrow> own_page ks' kind' pid k' p) \<and> (\<not> create \<longrightarrow> ks' = ks \<and> kind' = kind)"
proof (cases "bit (rd64 (ks_phys ks) (pool_addr ks i + 8 * j)) 0")
  case True
  have "entry_ok ks kind pid (kind i) j (rd64 (ks_phys ks) (pool_addr ks i + 8 * j))"
    using spaces_okD[OF s i(1,2,3,4)] .
  then have "own_page ks kind pid k' (frame_addr (rd64 (ks_phys ks) (pool_addr ks i + 8 * j)))"
    using l True by (simp add: entry_leads table_entry_def)
  then show ?thesis using True nt s by (intro exI[of _ kind]) (auto simp: next_table_def)
next
  case False
  show ?thesis
  proof (cases "create \<and> fst (page_alloc ks pid) \<noteq> None")
    case True
    then obtain p ks1 where al: "page_alloc ks pid = (Some p, ks1)" by (cases "page_alloc ks pid") auto
    obtain n where n: "n < POOL_PAGES" "p = pool_addr ks n" "ks_page_owner ks n = 0"
      "ks_page_owner ks1 n = pid" "pid \<noteq> 0" and gk: "\<forall>k. grows ks kind ks1 (kind(n := k))"
      and sk: "\<forall>k. spaces_ok ks1 (kind(n := k))"
      and zero: "\<forall>j<512. rd64 (ks_phys ks1) (pool_addr ks n + 8 * j) = 0"
      and same: "\<forall>x. x < pool_addr ks n \<or> pool_addr ks n + 4096 \<le> x \<longrightarrow> ks_phys ks1 x = ks_phys ks x"
      by (rule grows_alloc[OF s al])
    note g = gk[rule_format, of k'] and s1 = sk[rule_format, of k']
    let ?kind = "kind(n := k')" and ?e = "of_nat p OR 7 :: u64"
    let ?ks2 = "set_phys (wr64 (pool_addr ks i + 8 * j) ?e) ks1"
    have ni: "n \<noteq> i" using n(3) i(2,3) by auto
    note kept = growsD(2)[OF g]
    have addr: "pool_addr ks1 = pool_addr ks" using kept by (rule pages_kept_addr)
    have oi: "ks_page_owner ks1 i = pid" using kept i by (simp add: pages_kept_def)
    have own: "own_page ks1 ?kind pid k' p" using n addr by (auto simp: own_page_def)
    have fr: "frame_addr ?e = p" using frame_addr_pool[OF lay n(1)] n(2) by simp
    have "entry_ok ks1 ?kind pid (?kind i) j ?e"
      using l own fr ni by (simp add: entry_leads table_entry_def)
    then have s2: "spaces_ok ?ks2 ?kind"
      using spaces_ok_entry[OF s1 i(1), of j ?e] i oi addr by simp
    have clear: "\<not> bit (rd64 (ks_phys ks1) (pool_addr ks i + 8 * j)) 0"
    proof -
      have "rd64 (ks_phys ks1) (pool_addr ks i + 8 * j) = rd64 (ks_phys ks) (pool_addr ks i + 8 * j)"
        using pool_addr_disjoint[OF ni, of ks] i(4) by (intro rd64_cong same[rule_format]) auto
      then show ?thesis using False by simp
    qed
    have "?kind i \<noteq> PK_Data" using l ni by (auto simp: leads_to_def)
    then have "grows ks1 ?kind ?ks2 ?kind"
      using grows_write_entry[OF i(1), of ks1 ?kind j ?e] oi i(3,4) clear addr by simp
    then have "grows ks kind ?ks2 ?kind" using g grows_trans by blast
    moreover have "own_page ?ks2 ?kind pid k' p"
      using own_page_kept[OF pages_kept_phys i(3) own] .
    ultimately show ?thesis using True False nt al s2 fr
      by (intro exI[of _ ?kind]) (auto simp: next_table_def)
  next
    case no: False
    then have "r = None" "ks' = ks"
      using False nt page_alloc_None[of ks pid]
      by (auto simp: next_table_def split: if_splits prod.splits option.splits)
    then show ?thesis using s by (intro exI[of _ kind]) simp
  qed
qed

lemma user_index:
  assumes "\<not> (v < SF_BASE \<or> v \<ge> SF_USER_END)"
  shows "unat (drop_bit 30 v) = 1" "unat (drop_bit 21 v AND 511) < 512" "unat (drop_bit 12 v AND 511) < 512"
proof -
  have "0x40000000 \<le> unat v" "unat v < 0x80000000"
    using assms by (simp_all add: SF_BASE_def SF_USER_END_def word_less_nat_alt word_le_nat_alt not_less not_le)
  then have "unat v div 0x40000000 = 1" by linarith
  then show "unat (drop_bit 30 v) = 1" by (simp add: drop_bit_eq_div unat_div)
  have m: "unat (w AND 511) < 512" for w :: u64
    using word_and_le1[of w 511] by (simp add: word_le_nat_alt)
  show "unat (drop_bit 21 v AND 511) < 512" "unat (drop_bit 12 v AND 511) < 512" by (rule m)+
qed

text \<open>A leaf slot: entry \<open>c\<close> of a last-level table of the task.\<close>

definition leaf_slot :: "Kernel \<Rightarrow> (nat \<Rightarrow> page_kind) \<Rightarrow> u32 \<Rightarrow> nat \<Rightarrow> bool" where
  "leaf_slot ks kind pid p \<longleftrightarrow> (\<exists>i<POOL_PAGES. \<exists>c<512. p = pool_addr ks i + 8 * c \<and>
     ks_page_owner ks i = pid \<and> kind i = PK_P1)"

lemma space_root:
  assumes "spaces_ok ks kind" "has_space ks kind ti"
  shows "own_page ks kind (tk_pid (ks_tasks ks ti)) PK_P3 (frame_addr (rd64 (ks_phys ks) (unat (tk_cr3 (ks_tasks ks ti)))))"
proof -
  from assms(2) obtain i where i: "i < POOL_PAGES" "unat (tk_cr3 (ks_tasks ks ti)) = pool_addr ks i"
    "ks_page_owner ks i = tk_pid (ks_tasks ks ti)" "kind i = PK_P4" "tk_pid (ks_tasks ks ti) \<noteq> 0"
    "bit (rd64 (ks_phys ks) (pool_addr ks i)) 0"
    by (auto simp: has_space_def own_page_def)
  show ?thesis using spaces_okD[OF assms(1) i(1,3,5), of 0] i(2,4,6) by (simp add: entry_ok_def table_entry_def)
qed

lemma pte_step:
  assumes lay: "layout_ok ks" and s: "spaces_ok ks kind" and h: "has_space ks kind ti"
    and w: "pte ks ti v create = (r, ks')"
  shows "\<exists>kind'. spaces_ok ks' kind' \<and> grows ks kind ks' kind' \<and>
    (\<forall>p. r = Some p \<longrightarrow> leaf_slot ks' kind' (tk_pid (ks_tasks ks ti)) p) \<and>
    (\<not> create \<longrightarrow> ks' = ks \<and> kind' = kind)"
proof (cases "v < SF_BASE \<or> v \<ge> SF_USER_END")
  case True
  then show ?thesis using w s by (intro exI[of _ kind]) (auto simp: pte_def)
next
  case False
  note ix = user_index[OF False]
  let ?pid = "tk_pid (ks_tasks ks ti)" and ?b = "unat (drop_bit 21 v AND 511)" and ?c = "unat (drop_bit 12 v AND 511)"
  have pid: "?pid \<noteq> 0" using h by (simp add: has_space_def)
  obtain i3 where i3: "i3 < POOL_PAGES" "frame_addr (rd64 (ks_phys ks) (unat (tk_cr3 (ks_tasks ks ti)))) = pool_addr ks i3"
    "ks_page_owner ks i3 = ?pid" "kind i3 = PK_P3"
    using space_root[OF s h] by (auto simp: own_page_def)
  obtain r1 ks1 where n1: "next_table ks ?pid (pool_addr ks i3 + 8 * 1) create = (r1, ks1)" by fastforce
  obtain kind1 where k1: "spaces_ok ks1 kind1" "grows ks kind ks1 kind1"
    "\<forall>p. r1 = Some p \<longrightarrow> own_page ks1 kind1 ?pid PK_P2 p" "\<not> create \<longrightarrow> ks1 = ks \<and> kind1 = kind"
    using next_table_step[OF lay s i3(1,3) pid _ _ n1, of PK_P2] i3(4) by (auto simp: leads_to_def)
  show ?thesis
  proof (cases r1)
    case None
    then show ?thesis using w n1 i3(2) ix(1) False k1 by (intro exI[of _ kind1]) (simp add: pte_def Let_def)
  next
    case (Some p2)
    then obtain i2 where i2: "i2 < POOL_PAGES" "p2 = pool_addr ks1 i2" "ks_page_owner ks1 i2 = ?pid" "kind1 i2 = PK_P2"
      using k1(3) by (auto simp: own_page_def)
    have lay1: "layout_ok ks1" using lay pages_kept_layout[OF growsD(2)[OF k1(2)]] by simp
    obtain r2 ks2 where n2: "next_table ks1 ?pid (pool_addr ks1 i2 + 8 * ?b) create = (r2, ks2)" by fastforce
    obtain kind2 where k2: "spaces_ok ks2 kind2" "grows ks1 kind1 ks2 kind2"
      "\<forall>p. r2 = Some p \<longrightarrow> own_page ks2 kind2 ?pid PK_P1 p" "\<not> create \<longrightarrow> ks2 = ks1 \<and> kind2 = kind1"
      using next_table_step[OF lay1 k1(1) i2(1,3) pid ix(2) _ n2, of PK_P1] i2(4) by (auto simp: leads_to_def)
    have e: "pte ks ti v create = (map_option (\<lambda>p1. p1 + 8 * ?c) r2, ks2)"
      using False n1 n2 i3(2) ix(1) Some i2(2) by (simp add: pte_def Let_def split: option.splits)
    have "leaf_slot ks2 kind2 ?pid (p1 + 8 * ?c)" if "r2 = Some p1" for p1
      using that k2(3) ix(3) by (auto simp: leaf_slot_def own_page_def)
    then show ?thesis using w e k1 k2 grows_trans[OF k1(2) k2(2)] by (intro exI[of _ kind2]) auto
  qed
qed

lemma pte_lookup:
  assumes "layout_ok ks" "spaces_ok ks kind" "has_space ks kind ti" "fst (pte ks ti v False) = Some p"
  shows "leaf_slot ks kind (tk_pid (ks_tasks ks ti)) p"
proof -
  obtain ks' where "pte ks ti v False = (Some p, ks')" using assms(4) by (metis prod.collapse)
  from pte_step[OF assms(1-3) this] show ?thesis by auto
qed

lemma leaf_slot_entry:
  "spaces_ok ks kind \<Longrightarrow> pid \<noteq> 0 \<Longrightarrow> leaf_slot ks kind pid p \<Longrightarrow> leaf_entry ks kind pid (rd64 (ks_phys ks) p)"
  using spaces_okD by (fastforce simp: leaf_slot_def entry_ok_def)

section \<open>Translation\<close>

text \<open>The walk without allocation, as a function of memory and the root.\<close>

definition walk :: "(nat \<Rightarrow> u8) \<Rightarrow> nat \<Rightarrow> u64 \<Rightarrow> nat option" where
  "walk m root v =
     (if v < SF_BASE \<or> v \<ge> SF_USER_END then None
      else let e1 = rd64 m (frame_addr (rd64 m root) + 8) in
        if \<not> bit e1 0 then None
        else let e2 = rd64 m (frame_addr e1 + 8 * unat (drop_bit 21 v AND 511)) in
          if \<not> bit e2 0 then None else Some (frame_addr e2 + 8 * unat (drop_bit 12 v AND 511)))"

lemma pte_walk: "fst (pte ks ti v False) = walk (ks_phys ks) (unat (tk_cr3 (ks_tasks ks ti))) v"
  using user_index(1)[of v] by (auto simp: pte_def walk_def next_table_lookup Let_def)

lemma pte_cong:
  "ks_phys ks' = ks_phys ks \<Longrightarrow> tk_cr3 (ks_tasks ks' ti) = tk_cr3 (ks_tasks ks ti) \<Longrightarrow>
   fst (pte ks' ti v False) = fst (pte ks ti v False)"
  by (simp add: pte_walk)

lemma translation_cong:
  assumes "ks_phys ks' = ks_phys ks" "tk_cr3 (ks_tasks ks' ti) = tk_cr3 (ks_tasks ks ti)"
  shows "page_ok ks' ti w = page_ok ks ti w" "user_phys ks' ti = user_phys ks ti"
    "user_range ks' ti v n w = user_range ks ti v n w"
proof -
  show p: "page_ok ks' ti w = page_ok ks ti w" "user_phys ks' ti = user_phys ks ti"
    by (rule ext, simp add: page_ok_def user_phys_def pte_cong[OF assms] assms(1) split: option.split)+
  show "user_range ks' ti v n w = user_range ks ti v n w" by (simp add: user_range_def p(1))
qed

text \<open>Only the page number of an address matters.\<close>

lemma unat_page_base: "unat ((v::u64) AND NOT 4095) = unat v div 4096 * 4096"
proof -
  have "v AND NOT 4095 = push_bit 12 (drop_bit 12 v)"
  proof -
    have m: "(4095 :: u64) = mask 12" by (simp add: mask_eq_exp_minus_1)
    show ?thesis unfolding m by (rule bit_eqI) (auto simp: bit_simps)
  qed
  moreover have "unat v div 4096 * 4096 < 2 ^ 64"
    using unat_less_width(4)[of v] by (simp add: order.strict_trans1[OF div_times_less_eq_dividend])
  ultimately show ?thesis
    by (simp add: push_bit_eq_mult drop_bit_eq_div unat_word_ariths unat_div)
qed

lemma unat_index: "unat (drop_bit 21 (v::u64) AND 511) = unat v div 4096 div 512 mod 512"
  "unat (drop_bit 12 (v::u64) AND 511) = unat v div 4096 mod 512"
proof -
  have m: "unat (w AND 511) = unat w mod 512" for w :: u64
  proof -
    have "w AND 511 = take_bit 9 w" by (simp add: take_bit_eq_mask mask_eq_exp_minus_1)
    then show ?thesis by (simp add: take_bit_eq_mod unat_mod)
  qed
  show "unat (drop_bit 21 v AND 511) = unat v div 4096 div 512 mod 512"
    by (simp add: m drop_bit_eq_div unat_div div_mult2_eq[symmetric])
  show "unat (drop_bit 12 v AND 511) = unat v div 4096 mod 512"
    by (simp add: m drop_bit_eq_div unat_div)
qed

lemma user_bounds: "(v < SF_BASE \<or> v \<ge> SF_USER_END) \<longleftrightarrow> (unat v div 4096 < 0x40000 \<or> unat v div 4096 \<ge> 0x80000)"
proof -
  have "v < SF_BASE \<longleftrightarrow> unat v < 0x40000000" "v \<ge> SF_USER_END \<longleftrightarrow> unat v \<ge> 0x80000000"
    by (simp_all add: SF_BASE_def SF_USER_END_def word_less_nat_alt word_le_nat_alt)
  then show ?thesis by linarith
qed

lemma walk_page:
  assumes "unat v div 4096 = unat u div 4096"
  shows "walk m r v = walk m r u"
  unfolding walk_def user_bounds unat_index assms ..

lemma page_ok_page: "unat v div 4096 = unat u div 4096 \<Longrightarrow> page_ok ks ti w v = page_ok ks ti w u"
  by (simp add: page_ok_def pte_walk walk_page[of v u])

lemma user_phys_offset:
  assumes "unat v div 4096 = unat u div 4096" "user_phys ks ti v = Some x"
  shows "user_phys ks ti u = Some (x - unat v mod 4096 + unat u mod 4096)"
  using assms by (auto simp: user_phys_def pte_walk walk_page[of v u] page_offset Let_def split: option.splits if_splits)

lemma user_range_pages:
  assumes "user_range ks ti v n w" "j < unat n"
  shows "unat (v + of_nat j) = unat v + j" "page_ok ks ti w (v + of_nat j)"
proof -
  have r: "\<not> (v < SF_BASE \<or> v \<ge> SF_USER_END)" "\<not> n > SF_USER_END - v" "n \<noteq> 0"
    using assms by (auto simp: user_range_def split: if_splits)
  have v: "unat v < 0x80000000" using r(1) by (simp add: SF_USER_END_def word_le_nat_alt not_le word_less_nat_alt)
  have "unat (SF_USER_END - v) = 0x80000000 - unat v"
    using v by (subst unat_sub) (simp_all add: SF_USER_END_def word_le_nat_alt)
  then have n: "unat v + unat n \<le> 0x80000000" using r(2) v by (simp add: word_less_nat_alt)
  have j: "j < 2 ^ 64" using assms(2) n by simp
  show u: "unat (v + of_nat j) = unat v + j"
    using assms(2) n j by (simp add: unat_word_ariths unat_of_nat)
  define start last where "start = v AND NOT 4095" and "last = (v + n - 1) AND NOT 4095"
  have n1: "unat (n - 1) = unat n - 1" using r(3) by (rule unat_pred)
  have "unat (v + (n - 1)) = unat v + (unat n - 1)" using n n1 r(3) by (simp add: unat_word_ariths)
  then have ul: "unat last = (unat v + unat n - 1) div 4096 * 4096"
    unfolding last_def unat_page_base using r(3) assms(2) by (simp add: add_diff_eq)
  have us: "unat start = unat v div 4096 * 4096" unfolding start_def by (rule unat_page_base)
  have le: "unat start \<le> unat last" unfolding ul us using assms(2) by (intro mult_le_mono1 div_le_mono) simp
  then have "unat (last - start) = unat last - unat start" by (simp add: unat_sub word_le_nat_alt)
  then have cnt: "unat (last - start) div 4096 = (unat v + unat n - 1) div 4096 - unat v div 4096"
    unfolding ul us by (simp add: diff_mult_distrib[symmetric])
  define k where "k = (unat v + j) div 4096 - unat v div 4096"
  have i: "k \<le> (unat v + unat n - 1) div 4096 - unat v div 4096"
    unfolding k_def using assms(2) by (intro diff_le_mono div_le_mono) simp
  have all: "list_all (\<lambda>i. page_ok ks ti w (start + 4096 * of_nat i)) [0..<unat (last - start) div 4096 + 1]"
    using assms(1) r unfolding user_range_def Let_def start_def last_def by presburger
  moreover have "k \<in> set [0..<unat (last - start) div 4096 + 1]"
    using i unfolding cnt[symmetric] by (auto simp: le_less)
  ultimately have "page_ok ks ti w (start + 4096 * of_nat k)"
    unfolding list_all_iff by blast
  moreover have "unat (start + 4096 * of_nat k) div 4096 = unat (v + of_nat j) div 4096"
  proof -
    have "(unat v + j) div 4096 < 0x80000" using n assms(2) by linarith
    then have "k < 0x80000" unfolding k_def by linarith
    then have "k < 2 ^ 64" "4096 * k < 2 ^ 64" by simp_all
    then have "unat (4096 * of_nat k :: u64) = 4096 * k" by (simp add: unat_word_ariths unat_of_nat)
    moreover have "unat v div 4096 * 4096 + 4096 * k = (unat v + j) div 4096 * 4096"
    proof -
      have "unat v div 4096 \<le> (unat v + j) div 4096" by (intro div_le_mono) simp
      then show ?thesis unfolding k_def by (simp add: algebra_simps diff_mult_distrib2)
    qed
    moreover have "(unat v + j) div 4096 * 4096 < 2 ^ 64" using n assms(2) by simp
    ultimately have "unat (start + 4096 * of_nat k) = (unat v + j) div 4096 * 4096"
      using us by (simp add: unat_word_ariths)
    then show ?thesis using u by simp
  qed
  ultimately show "page_ok ks ti w (v + of_nat j)" using page_ok_page by blast
qed

section \<open>Copying in\<close>

lemma page_ok_phys: "page_ok ks ti w v \<Longrightarrow> \<exists>x. user_phys ks ti v = Some x"
  by (auto simp: page_ok_def user_phys_def Let_def split: option.splits)

lemma chunk_phys:
  assumes "j < 4096 - unat v mod 4096" "unat (v + of_nat j) = unat v + j" "user_phys ks ti v = Some x"
  shows "user_phys ks ti (v + of_nat j) = Some (x + j)"
proof -
  define q r where "q = unat v div 4096" and "r = unat v mod 4096"
  then have v: "unat v = 4096 * q + r" and "r + j < 4096" using assms(1) by simp_all
  then have d: "(unat v + j) div 4096 = unat v div 4096" "(unat v + j) mod 4096 = unat v mod 4096 + j"
    by (simp_all add: add.assoc)
  have "unat v mod 4096 \<le> x" using assms(3) by (auto simp: user_phys_def page_offset Let_def split: option.splits if_splits)
  then show ?thesis using user_phys_offset[of v "v + of_nat j" ks ti x] assms(2,3) d by simp
qed

lemma upt_split: "k \<le> n \<Longrightarrow> [0..<n] = [0..<k] @ map (\<lambda>j. k + j) [0..<n - k]"
  by (rule nth_equalityI) (auto simp: nth_append)

lemma load_chunk:
  assumes "k \<le> 4096 - unat v mod 4096" "\<And>j. j < k \<Longrightarrow> unat (v + of_nat j) = unat v + j" "user_phys ks ti v = Some x"
  shows "load x k m = map (\<lambda>j. m (the (user_phys ks ti (v + of_nat j)))) [0..<k]"
  unfolding load_def by (intro map_cong refl) (use assms chunk_phys[of _ v ks ti x] in auto)

lemma copy_in_loop_bytes:
  "(\<And>j. j < n \<Longrightarrow> unat (src + of_nat j) = unat src + j \<and> user_phys ks ti (src + of_nat j) \<noteq> None) \<Longrightarrow>
   copy_in_loop ks ti src n = Some (map (\<lambda>j. ks_phys ks (the (user_phys ks ti (src + of_nat j)))) [0..<n])"
proof (induction ks ti src n rule: copy_in_loop.induct)
  case (1 ks ti src n)
  show ?case
  proof (cases "n = 0")
    case True
    then show ?thesis by (simp add: copy_in_loop.simps)
  next
    case False
    let ?k = "min (4096 - unat (src AND 4095)) n" and ?f = "\<lambda>j. ks_phys ks (the (user_phys ks ti (src + of_nat j)))"
    have k: "?k \<le> n" "?k \<le> 4096 - unat src mod 4096" by (simp_all add: page_offset)
    obtain x where x: "user_phys ks ti src = Some x" using "1.prems"[of 0] False by auto
    have u: "unat (src + of_nat ?k) = unat src + ?k" if "?k < n" using "1.prems"[OF that] by simp
    have "copy_in_loop ks ti (src + of_nat ?k) (n - ?k) =
      Some (map (\<lambda>j. ks_phys ks (the (user_phys ks ti (src + of_nat ?k + of_nat j)))) [0..<n - ?k])"
    proof (rule "1.IH"[OF False refl x])
      fix j assume j: "j < n - ?k"
      then have "?k < n" "?k + j < n" by linarith+
      then show "unat (src + of_nat ?k + of_nat j) = unat (src + of_nat ?k) + j \<and>
          user_phys ks ti (src + of_nat ?k + of_nat j) \<noteq> None"
        using "1.prems"[of "?k + j"] u by (simp add: add.assoc)
    qed
    moreover have "load x ?k (ks_phys ks) = map ?f [0..<?k]"
      using "1.prems" k by (intro load_chunk[OF k(2) _ x]) simp
    ultimately have "copy_in_loop ks ti src n = Some (map ?f [0..<?k] @ map (\<lambda>j. ?f (?k + j)) [0..<n - ?k])"
      using False x by (simp add: copy_in_loop.simps[of ks ti src n] Let_def add.assoc)
    also have "map ?f [0..<?k] @ map (\<lambda>j. ?f (?k + j)) [0..<n - ?k] = map ?f [0..<n]"
      using upt_split[OF k(1)] by (simp add: o_def)
    finally show ?thesis .
  qed
qed

lemma copy_in_bytes:
  assumes "n < 2 ^ 64"
  shows "copy_in ks ti src n = Some (if user_range ks ti src (of_nat n) False
    then Ok (map (\<lambda>j. ks_phys ks (the (user_phys ks ti (src + of_nat j)))) [0..<n]) else Err SF_DENIED)"
proof (cases "user_range ks ti src (of_nat n) False")
  case True
  have "unat (src + of_nat j) = unat src + j \<and> user_phys ks ti (src + of_nat j) \<noteq> None" if "j < n" for j
  proof -
    have j: "j < unat (of_nat n :: u64)" using that assms by (simp add: unat_of_nat)
    show ?thesis using user_range_pages[OF True j] page_ok_phys by blast
  qed
  then show ?thesis using True copy_in_loop_bytes by (simp add: copy_in_def)
qed (simp add: copy_in_def)

section \<open>Copying out\<close>

text \<open>Where a write through a writable user mapping may land.\<close>

definition user_frame :: "Kernel \<Rightarrow> (nat \<Rightarrow> page_kind) \<Rightarrow> u32 \<Rightarrow> nat \<Rightarrow> bool" where
  "user_frame ks kind pid f \<longleftrightarrow>
     own_page ks kind pid PK_Data f \<or> pid = ks_device_owner ks \<and> dma_page ks f"

lemma write_target:
  assumes "layout_ok ks" "spaces_ok ks kind" "has_space ks kind ti" "page_ok ks ti True v"
  obtains x f where "user_phys ks ti v = Some x" "x = f + unat v mod 4096"
    "user_frame ks kind (tk_pid (ks_tasks ks ti)) f"
proof -
  obtain p where p: "fst (pte ks ti v False) = Some p" and e: "bit (rd64 (ks_phys ks) p) 0"
    "bit (rd64 (ks_phys ks) p) 1" "\<not> bit (rd64 (ks_phys ks) p) 9"
    using assms(4) by (auto simp: page_ok_def Let_def split: option.splits)
  have "tk_pid (ks_tasks ks ti) \<noteq> 0" using assms(3) by (simp add: has_space_def)
  then have "leaf_entry ks kind (tk_pid (ks_tasks ks ti)) (rd64 (ks_phys ks) p)"
    using leaf_slot_entry[OF assms(2)] pte_lookup[OF assms(1-3) p] by blast
  then have "user_frame ks kind (tk_pid (ks_tasks ks ti)) (frame_addr (rd64 (ks_phys ks) p))"
    using e by (auto simp: leaf_entry_def user_frame_def)
  moreover have "user_phys ks ti v = Some (frame_addr (rd64 (ks_phys ks) p) + unat v mod 4096)"
    using p e(1) by (simp add: user_phys_def page_offset)
  ultimately show thesis using that by blast
qed

lemma user_frame_tables_same:
  assumes "layout_ok ks" "user_frame ks kind pid f" "f \<le> x" "x + length bs \<le> f + 4096"
  shows "tables_same ks kind (store x bs (ks_phys ks))"
  unfolding tables_same_def
proof (intro allI impI)
  fix i y assume i: "i < POOL_PAGES" "kind i \<noteq> PK_Data" and y: "pool_addr ks i \<le> y" "y < pool_addr ks i + 4096"
  have "\<not> (f \<le> y \<and> y < f + 4096)"
  proof (cases "own_page ks kind pid PK_Data f")
    case True
    then obtain k where k: "f = pool_addr ks k" "kind k = PK_Data" by (auto simp: own_page_def)
    then have "k \<noteq> i" using i(2) by auto
    then show ?thesis using pool_addr_disjoint[of k i ks] k(1) y by linarith
  next
    case False
    then have d: "ks_dma ks \<le> f" "f + 4096 \<le> ks_dma ks + SF_DMA_BYTES"
      using assms(2) by (auto simp: user_frame_def dma_page_def)
    have "pool_addr ks i + 4096 \<le> ks_pool ks + 4096 * POOL_PAGES" "ks_pool ks \<le> pool_addr ks i"
      using i(1) by (auto simp: pool_addr_def)
    then show ?thesis using d y assms(1) unfolding layout_ok_def by linarith
  qed
  then show "store x bs (ks_phys ks) y = ks_phys ks y" using assms(3,4) by (auto simp: store_def)
qed

text \<open>Stores outside the tables do not change translations.\<close>

lemma tables_same_walk:
  assumes s: "spaces_ok ks kind" and h: "has_space ks kind ti" and t: "tables_same ks kind m"
  shows "walk m (unat (tk_cr3 (ks_tasks ks ti))) v = walk (ks_phys ks) (unat (tk_cr3 (ks_tasks ks ti))) v"
    "walk (ks_phys ks) (unat (tk_cr3 (ks_tasks ks ti))) v = Some p \<Longrightarrow> rd64 m p = rd64 (ks_phys ks) p"
proof -
  let ?pid = "tk_pid (ks_tasks ks ti)" and ?r = "unat (tk_cr3 (ks_tasks ks ti))"
  let ?b = "unat (drop_bit 21 v AND 511)" and ?c = "unat (drop_bit 12 v AND 511)"
  have pid: "?pid \<noteq> 0" using h by (simp add: has_space_def)
  have same: "rd64 m (q + 8 * j) = rd64 (ks_phys ks) (q + 8 * j)"
    if "own_page ks kind ?pid k q" "k \<noteq> PK_Data" "j < 512" for k q j
    using that pid tables_same_rd64[OF t] by (auto simp: own_page_def)
  have step: "own_page ks kind ?pid k' (frame_addr (rd64 (ks_phys ks) (q + 8 * j)))"
    if "own_page ks kind ?pid k q" "leads_to k j k'" "j < 512" "bit (rd64 (ks_phys ks) (q + 8 * j)) 0" for k k' q j
  proof -
    from that(1) obtain i where i: "i < POOL_PAGES" "q = pool_addr ks i" "ks_page_owner ks i = ?pid" "kind i = k"
      by (auto simp: own_page_def)
    show ?thesis using spaces_okD[OF s i(1,3) pid that(3)] i(2,4) that(2,4) by (simp add: entry_leads table_entry_def)
  qed
  have p4: "own_page ks kind ?pid PK_P4 ?r" using h by (simp add: has_space_def)
  have r: "rd64 m ?r = rd64 (ks_phys ks) ?r" using same[OF p4, of 0] by simp
  let ?p3 = "frame_addr (rd64 (ks_phys ks) ?r)"
  have p3: "own_page ks kind ?pid PK_P3 ?p3" using space_root[OF s h] .
  have e1: "rd64 m (?p3 + 8) = rd64 (ks_phys ks) (?p3 + 8)" using same[OF p3, of 1] by simp
  let ?p2 = "frame_addr (rd64 (ks_phys ks) (?p3 + 8))"
  have p2: "own_page ks kind ?pid PK_P2 ?p2" if "bit (rd64 (ks_phys ks) (?p3 + 8)) 0"
    using step[OF p3, of 1 PK_P2] that by (simp add: leads_to_def)
  have i: "?b < 512" "?c < 512" using unat_index by simp_all
  have e2: "rd64 m (?p2 + 8 * ?b) = rd64 (ks_phys ks) (?p2 + 8 * ?b)" if "bit (rd64 (ks_phys ks) (?p3 + 8)) 0"
    using same[OF p2[OF that] _ i(1)] by simp
  show "walk m ?r v = walk (ks_phys ks) ?r v" unfolding walk_def r e1 Let_def using e2 by (simp cong: if_cong)
  assume "walk (ks_phys ks) ?r v = Some p"
  then have b: "bit (rd64 (ks_phys ks) (?p3 + 8)) 0" "bit (rd64 (ks_phys ks) (?p2 + 8 * ?b)) 0"
    and p: "p = frame_addr (rd64 (ks_phys ks) (?p2 + 8 * ?b)) + 8 * ?c"
    by (auto simp: walk_def Let_def split: if_splits)
  have "own_page ks kind ?pid PK_P1 (frame_addr (rd64 (ks_phys ks) (?p2 + 8 * ?b)))"
    using step[OF p2[OF b(1)] _ i(1) b(2), of PK_P1] by (simp add: leads_to_def)
  then show "rd64 m p = rd64 (ks_phys ks) p" unfolding p using same[OF _ _ i(2)] by blast
qed

lemma tables_same_translation:
  assumes "spaces_ok ks kind" "has_space ks kind ti" "tables_same ks kind (f (ks_phys ks))"
  shows "page_ok (set_phys f ks) ti w = page_ok ks ti w" "user_phys (set_phys f ks) ti = user_phys ks ti"
    "user_range (set_phys f ks) ti v n w = user_range ks ti v n w"
proof -
  note t = tables_same_walk[OF assms]
  show p: "page_ok (set_phys f ks) ti w = page_ok ks ti w" "user_phys (set_phys f ks) ti = user_phys ks ti"
    by (rule ext, simp add: page_ok_def user_phys_def pte_walk t(1) t(2) split: option.split)+
  show "user_range (set_phys f ks) ti v n w = user_range ks ti v n w" by (simp add: user_range_def p(1))
qed

lemma tables_same_space:
  assumes "has_space ks kind ti" "tables_same ks kind (f (ks_phys ks))"
  shows "has_space (set_phys f ks) kind ti"
proof -
  from assms(1) obtain i where i: "i < POOL_PAGES" "unat (tk_cr3 (ks_tasks ks ti)) = pool_addr ks i"
    "ks_page_owner ks i = tk_pid (ks_tasks ks ti)" "kind i = PK_P4" "tk_pid (ks_tasks ks ti) \<noteq> 0"
    by (auto simp: has_space_def own_page_def)
  have "rd64 (f (ks_phys ks)) (pool_addr ks i + 8 * 0) = rd64 (ks_phys ks) (pool_addr ks i + 8 * 0)"
    using i by (intro tables_same_rd64[OF assms(2)]) simp_all
  then show ?thesis using assms(1) own_page_kept[OF pages_kept_phys i(5)] i(2) by (simp add: has_space_def)
qed

text \<open>The effect of copying out: byte by byte, in ascending order, through the translation.\<close>

definition put_bytes :: "(nat \<Rightarrow> nat) \<Rightarrow> bytes \<Rightarrow> (nat \<Rightarrow> u8) \<Rightarrow> nat \<Rightarrow> u8" where
  "put_bytes at bs m = fold (\<lambda>j m. m(at j := bs ! j)) [0..<length bs] m"

lemma fold_shift: "fold (\<lambda>j m. m(a + j := bs ! j)) [0..<k] m =
    (\<lambda>x. if a \<le> x \<and> x < a + k then bs ! (x - a) else m x)"
  by (induction k) (auto simp: fun_eq_iff less_Suc_eq)

lemma store_put_bytes: "store a bs m = put_bytes (\<lambda>j. a + j) bs m"
  by (simp add: store_def put_bytes_def fold_shift)

lemma put_bytes_append:
  "put_bytes at (as @ bs) m = put_bytes (\<lambda>j. at (length as + j)) bs (put_bytes at as m)"
proof -
  have a: "fold (\<lambda>j m. m(at j := (as @ bs) ! j)) [0..<length as] m = fold (\<lambda>j m. m(at j := as ! j)) [0..<length as] m"
    by (intro fold_cong refl) (auto simp: nth_append fun_eq_iff)
  have u: "[0..<length as + length bs] = [0..<length as] @ map (\<lambda>j. length as + j) [0..<length bs]"
    using upt_split[of "length as" "length as + length bs"] by simp
  show ?thesis using a by (simp add: put_bytes_def u fold_map comp_def nth_append)
qed

lemma put_bytes_cong: "(\<And>j. j < length bs \<Longrightarrow> at j = at' j) \<Longrightarrow> put_bytes at bs m = put_bytes at' bs m"
  unfolding put_bytes_def by (intro fold_cong refl) auto

lemma put_bytes_other: "(\<And>j. j < length bs \<Longrightarrow> at j \<noteq> x) \<Longrightarrow> put_bytes at bs m x = m x"
proof -
  have "(\<And>j. j < n \<Longrightarrow> at j \<noteq> x) \<Longrightarrow> fold (\<lambda>j m. m(at j := bs ! j)) [0..<n] m x = m x" for n
    by (induction n) auto
  then show "(\<And>j. j < length bs \<Longrightarrow> at j \<noteq> x) \<Longrightarrow> put_bytes at bs m x = m x" by (simp add: put_bytes_def)
qed


lemma copy_out_loop_bytes:
  "layout_ok ks \<Longrightarrow> spaces_ok ks kind \<Longrightarrow> has_space ks kind ti \<Longrightarrow>
   (\<And>j. j < length bs \<Longrightarrow> unat (dst + of_nat j) = unat dst + j \<and> page_ok ks ti True (dst + of_nat j)) \<Longrightarrow>
   copy_out_loop ks ti dst bs =
     Some (set_phys (put_bytes (\<lambda>j. the (user_phys ks ti (dst + of_nat j))) bs) ks) \<and>
   tables_same ks kind (put_bytes (\<lambda>j. the (user_phys ks ti (dst + of_nat j))) bs (ks_phys ks))"
proof (induction ks ti dst bs rule: copy_out_loop.induct)
  case (1 ks ti dst bs)
  let ?at = "\<lambda>j. the (user_phys ks ti (dst + of_nat j))"
  show ?case
  proof (cases "bs = []")
    case True
    then show ?thesis by (simp add: copy_out_loop.simps set_phys_def put_bytes_def tables_same_def)
  next
    case False
    define k where "k = min (4096 - unat (dst AND 4095)) (length bs)"
    have k: "k \<le> length bs" "k \<le> 4096 - unat dst mod 4096" by (simp_all add: k_def page_offset)
    have kl: "length (take k bs) = k" using k(1) by simp
    have "page_ok ks ti True dst" using "1.prems"(4)[of 0] False by simp
    then obtain x f where x: "user_phys ks ti dst = Some x" "x = f + unat dst mod 4096"
      and fr: "user_frame ks kind (tk_pid (ks_tasks ks ti)) f"
      by (rule write_target[OF "1.prems"(1-3)])
    let ?f = "store x (take k bs)"
    define ks1 where "ks1 = set_phys ?f ks"
    have "x + length (take k bs) \<le> f + 4096" using k(2) x(2) unfolding kl by simp
    then have ts: "tables_same ks kind (?f (ks_phys ks))"
      using user_frame_tables_same[OF "1.prems"(1) fr, of x "take k bs"] x(2) by simp
    note tr = tables_same_translation[where f = ?f, OF "1.prems"(2,3) ts, folded ks1_def]
    have at: "put_bytes ?at (take k bs) (ks_phys ks) = ?f (ks_phys ks)"
    proof -
      have "user_phys ks ti (dst + of_nat j) = Some (x + j)" if "j < k" for j
        using chunk_phys[OF _ _ x(1), of j] that k "1.prems"(4)[of j] by simp
      then show ?thesis unfolding store_put_bytes by (intro put_bytes_cong) simp
    qed
    let ?at' = "\<lambda>j. the (user_phys ks1 ti (dst + of_nat k + of_nat j))"
    have rest: "copy_out_loop ks1 ti (dst + of_nat k) (drop k bs) = Some (set_phys (put_bytes ?at' (drop k bs)) ks1) \<and>
      tables_same ks1 kind (put_bytes ?at' (drop k bs) (ks_phys ks1))"
    proof (rule "1.IH"[OF False refl x(1), folded k_def, folded ks1_def])
      show "layout_ok ks1" using "1.prems"(1) pages_kept_layout[OF pages_kept_phys] unfolding ks1_def by simp
      show "spaces_ok ks1 kind" using spaces_ok_store[where f = ?f, OF "1.prems"(2) ts] unfolding ks1_def .
      show "has_space ks1 kind ti" using tables_same_space[where f = ?f, OF "1.prems"(3) ts] unfolding ks1_def .
    next
      fix j assume "j < length (drop k bs)"
      then have "k < length bs" "k + j < length bs" by auto
      then show "unat (dst + of_nat k + of_nat j) = unat (dst + of_nat k) + j \<and>
          page_ok ks1 ti True (dst + of_nat k + of_nat j)"
        using "1.prems"(4)[of k] "1.prems"(4)[of "k + j"] tr(1) by (simp add: add.assoc)
    qed
    have at': "?at' = (\<lambda>j. ?at (k + j))" using tr(2) by (simp add: add.assoc)
    have "put_bytes ?at bs m = put_bytes (\<lambda>j. ?at (k + j)) (drop k bs) (put_bytes ?at (take k bs) m)" for m
      using put_bytes_append[of ?at "take k bs" "drop k bs" m] by (simp only: kl append_take_drop_id)
    then have put: "put_bytes ?at bs (ks_phys ks) = put_bytes ?at' (drop k bs) (ks_phys ks1)"
      unfolding at' using at by (simp add: ks1_def)
    have "copy_out_loop ks ti dst bs = copy_out_loop ks1 ti (dst + of_nat k) (drop k bs)"
      using False x(1) by (simp add: copy_out_loop.simps[of ks ti dst bs] Let_def k_def ks1_def)
    moreover have "set_phys (put_bytes ?at' (drop k bs)) ks1 = set_phys (put_bytes ?at bs) ks"
      using put by (simp add: set_phys_def ks1_def)
    moreover have "tables_same ks kind (put_bytes ?at bs (ks_phys ks))"
      using rest ts unfolding put by (simp add: tables_same_def ks1_def)
    ultimately show ?thesis using rest by simp
  qed
qed

section \<open>Mapping\<close>

lemma aligned_bits:
  assumes "(p :: u64) AND 4095 = 0" "n < 12"
  shows "\<not> bit p n"
proof -
  have m: "(4095 :: u64) = mask 12" by (simp add: mask_eq_exp_minus_1)
  have "bit (p AND 4095) n \<longleftrightarrow> bit p n" unfolding m using assms(2) by (simp add: bit_simps)
  then show ?thesis using assms(1) by simp
qed

lemma leaf_frame:
  assumes "(p :: u64) AND 4095 = 0" "unat p < 2 ^ 52" "w = 0 \<or> w = 2" "n = 0 \<or> n = NX" "x = 0 \<or> x = 0x18 OR PTE_MMIO"
  shows "frame_addr (p OR 5 OR w OR n OR x) = unat p"
    "bit (p OR 5 OR w OR n OR x) 0" "bit (p OR 5 OR w OR n OR x) 1 \<longleftrightarrow> w = 2"
    "bit (p OR 5 OR w OR n OR x) 9 \<longleftrightarrow> x \<noteq> 0"
proof -
  have "unat p mod 4096 = 0" using assms(1) page_offset[of p] by simp
  then obtain k where k: "unat p = 4096 * k" by auto
  have "frame_addr p = unat p" using assms(2) k by (simp add: frame_addr_eq)
  then have p: "p AND 0x000ffffffffff000 = p"
    unfolding frame_addr_def by (simp only: word_unat_eq_iff)
  have "w AND 0x000ffffffffff000 = 0" "n AND 0x000ffffffffff000 = 0" "x AND 0x000ffffffffff000 = 0"
    using assms(3-5) by (auto simp: NX_def PTE_MMIO_def)
  then have "(p OR 5 OR w OR n OR x) AND 0x000ffffffffff000 = p"
    by (simp add: bit.conj_disj_distrib2 p)
  then show "frame_addr (p OR 5 OR w OR n OR x) = unat p" by (simp add: frame_addr_def)
  have b: "\<not> bit p 0" "\<not> bit p 1" "\<not> bit p 9" using aligned_bits[OF assms(1)] by simp_all
  show "bit (p OR 5 OR w OR n OR x) 0" by (simp add: bit_or_iff)
  show "bit (p OR 5 OR w OR n OR x) 1 \<longleftrightarrow> w = 2" "bit (p OR 5 OR w OR n OR x) 9 \<longleftrightarrow> x \<noteq> 0"
    using b assms(3-5) by (auto simp: bit_or_iff NX_def PTE_MMIO_def)
qed

text \<open>A frame the task may map with the given flags.\<close>

definition mappable :: "Kernel \<Rightarrow> (nat \<Rightarrow> page_kind) \<Rightarrow> u32 \<Rightarrow> u64 \<Rightarrow> u32 \<Rightarrow> bool" where
  "mappable ks kind pid p flags \<longleftrightarrow> unat p < 2 ^ 52 \<and>
     (user_frame ks kind pid (unat p) \<or> \<not> bit flags 1 \<and> bundle_page ks (unat p))"

lemma user_frame_kept:
  "pages_kept ks kind ks' kind' \<Longrightarrow> pid \<noteq> 0 \<Longrightarrow> user_frame ks kind pid f \<Longrightarrow> user_frame ks' kind' pid f"
  using own_page_kept[of ks kind ks' kind' pid PK_Data f]
  by (auto simp: user_frame_def pages_kept_def dma_page_def)

lemma mappable_kept:
  "pages_kept ks kind ks' kind' \<Longrightarrow> pid \<noteq> 0 \<Longrightarrow> mappable ks kind pid p flags \<Longrightarrow> mappable ks' kind' pid p flags"
  using user_frame_kept[of ks kind ks' kind' pid "unat p"]
  by (auto simp: mappable_def pages_kept_def bundle_page_def)

lemma pool_outside_layout: "layout_ok ks \<Longrightarrow> i < POOL_PAGES \<Longrightarrow> pool_addr ks i < 2 ^ 52"
  using pool_addr_bound[of ks i] by simp

lemma space_map_cases:
  assumes "space_map ks ti v p flags = (r, ks')"
  obtains (refused) "ks' = ks" "r = Err SF_DENIED"
  | (full) "pte ks ti v True = (None, ks')" "r = Err SF_NO_SPACE"
  | (present) a where "pte ks ti v True = (Some a, ks')" "r = Err SF_INVALID"
  | (mapped) a ks1 where "pte ks ti v True = (Some a, ks1)" "r = Ok ()" "p AND 4095 = 0"
      "\<not> bit (rd64 (ks_phys ks1) a) 0"
      "ks' = set_phys (wr64 a (p OR 5 OR (if bit flags 1 then 2 else 0) OR (if bit flags 2 then 0 else NX))) ks1"
proof -
  have al: "(v OR p) AND 4095 = 0 \<Longrightarrow> p AND 4095 = 0"
    by (metis bit.conj_disj_distrib2 or_eq_0_iff)
  show thesis
    using assms refused full present mapped al
    by (auto simp: space_map_def split: if_splits prod.splits option.splits)
qed


lemma leaf_write:
  assumes s: "spaces_ok ks kind" and l: "leaf_slot ks kind pid a" and pid: "pid \<noteq> 0"
    and free: "\<not> bit (rd64 (ks_phys ks) a) 0" and e: "leaf_entry ks kind pid e"
  shows "spaces_ok (set_phys (wr64 a e) ks) kind \<and> grows ks kind (set_phys (wr64 a e) ks) kind"
proof -
  from l obtain i c where i: "i < POOL_PAGES" "c < 512" "a = pool_addr ks i + 8 * c" "ks_page_owner ks i = pid" "kind i = PK_P1"
    by (auto simp: leaf_slot_def)
  have "entry_ok ks kind (ks_page_owner ks i) (kind i) c e" using e i(4,5) by (simp add: entry_ok_def)
  then show ?thesis
    using spaces_ok_entry[OF s i(1) _ i(2)] grows_write_entry[of i ks kind c e] i pid free by simp
qed

lemma mappable_leaf:
  assumes "mappable ks kind pid p flags" "p AND 4095 = 0"
  shows "leaf_entry ks kind pid (p OR 5 OR (if bit flags 1 then 2 else 0) OR (if bit flags 2 then 0 else NX))"
  using leaf_frame[of p "if bit flags 1 then 2 else 0" "if bit flags 2 then 0 else NX" 0] assms
  by (auto simp: mappable_def leaf_entry_def user_frame_def)

lemma space_map_step:
  assumes lay: "layout_ok ks" and s: "spaces_ok ks kind" and h: "has_space ks kind ti"
    and m: "mappable ks kind (tk_pid (ks_tasks ks ti)) p flags" and op: "space_map ks ti v p flags = (r, ks')"
  shows "\<exists>kind'. spaces_ok ks' kind' \<and> grows ks kind ks' kind'"
  using op
proof (cases rule: space_map_cases)
  case refused
  then show ?thesis using s by (auto intro: exI[of _ kind])
next
  case full
  then show ?thesis using pte_step[OF lay s h full(1)] by blast
next
  case (present a)
  then show ?thesis using pte_step[OF lay s h present(1)] by blast
next
  case (mapped a ks1)
  let ?pid = "tk_pid (ks_tasks ks ti)"
  have pid: "?pid \<noteq> 0" using h by (simp add: has_space_def)
  from pte_step[OF lay s h mapped(1)] obtain kind1 where k: "spaces_ok ks1 kind1" "grows ks kind ks1 kind1"
    "leaf_slot ks1 kind1 ?pid a" by blast
  have "mappable ks1 kind1 ?pid p flags" using mappable_kept[OF growsD(2)[OF k(2)] pid m] .
  note w = leaf_write[OF k(1,3) pid mapped(4) mappable_leaf[OF this mapped(3)]]
  then show ?thesis using grows_trans[OF k(2)] mapped(5) by blast
qed

text \<open>After a walk that may allocate, the plain walk finds the same entry.\<close>

lemma next_table_present:
  "next_table ks pid ea create = (Some p, ks') \<Longrightarrow>
   bit (rd64 (ks_phys ks') ea) 0 \<and> frame_addr (rd64 (ks_phys ks') ea) = p"
proof -
  have "bit (of_nat q OR 7 :: u64) 0" for q by (simp add: bit_or_iff)
  then show "next_table ks pid ea create = (Some p, ks') \<Longrightarrow>
   bit (rd64 (ks_phys ks') ea) 0 \<and> frame_addr (rd64 (ks_phys ks') ea) = p"
    by (auto simp: next_table_def Let_def split: if_splits prod.splits option.splits)
qed

lemma pte_again:
  assumes lay: "layout_ok ks" and s: "spaces_ok ks kind" and h: "has_space ks kind ti"
    and w: "pte ks ti v True = (Some a, ks')" and g: "spaces_ok ks' kind'" "grows ks kind ks' kind'"
  shows "fst (pte ks' ti v False) = Some a"
proof -
  have v: "\<not> (v < SF_BASE \<or> v \<ge> SF_USER_END)" using w by (auto simp: pte_def)
  note ix = user_index[OF v]
  let ?pid = "tk_pid (ks_tasks ks ti)" and ?r = "unat (tk_cr3 (ks_tasks ks ti))"
  let ?b = "unat (drop_bit 21 v AND 511)" and ?c = "unat (drop_bit 12 v AND 511)"
  let ?p3 = "frame_addr (rd64 (ks_phys ks) ?r)"
  have pid: "?pid \<noteq> 0" using h by (simp add: has_space_def)
  obtain i3 where i3: "i3 < POOL_PAGES" "?p3 = pool_addr ks i3" "ks_page_owner ks i3 = ?pid" "kind i3 = PK_P3"
    using space_root[OF s h] by (auto simp: own_page_def)
  from w v ix(1) obtain p2 ks1 p1 where n1: "next_table ks ?pid (?p3 + 8 * 1) True = (Some p2, ks1)"
    and n2: "next_table ks1 ?pid (p2 + 8 * ?b) True = (Some p1, ks')" and a: "a = p1 + 8 * ?c"
    by (auto simp: pte_def Let_def split: prod.splits option.splits)
  obtain kind1 where k1: "spaces_ok ks1 kind1" "grows ks kind ks1 kind1" "own_page ks1 kind1 ?pid PK_P2 p2"
    using next_table_step[OF lay s i3(1,3) pid _ _ n1[unfolded i3(2)], of PK_P2] i3(4) by (auto simp: leads_to_def)
  from k1(3) obtain i2 where i2: "i2 < POOL_PAGES" "p2 = pool_addr ks1 i2" "ks_page_owner ks1 i2 = ?pid" "kind1 i2 = PK_P2"
    by (auto simp: own_page_def)
  have lay1: "layout_ok ks1" using lay pages_kept_layout[OF growsD(2)[OF k1(2)]] by simp
  obtain kind2 where k2: "grows ks1 kind1 ks' kind2"
    using next_table_step[OF lay1 k1(1) i2(1,3) pid ix(2) _ n2[unfolded i2(2)], of PK_P1] i2(4) by (auto simp: leads_to_def)
  have addr: "pool_addr ks1 = pool_addr ks" using growsD(2)[OF k1(2)] by (rule pages_kept_addr)
  have o3: "ks_page_owner ks1 i3 = ?pid" "kind1 i3 = PK_P3"
    using growsD(2)[OF k1(2)] i3 pid by (auto simp: pages_kept_def)
  note e1 = next_table_present[OF n1]
  have e1': "rd64 (ks_phys ks') (?p3 + 8) = rd64 (ks_phys ks1) (?p3 + 8)"
    using growsD(3)[OF k2 i3(1), of 1] o3 pid e1 i3(2) addr by simp
  have r: "rd64 (ks_phys ks') ?r = rd64 (ks_phys ks) ?r"
  proof -
    obtain i where i: "i < POOL_PAGES" "?r = pool_addr ks i" "ks_page_owner ks i = ?pid" "kind i = PK_P4"
      and set: "bit (rd64 (ks_phys ks) ?r) 0"
      using h by (auto simp: has_space_def own_page_def)
    show ?thesis using growsD(3)[OF g(2) i(1), of 0] i pid set by simp
  qed
  note e2 = next_table_present[OF n2]
  have "tk_cr3 (ks_tasks ks' ti) = tk_cr3 (ks_tasks ks ti)" using mem_only_fields(12)[OF growsD(1)[OF g(2)]] .
  then show ?thesis unfolding pte_walk walk_def Let_def
    using v e1 e1' e2 a by (simp add: r)
qed

end
