(* ===== verification/SF_Memory_Ops.thy ===== *)
theory SF_Memory_Ops
  imports SF_Memory_Inv
begin

text \<open>
  Address-space creation, device mappings, the release of a task's pages and page quotas
  (\<^verbatim>\<open>kernel/memory.c\<close>: \<^verbatim>\<open>space_new\<close>, \<^verbatim>\<open>space_map_mmio\<close>, \<^verbatim>\<open>pages_free\<close>): each keeps the
  ownership of page tables, and the page counts stay exact.
\<close>

section \<open>Device mappings and new spaces\<close>

lemma wr64_wr64: "wr64 a x (wr64 a y m) = wr64 a x m"
  by (auto simp: wr64_def fun_eq_iff)

lemma leaf_write_walk:
  assumes lay: "layout_ok ks" and s: "spaces_ok ks kind" and h: "has_space ks kind ti" and l: "leaf_slot ks kind pid a"
  shows "fst (pte (set_phys (wr64 a e) ks) ti v False) = fst (pte ks ti v False)"
proof -
  let ?r = "unat (tk_cr3 (ks_tasks ks ti))" and ?pid = "tk_pid (ks_tasks ks ti)"
  from l obtain i c where i: "i < POOL_PAGES" "c < 512" "a = pool_addr ks i + 8 * c" "kind i = PK_P1"
    by (auto simp: leaf_slot_def)
  have same: "rd64 (wr64 a e (ks_phys ks)) (q + 8 * j) = rd64 (ks_phys ks) (q + 8 * j)"
    if "own_page ks kind ?pid k q" "k \<noteq> PK_P1" "j < 512" for k q j
  proof -
    from that(1) obtain n where n: "q = pool_addr ks n" "kind n = k" by (auto simp: own_page_def)
    then have "(i, c) \<noteq> (n, j)" using i(4) that(2) by auto
    then show ?thesis using rd64_entry_other[of i c n j] i that(3) n(1) by simp
  qed
  have p4: "own_page ks kind ?pid PK_P4 ?r" using h by (simp add: has_space_def)
  have r: "rd64 (wr64 a e (ks_phys ks)) ?r = rd64 (ks_phys ks) ?r" using same[OF p4, of 0] by simp
  let ?p3 = "frame_addr (rd64 (ks_phys ks) ?r)"
  have p3: "own_page ks kind ?pid PK_P3 ?p3" using space_root[OF s h] .
  have e1: "rd64 (wr64 a e (ks_phys ks)) (?p3 + 8) = rd64 (ks_phys ks) (?p3 + 8)" using same[OF p3, of 1] by simp
  let ?p2 = "frame_addr (rd64 (ks_phys ks) (?p3 + 8))" and ?b = "unat (drop_bit 21 v AND 511)"
  have "own_page ks kind ?pid PK_P2 ?p2" if "bit (rd64 (ks_phys ks) (?p3 + 8)) 0"
  proof -
    have pid: "?pid \<noteq> 0" using h by (simp add: has_space_def)
    from p3 obtain n where n: "n < POOL_PAGES" "?p3 = pool_addr ks n" "ks_page_owner ks n = ?pid" "kind n = PK_P3"
      by (auto simp: own_page_def)
    show ?thesis using spaces_okD[OF s n(1,3) pid, of 1] n(2,4) that by (simp add: entry_ok_def table_entry_def)
  qed
  then have "rd64 (wr64 a e (ks_phys ks)) (?p2 + 8 * ?b) = rd64 (ks_phys ks) (?p2 + 8 * ?b)"
    if "bit (rd64 (ks_phys ks) (?p3 + 8)) 0" using same[of PK_P2 ?p2 ?b] that unat_index(1)[of v] by simp
  then show ?thesis unfolding pte_walk walk_def Let_def using r e1 by (simp cong: if_cong)
qed

lemma space_map_mmio_step:
  assumes lay: "layout_ok ks" and s: "spaces_ok ks kind" and h: "has_space ks kind ti"
    and p: "unat p < 2 ^ 52" and op: "space_map_mmio ks ti v p = (r, ks')"
  shows "\<exists>kind'. spaces_ok ks' kind' \<and> grows ks kind ks' kind'"
proof -
  let ?pid = "tk_pid (ks_tasks ks ti)"
  have pid: "?pid \<noteq> 0" using h by (simp add: has_space_def)
  obtain r0 ks0 where m: "space_map ks ti v p 3 = (r0, ks0)" by fastforce
  from m show ?thesis
  proof (cases rule: space_map_cases)
    case refused
    then show ?thesis using s op m by (auto simp: space_map_mmio_def intro: exI[of _ kind])
  next
    case full
    then show ?thesis using pte_step[OF lay s h full(1)] op m by (auto simp: space_map_mmio_def)
  next
    case (present a)
    then show ?thesis using pte_step[OF lay s h present(1)] op m by (auto simp: space_map_mmio_def)
  next
    case (mapped a ks1)
    from pte_step[OF lay s h mapped(1)] obtain kind1 where k: "spaces_ok ks1 kind1" "grows ks kind ks1 kind1"
      "leaf_slot ks1 kind1 ?pid a" by blast
    let ?e = "p OR 5 OR 2 OR NX" and ?e2 = "(p OR 5 OR 2 OR NX) OR 0x18 OR PTE_MMIO"
    have ks0: "ks0 = set_phys (wr64 a ?e) ks1" using mapped(5) by simp
    have lay1: "layout_ok ks1" using lay pages_kept_layout[OF growsD(2)[OF k(2)]] by simp
    have "fst (pte ks0 ti v False) = fst (pte ks1 ti v False)"
      unfolding ks0 by (rule leaf_write_walk[OF lay1 k(1) grows_has_space[OF k(2) h] k(3)])
    also have "\<dots> = Some a" using pte_again[OF lay s h mapped(1) k(1,2)] .
    finally have "ks' = set_phys (wr64 a ?e2) ks0" using op m mapped(2) by (simp add: space_map_mmio_def ks0)
    then have ks': "ks' = set_phys (wr64 a ?e2) ks1" by (simp add: ks0 set_phys_def wr64_wr64)
    have "leaf_entry ks1 kind1 ?pid ?e2"
      using leaf_frame(4)[OF mapped(3) p, of 2 NX "0x18 OR PTE_MMIO"]
      by (simp add: leaf_entry_def or.assoc PTE_MMIO_def)
    then show ?thesis using leaf_write[OF k(1,3) pid mapped(4)] grows_trans[OF k(2)] ks' by blast
  qed
qed

lemma init_kernel_pd_outside:
  assumes "x < ks_kernel_pd ks \<or> ks_kernel_pd ks + 4096 \<le> x"
  shows "ks_phys (init_kernel_pd ks) x = ks_phys ks x"
proof -
  have "n \<le> 512 \<Longrightarrow> ks_phys (fold (\<lambda>i. set_phys (wr64 (ks_kernel_pd ks + 8 * i) (of_nat i * 0x200000 OR 0x83))) [0..<n] ks) x
    = ks_phys ks x" for n
    using assms by (induction n) (auto simp: wr64_def)
  then show ?thesis by (simp add: init_kernel_pd_def)
qed

lemma fold_set_phys: "\<exists>m. fold (\<lambda>i. set_phys (g i)) xs ks = ks\<lparr>ks_phys := m\<rparr>"
proof (induction xs arbitrary: ks)
  case Nil
  show ?case by (rule exI[of _ "ks_phys ks"]) simp
next
  case (Cons x xs)
  obtain m where "fold (\<lambda>i. set_phys (g i)) xs (set_phys (g x) ks) = (set_phys (g x) ks)\<lparr>ks_phys := m\<rparr>"
    using Cons.IH by blast
  moreover have "(set_phys (g x) ks)\<lparr>ks_phys := m\<rparr> = ks\<lparr>ks_phys := m\<rparr>" by (simp add: set_phys_def)
  ultimately show ?case by (intro exI[of _ m]) simp
qed

lemma init_kernel_pd_set: "\<exists>f. init_kernel_pd ks = set_phys f ks"
proof (cases "rd64 (ks_phys ks) (ks_kernel_pd ks) = 0")
  case True
  obtain m where "fold (\<lambda>i. set_phys (wr64 (ks_kernel_pd ks + 8 * i) (of_nat i * 0x200000 OR 0x83))) [0..<512] ks = ks\<lparr>ks_phys := m\<rparr>"
    using fold_set_phys[of "\<lambda>i. wr64 (ks_kernel_pd ks + 8 * i) (of_nat i * 0x200000 OR 0x83)" "[0..<512]" ks] by (rule exE)
  then show ?thesis using True by (intro exI[of _ "\<lambda>_. m"]) (simp add: init_kernel_pd_def set_phys_def)
next
  case False
  then show ?thesis by (intro exI[of _ "\<lambda>m. m"]) (simp add: init_kernel_pd_def set_phys_def)
qed

lemma init_kernel_pd_grows:
  assumes lay: "layout_ok ks" and s: "spaces_ok ks kind"
  shows "spaces_ok (init_kernel_pd ks) kind \<and> grows ks kind (init_kernel_pd ks) kind"
proof -
  obtain f where f: "init_kernel_pd ks = set_phys f ks" using init_kernel_pd_set by blast
  have same: "f (ks_phys ks) x = ks_phys ks x" if "i < POOL_PAGES" "pool_addr ks i \<le> x" "x < pool_addr ks i + 4096" for i x
  proof -
    have "pool_addr ks i + 4096 \<le> ks_pool ks + 4096 * POOL_PAGES" "ks_pool ks \<le> pool_addr ks i"
      using that(1) by (auto simp: pool_addr_def)
    then have "x < ks_kernel_pd ks \<or> ks_kernel_pd ks + 4096 \<le> x"
      using that lay unfolding layout_ok_def by linarith
    then show ?thesis using init_kernel_pd_outside[of x ks] f by simp
  qed
  have "tables_same ks kind (f (ks_phys ks))" using same by (auto simp: tables_same_def)
  then have "spaces_ok (set_phys f ks) kind" using s by (rule spaces_ok_store[rotated])
  moreover have "rd64 (f (ks_phys ks)) (pool_addr ks i + 8 * j) = rd64 (ks_phys ks) (pool_addr ks i + 8 * j)"
    if "i < POOL_PAGES" "j < 512" for i j using that by (intro rd64_cong same[of i]) auto
  ultimately show ?thesis using same by (simp add: f grows_def)
qed

text \<open>A new address space.\<close>

lemma space_link_step:
  assumes lay: "layout_ok ks" and s: "spaces_ok ks kind" and i: "i4 < POOL_PAGES" "i3 < POOL_PAGES" "i3 \<noteq> i4"
    and own: "ks_page_owner ks i4 = pid" "ks_page_owner ks i3 = pid" "pid \<noteq> 0" "kind i4 = PK_P4" "kind i3 = PK_P3"
    and z4: "rd64 (ks_phys ks) (pool_addr ks i4 + 8 * 0) = 0" and z3: "\<forall>j<512. rd64 (ks_phys ks) (pool_addr ks i3 + 8 * j) = 0"
    and ks': "ks' = set_phys (wr64 (pool_addr ks i3 + 8 * 0) (of_nat (ks_kernel_pd ks) OR 3))
      (set_phys (wr64 (pool_addr ks i4 + 8 * 0) (of_nat (pool_addr ks i3) OR 7)) ks)"
    and ks'': "ks'' = (if m then set_phys (wr64 (pool_addr ks i3 + 8 * 3) e3) ks' else ks')"
  shows "spaces_ok ks'' kind" "grows ks kind ks'' kind" "bit (rd64 (ks_phys ks'') (pool_addr ks i4)) 0"
proof -
  define e4 :: u64 where "e4 = of_nat (pool_addr ks i3) OR 7"
  define k1 where "k1 = set_phys (wr64 (pool_addr ks i4 + 8 * 0) e4) ks"
  have a1: "pool_addr k1 = pool_addr ks" "pool_addr ks' = pool_addr ks" "pool_addr ks'' = pool_addr ks"
    by (simp_all add: k1_def ks' ks'' pool_addr_def fun_eq_iff)
  have o1: "ks_page_owner k1 = ks_page_owner ks" "ks_page_owner ks' = ks_page_owner ks" by (simp_all add: k1_def ks')
  have fr: "frame_addr e4 = pool_addr ks i3" using frame_addr_pool[OF lay i(2)] by (simp add: e4_def)
  have "entry_ok ks kind (ks_page_owner ks i4) (kind i4) 0 e4"
    using fr i own by (auto simp: entry_ok_def table_entry_def own_page_def)
  then have s1: "spaces_ok k1 kind" unfolding k1_def using s i own by (intro spaces_ok_entry) auto
  have g1: "grows ks kind k1 kind" unfolding k1_def using i own z4 by (intro grows_write_entry) auto
  have r1: "rd64 (ks_phys k1) (pool_addr ks i3 + 8 * j) = 0" if "j < 512" for j
    using rd64_entry_other[of i4 0 i3 j ks e4 "ks_phys ks"] z3 i that by (simp add: k1_def)
  have ksk: "ks' = set_phys (wr64 (pool_addr k1 i3 + 8 * 0) (of_nat (ks_kernel_pd ks) OR 3)) k1"
    by (simp add: ks' k1_def e4_def pool_addr_def)
  have tr: "entry_ok k kind p PK_P3 j e" if "j \<noteq> 1" for k p j e using that by (simp add: entry_ok_def)
  have s2: "spaces_ok ks' kind" unfolding ksk using s1 i own o1 by (intro spaces_ok_entry) (auto intro: tr)
  have g2: "grows k1 kind ks' kind" unfolding ksk using i own o1 r1[of 0] a1 by (intro grows_write_entry) auto
  have r2: "rd64 (ks_phys ks') (pool_addr ks i3 + 8 * 3) = 0"
    using rd64_entry_other[of i3 0 i3 3 ks _ "ks_phys k1"] r1[of 3] by (simp add: ksk a1)
  have g3: "spaces_ok ks'' kind \<and> grows ks' kind ks'' kind"
  proof (cases m)
    case True
    then have k: "ks'' = set_phys (wr64 (pool_addr ks' i3 + 8 * 3) e3) ks'" by (simp add: ks'' a1)
    have "spaces_ok ks'' kind" unfolding k using s2 i own o1 by (intro spaces_ok_entry) (auto intro: tr)
    moreover have "grows ks' kind ks'' kind" unfolding k using i own o1 r2 a1 by (intro grows_write_entry) auto
    ultimately show ?thesis ..
  qed (simp add: ks'' s2)
  then show "spaces_ok ks'' kind" ..
  show "grows ks kind ks'' kind" using grows_trans[OF g1 grows_trans[OF g2 conjunct2[OF g3]]] .
  have p1: "rd64 (ks_phys k1) (pool_addr k1 i4 + 8 * 0) = e4" by (simp add: k1_def pool_addr_def)
  moreover have "bit e4 0" by (simp add: e4_def bit_simps)
  ultimately have "rd64 (ks_phys ks'') (pool_addr k1 i4 + 8 * 0) = e4"
    using growsD(3)[OF grows_trans[OF g2 conjunct2[OF g3]] i(1), of 0] own o1 by simp
  then show "bit (rd64 (ks_phys ks'') (pool_addr ks i4)) 0" using \<open>bit e4 0\<close> a1 by simp
qed

lemma alloc_grows:
  assumes "spaces_ok ks kind" "page_alloc ks pid = (q, ks')"
  shows "\<exists>kind'. spaces_ok ks' kind' \<and> grows ks kind ks' kind'"
proof (cases q)
  case None
  then show ?thesis using assms page_alloc_None[of ks pid ks'] by auto
next
  case (Some p)
  from assms(2)[unfolded Some] show ?thesis by (rule grows_alloc[OF assms(1)]) blast
qed

lemma space_new_step:
  assumes lay: "layout_ok ks" and s: "spaces_ok ks kind" and op: "space_new ks pid = (r, ks')"
  shows "\<exists>kind'. spaces_ok ks' kind' \<and> grows ks kind ks' kind' \<and>
    (\<forall>p. r = Some p \<longrightarrow> p < 2 ^ 64 \<and> own_page ks' kind' pid PK_P4 p \<and> bit (rd64 (ks_phys ks') p) 0 \<and> pid \<noteq> 0)"
proof -
  define ks0 where "ks0 = init_kernel_pd ks"
  have s0: "spaces_ok ks0 kind" and g0: "grows ks kind ks0 kind" using init_kernel_pd_grows[OF lay s] by (auto simp: ks0_def)
  obtain r4 ks1 where a4: "page_alloc ks0 pid = (r4, ks1)" by fastforce
  obtain r3 ks2 where a3: "page_alloc ks1 pid = (r3, ks2)" by fastforce
  show ?thesis
  proof (cases "r4 = None \<or> r3 = None")
    case True
    obtain k1 where k1: "spaces_ok ks1 k1" "grows ks0 kind ks1 k1" using alloc_grows[OF s0 a4] by blast
    obtain k2 where k2: "spaces_ok ks2 k2" "grows ks1 k1 ks2 k2" using alloc_grows[OF k1(1) a3] by blast
    have "r = None \<and> ks' = ks2" using op a4 a3 True by (cases r4; cases r3) (simp_all add: space_new_def Let_def ks0_def)
    then show ?thesis using k2 grows_trans[OF g0 grows_trans[OF k1(2) k2(2)]] by blast
  next
    case False
    then obtain p4 p3 where p: "r4 = Some p4" "r3 = Some p3" by auto
    obtain i4 where i4: "i4 < POOL_PAGES" "p4 = pool_addr ks0 i4" "ks_page_owner ks0 i4 = 0" "ks_page_owner ks1 i4 = pid" "pid \<noteq> 0"
      and g1: "\<forall>k. grows ks0 kind ks1 (kind(i4 := k))" and s1: "\<forall>k. spaces_ok ks1 (kind(i4 := k))"
      and z1: "\<forall>j<512. rd64 (ks_phys ks1) (pool_addr ks0 i4 + 8 * j) = 0"
      by (rule grows_alloc[OF s0 a4[unfolded p]])
    define k1 where "k1 = kind(i4 := PK_P4)"
    have g1': "grows ks0 kind ks1 k1" and s1': "spaces_ok ks1 k1" using g1 s1 by (simp_all add: k1_def)
    obtain i3 where i3: "i3 < POOL_PAGES" "p3 = pool_addr ks1 i3" "ks_page_owner ks1 i3 = 0" "ks_page_owner ks2 i3 = pid" "pid \<noteq> 0"
      and g2: "\<forall>k. grows ks1 k1 ks2 (k1(i3 := k))" and s2: "\<forall>k. spaces_ok ks2 (k1(i3 := k))"
      and z2: "\<forall>j<512. rd64 (ks_phys ks2) (pool_addr ks1 i3 + 8 * j) = 0"
      and u2: "\<forall>x. x < pool_addr ks1 i3 \<or> pool_addr ks1 i3 + 4096 \<le> x \<longrightarrow> ks_phys ks2 x = ks_phys ks1 x"
      by (rule grows_alloc[OF s1' a3[unfolded p]])
    define k2 where "k2 = k1(i3 := PK_P3)"
    have g2': "grows ks1 k1 ks2 k2" and s2': "spaces_ok ks2 k2" using g2 s2 by (simp_all add: k2_def)
    have ne: "i3 \<noteq> i4" using i3(3) i4(4,5) by auto
    have addr: "pool_addr ks0 = pool_addr ks2" "pool_addr ks1 = pool_addr ks2"
      using pages_kept_addr[OF growsD(2)[OF g1']] pages_kept_addr[OF growsD(2)[OF g2']] by simp_all
    have g02: "grows ks kind ks2 k2" using grows_trans[OF g0 grows_trans[OF g1' g2']] .
    have lay2: "layout_ok ks2" using lay pages_kept_layout[OF growsD(2)[OF g02]] by simp
    have o4: "ks_page_owner ks2 i4 = pid" using growsD(2)[OF g2'] i4 by (auto simp: pages_kept_def)
    have "rd64 (ks_phys ks2) (pool_addr ks2 i4 + 8 * 0) = rd64 (ks_phys ks1) (pool_addr ks2 i4 + 8 * 0)"
      using pool_addr_disjoint[OF ne, of ks2] addr by (intro rd64_cong u2[rule_format]) auto
    then have z4: "rd64 (ks_phys ks2) (pool_addr ks2 i4 + 8 * 0) = 0" using z1[rule_format, of 0] addr by simp
    have z3: "\<forall>j<512. rd64 (ks_phys ks2) (pool_addr ks2 i3 + 8 * j) = 0" using z2 addr by simp
    have kk: "k2 i4 = PK_P4" "k2 i3 = PK_P3" using ne by (simp_all add: k2_def k1_def)
    have r: "r = Some (pool_addr ks2 i4)" using op a4 a3 p i4(2) addr by (simp add: space_new_def Let_def ks0_def split: if_splits)
    have ks'': "ks' = (if ks_mmio_ready ks2 then set_phys (wr64 (pool_addr ks2 i3 + 8 * 3) (of_nat (ks_mmio_pd ks2) OR 3)) kx else kx)"
      if "kx = set_phys (wr64 (pool_addr ks2 i3 + 8 * 0) (of_nat (ks_kernel_pd ks2) OR 3))
      (set_phys (wr64 (pool_addr ks2 i4 + 8 * 0) (of_nat (pool_addr ks2 i3) OR 7)) ks2)" for kx
      using op a4 a3 p i4(2) i3(2) addr that by (simp add: space_new_def Let_def ks0_def split: if_splits)
    note link = space_link_step[OF lay2 s2' i4(1) i3(1) ne o4 i3(4,5) kk z4 z3 refl ks''[OF refl]]
    have "own_page ks' k2 pid PK_P4 (pool_addr ks2 i4)"
      using own_page_kept[OF growsD(2)[OF link(2)], of pid PK_P4 "pool_addr ks2 i4"] i4 o4 kk by (auto simp: own_page_def)
    moreover have "pool_addr ks2 i4 < 2 ^ 64" using pool_addr_bound[OF lay2 i4(1)] by simp
    ultimately show ?thesis using link grows_trans[OF g02 link(2)] r i4(5) by (intro exI[of _ k2]) auto
  qed
qed

section \<open>Releasing the pages of a task\<close>

definition freed :: "u32 \<Rightarrow> nat \<Rightarrow> Kernel \<Rightarrow> Kernel" where
  "freed pid n ks = ks\<lparr>
     ks_phys := \<lambda>x. if \<exists>i<n. ks_page_owner ks i = pid \<and> pool_addr ks i \<le> x \<and> x < pool_addr ks i + 4096 then 0 else ks_phys ks x,
     ks_page_owner := \<lambda>i. if i < n \<and> ks_page_owner ks i = pid then 0 else ks_page_owner ks i\<rparr>"

lemma kernel_pages_cong: "f = f' \<Longrightarrow> g = g' \<Longrightarrow>
    ks\<lparr>ks_phys := f, ks_page_owner := g\<rparr> = ks\<lparr>ks_phys := f', ks_page_owner := g'\<rparr>"
  by simp

lemma fold_free_page: "fold (free_page pid) [0..<n] ks = freed pid n ks"
proof (induction n)
  case 0
  then show ?case by (simp add: freed_def)
next
  case (Suc n)
  have addr: "pool_addr (freed pid n ks) = pool_addr ks" by (simp add: pool_addr_def freed_def fun_eq_iff)
  show ?case
  proof (cases "ks_page_owner ks n = pid")
    case True
    have o: "ks_page_owner (freed pid n ks) n = pid" using True by (simp add: freed_def)
    have "fold (free_page pid) [0..<Suc n] ks = free_page pid n (freed pid n ks)" using Suc by simp
    also have "\<dots> = freed pid (Suc n) ks"
    proof -
      have "free_page pid n (freed pid n ks) = ks\<lparr>
          ks_phys := store (pool_addr ks n) (replicate 4096 0) (ks_phys (freed pid n ks)),
          ks_page_owner := (ks_page_owner (freed pid n ks))(n := 0)\<rparr>"
        unfolding free_page_def o addr by (simp add: freed_def set_phys_def)
      also have "\<dots> = freed pid (Suc n) ks" unfolding freed_def[of pid "Suc n"]
      proof (rule kernel_pages_cong)
        show "store (pool_addr ks n) (replicate 4096 0) (ks_phys (freed pid n ks)) = (\<lambda>x. if \<exists>i<Suc n. ks_page_owner ks i = pid \<and>
            pool_addr ks i \<le> x \<and> x < pool_addr ks i + 4096 then 0 else ks_phys ks x)"
        proof (rule ext)
          fix x
          show "store (pool_addr ks n) (replicate 4096 0) (ks_phys (freed pid n ks)) x = (if \<exists>i<Suc n. ks_page_owner ks i = pid \<and>
              pool_addr ks i \<le> x \<and> x < pool_addr ks i + 4096 then 0 else ks_phys ks x)"
          proof (cases "pool_addr ks n \<le> x \<and> x < pool_addr ks n + 4096")
            case T: True
            then have "\<exists>i<Suc n. ks_page_owner ks i = pid \<and> pool_addr ks i \<le> x \<and> x < pool_addr ks i + 4096"
              using True by (intro exI[of _ n]) simp
            moreover have "x - pool_addr ks n < 4096" using T by linarith
            then have "replicate 4096 0 ! (x - pool_addr ks n) = (0::u8)" by (rule nth_replicate)
            ultimately show ?thesis using T by (simp add: store_def)
          next
            case F: False
            then have "(\<exists>i<Suc n. ks_page_owner ks i = pid \<and> pool_addr ks i \<le> x \<and> x < pool_addr ks i + 4096) \<longleftrightarrow>
                (\<exists>i<n. ks_page_owner ks i = pid \<and> pool_addr ks i \<le> x \<and> x < pool_addr ks i + 4096)"
              using less_Suc_eq by metis
            then show ?thesis using F by (auto simp add: store_def freed_def)
          qed
        qed
        show "(ks_page_owner (freed pid n ks))(n := 0) = (\<lambda>i. if i < Suc n \<and> ks_page_owner ks i = pid then 0 else ks_page_owner ks i)"
          by (rule ext) (auto simp: freed_def True less_Suc_eq)
      qed
      finally show ?thesis .
    qed
    finally show ?thesis .
  next
    case False
    have o: "ks_page_owner (freed pid n ks) n \<noteq> pid" using False by (simp add: freed_def)
    have "freed pid (Suc n) ks = freed pid n ks" using False
      unfolding freed_def by (intro kernel_pages_cong) (auto simp: less_Suc_eq fun_eq_iff)
    then show ?thesis using Suc o by (simp add: free_page_def)
  qed
qed

definition uncounted :: "u32 \<Rightarrow> nat \<Rightarrow> Kernel \<Rightarrow> Kernel" where
  "uncounted pid n ks = ks\<lparr>ks_tasks := \<lambda>i. if i < n \<and> tk_pid (ks_tasks ks i) = pid
     then (ks_tasks ks i)\<lparr>tk_page_count := 0\<rparr> else ks_tasks ks i\<rparr>"

lemma fold_clear_count: "fold (clear_page_count pid) [0..<n] ks = uncounted pid n ks"
proof (induction n)
  case 0
  then show ?case by (simp add: uncounted_def)
next
  case (Suc n)
  then show ?case
    by (auto simp: clear_page_count_def uncounted_def put_task_def less_Suc_eq fun_eq_iff)
qed

lemma pages_free_eq:
  "pages_free ks pid = (if pid = 0 \<or> pid > 0x7fffffff then ks
     else uncounted pid SF_MAX_TASKS (freed pid POOL_PAGES ks))"
  by (simp add: pages_free_def fold_free_page fold_clear_count)

lemma freed_phys: "ks_phys (freed pid n ks) x =
    (if \<exists>i<n. ks_page_owner ks i = pid \<and> pool_addr ks i \<le> x \<and> x < pool_addr ks i + 4096 then 0 else ks_phys ks x)"
  by (simp add: freed_def)

lemma pages_free_other_page:
  assumes "i < POOL_PAGES" "ks_page_owner ks i \<noteq> pid" "pool_addr ks i \<le> x" "x < pool_addr ks i + 4096"
  shows "ks_phys (pages_free ks pid) x = ks_phys ks x"
proof -
  have "\<not> (\<exists>j<POOL_PAGES. ks_page_owner ks j = pid \<and> pool_addr ks j \<le> x \<and> x < pool_addr ks j + 4096)"
  proof
    assume "\<exists>j<POOL_PAGES. ks_page_owner ks j = pid \<and> pool_addr ks j \<le> x \<and> x < pool_addr ks j + 4096"
    then obtain j where j: "ks_page_owner ks j = pid" "pool_addr ks j \<le> x" "x < pool_addr ks j + 4096" by blast
    then have "j \<noteq> i" using assms(2) by auto
    then show False using pool_addr_disjoint[of j i ks] j assms(3,4) by linarith
  qed
  then have "ks_phys (freed pid POOL_PAGES ks) x = ks_phys ks x" unfolding freed_phys by (simp only: if_False)
  then show ?thesis by (simp add: pages_free_eq uncounted_def)
qed

lemma pages_free_fields [simp]:
  "ks_pool (pages_free ks pid) = ks_pool ks" "ks_dma (pages_free ks pid) = ks_dma ks"
  "ks_kernel_pd (pages_free ks pid) = ks_kernel_pd ks" "ks_device_owner (pages_free ks pid) = ks_device_owner ks"
  "ks_bundle_phys (pages_free ks pid) = ks_bundle_phys ks" "ks_bundle_bytes (pages_free ks pid) = ks_bundle_bytes ks"
  "pool_addr (pages_free ks pid) = pool_addr ks"
  by (simp_all add: pages_free_eq uncounted_def freed_def pool_addr_def fun_eq_iff)

lemma pages_free_owner:
  "0 < pid \<Longrightarrow> pid \<le> 0x7fffffff \<Longrightarrow> ks_page_owner (pages_free ks pid) i =
     (if i < POOL_PAGES \<and> ks_page_owner ks i = pid then 0 else ks_page_owner ks i)"
  by (auto simp: pages_free_eq uncounted_def freed_def)

lemma pages_free_task:
  "ks_tasks (pages_free ks pid) ti =
     (if 0 < pid \<and> pid \<le> 0x7fffffff \<and> ti < SF_MAX_TASKS \<and> tk_pid (ks_tasks ks ti) = pid
      then (ks_tasks ks ti)\<lparr>tk_page_count := 0\<rparr> else ks_tasks ks ti)"
  by (auto simp: pages_free_eq uncounted_def freed_def word_gt_0)

lemma pages_free_spaces:
  assumes s: "spaces_ok ks kind" and pid: "0 < pid" "pid \<le> 0x7fffffff"
  shows "spaces_ok (pages_free ks pid) kind"
  unfolding spaces_ok_def
proof (intro allI impI)
  let ?ks = "pages_free ks pid"
  fix i j assume i: "i < POOL_PAGES" "ks_page_owner ?ks i \<noteq> 0" "j < (512::nat)"
  then have o: "ks_page_owner ks i \<noteq> pid" "ks_page_owner ?ks i = ks_page_owner ks i"
    using pages_free_owner[OF pid, of ks i] by (auto split: if_splits)
  have "rd64 (ks_phys ?ks) (pool_addr ks i + 8 * j) = rd64 (ks_phys ks) (pool_addr ks i + 8 * j)"
    using i by (intro rd64_cong pages_free_other_page[OF i(1) o(1)]) auto
  moreover have "entry_ok ks kind (ks_page_owner ks i) (kind i) j (rd64 (ks_phys ks) (pool_addr ks i + 8 * j))"
    using spaces_okD[OF s i(1) refl _ i(3)] i(2) o(2) by simp
  moreover have "own_page ?ks kind q k p" if "own_page ks kind q k p" "q \<noteq> pid" for q k p
    using that pages_free_owner[OF pid, of ks] by (auto simp: own_page_def)
  ultimately show "entry_ok ?ks kind (ks_page_owner ?ks i) (kind i) j (rd64 (ks_phys ?ks) (pool_addr ?ks i + 8 * j))"
    using o by (auto simp: entry_ok_def table_entry_def leaf_entry_def dma_page_def bundle_page_def split: page_kind.splits)
qed

lemma pages_free_has_space:
  assumes h: "has_space ks kind ti" and ne: "tk_pid (ks_tasks ks ti) \<noteq> pid" and pid: "0 < pid" "pid \<le> 0x7fffffff"
  shows "has_space (pages_free ks pid) kind ti"
proof -
  let ?ks = "pages_free ks pid" and ?t = "ks_tasks ks ti"
  have t: "tk_pid (ks_tasks ?ks ti) = tk_pid ?t" "tk_cr3 (ks_tasks ?ks ti) = tk_cr3 ?t"
    using pages_free_task[of ks pid ti] by auto
  obtain i where i: "i < POOL_PAGES" "unat (tk_cr3 ?t) = pool_addr ks i" "ks_page_owner ks i = tk_pid ?t" "kind i = PK_P4"
    using h by (auto simp: has_space_def own_page_def)
  have "rd64 (ks_phys ?ks) (pool_addr ks i) = rd64 (ks_phys ks) (pool_addr ks i)"
    using i ne by (intro rd64_cong pages_free_other_page[OF i(1)]) auto
  then show ?thesis
    using h i ne t pages_free_owner[OF pid, of ks i] by (auto simp: has_space_def own_page_def)
qed

section \<open>Quotas\<close>

text \<open>Every page is charged to one task that is not dead, and no task exceeds its limit.\<close>

definition charged :: "Kernel \<Rightarrow> u32 \<Rightarrow> nat set" where
  "charged ks pid = {i. i < POOL_PAGES \<and> ks_page_owner ks i = pid}"

definition holds_pid :: "Task \<Rightarrow> bool" where
  "holds_pid t \<longleftrightarrow> tk_pid t \<noteq> 0 \<and> tk_state t \<noteq> T_DEAD"

definition quota_ok :: "Kernel \<Rightarrow> bool" where
  "quota_ok ks \<longleftrightarrow>
     (\<forall>i<SF_MAX_TASKS. holds_pid (ks_tasks ks i) \<longrightarrow>
        unat (tk_page_count (ks_tasks ks i)) = card (charged ks (tk_pid (ks_tasks ks i))) \<and>
        tk_page_count (ks_tasks ks i) \<le> tk_page_limit (ks_tasks ks i)) \<and>
     (\<forall>i<SF_MAX_TASKS. \<forall>j<SF_MAX_TASKS. holds_pid (ks_tasks ks i) \<longrightarrow> holds_pid (ks_tasks ks j) \<longrightarrow>
        tk_pid (ks_tasks ks i) = tk_pid (ks_tasks ks j) \<longrightarrow> i = j) \<and>
     (\<forall>p<POOL_PAGES. ks_page_owner ks p \<noteq> 0 \<longrightarrow>
        (\<exists>i<SF_MAX_TASKS. holds_pid (ks_tasks ks i) \<and> tk_pid (ks_tasks ks i) = ks_page_owner ks p))"

lemma finite_charged [simp]: "finite (charged ks pid)"
  by (simp add: charged_def)

lemma quota_phys [simp]: "quota_ok (set_phys f ks) = quota_ok ks"
  by (simp add: quota_ok_def charged_def)

lemma unat_less_inc: "(a::'a::len word) < b \<Longrightarrow> unat (a + 1) = unat a + 1 \<and> unat a + 1 \<le> unat b"
proof -
  assume ab: "a < b"
  then have s: "unat a + 1 \<le> unat b" by (simp add: word_less_nat_alt)
  also have "\<dots> < 2 ^ LENGTH('a)" by (rule unsigned_less)
  finally have "unat a + 1 < 2 ^ LENGTH('a)" .
  then show ?thesis using s by (simp add: unat_word_ariths unsigned_1)
qed

lemma page_alloc_quota:
  assumes q: "quota_ok ks" and op: "page_alloc ks pid = (r, ks')"
  shows "quota_ok ks'"
proof (cases r)
  case None
  then show ?thesis using q op page_alloc_None[of ks pid ks'] by simp
next
  case (Some p)
  obtain ti i where po: "page_owner ks pid = Some ti" and i: "i < POOL_PAGES" "ks_page_owner ks i = 0" "pid \<noteq> 0"
    and lim: "tk_page_count (ks_tasks ks ti) < tk_page_limit (ks_tasks ks ti)"
    and ks': "ks' = set_phys (store (pool_addr ks i) (replicate 4096 0))
       (put_task ti ((ks_tasks ks ti)\<lparr>tk_page_count := tk_page_count (ks_tasks ks ti) + 1\<rparr>)
         (ks\<lparr>ks_page_owner := (ks_page_owner ks)(i := pid)\<rparr>))"
    using page_alloc_Some[OF op[unfolded Some]] by metis
  have ti: "ti < SF_MAX_TASKS" "tk_pid (ks_tasks ks ti) = pid" "tk_state (ks_tasks ks ti) \<noteq> T_DEAD"
    using po by (auto simp: page_owner_def first_index_Some split: if_splits)
  have hti: "holds_pid (ks_tasks ks ti)" using ti i by (simp add: holds_pid_def)
  have c: "charged ks' q = (if q = pid then insert i (charged ks pid) else if q = 0 then charged ks 0 - {i} else charged ks q)" for q
    using i by (auto simp: charged_def ks')
  have h: "holds_pid (ks_tasks ks' j) = holds_pid (ks_tasks ks j)" "tk_pid (ks_tasks ks' j) = tk_pid (ks_tasks ks j)"
     "tk_page_limit (ks_tasks ks' j) = tk_page_limit (ks_tasks ks j)" for j
    by (simp_all add: ks' holds_pid_def)
  have count: "unat (tk_page_count (ks_tasks ks ti) + 1) = unat (tk_page_count (ks_tasks ks ti)) + 1"
    "tk_page_count (ks_tasks ks ti) + 1 \<le> tk_page_limit (ks_tasks ks ti)"
    using unat_less_inc[OF lim] by (simp_all add: word_le_nat_alt)
  have new: "i \<notin> charged ks pid" using i by (simp add: charged_def)
  have uniq: "j = ti" if "j < SF_MAX_TASKS" "holds_pid (ks_tasks ks j)" "tk_pid (ks_tasks ks j) = pid" for j
    using q that hti ti by (auto simp: quota_ok_def)
  have A: "unat (tk_page_count (ks_tasks ks' j)) = card (charged ks' (tk_pid (ks_tasks ks' j))) \<and>
        tk_page_count (ks_tasks ks' j) \<le> tk_page_limit (ks_tasks ks' j)"
    if j: "j < SF_MAX_TASKS" "holds_pid (ks_tasks ks' j)" for j
  proof (cases "j = ti")
    case True
    then show ?thesis using q hti ti c[of pid] new count by (simp add: quota_ok_def ks')
  next
    case False
    then have "tk_pid (ks_tasks ks j) \<noteq> pid" using uniq j h by auto
    then show ?thesis using q False j h c[of "tk_pid (ks_tasks ks j)"] by (simp add: quota_ok_def ks' holds_pid_def)
  qed
  have B: "\<exists>j<SF_MAX_TASKS. holds_pid (ks_tasks ks' j) \<and> tk_pid (ks_tasks ks' j) = ks_page_owner ks' p"
    if "p < POOL_PAGES" "ks_page_owner ks' p \<noteq> 0" for p
  proof (cases "p = i")
    case True
    then show ?thesis using ti hti h by (auto simp: ks')
  next
    case False
    then show ?thesis using q that h by (simp add: quota_ok_def ks')
  qed
  show ?thesis using A B q h unfolding quota_ok_def by simp
qed

lemma next_table_quota: "quota_ok ks \<Longrightarrow> next_table ks pid ea c = (r, ks') \<Longrightarrow> quota_ok ks'"
  using page_alloc_quota[of ks pid] by (auto simp: next_table_def Let_def split: if_splits prod.splits option.splits)

lemma pte_quota: "quota_ok ks \<Longrightarrow> pte ks ti v c = (r, ks') \<Longrightarrow> quota_ok ks'"
  using next_table_quota
  by (auto simp: pte_def Let_def split: if_splits prod.splits option.splits) metis+

lemma space_map_quota:
  assumes q: "quota_ok ks" and op: "space_map ks ti v p fl = (r, ks')" shows "quota_ok ks'"
proof -
  obtain r1 ks1 where p: "pte ks ti v True = (r1, ks1)" by fastforce
  have "quota_ok ks1" using pte_quota[OF q p] .
  then show ?thesis using op q p by (auto simp: space_map_def split: if_splits option.splits)
qed

lemma space_map_mmio_quota:
  assumes q: "quota_ok ks" and op: "space_map_mmio ks ti v p = (r, ks')" shows "quota_ok ks'"
proof -
  obtain r1 ks1 where p: "space_map ks ti v p 3 = (r1, ks1)" by fastforce
  have "quota_ok ks1" using space_map_quota[OF q p] .
  then show ?thesis using op p by (auto simp: space_map_mmio_def split: sum.splits option.splits)
qed

lemma space_new_quota:
  assumes q: "quota_ok ks" and op: "space_new ks pid = (r, ks')" shows "quota_ok ks'"
proof -
  obtain f where f: "init_kernel_pd ks = set_phys f ks" using init_kernel_pd_set by blast
  obtain r1 ks1 where a: "page_alloc (set_phys f ks) pid = (r1, ks1)" by fastforce
  obtain r2 ks2 where b: "page_alloc ks1 pid = (r2, ks2)" by fastforce
  have "quota_ok (set_phys f ks)" using q by simp
  then have "quota_ok ks1" using a by (rule page_alloc_quota)
  then have "quota_ok ks2" using b by (rule page_alloc_quota)
  then show ?thesis using op a b f by (auto simp: space_new_def Let_def split: option.splits if_splits)
qed

lemma pages_free_quota:
  assumes q: "quota_ok ks" and pid: "0 < pid" "pid \<le> 0x7fffffff"
  shows "quota_ok (pages_free ks pid)" "charged (pages_free ks pid) pid = {}"
proof -
  let ?ks = "pages_free ks pid"
  have o: "ks_page_owner ?ks i = (if i < POOL_PAGES \<and> ks_page_owner ks i = pid then 0 else ks_page_owner ks i)" for i
    using pages_free_owner[OF pid] .
  have h: "holds_pid (ks_tasks ?ks j) = holds_pid (ks_tasks ks j)" "tk_pid (ks_tasks ?ks j) = tk_pid (ks_tasks ks j)"
     "tk_page_limit (ks_tasks ?ks j) = tk_page_limit (ks_tasks ks j)" for j
    by (simp_all add: pages_free_task holds_pid_def)
  show c0: "charged ?ks pid = {}" using pid by (auto simp: charged_def o split: if_splits)
  have c: "charged ?ks q = charged ks q" if "q \<noteq> pid" "q \<noteq> 0" for q using that by (auto simp: charged_def o split: if_splits)
  have "unat (tk_page_count (ks_tasks ?ks j)) = card (charged ?ks (tk_pid (ks_tasks ?ks j))) \<and>
        tk_page_count (ks_tasks ?ks j) \<le> tk_page_limit (ks_tasks ?ks j)"
    if j: "j < SF_MAX_TASKS" "holds_pid (ks_tasks ?ks j)" for j
  proof (cases "tk_pid (ks_tasks ks j) = pid")
    case True
    then show ?thesis using j pid c0 by (simp add: pages_free_task)
  next
    case False
    moreover have "tk_pid (ks_tasks ks j) \<noteq> 0" using j h by (auto simp: holds_pid_def)
    ultimately show ?thesis using q j h c[of "tk_pid (ks_tasks ks j)"]
      by (simp add: quota_ok_def pages_free_task)
  qed
  moreover have "\<exists>j<SF_MAX_TASKS. holds_pid (ks_tasks ?ks j) \<and> tk_pid (ks_tasks ?ks j) = ks_page_owner ?ks p"
    if "p < POOL_PAGES" "ks_page_owner ?ks p \<noteq> 0" for p
  proof -
    have "ks_page_owner ?ks p = ks_page_owner ks p" using that(2) unfolding o by presburger
    then show ?thesis using q that h by (simp add: quota_ok_def)
  qed
  ultimately show "quota_ok ?ks" using q h unfolding quota_ok_def by simp
qed

section \<open>Translations survive growth\<close>

lemma grows_translation:
  assumes s: "spaces_ok ks kind" and h: "has_space ks kind ti" and g: "grows ks kind ks' kind'"
    and t: "user_phys ks ti v = Some x"
  shows "user_phys ks' ti v = Some x" "page_ok ks' ti w v = page_ok ks ti w v"
proof -
  let ?r = "unat (tk_cr3 (ks_tasks ks ti))" and ?pid = "tk_pid (ks_tasks ks ti)"
  have pid: "?pid \<noteq> 0" using h by (simp add: has_space_def)
  have keep: "rd64 (ks_phys ks') (q + 8 * j) = rd64 (ks_phys ks) (q + 8 * j)"
    if "own_page ks kind ?pid k q" "k \<noteq> PK_Data" "j < 512" "bit (rd64 (ks_phys ks) (q + 8 * j)) 0" for k q j
    using that growsD(3)[OF g] pid by (auto simp: own_page_def)
  have nxt: "own_page ks kind ?pid k' (frame_addr (rd64 (ks_phys ks) (q + 8 * j)))"
    if "own_page ks kind ?pid k q" "leads_to k j k'" "j < 512" "bit (rd64 (ks_phys ks) (q + 8 * j)) 0" for k k' q j
  proof -
    from that(1) obtain n where n: "n < POOL_PAGES" "q = pool_addr ks n" "ks_page_owner ks n = ?pid" "kind n = k"
      by (auto simp: own_page_def)
    show ?thesis using spaces_okD[OF s n(1,3) pid that(3)] n(2,4) that(2,4)
      by (auto simp: entry_ok_def table_entry_def leads_to_def split: page_kind.splits)
  qed
  obtain a where a: "walk (ks_phys ks) ?r v = Some a" and e: "bit (rd64 (ks_phys ks) a) 0"
    using t by (auto simp: user_phys_def Let_def pte_walk split: option.splits if_splits)
  let ?p3 = "frame_addr (rd64 (ks_phys ks) ?r)"
  let ?p2 = "frame_addr (rd64 (ks_phys ks) (?p3 + 8 * 1))" and ?b = "unat (drop_bit 21 v AND 511)"
  let ?p1 = "frame_addr (rd64 (ks_phys ks) (?p2 + 8 * ?b))" and ?c = "unat (drop_bit 12 v AND 511)"
  have v: "\<not> (v < SF_BASE \<or> v \<ge> SF_USER_END)" using a by (auto simp: walk_def)
  note ix = user_index[OF v]
  have b1: "bit (rd64 (ks_phys ks) (?p3 + 8 * 1)) 0" and b2: "bit (rd64 (ks_phys ks) (?p2 + 8 * ?b)) 0" and ap: "a = ?p1 + 8 * ?c"
    using a v by (auto simp: walk_def Let_def split: if_splits)
  have p4: "own_page ks kind ?pid PK_P4 ?r" and b0: "bit (rd64 (ks_phys ks) (?r + 8 * 0)) 0" using h by (simp_all add: has_space_def)
  have p3: "own_page ks kind ?pid PK_P3 ?p3" using space_root[OF s h] .
  have p2: "own_page ks kind ?pid PK_P2 ?p2" using nxt[OF p3 _ _ b1] by (simp add: leads_to_def)
  have p1: "own_page ks kind ?pid PK_P1 ?p1" using nxt[OF p2 _ ix(2) b2] by (simp add: leads_to_def)
  have k: "rd64 (ks_phys ks') ?r = rd64 (ks_phys ks) ?r" "rd64 (ks_phys ks') (?p3 + 8) = rd64 (ks_phys ks) (?p3 + 8)"
    "rd64 (ks_phys ks') (?p2 + 8 * ?b) = rd64 (ks_phys ks) (?p2 + 8 * ?b)" "rd64 (ks_phys ks') a = rd64 (ks_phys ks) a"
    using keep[OF p4 _ _ b0] keep[OF p3 _ _ b1] keep[OF p2 _ ix(2) b2] keep[OF p1 _ ix(3)] e unfolding ap by simp_all
  have cr: "tk_cr3 (ks_tasks ks' ti) = tk_cr3 (ks_tasks ks ti)" using mem_only_fields(12)[OF growsD(1)[OF g]] .
  have w: "walk (ks_phys ks') ?r v = Some a"
    using v b1 b2 ap unfolding walk_def Let_def by (simp add: k[simplified])
  show "user_phys ks' ti v = Some x" using t w a e k(4) by (simp add: user_phys_def Let_def pte_walk cr)
  show "page_ok ks' ti w v = page_ok ks ti w v" using w a e k(4) by (simp add: page_ok_def Let_def pte_walk cr)
qed

lemma grows_user_range:
  assumes s: "spaces_ok ks kind" and h: "has_space ks kind ti" and g: "grows ks kind ks' kind'"
    and r: "user_range ks ti v n w"
  shows "user_range ks' ti v n w"
proof -
  have "page_ok ks' ti w u" if "page_ok ks ti w u" for u
    using page_ok_phys[OF that] grows_translation(2)[OF s h g] that by blast
  then show ?thesis using r by (auto simp: user_range_def Let_def list_all_iff split: if_splits)
qed

section \<open>Copies change only memory\<close>

lemma copy_out_loop_set: "copy_out_loop ks ti dst bs = Some ks' \<Longrightarrow> \<exists>m. ks' = ks\<lparr>ks_phys := m\<rparr>"
proof (induction ks ti dst bs arbitrary: ks' rule: copy_out_loop.induct)
  case (1 ks ti dst bs)
  show ?case
  proof (cases "bs = []")
    case True
    then show ?thesis using "1.prems" by (intro exI[of _ "ks_phys ks"]) (simp add: copy_out_loop.simps)
  next
    case False
    then obtain p where p: "user_phys ks ti dst = Some p" using "1.prems"
      by (subst (asm) copy_out_loop.simps) (auto simp: Let_def split: option.splits)
    have "copy_out_loop (set_phys (store p (take (min (4096 - unat (dst AND 4095)) (length bs)) bs)) ks) ti
        (dst + of_nat (min (4096 - unat (dst AND 4095)) (length bs))) (drop (min (4096 - unat (dst AND 4095)) (length bs)) bs) = Some ks'"
      using "1.prems" False p by (subst (asm) copy_out_loop.simps) (simp add: Let_def)
    from "1.IH"[OF False refl p this] show ?thesis by (auto simp: set_phys_def)
  qed
qed

lemma copy_out_quota: "quota_ok ks \<Longrightarrow> copy_out ks ti dst bs = Some (r, ks') \<Longrightarrow> quota_ok ks'"
  using copy_out_loop_set[of ks ti dst bs] by (auto simp: copy_out_def quota_ok_def charged_def split: if_splits)

lemma copy_out_set: "copy_out ks ti dst bs = Some (r, ks') \<Longrightarrow> \<exists>m. ks' = ks\<lparr>ks_phys := m\<rparr>"
proof (cases "user_range ks ti dst (of_nat (length bs)) True")
  case True
  then show "copy_out ks ti dst bs = Some (r, ks') \<Longrightarrow> ?thesis"
    using copy_out_loop_set[of ks ti dst bs ks'] by (simp add: copy_out_def)
next
  case False
  then show "copy_out ks ti dst bs = Some (r, ks') \<Longrightarrow> ?thesis" by (intro exI[of _ "ks_phys ks"]) (simp add: copy_out_def)
qed

text \<open>A checked copy always succeeds, and leaves every page table as it was.\<close>

lemma copy_out_tables:
  assumes "layout_ok ks" "spaces_ok ks kind" "has_space ks kind ti" "length bs < 2 ^ 64"
    and r: "user_range ks ti dst (of_nat (length bs)) True"
  obtains f where "copy_out ks ti dst bs = Some (Ok (), set_phys f ks)" "tables_same ks kind (f (ks_phys ks))"
proof -
  let ?at = "\<lambda>j. the (user_phys ks ti (dst + of_nat j))"
  have pg: "unat (dst + of_nat j) = unat dst + j \<and> page_ok ks ti True (dst + of_nat j)" if "j < length bs" for j
  proof -
    have "j < unat (of_nat (length bs) :: u64)" using that assms(4) by (simp add: unat_of_nat)
    then show ?thesis using user_range_pages[OF r] by blast
  qed
  then have "copy_out_loop ks ti dst bs = Some (set_phys (put_bytes ?at bs) ks)"
    "tables_same ks kind (put_bytes ?at bs (ks_phys ks))"
    using copy_out_loop_bytes[OF assms(1-3) pg] by auto
  then show thesis using that[of "put_bytes ?at bs"] r by (simp add: copy_out_def)
qed

end
