(* ===== verification/SF_Memory_Claims.thy ===== *)
theory SF_Memory_Claims
  imports SF_Memory_Ops
begin

text \<open>
  Properties of the memory manager (\<^verbatim>\<open>kernel/memory.c\<close>): exact and isolated user copies,
  mappings that later walks see, and page quotas under any interleaving of operations; with
  a concrete address space on which they are instantiated.
\<close>

section \<open>Sequences of memory operations\<close>

datatype mem_op = Op_Alloc u32 | Op_Space u32 | Op_Map nat u64 u64 u32 | Op_Map_Mmio nat u64 u64 | Op_Free u32 | Op_Out nat u64 bytes

fun mem_run :: "mem_op \<Rightarrow> Kernel \<Rightarrow> Kernel" where
  "mem_run (Op_Alloc pid) ks = snd (page_alloc ks pid)"
| "mem_run (Op_Space pid) ks = snd (space_new ks pid)"
| "mem_run (Op_Map ti v p flags) ks = snd (space_map ks ti v p flags)"
| "mem_run (Op_Map_Mmio ti v p) ks = snd (space_map_mmio ks ti v p)"
| "mem_run (Op_Free pid) ks = pages_free ks pid"
| "mem_run (Op_Out ti dst bs) ks = (case copy_out ks ti dst bs of Some (_, ks') \<Rightarrow> ks' | None \<Rightarrow> ks)"

lemma mem_run_quota: "quota_ok ks \<Longrightarrow> quota_ok (mem_run op ks)"
proof (cases op)
  case (Op_Free pid)
  then show "quota_ok ks \<Longrightarrow> ?thesis"
    using pages_free_quota(1)[of ks pid] by (cases "pid = 0 \<or> pid > 0x7fffffff") (auto simp: pages_free_eq word_gt_0)
next
  case (Op_Out ti dst bs)
  then show "quota_ok ks \<Longrightarrow> ?thesis" using copy_out_quota[of ks ti dst bs] by (auto split: option.splits)
qed (auto intro: page_alloc_quota[OF _ prod.collapse[symmetric]] space_new_quota[OF _ prod.collapse[symmetric]]
    space_map_quota[OF _ prod.collapse[symmetric]] space_map_mmio_quota[OF _ prod.collapse[symmetric]])

interpretation quota: invariant_system quota_ok "\<lambda>ks ks'. \<exists>op. ks' = mem_run op ks" quota_ok
  by unfold_locales (auto intro: mem_run_quota)

lemma mem_runs: "(\<lambda>ks ks'. \<exists>op. ks' = mem_run op ks)\<^sup>*\<^sup>* ks (fold mem_run ops ks)"
  by (induction ops arbitrary: ks) (auto intro: converse_rtranclp_into_rtranclp)

section \<open>An address space built by hand\<close>

text \<open>One task whose root, tables and one writable data page are the first five pages of
  the pool.\<close>

definition example_task :: Task where
  "example_task = \<lparr>tk_pid = 1, tk_state = T_READY, tk_wait_endpoint = 0, tk_exit_status = 0, tk_cr3 = 0x100000,
     tk_recv_buffer = 0, tk_wait_deadline = 0,
     tk_frame = \<lparr>fr_rax = 0, fr_rdi = 0, fr_rsi = 0, fr_rdx = 0, fr_vector = 0, fr_rip = 0, fr_cs = 0, fr_rflags = 0,
       fr_rsp = 0, fr_ss = 0\<rparr>,
     tk_device_io = 0, tk_device_bdf = 0, tk_device_fault = 0, tk_device_modern = 0, tk_priority = 1,
     tk_cap_limit = 32, tk_page_limit = 6, tk_page_count = 5, tk_ready_since = 0,
     tk_caps = \<lambda>_. \<lparr>cp_endpoint = 0, cp_epoch = 0, cp_rights = 0, cp_generation = 0\<rparr>\<rparr>"

definition example_blank :: Kernel where
  "example_blank = \<lparr>ks_tasks = \<lambda>i. if i = 0 then example_task else example_task\<lparr>tk_pid := 0, tk_state := T_EMPTY\<rparr>,
     ks_current = 0, ks_ticks = 0, ks_next_pid = 2,
     ks_endpoints = \<lambda>_. \<lparr>ep_owner = 0, ep_epoch = 0, ep_head = 0, ep_count = 0, ep_queue = \<lambda>_. []\<rparr>,
     ks_send_bytes = 0, ks_receive_bytes = 0, ks_phys = \<lambda>_. 0,
     ks_page_owner = \<lambda>i. if i < 5 then 1 else 0, ks_mmio_ready = False,
     ks_pool = 0x100000, ks_kernel_pd = 0x1000, ks_mmio_pd = 0x2000, ks_dma = 0x2000000,
     ks_bundle_phys = 0x3000000, ks_bundle_bytes = 4096, ks_device_owner = 0, ks_quarantined = False,
     ks_hw = \<lparr>hw_reads = \<lambda>_. 0, hw_log = []\<rparr>, ks_device_pt = 0x90000, ks_boot_mmio_pd = 0x91000, ks_guard = 0x92000,
     ks_kernel_end = 0x80000,
     ks_iommu = \<lparr>im_mode = 0, im_iotlb_offset = 0, im_fault_offset = 0, im_fault_records = 0, im_capability = 0,
       im_covered = \<lambda>_. 0, im_active_bdf = - 1, im_tables = \<lparr>vt_root = \<lambda>_. 0, vt_context = \<lambda>_. 0, vt_level3 = \<lambda>_. 0,
       vt_level2 = \<lambda>_. 0, vt_level1 = \<lambda>_. 0\<rparr>, im_address = 0x93000\<rparr>,
     ks_dma_status = \<lparr>ds_size = 0, ds_mode = 0, ds_owner = 0, ds_faults = 0, ds_last_address = 0, ds_probe_address = 0,
       ds_source = 0, ds_reason = 0, ds_guard_intact = 0, ds_active_mapping = 0\<rparr>,
     ks_console = \<lparr>cs_input = \<lambda>_. 0, cs_head = 0, cs_count = 0, cs_overflow = False\<rparr>, ks_mmio_pt = 0x94000\<rparr>"

definition example_kind :: "nat \<Rightarrow> page_kind" where
  "example_kind i = (if i = 0 then PK_P4 else if i = 1 then PK_P3 else if i = 2 then PK_P2 else if i = 3 then PK_P1 else PK_Data)"

definition example_kernel :: Kernel where
  "example_kernel = set_phys (wr64 0x103000 0x104007) (set_phys (wr64 0x102000 0x103007)
     (set_phys (wr64 0x101008 0x102007) (set_phys (wr64 0x100000 0x101007) example_blank)))"

lemma example_layout: "layout_ok example_kernel"
  by (simp add: layout_ok_def example_kernel_def example_blank_def POOL_PAGES_def SF_DMA_BYTES_def)

lemma rd64_zero [simp]: "rd64 (\<lambda>_. 0) a = 0"
  by (rule bit_word_eqI) (simp add: bit_rd64)

definition example_pages :: "Kernel \<Rightarrow> bool" where
  "example_pages ks \<longleftrightarrow> ks_pool ks = 0x100000 \<and> ks_page_owner ks = (\<lambda>i. if i < 5 then 1 else 0)"

lemma example_write:
  assumes p: "example_pages ks" and s: "spaces_ok ks example_kind" and i: "i < 4" and j: "j < 512"
    and e: "frame_addr e = 0x100000 + 4096 * Suc i"
    and a: "a = 0x100000 + 4096 * i + 8 * j"
  shows "example_pages (set_phys (wr64 a e) ks) \<and> spaces_ok (set_phys (wr64 a e) ks) example_kind"
proof -
  have addr: "a = pool_addr ks i + 8 * j" using p a by (simp add: pool_addr_def example_pages_def)
  have "own_page ks example_kind 1 (example_kind (Suc i)) (frame_addr e)"
    using p i e by (auto simp: own_page_def pool_addr_def example_pages_def POOL_PAGES_def intro!: exI[of _ "Suc i"])
  then have "entry_ok ks example_kind (ks_page_owner ks i) (example_kind i) j e"
    using p i by (auto simp: entry_ok_def table_entry_def leaf_entry_def example_pages_def example_kind_def split: if_splits)
  moreover have "ks_page_owner ks i \<noteq> 0" "i < POOL_PAGES" using p i by (simp_all add: example_pages_def POOL_PAGES_def)
  ultimately show ?thesis using spaces_ok_entry[OF s, of i j e] j p unfolding addr by (simp add: example_pages_def)
qed

lemma example_spaces: "spaces_ok example_kernel example_kind"
proof -
  have fr: "frame_addr 0x101007 = 0x100000 + 4096 * Suc 0" "frame_addr 0x102007 = 0x100000 + 4096 * Suc 1"
    "frame_addr 0x103007 = 0x100000 + 4096 * Suc 2" "frame_addr 0x104007 = 0x100000 + 4096 * Suc 3"
    by (simp_all add: frame_addr_def)
  have "example_pages example_blank \<and> spaces_ok example_blank example_kind"
    by (simp add: spaces_ok_def example_blank_def entry_ok_zero example_pages_def)
  note s1 = example_write[OF conjunct1[OF this] conjunct2[OF this] _ _ fr(1), where j = 0 and a = "0x100000", simplified]
  note s2 = example_write[OF conjunct1[OF s1] conjunct2[OF s1] _ _ fr(2), where j = 1 and a = "0x101008", simplified]
  note s3 = example_write[OF conjunct1[OF s2] conjunct2[OF s2] _ _ fr(3), where j = 0 and a = "0x102000", simplified]
  note s4 = example_write[OF conjunct1[OF s3] conjunct2[OF s3] _ _ fr(4), where j = 0 and a = "0x103000", simplified]
  show ?thesis unfolding example_kernel_def using s4 by simp
qed

lemma example_entries:
  "rd64 (ks_phys example_kernel) 0x100000 = 0x101007" "rd64 (ks_phys example_kernel) 0x101008 = 0x102007"
  "rd64 (ks_phys example_kernel) 0x102000 = 0x103007" "rd64 (ks_phys example_kernel) 0x103000 = 0x104007"
  by (simp_all add: example_kernel_def rd64_wr64_other)

lemma example_has_space: "has_space example_kernel example_kind 0"
  using example_entries(1)
  by (auto simp: has_space_def own_page_def example_kernel_def example_blank_def example_task_def pool_addr_def POOL_PAGES_def
      example_kind_def intro!: exI[of _ 0])

lemma example_walk: "walk (ks_phys example_kernel) 0x100000 0x40000000 = Some 0x103000"
  by (simp add: walk_def Let_def example_entries SF_BASE_def SF_USER_END_def frame_addr_def)

lemma example_translation:
  "page_ok example_kernel 0 True 0x40000000" "user_phys example_kernel 0 0x40000000 = Some 0x104000"
proof -
  have c: "unat (tk_cr3 (ks_tasks example_kernel 0)) = 0x100000"
    by (simp add: example_kernel_def example_blank_def example_task_def)
  show "page_ok example_kernel 0 True 0x40000000" "user_phys example_kernel 0 0x40000000 = Some 0x104000"
    by (simp_all add: page_ok_def user_phys_def Let_def pte_walk c example_walk example_entries frame_addr_def)
qed

lemma example_range: "user_range example_kernel 0 0x40000000 4 True" "user_range example_kernel 0 0x40000000 4 False"
  using example_translation(1)
  by (simp_all add: user_range_def SF_BASE_def SF_USER_END_def page_ok_def Let_def split: option.splits)

section \<open>Properties of memory\<close>

text \<open>C20: Copying from user memory reads exactly the bytes the task's page tables map at the
  given addresses, across page boundaries, or is refused as a whole when one byte of the
  range is not readable by the task; the null-translation branch of the copy loop is never
  taken.\<close>

theorem copy_in_exact:
  assumes "n < 2 ^ 64"
  shows "copy_in ks ti src n = Some (if user_range ks ti src (of_nat n) False
    then Ok (map (\<lambda>j. ks_phys ks (the (user_phys ks ti (src + of_nat j)))) [0..<n]) else Err SF_DENIED)"
  using assms by (rule copy_in_bytes)

theorem copy_in_exact_witness:
  "copy_in example_kernel 0 0x40000000 4 = Some (Ok (map (\<lambda>j. ks_phys example_kernel (the (user_phys example_kernel 0 (0x40000000 + of_nat j)))) [0..<4]))"
  using copy_in_exact[of 4 example_kernel 0 "0x40000000"] example_range(2) by simp

text \<open>C17: Copying to user memory is isolated.  When page tables belong to the tasks that
  use them, a copy into a task's range either changes nothing or stores the bytes, in order,
  at the frames the range maps; every byte that changes lies in a data page owned by that
  task or in the DMA arena it was granted, page tables stay well formed, and the address
  translation of every task is what it was.\<close>

theorem copy_out_isolated:
  assumes "layout_ok ks" "spaces_ok ks kind" "has_space ks kind ti" "length bs < 2 ^ 64"
  shows "copy_out ks ti dst bs = Some (if user_range ks ti dst (of_nat (length bs)) True
      then (Ok (), set_phys (put_bytes (\<lambda>j. the (user_phys ks ti (dst + of_nat j))) bs) ks) else (Err SF_DENIED, ks)) \<and>
    (\<forall>r ks'. copy_out ks ti dst bs = Some (r, ks') \<longrightarrow>
      spaces_ok ks' kind \<and>
      (\<forall>x. ks_phys ks' x \<noteq> ks_phys ks x \<longrightarrow>
         (\<exists>f. user_frame ks kind (tk_pid (ks_tasks ks ti)) f \<and> f \<le> x \<and> x < f + 4096)) \<and>
      (\<forall>tj v. has_space ks kind tj \<longrightarrow> user_phys ks' tj v = user_phys ks tj v))"
proof (cases "user_range ks ti dst (of_nat (length bs)) True")
  case True
  let ?at = "\<lambda>j. the (user_phys ks ti (dst + of_nat j))"
  have pg: "unat (dst + of_nat j) = unat dst + j \<and> page_ok ks ti True (dst + of_nat j)" if "j < length bs" for j
  proof -
    have "j < unat (of_nat (length bs) :: u64)" using that assms(4) by (simp add: unat_of_nat)
    then show ?thesis using user_range_pages[OF True] by blast
  qed
  have c: "copy_out_loop ks ti dst bs = Some (set_phys (put_bytes ?at bs) ks)" and ts: "tables_same ks kind (put_bytes ?at bs (ks_phys ks))"
    using copy_out_loop_bytes[OF assms(1-3) pg] by auto
  have eq: "copy_out ks ti dst bs = Some (Ok (), set_phys (put_bytes ?at bs) ks)" using c True by (simp add: copy_out_def)
  have sp: "spaces_ok (set_phys (put_bytes ?at bs) ks) kind" using ts by (rule spaces_ok_store[OF assms(2)])
  have ch: "\<exists>f. user_frame ks kind (tk_pid (ks_tasks ks ti)) f \<and> f \<le> x \<and> x < f + 4096"
    if ne: "put_bytes ?at bs (ks_phys ks) x \<noteq> ks_phys ks x" for x
  proof -
    obtain j where j: "j < length bs" "?at j = x" using ne put_bytes_other[of bs ?at x "ks_phys ks"] by blast
    obtain y f where "user_phys ks ti (dst + of_nat j) = Some y" "y = f + unat (dst + of_nat j) mod 4096"
      "user_frame ks kind (tk_pid (ks_tasks ks ti)) f"
      by (rule write_target[OF assms(1-3) conjunct2[OF pg[OF j(1)]]])
    then show ?thesis using j(2) by (intro exI[of _ f]) simp
  qed
  have tr: "user_phys (set_phys (put_bytes ?at bs) ks) tj v = user_phys ks tj v" if "has_space ks kind tj" for tj v
    using tables_same_translation(2)[OF assms(2) that, where f = "put_bytes ?at bs"] ts by simp
  show ?thesis using True sp ch tr unfolding eq by simp
next
  case False
  then show ?thesis using assms(2) by (simp add: copy_out_def)
qed

theorem copy_out_isolated_witness:
  "copy_out example_kernel 0 0x40000000 [1, 2, 3, 4] = Some (Ok (),
     set_phys (put_bytes (\<lambda>j. the (user_phys example_kernel 0 (0x40000000 + of_nat j))) [1, 2, 3, 4]) example_kernel)"
proof -
  have r: "user_range example_kernel 0 0x40000000 (of_nat (length [1 :: u8, 2, 3, 4])) True" using example_range(1) by simp
  have "length [1 :: u8, 2, 3, 4] < 2 ^ 64" by simp
  from conjunct1[OF copy_out_isolated[OF example_layout example_spaces example_has_space this, of "0x40000000"]]
  show ?thesis by (simp only: r if_True)
qed

text \<open>C19: A successful mapping is what later accesses see: the task's address translates to
  the given frame, the page is writable exactly when the flags say so, page tables stay well
  formed, and every address that already had a translation keeps it.\<close>

theorem space_map_translates:
  assumes "layout_ok ks" "spaces_ok ks kind" "has_space ks kind ti"
    "mappable ks kind (tk_pid (ks_tasks ks ti)) p flags" "space_map ks ti v p flags = (Ok (), ks')"
  shows "user_phys ks' ti v = Some (unat p) \<and> (page_ok ks' ti True v \<longleftrightarrow> bit flags 1) \<and>
    (\<exists>kind'. spaces_ok ks' kind') \<and>
    (\<forall>u x. user_phys ks ti u = Some x \<longrightarrow> user_phys ks' ti u = Some x)"
  using assms(5)
proof (cases rule: space_map_cases)
  case (mapped a ks1)
  let ?pid = "tk_pid (ks_tasks ks ti)" and ?w = "if bit flags 1 then 2 else 0 :: u64" and ?n = "if bit flags 2 then 0 else NX"
  have pid: "?pid \<noteq> 0" using assms(3) by (simp add: has_space_def)
  from pte_step[OF assms(1-3) mapped(1)] obtain k1 where k: "spaces_ok ks1 k1" "grows ks kind ks1 k1" "leaf_slot ks1 k1 ?pid a"
    by blast
  have lay1: "layout_ok ks1" using assms(1) pages_kept_layout[OF growsD(2)[OF k(2)]] by simp
  have m1: "mappable ks1 k1 ?pid p flags" using mappable_kept[OF growsD(2)[OF k(2)] pid assms(4)] .
  have w: "spaces_ok ks' k1 \<and> grows ks1 k1 ks' k1"
    using leaf_write[OF k(1,3) pid mapped(4) mappable_leaf[OF m1 mapped(3)]] mapped(5) by simp
  have pte': "fst (pte ks' ti v False) = Some a"
    using leaf_write_walk[OF lay1 k(1) grows_has_space[OF k(2) assms(3)] k(3)] pte_again[OF assms(1-3) mapped(1) k(1,2)]
    by (simp add: mapped(5))
  have e: "rd64 (ks_phys ks') a = p OR 5 OR ?w OR ?n" by (simp add: mapped(5))
  have p: "unat p < 2 ^ 52" using assms(4) by (simp add: mappable_def)
  have "(v OR p) AND 4095 = 0" using assms(5) by (simp add: space_map_def split: if_splits)
  then have "v AND 4095 = 0" by (metis bit.conj_disj_distrib2 or_eq_0_iff)
  moreover have fr: "frame_addr (p OR 5 OR ?w OR ?n) = unat p" "bit (p OR 5 OR ?w OR ?n) 0" "bit (p OR 5 OR ?w OR ?n) 1 \<longleftrightarrow> bit flags 1"
    "\<not> bit (p OR 5 OR ?w OR ?n) 9"
    using leaf_frame[OF mapped(3) p, of ?w ?n 0] by auto
  moreover have "bit (p OR 5 OR ?w OR ?n) 2" by (simp add: bit_or_iff)
  ultimately have "user_phys ks' ti v = Some (unat p)" "page_ok ks' ti True v \<longleftrightarrow> bit flags 1"
    by (simp_all add: user_phys_def page_ok_def Let_def pte' e)
  moreover have "user_phys ks' ti u = Some x" if "user_phys ks ti u = Some x" for u x
    using grows_translation(1)[OF assms(2,3) grows_trans[OF k(2) conjunct2[OF w]] that] .
  ultimately show ?thesis using w by blast
qed simp_all

lemma example_map: "space_map example_kernel 0 0x40001000 0x104000 3 =
    (Ok (), set_phys (wr64 0x103008 (0x104000 OR 5 OR 2 OR NX)) example_kernel)"
proof -
  have c: "tk_cr3 (ks_tasks example_kernel 0) = 0x100000" by (simp add: example_kernel_def example_blank_def example_task_def)
  have "pte example_kernel 0 0x40001000 True = (Some 0x103008, example_kernel)"
    by (simp add: pte_def next_table_def Let_def c example_entries SF_BASE_def SF_USER_END_def frame_addr_def)
  moreover have "rd64 (ks_phys example_kernel) 0x103008 = 0"
    by (simp add: example_kernel_def example_blank_def rd64_wr64_other)
  ultimately show ?thesis by (simp add: space_map_def bit_simps)
qed

theorem space_map_translates_witness:
  "user_phys (set_phys (wr64 0x103008 (0x104000 OR 5 OR 2 OR NX)) example_kernel) 0 0x40001000 = Some 0x104000"
proof -
  have "mappable example_kernel example_kind (tk_pid (ks_tasks example_kernel 0)) 0x104000 3"
    by (auto simp: mappable_def user_frame_def own_page_def pool_addr_def POOL_PAGES_def example_kernel_def example_blank_def
        example_task_def example_kind_def intro!: exI[of _ 4])
  from space_map_translates[OF example_layout example_spaces example_has_space this example_map]
  show ?thesis by simp
qed

text \<open>C18: Page quotas hold across any interleaving of memory operations: starting from exact
  counts, after any sequence of allocations, new spaces, mappings, copies and releases every
  task that is not dead is charged exactly the pages it owns, never more than its limit, and
  every page in use belongs to such a task.\<close>

theorem page_quota_sequences:
  assumes "quota_ok ks" "ks' = fold mem_run ops ks"
  shows "(\<forall>i<SF_MAX_TASKS. holds_pid (ks_tasks ks' i) \<longrightarrow>
      unat (tk_page_count (ks_tasks ks' i)) = card (charged ks' (tk_pid (ks_tasks ks' i))) \<and>
      card (charged ks' (tk_pid (ks_tasks ks' i))) \<le> unat (tk_page_limit (ks_tasks ks' i))) \<and>
    (\<forall>p<POOL_PAGES. ks_page_owner ks' p \<noteq> 0 \<longrightarrow>
      (\<exists>i<SF_MAX_TASKS. holds_pid (ks_tasks ks' i) \<and> tk_pid (ks_tasks ks' i) = ks_page_owner ks' p))"
proof -
  have "quota_ok ks'" using quota.run_invar[OF assms(1) mem_runs] assms(2) by simp
  then show ?thesis by (auto simp: quota_ok_def word_le_nat_alt)
qed

lemma example_quota: "quota_ok example_kernel"
proof -
  have c: "charged example_kernel 1 = {..<5}"
    by (auto simp: charged_def example_kernel_def example_blank_def POOL_PAGES_def)
  have t: "ks_tasks example_kernel i = (if i = 0 then example_task else example_task\<lparr>tk_pid := 0, tk_state := T_EMPTY\<rparr>)"
    "ks_page_owner example_kernel i = (if i < 5 then 1 else 0)" for i
    by (simp_all add: example_kernel_def example_blank_def)
  show ?thesis unfolding quota_ok_def t
    using c by (auto simp: holds_pid_def example_task_def SF_MAX_TASKS_def word_le_nat_alt)
qed

lemma example_limits: "tk_pid (ks_tasks (fold mem_run [Op_Alloc 1, Op_Free 1, Op_Alloc 1] example_kernel) 0) = 1 \<and>
    tk_state (ks_tasks (fold mem_run [Op_Alloc 1, Op_Free 1, Op_Alloc 1] example_kernel) 0) = T_READY \<and>
    tk_page_limit (ks_tasks (fold mem_run [Op_Alloc 1, Op_Free 1, Op_Alloc 1] example_kernel) 0) = 6"
proof -
  have a: "tk_pid (ks_tasks (snd (page_alloc ks p)) i) = tk_pid (ks_tasks ks i)"
    "tk_state (ks_tasks (snd (page_alloc ks p)) i) = tk_state (ks_tasks ks i)"
    "tk_page_limit (ks_tasks (snd (page_alloc ks p)) i) = tk_page_limit (ks_tasks ks i)" for ks p i
    by (auto simp: page_alloc_def Let_def split: option.splits)
  show ?thesis by (simp add: a pages_free_task) (simp add: example_kernel_def example_blank_def example_task_def)
qed

theorem page_quota_sequences_witness:
  "card (charged (fold mem_run [Op_Alloc 1, Op_Free 1, Op_Alloc 1] example_kernel) 1) \<le> 6"
proof -
  define ks' where "ks' = fold mem_run [Op_Alloc 1, Op_Free 1, Op_Alloc 1] example_kernel"
  have t: "tk_pid (ks_tasks ks' 0) = 1" "tk_state (ks_tasks ks' 0) = T_READY" "tk_page_limit (ks_tasks ks' 0) = 6"
    using example_limits unfolding ks'_def by blast+
  have "0 < SF_MAX_TASKS" "holds_pid (ks_tasks ks' 0)" using t by (simp_all add: SF_MAX_TASKS_def holds_pid_def)
  then have "card (charged ks' (tk_pid (ks_tasks ks' 0))) \<le> unat (tk_page_limit (ks_tasks ks' 0))"
    using conjunct1[OF page_quota_sequences[OF example_quota ks'_def]] by blast
  then show ?thesis using t by (simp add: ks'_def)
qed

end
