(* ===== verification/SF_Libc_String.thy ===== *)
theory SF_Libc_String
  imports SF_Prelude
begin

text \<open>
  The string functions of the C library (\<^verbatim>\<open>recovered/libc/src/string.c\<close>) over a flat
  memory.  A pointer is an address, a null pointer is \<^const>\<open>None\<close>; \<^verbatim>\<open>size_t\<close> counters that
  the code decrements are 64-bit words, so that \<^verbatim>\<open>n--\<close> at zero wraps.  A loop that scans for
  a terminator is a partial function: \<^const>\<open>None\<close> is a scan that never ends.
\<close>

type_synonym mem = "nat \<Rightarrow> u8"

section \<open>Memory blocks\<close>

function memset_loop :: "mem \<Rightarrow> nat \<Rightarrow> u8 \<Rightarrow> u64 \<Rightarrow> mem" where
  "memset_loop m p c n = (if n = 0 then m else memset_loop (m(p := c)) (p + 1) c (n - 1))"
  by pat_completeness auto
termination by (relation "measure (\<lambda>(_, _, _, n). unat n)") (auto simp: unat_pred unat_gt_0)

definition memset :: "mem \<Rightarrow> nat \<Rightarrow> u32 \<Rightarrow> u64 \<Rightarrow> mem" where
  "memset m s c n = memset_loop m s (ucast c) n"

function memcpy :: "mem \<Rightarrow> nat \<Rightarrow> nat \<Rightarrow> u64 \<Rightarrow> mem" where
  "memcpy m d s n = (if n = 0 then m else memcpy (m(d := m s)) (d + 1) (s + 1) (n - 1))"
  by pat_completeness auto
termination by (relation "measure (\<lambda>(_, _, _, n). unat n)") (auto simp: unat_pred unat_gt_0)

text \<open>The descending loop; \<open>d\<close> and \<open>s\<close> point one past the bytes still to be copied.\<close>

function memcpy_down :: "mem \<Rightarrow> nat \<Rightarrow> nat \<Rightarrow> u64 \<Rightarrow> mem" where
  "memcpy_down m d s n = (if n = 0 then m
     else memcpy_down (m(d - 1 := m (s - 1))) (d - 1) (s - 1) (n - 1))"
  by pat_completeness auto
termination by (relation "measure (\<lambda>(_, _, _, n). unat n)") (auto simp: unat_pred unat_gt_0)

definition memmove :: "mem \<Rightarrow> nat \<Rightarrow> nat \<Rightarrow> u64 \<Rightarrow> mem" where
  "memmove m d s n =
     (if d < s then memcpy m d s n else memcpy_down m (d + unat n) (s + unat n) n)"

function memcmp :: "mem \<Rightarrow> nat \<Rightarrow> nat \<Rightarrow> u64 \<Rightarrow> int" where
  "memcmp m p1 p2 n =
     (if n = 0 then 0
      else if m p1 \<noteq> m p2 then int (unat (m p1)) - int (unat (m p2))
      else memcmp m (p1 + 1) (p2 + 1) (n - 1))"
  by pat_completeness auto
termination by (relation "measure (\<lambda>(_, _, _, n). unat n)") (auto simp: unat_pred unat_gt_0)

function memchr_loop :: "mem \<Rightarrow> nat \<Rightarrow> u8 \<Rightarrow> u64 \<Rightarrow> nat option" where
  "memchr_loop m p c n =
     (if n = 0 then None else if m p = c then Some p else memchr_loop m (p + 1) c (n - 1))"
  by pat_completeness auto
termination by (relation "measure (\<lambda>(_, _, _, n). unat n)") (auto simp: unat_pred unat_gt_0)

definition memchr :: "mem \<Rightarrow> nat \<Rightarrow> u32 \<Rightarrow> u64 \<Rightarrow> nat option" where
  "memchr m s c n = memchr_loop m s (ucast c) n"

declare memset_loop.simps [simp del] memcpy.simps [simp del] memcpy_down.simps [simp del]
  memcmp.simps [simp del] memchr_loop.simps [simp del]

section \<open>Terminated strings\<close>

partial_function (option) strlen_loop :: "mem \<Rightarrow> nat \<Rightarrow> nat \<Rightarrow> nat option" where
  "strlen_loop m s len = (if m (s + len) = 0 then Some len else strlen_loop m s (len + 1))"

definition strlen :: "mem \<Rightarrow> nat \<Rightarrow> nat option" where
  "strlen m s = strlen_loop m s 0"

partial_function (option) strcpy :: "mem \<Rightarrow> nat \<Rightarrow> nat \<Rightarrow> mem option" where
  "strcpy m d s = (let m' = m(d := m s) in if m s = 0 then Some m' else strcpy m' (d + 1) (s + 1))"

text \<open>\<^verbatim>\<open>while (n-- && (*d++ = *src++));\<close> and the padding loop, which starts from the counter
  the first loop left behind.  A padding that would leave the 64-bit address space is
  undefined: \<^const>\<open>None\<close>.\<close>

function strncpy_copy :: "mem \<Rightarrow> nat \<Rightarrow> nat \<Rightarrow> u64 \<Rightarrow> mem \<times> nat \<times> u64" where
  "strncpy_copy m d s n =
     (if n = 0 then (m, d, n - 1)
      else let m' = m(d := m s) in
        if m s = 0 then (m', d + 1, n - 1) else strncpy_copy m' (d + 1) (s + 1) (n - 1))"
  by pat_completeness auto
termination by (relation "measure (\<lambda>(_, _, _, n). unat n)") (auto simp: unat_pred unat_gt_0)

declare strncpy_copy.simps [simp del]

definition strncpy :: "mem \<Rightarrow> nat \<Rightarrow> nat \<Rightarrow> u64 \<Rightarrow> mem option" where
  "strncpy m dest src n =
     (let (m', d, n') = strncpy_copy m dest src n
      in if d + unat n' > 2 ^ 64 then None else Some (memset_loop m' d 0 n'))"

partial_function (option) strcmp :: "mem \<Rightarrow> nat \<Rightarrow> nat \<Rightarrow> int option" where
  "strcmp m s1 s2 =
     (if m s1 \<noteq> 0 \<and> m s1 = m s2 then strcmp m (s1 + 1) (s2 + 1)
      else Some (int (unat (m s1)) - int (unat (m s2))))"

function strncmp :: "mem \<Rightarrow> nat \<Rightarrow> nat \<Rightarrow> u64 \<Rightarrow> int" where
  "strncmp m s1 s2 n =
     (if n \<noteq> 0 \<and> m s1 \<noteq> 0 \<and> m s1 = m s2 then strncmp m (s1 + 1) (s2 + 1) (n - 1)
      else if n - 1 = - 1 then 0
      else int (unat (m s1)) - int (unat (m s2)))"
  by pat_completeness auto
termination by (relation "measure (\<lambda>(_, _, _, n). unat n)") (auto simp: unat_pred unat_gt_0)

declare strncmp.simps [simp del]

text \<open>The address of the terminator.\<close>

partial_function (option) str_end :: "mem \<Rightarrow> nat \<Rightarrow> nat option" where
  "str_end m d = (if m d = 0 then Some d else str_end m (d + 1))"

definition strcat :: "mem \<Rightarrow> nat \<Rightarrow> nat \<Rightarrow> mem option" where
  "strcat m dest src = Option.bind (str_end m dest) (\<lambda>d. strcpy m d src)"

function strncat_copy :: "mem \<Rightarrow> nat \<Rightarrow> nat \<Rightarrow> u64 \<Rightarrow> mem \<times> nat" where
  "strncat_copy m d s n =
     (if n \<noteq> 0 \<and> m s \<noteq> 0 then strncat_copy (m(d := m s)) (d + 1) (s + 1) (n - 1) else (m, d))"
  by pat_completeness auto
termination by (relation "measure (\<lambda>(_, _, _, n). unat n)") (auto simp: unat_pred unat_gt_0)

declare strncat_copy.simps [simp del]

definition strncat :: "mem \<Rightarrow> nat \<Rightarrow> nat \<Rightarrow> u64 \<Rightarrow> mem option" where
  "strncat m dest src n =
     map_option (\<lambda>d. let (m', d') = strncat_copy m d src n in m'(d' := 0)) (str_end m dest)"

section \<open>Searching\<close>

partial_function (option) strchr_loop :: "mem \<Rightarrow> nat \<Rightarrow> u32 \<Rightarrow> nat option option" where
  "strchr_loop m s c =
     (if m s = 0 then Some (if c = 0 then Some s else None)
      else if m s = ucast c then Some (Some s) else strchr_loop m (s + 1) c)"

partial_function (option) strrchr_loop :: "mem \<Rightarrow> nat \<Rightarrow> u32 \<Rightarrow> nat option \<Rightarrow> nat option option" where
  "strrchr_loop m s c found =
     (if m s = 0 then Some (if c = 0 then Some s else found)
      else strrchr_loop m (s + 1) c (if m s = ucast c then Some s else found))"

definition strrchr :: "mem \<Rightarrow> nat \<Rightarrow> u32 \<Rightarrow> nat option option" where
  "strrchr m s c = strrchr_loop m s c None"

partial_function (option) strstr_loop :: "mem \<Rightarrow> nat \<Rightarrow> nat \<Rightarrow> u64 \<Rightarrow> nat option option" where
  "strstr_loop m h needle nlen =
     (if m h = 0 then Some None
      else if m h = m needle \<and> memcmp m h needle nlen = 0 then Some (Some h)
      else strstr_loop m (h + 1) needle nlen)"

definition strstr :: "mem \<Rightarrow> nat \<Rightarrow> nat \<Rightarrow> nat option option" where
  "strstr m haystack needle =
     Option.bind (strlen m needle) (\<lambda>nlen.
       if nlen = 0 then Some (Some haystack) else strstr_loop m haystack needle (of_nat nlen))"

text \<open>The scan of a set of characters: whether the character \<open>c\<close> occurs in the string at \<open>a\<close>.\<close>

partial_function (option) in_set :: "mem \<Rightarrow> nat \<Rightarrow> u8 \<Rightarrow> bool option" where
  "in_set m a c = (if m a \<noteq> 0 \<and> m a \<noteq> c then in_set m (a + 1) c else Some (m a \<noteq> 0))"

partial_function (option) span_loop :: "bool \<Rightarrow> mem \<Rightarrow> nat \<Rightarrow> nat \<Rightarrow> nat \<Rightarrow> nat option" where
  "span_loop stop m s accept len =
     (if m s = 0 then Some len
      else Option.bind (in_set m accept (m s)) (\<lambda>found.
        if found = stop then Some len else span_loop stop m (s + 1) accept (len + 1)))"

definition strspn :: "mem \<Rightarrow> nat \<Rightarrow> nat \<Rightarrow> nat option" where
  "strspn m s accept = span_loop False m s accept 0"

definition strcspn :: "mem \<Rightarrow> nat \<Rightarrow> nat \<Rightarrow> nat option" where
  "strcspn m s reject = span_loop True m s reject 0"

partial_function (option) strpbrk :: "mem \<Rightarrow> nat \<Rightarrow> nat \<Rightarrow> nat option option" where
  "strpbrk m s accept =
     (if m s = 0 then Some None
      else Option.bind (in_set m accept (m s)) (\<lambda>found.
        if found then Some (Some s) else strpbrk m (s + 1) accept))"

text \<open>\<^verbatim>\<open>strtok\<close> keeps its place in the static variable \<open>next\<close>.\<close>

definition strtok :: "mem \<Rightarrow> nat option \<Rightarrow> nat option \<Rightarrow> nat \<Rightarrow> (nat option \<times> nat option \<times> mem) option" where
  "strtok m nxt str delim =
     (case (case str of Some s \<Rightarrow> Some s | None \<Rightarrow> nxt) of
        None \<Rightarrow> Some (None, None, m)
      | Some p \<Rightarrow>
          Option.bind (strspn m p delim) (\<lambda>k.
            let token = p + k in
            if m token = 0 then Some (None, None, m)
            else Option.bind (strcspn m token delim) (\<lambda>j.
              let q = token + j in
              if m q \<noteq> 0 then Some (Some token, Some (q + 1), m(q := 0))
              else Some (Some token, None, m))))"

section \<open>Copying\<close>

lemma suc_index [simp]: "Suc d \<le> x \<Longrightarrow> Suc (s + x - Suc d) = s + x - d"
  by arith

lemma memset_loop_eq: "memset_loop m p c n x = (if p \<le> x \<and> x < p + unat n then c else m x)"
proof (induction m p c n rule: memset_loop.induct)
  case (1 m p c n)
  show ?case
  proof (cases "n = 0")
    case False
    then have "unat n = Suc (unat (n - 1))" by (simp add: unat_pred unat_gt_0)
    then show ?thesis using 1[OF False] False by (subst memset_loop.simps) (auto simp: fun_upd_def)
  qed (auto simp: memset_loop.simps)
qed

lemma memcpy_eq:
  "d < s \<or> s + unat n \<le> d \<Longrightarrow> memcpy m d s n x = (if d \<le> x \<and> x < d + unat n then m (s + (x - d)) else m x)"
proof (induction m d s n rule: memcpy.induct)
  case (1 m d s n)
  show ?case
  proof (cases "n = 0")
    case False
    then have n: "unat n = Suc (unat (n - 1))" by (simp add: unat_pred unat_gt_0)
    have "memcpy m d s n x = (if d + 1 \<le> x \<and> x < d + 1 + unat (n - 1) then (m(d := m s)) (s + 1 + (x - (d + 1))) else (m(d := m s)) x)"
      using "1.IH"[OF False] "1.prems" False n by (subst memcpy.simps) (auto simp: fun_upd_def)
    then show ?thesis using n "1.prems" by auto
  qed (auto simp: memcpy.simps)
qed

lemma memcpy_down_eq:
  "s \<le> d \<Longrightarrow> memcpy_down m (d + unat n) (s + unat n) n x = (if d \<le> x \<and> x < d + unat n then m (s + (x - d)) else m x)"
proof (induction "unat n" arbitrary: m n)
  case 0
  then have "n = 0" by (simp add: unat_eq_0)
  then show ?case by (auto simp: memcpy_down.simps)
next
  case (Suc k)
  then have nz: "n \<noteq> 0" by auto
  then have n: "unat n = Suc (unat (n - 1))" "k = unat (n - 1)" using Suc.hyps(2) by (simp_all add: unat_pred unat_gt_0)
  let ?m = "m(d + unat (n - 1) := m (s + unat (n - 1)))"
  have "memcpy_down m (d + unat n) (s + unat n) n x = memcpy_down ?m (d + unat (n - 1)) (s + unat (n - 1)) (n - 1) x"
    using nz n by (subst memcpy_down.simps) simp
  also have "\<dots> = (if d \<le> x \<and> x < d + unat (n - 1) then ?m (s + (x - d)) else ?m x)"
    using Suc.hyps(1)[OF n(2) Suc.prems] .
  also have "\<dots> = (if d \<le> x \<and> x < d + unat n then m (s + (x - d)) else m x)"
    using n Suc.prems by auto
  finally show ?case .
qed

lemma memmove_eq: "memmove m d s n x = (if d \<le> x \<and> x < d + unat n then m (s + (x - d)) else m x)"
  using memcpy_eq[of d s n m x] memcpy_down_eq[of s d m n x] by (simp add: memmove_def)

text \<open>A terminated string of \<open>n\<close> characters at \<open>s\<close>.\<close>

definition cstr :: "mem \<Rightarrow> nat \<Rightarrow> nat \<Rightarrow> bool" where
  "cstr m s n \<longleftrightarrow> m (s + n) = 0 \<and> (\<forall>i<n. m (s + i) \<noteq> 0)"

lemma cstr_list: "cstr m s n \<longleftrightarrow> m (s + n) = 0 \<and> list_all (\<lambda>i. m (s + i) \<noteq> 0) [0..<n]"
  by (auto simp: cstr_def list_all_iff)

lemma strlen_loop_cstr: "k \<le> n \<Longrightarrow> cstr m s n \<Longrightarrow> strlen_loop m s k = Some n"
proof (induction "n - k" arbitrary: k)
  case 0
  then show ?case by (subst strlen_loop.simps) (simp add: cstr_def)
next
  case (Suc j)
  then have "k < n" by simp
  then show ?case using Suc by (subst strlen_loop.simps) (simp add: cstr_def)
qed

lemma strlen_cstr: "cstr m s n \<Longrightarrow> strlen m s = Some n"
  by (simp add: strlen_def strlen_loop_cstr)

lemma strncpy_copy_full:
  "(\<forall>i<unat n. m (s + i) \<noteq> 0) \<Longrightarrow> s + unat n \<le> d \<or> d + unat n \<le> s \<Longrightarrow>
   strncpy_copy m d s n = (\<lambda>x. if d \<le> x \<and> x < d + unat n then m (s + (x - d)) else m x, d + unat n, - 1)"
proof (induction m d s n rule: strncpy_copy.induct)
  case (1 m d s n)
  show ?case
  proof (cases "n = 0")
    case True
    then show ?thesis by (auto simp: strncpy_copy.simps fun_eq_iff)
  next
    case False
    then have n: "unat n = Suc (unat (n - 1))" by (simp add: unat_pred unat_gt_0)
    let ?m = "m(d := m s)"
    have ms: "m s \<noteq> 0" using "1.prems"(1) n by (metis add_0_right zero_less_Suc)
    have hyp: "\<forall>i<unat (n - 1). ?m (s + 1 + i) \<noteq> 0"
    proof (intro allI impI)
      fix i assume i: "i < unat (n - 1)"
      then have "Suc i < unat n" using n by simp
      then have "m (s + Suc i) \<noteq> 0" using "1.prems"(1) by blast
      then show "?m (s + 1 + i) \<noteq> 0" using ms by simp
    qed
    have ov: "s + 1 + unat (n - 1) \<le> d + 1 \<or> d + 1 + unat (n - 1) \<le> s + 1" using "1.prems"(2) n by auto
    have e: "strncpy_copy m d s n = strncpy_copy ?m (d + 1) (s + 1) (n - 1)" using False ms
      by (subst strncpy_copy.simps) (simp add: Let_def)
    have fe: "(\<lambda>x. if d + 1 \<le> x \<and> x < d + 1 + unat (n - 1) then ?m (s + 1 + (x - (d + 1))) else ?m x) =
        (\<lambda>x. if d \<le> x \<and> x < d + unat n then m (s + (x - d)) else m x)"
      using n "1.prems"(2) by (intro ext) auto
    have c: "d + 1 + unat (n - 1) = d + unat n" using n by simp
    show ?thesis unfolding e "1.IH"[OF False refl ms hyp ov] unfolding fe using c by simp
  qed
qed

lemma strncpy_copy_short:
  "cstr m s k \<Longrightarrow> k < unat n \<Longrightarrow> s + k < d \<or> d + k < s \<Longrightarrow>
   strncpy_copy m d s n = (\<lambda>x. if d \<le> x \<and> x \<le> d + k then m (s + (x - d)) else m x, d + k + 1, n - of_nat (k + 1))"
proof (induction m d s n arbitrary: k rule: strncpy_copy.induct)
  case (1 m d s n)
  then have nz: "n \<noteq> 0" by auto
  then have n: "unat n = Suc (unat (n - 1))" by (simp add: unat_pred unat_gt_0)
  let ?m = "m(d := m s)"
  show ?case
  proof (cases k)
    case 0
    then show ?thesis using "1.prems" nz by (subst strncpy_copy.simps) (auto simp: cstr_def Let_def fun_eq_iff)
  next
    case (Suc j)
    have ms: "m s \<noteq> 0" using "1.prems"(1) Suc by (metis add_0_right cstr_def zero_less_Suc)
    have cj: "cstr ?m (s + 1) j" unfolding cstr_def
    proof (intro conjI allI impI)
      have "m (s + k) = 0" using "1.prems"(1) by (simp add: cstr_def)
      moreover have "s + 1 + j \<noteq> d" using "1.prems"(3) Suc by auto
      ultimately show "?m (s + 1 + j) = 0" using Suc by simp
    next
      fix i assume "i < j"
      then have "Suc i < k" using Suc by simp
      then have "m (s + Suc i) \<noteq> 0" using "1.prems"(1) unfolding cstr_def by blast
      then show "?m (s + 1 + i) \<noteq> 0" using ms by simp
    qed
    have e: "strncpy_copy m d s n = strncpy_copy ?m (d + 1) (s + 1) (n - 1)" using nz ms
      by (subst strncpy_copy.simps) (simp add: Let_def)
    have fe: "(\<lambda>x. if d + 1 \<le> x \<and> x \<le> d + 1 + j then ?m (s + 1 + (x - (d + 1))) else ?m x) =
        (\<lambda>x. if d \<le> x \<and> x \<le> d + k then m (s + (x - d)) else m x)"
      using "1.prems"(3) Suc by (intro ext) auto
    have "j < unat (n - 1)" "s + 1 + j < d + 1 \<or> d + 1 + j < s + 1" using "1.prems" n Suc by auto
    from "1.IH"[OF nz refl ms cj this] show ?thesis unfolding e unfolding fe using Suc by (simp add: algebra_simps fun_upd_def)
  qed
qed

lemma strncpy_short:
  assumes "cstr m s k" "k < unat n" "s + unat n \<le> d \<or> d + unat n \<le> s" "d + unat n \<le> 2 ^ 64"
  shows "strncpy m d s n = Some (\<lambda>x. if d \<le> x \<and> x \<le> d + k then m (s + (x - d)) else if d + k < x \<and> x < d + unat n then 0 else m x)"
proof -
  have c: "strncpy_copy m d s n = (\<lambda>x. if d \<le> x \<and> x \<le> d + k then m (s + (x - d)) else m x, d + k + 1, n - of_nat (k + 1))"
    using assms(1-3) by (intro strncpy_copy_short) auto
  have "unat n < 2 ^ 64" by simp
  then have "k + 1 < 2 ^ 64" using assms(2) by linarith
  then have u: "unat (of_nat (k + 1) :: u64) = k + 1" by (simp only: unat_of_nat) (simp add: take_bit_nat_eq_self)
  then have "unat (n - of_nat (k + 1)) = unat n - (k + 1)"
    using assms(2) by (subst unat_sub) (simp_all add: word_le_nat_alt)
  then show ?thesis using assms(2,4) by (auto simp: strncpy_def c memset_loop_eq fun_eq_iff)
qed

lemma strncpy_full:
  assumes "\<forall>i<unat n. m (s + i) \<noteq> 0" "s + unat n \<le> d \<or> d + unat n \<le> s" "1 < d"
  shows "strncpy m d s n = None"
proof -
  have "unat (- 1 :: u64) = 2 ^ 64 - 1" by (simp add: unat_max)
  then show ?thesis using assms(3) by (simp add: strncpy_def strncpy_copy_full[OF assms(1,2)])
qed

section \<open>Comparing and searching\<close>

text \<open>The bytes of a string, as a list.\<close>

definition str_at :: "mem \<Rightarrow> nat \<Rightarrow> nat \<Rightarrow> u8 list" where
  "str_at m s n = map (\<lambda>i. m (s + i)) [0..<n]"

lemma str_at_Suc: "str_at m s (Suc n) = m s # str_at m (s + 1) n"
  by (simp add: str_at_def upt_conv_Cons map_Suc_upt[symmetric] o_def del: upt_Suc)

lemma length_str_at [simp]: "length (str_at m s n) = n"
  by (simp add: str_at_def)

lemma cstr_Suc: "cstr m s (Suc n) \<longleftrightarrow> m s \<noteq> 0 \<and> cstr m (s + 1) n"
  by (auto simp: cstr_def less_Suc_eq_0_disj)

lemma cstr_0: "cstr m s 0 \<longleftrightarrow> m s = 0"
  by (simp add: cstr_def)

lemma byte_positive: "0 < uint (x::u8) \<longleftrightarrow> x \<noteq> 0" "uint x < uint y \<longleftrightarrow> x < y" "uint x = 0 \<longleftrightarrow> x = 0"
    "uint x = uint y \<longleftrightarrow> x = y"
proof -
  show "0 < uint x \<longleftrightarrow> x \<noteq> 0" using word_less_def[of 0 x] by (simp add: word_gt_0)
  show "uint x = 0 \<longleftrightarrow> x = 0" by (rule unsigned_eq_0_iff)
  show "uint x = uint y \<longleftrightarrow> x = y" by (rule word_uint_eq_iff[symmetric])
qed (simp add: word_less_def)

lemma strcmp_lex:
  "cstr m a n \<Longrightarrow> cstr m b k \<Longrightarrow> \<exists>r. strcmp m a b = Some r \<and>
     (r = 0 \<longleftrightarrow> str_at m a n = str_at m b k) \<and>
     (r < 0 \<longleftrightarrow> (str_at m a n, str_at m b k) \<in> lexord {(x, y). x < y})"
proof (induction n arbitrary: a b k)
  case 0
  then show ?case
    by (cases k) (auto simp: cstr_0 cstr_Suc str_at_Suc str_at_def[of _ _ 0] strcmp.simps[of m a b] byte_positive)
next
  case (Suc n)
  show ?case
  proof (cases k)
    case 0
    then show ?thesis using Suc.prems
      by (auto simp: cstr_0 cstr_Suc str_at_Suc str_at_def[of _ _ 0] strcmp.simps[of m a b] byte_positive)
  next
    case (Suc j)
    have a: "m a \<noteq> 0" "cstr m (a + 1) n" and b: "m b \<noteq> 0" "cstr m (b + 1) j" using Suc.prems Suc by (auto simp: cstr_Suc)
    show ?thesis
    proof (cases "m a = m b")
      case True
      then show ?thesis using Suc.IH[OF a(2) b(2)] a(1) Suc by (auto simp: strcmp.simps[of m a b] str_at_Suc)
    next
      case False
      then show ?thesis using Suc by (auto simp: strcmp.simps[of m a b] str_at_Suc byte_positive)
    qed
  qed
qed

lemma memcmp_zero: "memcmp m a b n = 0 \<longleftrightarrow> str_at m a (unat n) = str_at m b (unat n)"
proof (induction m a b n rule: memcmp.induct)
  case (1 m a b n)
  show ?case
  proof (cases "n = 0")
    case True
    then show ?thesis by (simp add: memcmp.simps str_at_def)
  next
    case False
    then have n: "unat n = Suc (unat (n - 1))" by (simp add: unat_pred unat_gt_0)
    show ?thesis using 1 False by (subst memcmp.simps) (simp add: n str_at_Suc byte_positive)
  qed
qed

lemma find_map_Suc: "List.find P (map Suc xs) = map_option Suc (List.find (\<lambda>i. P (Suc i)) xs)"
  by (induction xs) simp_all

lemma strstr_loop_first:
  assumes "cstr m h n" "0 < unat nlen" "\<forall>i<unat nlen. m (needle + i) \<noteq> 0"
  shows "strstr_loop m h needle nlen =
    Some (map_option (\<lambda>i. h + i) (List.find (\<lambda>i. str_at m (h + i) (unat nlen) = str_at m needle (unat nlen)) [0..<n]))"
  using assms(1)
proof (induction n arbitrary: h)
  case 0
  then show ?case by (subst strstr_loop.simps) (simp add: cstr_0)
next
  case (Suc n)
  have h: "m h \<noteq> 0" "cstr m (h + 1) n" using Suc.prems by (simp_all add: cstr_Suc)
  let ?P = "\<lambda>h. str_at m h (unat nlen) = str_at m needle (unat nlen)"
  have first: "?P h \<Longrightarrow> m h = m needle" using assms(2) by (cases "unat nlen") (auto simp: str_at_Suc)
  have shift: "List.find (\<lambda>i. ?P (h + i)) [Suc 0..<Suc n] = map_option Suc (List.find (\<lambda>i. ?P (h + 1 + i)) [0..<n])"
    unfolding map_Suc_upt[symmetric] find_map_Suc by simp
  show ?case
  proof (cases "?P h")
    case True
    then show ?thesis using h first by (subst strstr_loop.simps) (simp add: memcmp_zero upt_conv_Cons del: upt_Suc)
  next
    case False
    have "strstr_loop m h needle nlen = strstr_loop m (h + 1) needle nlen"
      using False h by (subst strstr_loop.simps) (simp add: memcmp_zero)
    also have "\<dots> = Some (map_option (\<lambda>i. h + 1 + i) (List.find (\<lambda>i. ?P (h + 1 + i)) [0..<n]))" using Suc.IH[OF h(2)] .
    also have "\<dots> = Some (map_option (\<lambda>i. h + i) (List.find (\<lambda>i. ?P (h + i)) [0..<Suc n]))"
      using False shift by (simp add: upt_conv_Cons option.map_comp o_def del: upt_Suc)
    finally show ?thesis .
  qed
qed

lemma match_inside:
  assumes "cstr m h n" "\<forall>i<k. m (needle + i) \<noteq> 0" "i \<le> n" "str_at m (h + i) k = str_at m needle k"
  shows "i + k \<le> n"
proof (rule ccontr)
  assume "\<not> i + k \<le> n"
  then have lt: "n - i < k" using assms(3) by linarith
  then have "m (h + i + (n - i)) = m (needle + (n - i))"
    using arg_cong[OF assms(4), of "\<lambda>xs. xs ! (n - i)"] by (simp add: str_at_def)
  moreover have "m (needle + (n - i)) \<noteq> 0" using assms(2) lt by blast
  moreover have "m (h + i + (n - i)) = 0" using assms(1,3) by (simp add: cstr_def)
  ultimately show False by simp
qed

section \<open>Properties\<close>

text \<open>C22: \<^verbatim>\<open>memmove\<close> is correct for every overlap of its two ranges: the destination ends up
  with the bytes the source had before the call, and no other byte changes.\<close>

theorem memmove_exact:
  "memmove m d s n = (\<lambda>x. if d \<le> x \<and> x < d + unat n then m (s + (x - d)) else m x)"
  by (rule ext) (rule memmove_eq)

text \<open>C21: What \<^verbatim>\<open>strncpy\<close> does, for a source and a destination that do not overlap and lie in the
  64-bit address space.  A source that ends within the bound is copied and padded with zeros
  to the bound, and no other byte changes.  When no terminator occurs among the first \<open>n\<close>
  bytes, \<^verbatim>\<open>n--\<close> has taken the counter below zero when the padding loop starts, and the loop
  runs out of the address space: the call is undefined although C defines it to write just
  the \<open>n\<close> bytes.\<close>

theorem strncpy_effect:
  assumes "s + unat n \<le> d \<or> d + unat n \<le> s" "1 < d" "d + unat n \<le> 2 ^ 64"
  shows "strncpy m d s n =
    (if \<exists>k<unat n. m (s + k) = 0 then
       let k = (LEAST k. m (s + k) = 0) in
       Some (\<lambda>x. if d \<le> x \<and> x \<le> d + k then m (s + (x - d)) else if d + k < x \<and> x < d + unat n then 0 else m x)
     else None)"
proof (cases "\<exists>k<unat n. m (s + k) = 0")
  case True
  define k where "k = (LEAST k. m (s + k) = 0)"
  obtain j where j: "j < unat n" "m (s + j) = 0" using True by blast
  have z: "m (s + k) = 0" unfolding k_def using j(2) by (rule LeastI)
  have "k \<le> j" unfolding k_def using j(2) by (rule Least_le)
  then have "k < unat n" using j(1) by (rule le_less_trans)
  moreover have "m (s + i) \<noteq> 0" if "i < k" for i using not_less_Least[OF that[unfolded k_def]] .
  then have "cstr m s k" using z by (simp add: cstr_def)
  ultimately show ?thesis using True unfolding k_def[symmetric] Let_def by (simp only: strncpy_short[OF _ _ assms(1,3)] if_True)
next
  case False
  then have "\<forall>i<unat n. m (s + i) \<noteq> 0" by blast
  then show ?thesis using False by (simp only: strncpy_full[OF _ assms(1,2)] if_False)
qed

definition demo_text :: mem where
  "demo_text a = (if a < 4 then 65 else if a = 4 then 0 else 7)"

theorem strncpy_effect_witness:
  "strncpy demo_text 100 0 4 = None \<and>
   map_option (\<lambda>m. map m [99, 100, 103, 104, 107, 108]) (strncpy demo_text 100 0 8) = Some [7, 65, 65, 0, 0, 7]"
proof -
  have a: "0 + unat (4::u64) \<le> 100 \<or> 100 + unat (4::u64) \<le> 0" "0 + unat (8::u64) \<le> 100 \<or> 100 + unat (8::u64) \<le> 0"
    "100 + unat (4::u64) \<le> 2 ^ 64" "100 + unat (8::u64) \<le> 2 ^ 64" "1 < (100::nat)" by simp_all
  have l: "(LEAST k. demo_text (0 + k) = 0) = 4"
    by (rule Least_equality) (auto simp: demo_text_def split: if_splits)
  have e: "\<exists>k<unat (8::u64). demo_text (0 + k) = 0" by (auto simp: demo_text_def intro!: exI[of _ 4])
  have "strncpy demo_text 100 0 4 = None" using strncpy_effect[OF a(1,5,3), of demo_text] by (auto simp: demo_text_def split: if_splits)
  moreover have "map_option (\<lambda>m. map m [99, 100, 103, 104, 107, 108]) (strncpy demo_text 100 0 8) = Some [7, 65, 65, 0, 0, 7]"
    using strncpy_effect[OF a(2,5,4), of demo_text, unfolded if_P[OF e] Let_def l] by (simp add: demo_text_def)
  ultimately show ?thesis by blast
qed

text \<open>C23: \<^verbatim>\<open>strstr\<close> always returns on terminated strings, and returns the first position at
  which the needle occurs completely inside the haystack, although its comparison may read
  past the end of the haystack.\<close>

theorem strstr_first:
  assumes "cstr m h n" "cstr m needle k" "k < 2 ^ 64"
  shows "strstr m h needle = Some (if k = 0 then Some h else
    map_option (\<lambda>i. h + i) (List.find (\<lambda>i. i + k \<le> n \<and> str_at m (h + i) k = str_at m needle k) [0..<n]))"
proof (cases "k = 0")
  case True
  then show ?thesis using strlen_cstr[OF assms(2)] by (simp add: strstr_def)
next
  case False
  have u: "unat (of_nat k :: u64) = k" using assms(3) by (simp only: unat_of_nat) (simp add: take_bit_nat_eq_self)
  have nz: "\<forall>i<k. m (needle + i) \<noteq> 0" using assms(2) by (simp add: cstr_def)
  have "List.find (\<lambda>i. str_at m (h + i) k = str_at m needle k) [0..<n] =
      List.find (\<lambda>i. i + k \<le> n \<and> str_at m (h + i) k = str_at m needle k) [0..<n]"
    using match_inside[OF assms(1) nz] by (intro find_cong) auto
  then show ?thesis
    using False strlen_cstr[OF assms(2)] strstr_loop_first[OF assms(1), of "of_nat k" needle] u nz by (simp add: strstr_def)
qed

definition demo_haystack :: mem where
  "demo_haystack a = (if a < 6 then [97, 98, 97, 98, 99, 0] ! a else if a = 10 then 98 else if a = 11 then 99 else 0)"

theorem strstr_first_witness: "strstr demo_haystack 0 10 = Some (Some 3)"
proof -
  have "cstr demo_haystack 0 5" "cstr demo_haystack 10 2"
    by (simp_all add: cstr_list demo_haystack_def upt_rec)
  from strstr_first[OF this] show ?thesis
    by (simp add: str_at_def demo_haystack_def upt_rec)
qed

end
