(* ===== verification/SF_Libc_Stdlib.thy ===== *)
theory SF_Libc_Stdlib
  imports SF_Decimal SF_Libc_String "HOL-Library.Multiset"
begin

text \<open>
  Character classification and the numeric, sorting and searching functions of the C
  library (\<^verbatim>\<open>recovered/libc/src/ctype.c\<close>, \<^verbatim>\<open>recovered/libc/src/stdlib.c\<close>).  A read-only C string
  is the list of its bytes before the terminator.  \<^verbatim>\<open>int\<close> and \<^verbatim>\<open>long\<close> accumulators are 32- and
  64-bit words.
\<close>

section \<open>Character classes\<close>

definition CT_U :: u8 where "CT_U = 0x01"
definition CT_L :: u8 where "CT_L = 0x02"
definition CT_D :: u8 where "CT_D = 0x04"
definition CT_S :: u8 where "CT_S = 0x08"
definition CT_P :: u8 where "CT_P = 0x10"
definition CT_C :: u8 where "CT_C = 0x20"
definition CT_X :: u8 where "CT_X = 0x40"
definition CT_G :: u8 where "CT_G = 0x80"

definition ctype_table :: "u8 list" where
  "ctype_table =
     replicate 8 CT_C @
     [CT_C] @ replicate 5 (CT_C OR CT_S) @ [CT_C, CT_C] @
     replicate 8 CT_C @ replicate 8 CT_C @
     [CT_S] @
     replicate 15 (CT_P OR CT_G) @
     replicate 10 (CT_D OR CT_X OR CT_G) @
     replicate 7 (CT_P OR CT_G) @
     replicate 6 (CT_U OR CT_X OR CT_G) @
     replicate 20 (CT_U OR CT_G) @
     replicate 6 (CT_P OR CT_G) @
     replicate 6 (CT_L OR CT_X OR CT_G) @
     replicate 20 (CT_L OR CT_G) @
     replicate 4 (CT_P OR CT_G) @ [CT_C]"

definition ctype :: "u32 \<Rightarrow> u8" where
  "ctype c = (if c < 128 then ctype_table ! unat (ucast c :: u8) else 0)"

definition isalpha :: "u32 \<Rightarrow> bool" where "isalpha c \<longleftrightarrow> ctype c AND (CT_U OR CT_L) \<noteq> 0"
definition isdigit :: "u32 \<Rightarrow> bool" where "isdigit c \<longleftrightarrow> ctype c AND CT_D \<noteq> 0"
definition isalnum :: "u32 \<Rightarrow> bool" where "isalnum c \<longleftrightarrow> ctype c AND (CT_U OR CT_L OR CT_D) \<noteq> 0"
definition isspace :: "u32 \<Rightarrow> bool" where "isspace c \<longleftrightarrow> ctype c AND CT_S \<noteq> 0"
definition isupper :: "u32 \<Rightarrow> bool" where "isupper c \<longleftrightarrow> ctype c AND CT_U \<noteq> 0"
definition islower :: "u32 \<Rightarrow> bool" where "islower c \<longleftrightarrow> ctype c AND CT_L \<noteq> 0"
definition isprint :: "u32 \<Rightarrow> bool" where "isprint c \<longleftrightarrow> ctype c AND (CT_G OR CT_S) \<noteq> 0"
definition ispunct :: "u32 \<Rightarrow> bool" where "ispunct c \<longleftrightarrow> ctype c AND CT_P \<noteq> 0"
definition isxdigit :: "u32 \<Rightarrow> bool" where "isxdigit c \<longleftrightarrow> ctype c AND CT_X \<noteq> 0"
definition isgraph :: "u32 \<Rightarrow> bool" where "isgraph c \<longleftrightarrow> ctype c AND CT_G \<noteq> 0"
definition iscntrl :: "u32 \<Rightarrow> bool" where "iscntrl c \<longleftrightarrow> ctype c AND CT_C \<noteq> 0"
definition toupper :: "u32 \<Rightarrow> u32" where "toupper c = (if islower c then c - 32 else c)"
definition tolower :: "u32 \<Rightarrow> u32" where "tolower c = (if isupper c then c + 32 else c)"

section \<open>Exit handlers\<close>

definition ATEXIT_MAX :: nat where "ATEXIT_MAX = 32"

text \<open>\<open>funcs\<close> holds the registered handlers, oldest first.\<close>

definition atexit :: "'f list \<Rightarrow> 'f \<Rightarrow> int \<times> 'f list" where
  "atexit funcs f = (if length funcs \<ge> ATEXIT_MAX then (- 1, funcs) else (0, funcs @ [f]))"

text \<open>The calls \<^verbatim>\<open>exit\<close> makes before the system call.\<close>

definition exit_calls :: "'f list \<Rightarrow> 'f list" where
  "exit_calls funcs = rev funcs"

section \<open>Numbers\<close>

text \<open>Signed arithmetic that leaves its type is undefined: \<^const>\<open>None\<close>.  \<open>INT_LIMIT\<close> and \<open>LONG_LIMIT\<close> are one
  above the largest \<^verbatim>\<open>int\<close> and \<^verbatim>\<open>long\<close>.\<close>

definition INT_LIMIT :: int where "INT_LIMIT = 2 ^ 31"
definition LONG_LIMIT :: int where "LONG_LIMIT = 2 ^ 63"

definition signed_val :: "int \<Rightarrow> int \<Rightarrow> int option" where
  "signed_val lim x = (if - lim \<le> x \<and> x < lim then Some x else None)"

definition abs_int :: "int \<Rightarrow> int option" where "abs_int j = (if j < 0 then signed_val INT_LIMIT (- j) else Some j)"
definition labs :: "int \<Rightarrow> int option" where "labs j = (if j < 0 then signed_val LONG_LIMIT (- j) else Some j)"

fun skip_blanks :: "bytes \<Rightarrow> bytes" where
  "skip_blanks (c # s) = (if c = 32 \<or> c = 9 then skip_blanks s else c # s)"
| "skip_blanks [] = []"

text \<open>The accumulator starts at zero and grows, so the product overflows only when the sum does.\<close>

fun atoi_digits :: "int \<Rightarrow> int \<Rightarrow> bytes \<Rightarrow> int option" where
  "atoi_digits lim n (c # s) =
     (if 48 \<le> c \<and> c \<le> 57 then Option.bind (signed_val lim (n * 10 + (uint c - 48))) (\<lambda>n. atoi_digits lim n s) else Some n)"
| "atoi_digits lim n [] = Some n"

definition signed_number :: "int \<Rightarrow> bytes \<Rightarrow> int option" where
  "signed_number lim s = (case s of
      [] \<Rightarrow> Some 0
    | c # s' \<Rightarrow> if c = 45 then Option.bind (atoi_digits lim 0 s') (\<lambda>n. signed_val lim (- 1 * n))
               else if c = 43 then Option.bind (atoi_digits lim 0 s') (\<lambda>n. signed_val lim (1 * n))
               else Option.bind (atoi_digits lim 0 (c # s')) (\<lambda>n. signed_val lim (1 * n)))"

definition atoi :: "bytes \<Rightarrow> int option" where
  "atoi s = signed_number INT_LIMIT (skip_blanks s)"

definition atol :: "bytes \<Rightarrow> int option" where
  "atol s = signed_number LONG_LIMIT (skip_blanks s)"

fun skip_space :: "bytes \<Rightarrow> bytes" where
  "skip_space (c # s) = (if isspace (ucast c) then skip_space s else c # s)"
| "skip_space [] = []"

definition take_sign :: "bytes \<Rightarrow> bool \<times> bytes" where
  "take_sign s = (case s of
      [] \<Rightarrow> (False, [])
    | c # s' \<Rightarrow> if c = 45 then (True, s') else if c = 43 then (False, s') else (False, s))"

definition hex_prefix :: "bytes \<Rightarrow> bool" where
  "hex_prefix s = (case s of a # b # _ \<Rightarrow> a = 48 \<and> (b = 120 \<or> b = 88) | _ \<Rightarrow> False)"

text \<open>The effective base and the rest of the string.\<close>

definition take_base :: "int \<Rightarrow> bytes \<Rightarrow> int \<times> bytes" where
  "take_base base s =
     (if base = 0 then
        if s \<noteq> [] \<and> hd s = 48 then (if hex_prefix s then (16, drop 2 s) else (8, s)) else (10, s)
      else if base = 16 \<and> hex_prefix s then (base, drop 2 s)
      else (base, s))"

definition dig :: "u8 \<Rightarrow> int option" where
  "dig c = (if 48 \<le> c \<and> c \<le> 57 then Some (uint c - 48)
      else if 97 \<le> c \<and> c \<le> 122 then Some (uint c - 97 + 10)
      else if 65 \<le> c \<and> c \<le> 90 then Some (uint c - 65 + 10)
      else None)"

text \<open>\<^verbatim>\<open>strtol\<close> accumulates in a \<^verbatim>\<open>long\<close>, \<^verbatim>\<open>strtoul\<close> in an \<^verbatim>\<open>unsigned long\<close>, which wraps.  The rest of the
  string is where \<^verbatim>\<open>*endptr\<close> points.\<close>

fun strtol_digits :: "int \<Rightarrow> int \<Rightarrow> bytes \<Rightarrow> (int \<times> bytes) option" where
  "strtol_digits base acc (c # s) =
     (case dig c of
        None \<Rightarrow> Some (acc, c # s)
      | Some d \<Rightarrow> if d \<ge> base then Some (acc, c # s)
          else Option.bind (signed_val LONG_LIMIT (acc * base + d)) (\<lambda>acc. strtol_digits base acc s))"
| "strtol_digits base acc [] = Some (acc, [])"

definition strtol :: "bytes \<Rightarrow> int \<Rightarrow> (int \<times> bytes) option" where
  "strtol nptr base =
     (let (neg, s) = take_sign (skip_space nptr);
          (base, s) = take_base base s
      in Option.bind (strtol_digits base 0 s) (\<lambda>(acc, s).
           Option.bind (signed_val LONG_LIMIT (if neg then - acc else acc)) (\<lambda>v. Some (v, s))))"

fun strtoul_digits :: "int \<Rightarrow> u64 \<Rightarrow> bytes \<Rightarrow> u64 \<times> bytes" where
  "strtoul_digits base acc (c # s) =
     (case dig c of
        None \<Rightarrow> (acc, c # s)
      | Some d \<Rightarrow> if d \<ge> base then (acc, c # s) else strtoul_digits base (acc * of_int base + of_int d) s)"
| "strtoul_digits base acc [] = (acc, [])"

definition strtoul :: "bytes \<Rightarrow> int \<Rightarrow> u64 \<times> bytes" where
  "strtoul nptr base =
     (let (neg, s) = take_sign (skip_space nptr);
          (base, s) = take_base base s;
          (acc, s) = strtoul_digits base 0 s
      in (if neg then - acc else acc, s))"

section \<open>Random numbers and the environment\<close>

definition rand :: "u64 \<Rightarrow> u32 \<times> u64" where
  "rand seed = (let seed' = seed * 1103515245 + 12345
     in (ucast (drop_bit 16 seed' AND 0x7fff), seed'))"

definition srand :: "u32 \<Rightarrow> u64" where "srand seed = ucast seed"

text \<open>\<open>environ\<close> is the list of \<^verbatim>\<open>NAME=value\<close> strings.\<close>

definition getenv :: "bytes list \<Rightarrow> bytes \<Rightarrow> bytes option" where
  "getenv environ name =
     map_option (\<lambda>e. drop (length name + 1) e)
       (List.find (\<lambda>e. take (length name) e = name \<and> length name < length e \<and> e ! length name = 61) environ)"

section \<open>Sorting and searching\<close>

text \<open>The array is the list of its elements; the three copies through \<open>tmp\<close> exchange two
  neighbours.  \<open>tmp\<close> is whether the buffer could be allocated.\<close>

fun qsort_sink :: "('a \<Rightarrow> 'a \<Rightarrow> int) \<Rightarrow> 'a list \<Rightarrow> nat \<Rightarrow> 'a list" where
  "qsort_sink compar arr 0 = arr"
| "qsort_sink compar arr (Suc j) =
     (if compar (arr ! j) (arr ! Suc j) > 0
      then qsort_sink compar (arr[Suc j := arr ! j, j := arr ! Suc j]) j else arr)"

definition qsort :: "bool \<Rightarrow> ('a \<Rightarrow> 'a \<Rightarrow> int) \<Rightarrow> 'a list \<Rightarrow> 'a list" where
  "qsort tmp compar arr =
     (if \<not> tmp then arr else fold (\<lambda>i arr. qsort_sink compar arr i) [1..<length arr] arr)"

function bsearch_loop :: "('k \<Rightarrow> 'a \<Rightarrow> int) \<Rightarrow> 'k \<Rightarrow> 'a list \<Rightarrow> nat \<Rightarrow> nat \<Rightarrow> nat option" where
  "bsearch_loop compar key arr lo hi =
     (if lo < hi then
        let mid = lo + (hi - lo) div 2; cmp = compar key (arr ! mid) in
        if cmp = 0 then Some mid
        else if cmp < 0 then bsearch_loop compar key arr lo mid
        else bsearch_loop compar key arr (mid + 1) hi
      else None)"
  by pat_completeness auto
termination by (relation "measure (\<lambda>(_, _, _, lo, hi). hi - lo)") auto

declare bsearch_loop.simps [simp del]

definition bsearch :: "('k \<Rightarrow> 'a \<Rightarrow> int) \<Rightarrow> 'k \<Rightarrow> 'a list \<Rightarrow> nat option" where
  "bsearch compar key arr = bsearch_loop compar key arr 0 (length arr)"

section \<open>The classification table\<close>

lemma ctype_bytes:
  "list_all (\<lambda>i. (ctype_table ! i AND CT_D \<noteq> 0 \<longleftrightarrow> 48 \<le> i \<and> i \<le> 57) \<and>
     (ctype_table ! i AND CT_U \<noteq> 0 \<longleftrightarrow> 65 \<le> i \<and> i \<le> 90) \<and>
     (ctype_table ! i AND CT_L \<noteq> 0 \<longleftrightarrow> 97 \<le> i \<and> i \<le> 122) \<and>
     (ctype_table ! i AND CT_S \<noteq> 0 \<longleftrightarrow> i = 32 \<or> 9 \<le> i \<and> i \<le> 13) \<and>
     (ctype_table ! i AND CT_X \<noteq> 0 \<longleftrightarrow> 48 \<le> i \<and> i \<le> 57 \<or> 65 \<le> i \<and> i \<le> 70 \<or> 97 \<le> i \<and> i \<le> 102) \<and>
     (ctype_table ! i AND CT_C \<noteq> 0 \<longleftrightarrow> i < 32 \<or> i = 127)) [0..<128]"
  by code_simp

lemma ctype_classes:
  fixes c :: u32
  shows "isdigit c \<longleftrightarrow> 48 \<le> c \<and> c \<le> 57" "isupper c \<longleftrightarrow> 65 \<le> c \<and> c \<le> 90" "islower c \<longleftrightarrow> 97 \<le> c \<and> c \<le> 122"
    "isspace c \<longleftrightarrow> c = 32 \<or> 9 \<le> c \<and> c \<le> 13"
    "isxdigit c \<longleftrightarrow> 48 \<le> c \<and> c \<le> 57 \<or> 65 \<le> c \<and> c \<le> 70 \<or> 97 \<le> c \<and> c \<le> 102"
    "iscntrl c \<longleftrightarrow> c < 32 \<or> c = 127"
proof -
  have t: "(ctype_table ! i AND CT_D \<noteq> 0 \<longleftrightarrow> 48 \<le> i \<and> i \<le> 57) \<and>
     (ctype_table ! i AND CT_U \<noteq> 0 \<longleftrightarrow> 65 \<le> i \<and> i \<le> 90) \<and>
     (ctype_table ! i AND CT_L \<noteq> 0 \<longleftrightarrow> 97 \<le> i \<and> i \<le> 122) \<and>
     (ctype_table ! i AND CT_S \<noteq> 0 \<longleftrightarrow> i = 32 \<or> 9 \<le> i \<and> i \<le> 13) \<and>
     (ctype_table ! i AND CT_X \<noteq> 0 \<longleftrightarrow> 48 \<le> i \<and> i \<le> 57 \<or> 65 \<le> i \<and> i \<le> 70 \<or> 97 \<le> i \<and> i \<le> 102) \<and>
     (ctype_table ! i AND CT_C \<noteq> 0 \<longleftrightarrow> i < 32 \<or> i = 127)" if "i < 128" for i
    using ctype_bytes that unfolding list_all_iff by (metis atLeastLessThan_iff set_upt zero_le)
  have u: "unat (ucast c :: u8) = unat c" if "c < 128"
    using that by (simp add: unat_ucast_mod word_less_nat_alt)
  show "isdigit c \<longleftrightarrow> 48 \<le> c \<and> c \<le> 57" "isupper c \<longleftrightarrow> 65 \<le> c \<and> c \<le> 90" "islower c \<longleftrightarrow> 97 \<le> c \<and> c \<le> 122"
    "isspace c \<longleftrightarrow> c = 32 \<or> 9 \<le> c \<and> c \<le> 13"
    "isxdigit c \<longleftrightarrow> 48 \<le> c \<and> c \<le> 57 \<or> 65 \<le> c \<and> c \<le> 70 \<or> 97 \<le> c \<and> c \<le> 102"
    "iscntrl c \<longleftrightarrow> c < 32 \<or> c = 127"
    using t[of "unat c"] u
    by (cases "c < 128"; simp add: isdigit_def isupper_def islower_def isspace_def isxdigit_def iscntrl_def ctype_def
        word_less_nat_alt word_le_nat_alt word_unat_eq_iff)+
qed

section \<open>Reading decimal numbers\<close>

lemma digit_int: "digit c \<Longrightarrow> uint c - 48 = int (digit_value c)"
  by (simp add: digit_def digit_value_def uint_sub_lem[THEN iffD1] word_le_def)

lemma atoi_digits_value:
  assumes "\<forall>c\<in>set ds. digit c" "rest = [] \<or> \<not> digit (hd rest)" "0 < lim" "int k < lim"
  shows "atoi_digits lim (int k) (ds @ rest) =
    (if int (dec_value k ds) < lim then Some (int (dec_value k ds)) else None)"
  using assms
proof (induction ds arbitrary: k)
  case Nil
  then show ?case by (cases rest) (auto simp: digit_def)
next
  case (Cons c ds)
  let ?k = "k * 10 + digit_value c"
  have c: "48 \<le> c \<and> c \<le> 57" "int k * 10 + (uint c - 48) = int ?k"
    using Cons.prems(1) digit_int[of c] by (simp_all add: digit_def)
  have step: "atoi_digits lim (int k) ((c # ds) @ rest) = Option.bind (signed_val lim (int ?k)) (\<lambda>n. atoi_digits lim n (ds @ rest))"
    unfolding append_Cons atoi_digits.simps if_P[OF c(1)] c(2) ..
  show ?case
  proof (cases "int ?k < lim")
    case True
    then show ?thesis unfolding step using Cons.IH[OF _ Cons.prems(2,3) True] Cons.prems(1,3) by (simp add: signed_val_def)
  next
    case False
    then have "\<not> int (dec_value ?k ds) < lim" using dec_value_mono[of ?k ds] by linarith
    then show ?thesis unfolding step using False by (simp add: signed_val_def)
  qed
qed

text \<open>Decimal text of an integer.\<close>

definition dec_int :: "int \<Rightarrow> bytes" where
  "dec_int v = (if v < 0 then 45 # dec (nat (- v)) else dec (nat v))"

lemma skip_blanks_dec: "skip_blanks (dec_int v @ rest) = dec_int v @ rest"
proof (cases "v < 0")
  case False
  obtain c cs where d: "dec (nat v) = c # cs" by (meson dec_nonempty list.exhaust)
  then have "digit c" using dec_digits[of "nat v"] by simp
  then show ?thesis using False d by (auto simp: dec_int_def digit_def)
qed (simp add: dec_int_def)

text \<open>The magnitude must fit, also that of a negative number.\<close>

lemma signed_number_dec:
  assumes r: "rest = [] \<or> \<not> digit (hd rest)" and l: "0 < lim"
  shows "signed_number lim (dec_int v @ rest) = (if \<bar>v\<bar> < lim then Some v else None)"
proof (cases "v < 0")
  case True
  have "atoi_digits lim 0 (dec (nat (- v)) @ rest) = (if - v < lim then Some (- v) else None)"
    using atoi_digits_value[OF dec_digits r l, of 0 "nat (- v)"] l True by (simp add: dec_value_dec)
  then show ?thesis using True l by (simp add: dec_int_def signed_number_def signed_val_def)
next
  case False
  obtain c cs where d: "dec (nat v) = c # cs" by (meson dec_nonempty list.exhaust)
  then have c: "c \<noteq> 45" "c \<noteq> 43" using dec_digits[of "nat v"] by (auto simp: digit_def)
  have "atoi_digits lim 0 (dec (nat v) @ rest) = (if v < lim then Some v else None)"
    using atoi_digits_value[OF dec_digits r l, of 0 "nat v"] l False by (simp add: dec_value_dec)
  then show ?thesis using False c d l by (simp add: dec_int_def signed_number_def signed_val_def)
qed

lemma atoi_dec: "rest = [] \<or> \<not> digit (hd rest) \<Longrightarrow> atoi (dec_int v @ rest) = (if \<bar>v\<bar> < 2 ^ 31 then Some v else None)"
  unfolding atoi_def skip_blanks_dec using signed_number_dec[of rest INT_LIMIT] by (simp add: INT_LIMIT_def)

lemma atol_dec: "rest = [] \<or> \<not> digit (hd rest) \<Longrightarrow> atol (dec_int v @ rest) = (if \<bar>v\<bar> < 2 ^ 63 then Some v else None)"
  unfolding atol_def skip_blanks_dec using signed_number_dec[of rest LONG_LIMIT] by (simp add: LONG_LIMIT_def)

lemma dig_digit: "digit c \<Longrightarrow> dig c = Some (int (digit_value c))"
  by (simp add: dig_def digit_def digit_value_def uint_sub_lem[THEN iffD1] word_le_def)

lemma dig_not_digit: "\<not> digit c \<Longrightarrow> dig c = Some d \<Longrightarrow> 10 \<le> d"
  by (auto simp: dig_def digit_def word_le_def split: if_splits)

lemma strtol_digits_value:
  assumes "\<forall>c\<in>set ds. digit c" "rest = [] \<or> \<not> digit (hd rest)" "int k < LONG_LIMIT"
  shows "strtol_digits 10 (int k) (ds @ rest) =
    (if int (dec_value k ds) < LONG_LIMIT then Some (int (dec_value k ds), rest) else None)"
  using assms
proof (induction ds arbitrary: k)
  case Nil
  then show ?case using dig_not_digit by (cases rest) (auto split: option.splits)
next
  case (Cons c ds)
  let ?k = "k * 10 + digit_value c"
  have "digit_value c < 10" using Cons.prems(1) digit_value_less by simp
  then have step: "strtol_digits 10 (int k) ((c # ds) @ rest) =
      Option.bind (signed_val LONG_LIMIT (int ?k)) (\<lambda>n. strtol_digits 10 n (ds @ rest))"
    using Cons.prems(1) dig_digit by simp
  show ?case
  proof (cases "int ?k < LONG_LIMIT")
    case True
    then have "signed_val LONG_LIMIT (int ?k) = Some (int ?k)" by (simp add: signed_val_def LONG_LIMIT_def)
    then show ?thesis unfolding step using Cons.IH[OF _ Cons.prems(2) True] Cons.prems(1) by simp
  next
    case False
    then have "\<not> int (dec_value ?k ds) < LONG_LIMIT" using dec_value_mono[of ?k ds] by linarith
    then show ?thesis unfolding step using False by (simp add: signed_val_def)
  qed
qed

lemma strtol_dec:
  assumes r: "rest = [] \<or> \<not> digit (hd rest)"
  shows "strtol (dec_int v @ rest) 10 = (if \<bar>v\<bar> < 2 ^ 63 then Some (v, rest) else None)"
proof -
  have sp: "\<not> isspace (ucast c)" if "digit c" for c :: u8
  proof -
    have "unat c < 4294967296" by (rule order_less_trans[OF unat_less_width(1)]) simp
    then have "unat (ucast c :: u32) = unat c" by (simp add: unat_ucast_mod)
    then show ?thesis using that by (auto simp: ctype_classes(4) digit_unat word_le_nat_alt word_unat_eq_iff)
  qed
  have l: "int 0 < LONG_LIMIT" by (simp add: LONG_LIMIT_def)
  show ?thesis
  proof (cases "v < 0")
    case True
    have "\<not> isspace (ucast (45 :: u8))" by (simp add: ctype_classes(4))
    then show ?thesis using True strtol_digits_value[OF dec_digits r l, of "nat (- v)"]
      by (simp add: dec_int_def strtol_def take_sign_def take_base_def dec_value_dec signed_val_def LONG_LIMIT_def)
  next
    case False
    obtain c cs where d: "dec (nat v) = c # cs" by (meson dec_nonempty list.exhaust)
    then have c: "digit c" using dec_digits[of "nat v"] by auto
    have "take_sign (dec (nat v) @ rest) = (False, dec (nat v) @ rest)" using c d by (auto simp: take_sign_def digit_def)
    moreover have "skip_space (dec (nat v) @ rest) = dec (nat v) @ rest" using d sp[OF c] by simp
    ultimately show ?thesis using False strtol_digits_value[OF dec_digits r l, of "nat v"]
      by (simp add: dec_int_def strtol_def take_base_def dec_value_dec signed_val_def LONG_LIMIT_def)
  qed
qed

section \<open>Sorting\<close>

lemma qsort_sink_mset: "j < length arr \<Longrightarrow> mset (qsort_sink compar arr j) = mset arr \<and> length (qsort_sink compar arr j) = length arr"
proof (induction compar arr j rule: qsort_sink.induct)
  case (2 compar arr j)
  then show ?case using mset_swap[of j arr "Suc j"] by auto
qed simp

lemma qsort_sink_later: "j < i \<Longrightarrow> i < length arr \<Longrightarrow> qsort_sink compar arr j ! i = arr ! i"
  by (induction compar arr j rule: qsort_sink.induct) auto

lemma qsort_sink_sorted:
  assumes tr: "\<And>a b c. compar a b \<le> 0 \<Longrightarrow> compar b c \<le> 0 \<Longrightarrow> compar a c \<le> (0::int)"
    and tot: "\<And>a b. compar a b > 0 \<Longrightarrow> compar b a \<le> 0"
  shows "j < length arr \<Longrightarrow> k < length arr \<Longrightarrow> j \<le> k \<Longrightarrow>
    (\<And>a b. a < b \<Longrightarrow> b \<le> k \<Longrightarrow> a \<noteq> j \<Longrightarrow> b \<noteq> j \<Longrightarrow> compar (arr ! a) (arr ! b) \<le> 0) \<Longrightarrow>
    (\<And>b. j < b \<Longrightarrow> b \<le> k \<Longrightarrow> compar (arr ! j) (arr ! b) \<le> 0) \<Longrightarrow>
    a < b \<Longrightarrow> b \<le> k \<Longrightarrow> compar (qsort_sink compar arr j ! a) (qsort_sink compar arr j ! b) \<le> 0"
proof (induction j arbitrary: arr)
  case 0
  then show ?case by (cases "a = 0") auto
next
  case (Suc j)
  show ?case
  proof (cases "compar (arr ! j) (arr ! Suc j) > 0")
    case True
    let ?arr = "arr[Suc j := arr ! j, j := arr ! Suc j]"
    have v: "?arr ! i = (if i = j then arr ! Suc j else if i = Suc j then arr ! j else arr ! i)" for i
      using Suc.prems(1) by (auto simp: nth_list_update)
    have "compar (qsort_sink compar ?arr j ! a) (qsort_sink compar ?arr j ! b) \<le> 0"
    proof (rule Suc.IH)
      fix x y assume xy: "x < y" "y \<le> k" "x \<noteq> j" "y \<noteq> j"
      show "compar (?arr ! x) (?arr ! y) \<le> 0"
        using Suc.prems(4)[of j y] Suc.prems(4)[of x j] Suc.prems(4)[of x y] xy unfolding v by auto
    next
      fix y assume y: "j < y" "y \<le> k"
      show "compar (?arr ! j) (?arr ! y) \<le> 0"
        using Suc.prems(5)[of y] y tot[OF True] unfolding v by auto
    qed (use Suc.prems in auto)
    then show ?thesis using True by simp
  next
    case False
    have jk: "compar (arr ! i) (arr ! Suc j) \<le> 0" if "i < Suc j" for i
      using that False tr[of "arr ! i" "arr ! j"] Suc.prems(4)[of i j] Suc.prems(3) by (cases "i = j") auto
    then show ?thesis using False Suc.prems(4)[of a b] Suc.prems(5)[of b] Suc.prems(6,7)
      by (cases "a = Suc j"; cases "b = Suc j") auto
  qed
qed

lemma qsort_loop:
  assumes tr: "\<And>a b c. compar a b \<le> 0 \<Longrightarrow> compar b c \<le> 0 \<Longrightarrow> compar a c \<le> (0::int)"
    and tot: "\<And>a b. compar a b > 0 \<Longrightarrow> compar b a \<le> 0"
    and n: "0 < n" "n \<le> length arr"
  shows "mset (fold (\<lambda>i arr. qsort_sink compar arr i) [1..<n] arr) = mset arr \<and>
    length (fold (\<lambda>i arr. qsort_sink compar arr i) [1..<n] arr) = length arr \<and>
    (\<forall>a b. a < b \<longrightarrow> b < n \<longrightarrow>
      compar (fold (\<lambda>i arr. qsort_sink compar arr i) [1..<n] arr ! a) (fold (\<lambda>i arr. qsort_sink compar arr i) [1..<n] arr ! b) \<le> 0)"
  using n
proof (induction n)
  case (Suc n)
  show ?case
  proof (cases "n = 0")
    case False
    define ys where "ys = fold (\<lambda>i arr. qsort_sink compar arr i) [1..<n] arr"
    have IH: "mset ys = mset arr" "length ys = length arr" "\<And>a b. a < b \<Longrightarrow> b < n \<Longrightarrow> compar (ys ! a) (ys ! b) \<le> 0"
      using Suc False unfolding ys_def by auto
    have e: "fold (\<lambda>i arr. qsort_sink compar arr i) [1..<Suc n] arr = qsort_sink compar ys n"
      using False by (simp add: ys_def)
    have "compar (qsort_sink compar ys n ! a) (qsort_sink compar ys n ! b) \<le> 0" if "a < b" "b < Suc n" for a b
    proof (rule qsort_sink_sorted[where k = n])
      show "n < length ys" "n < length ys" using Suc.prems IH(2) by simp_all
      show "a < b" "b \<le> n" using that by simp_all
      fix x y assume "x < y" "y \<le> n" "x \<noteq> n" "y \<noteq> n"
      then show "compar (ys ! x) (ys ! y) \<le> 0" using IH(3)[of x y] by simp
    qed (fact tr, fact tot, simp_all)
    then show ?thesis unfolding e using qsort_sink_mset[of n ys compar] IH Suc.prems by simp
  qed simp
qed simp

section \<open>Searching\<close>

text \<open>The comparison of the key with the array changes sign at most once.\<close>

definition key_ordered :: "('k \<Rightarrow> 'a \<Rightarrow> int) \<Rightarrow> 'k \<Rightarrow> 'a list \<Rightarrow> bool" where
  "key_ordered compar key arr \<longleftrightarrow> (\<forall>j<length arr. \<forall>i<j.
     (compar key (arr ! i) < 0 \<longrightarrow> compar key (arr ! j) < 0) \<and>
     (compar key (arr ! j) > 0 \<longrightarrow> compar key (arr ! i) > 0))"

lemma key_orderedD:
  assumes "key_ordered compar key arr"
  shows "i < j \<Longrightarrow> j < length arr \<Longrightarrow> compar key (arr ! i) < 0 \<Longrightarrow> compar key (arr ! j) < 0"
    "i < j \<Longrightarrow> j < length arr \<Longrightarrow> compar key (arr ! j) > 0 \<Longrightarrow> compar key (arr ! i) > 0"
  using assms by (auto simp: key_ordered_def)

lemma bsearch_loop_correct:
  assumes o: "key_ordered compar key arr"
  shows "hi \<le> length arr \<Longrightarrow>
    (case bsearch_loop compar key arr lo hi of
       Some i \<Rightarrow> lo \<le> i \<and> i < hi \<and> compar key (arr ! i) = 0
     | None \<Rightarrow> (\<forall>i. lo \<le> i \<longrightarrow> i < hi \<longrightarrow> compar key (arr ! i) \<noteq> 0))"
proof (induction "hi - lo" arbitrary: lo hi rule: less_induct)
  case less
  show ?case
  proof (cases "lo < hi")
    case False
    then show ?thesis by (simp add: bsearch_loop.simps[of compar key arr lo hi])
  next
    case True
    define mid where "mid = lo + (hi - lo) div 2"
    have mid: "lo \<le> mid" "mid < hi" using True by (auto simp: mid_def)
    have step: "bsearch_loop compar key arr lo hi = (if compar key (arr ! mid) = 0 then Some mid
        else if compar key (arr ! mid) < 0 then bsearch_loop compar key arr lo mid
        else bsearch_loop compar key arr (mid + 1) hi)"
      using True by (subst bsearch_loop.simps) (simp add: Let_def mid_def)
    consider "compar key (arr ! mid) = 0" | "compar key (arr ! mid) < 0" | "compar key (arr ! mid) > 0" by linarith
    then show ?thesis
    proof cases
      case 1
      then show ?thesis using mid by (simp add: step)
    next
      case 2
      have "compar key (arr ! i) \<noteq> 0" if "mid \<le> i" "i < hi" for i
        using key_orderedD(1)[OF o, of mid i] that less.prems 2 by (cases "i = mid") auto
      moreover have "case bsearch_loop compar key arr lo mid of
          Some i \<Rightarrow> lo \<le> i \<and> i < mid \<and> compar key (arr ! i) = 0
        | None \<Rightarrow> (\<forall>i. lo \<le> i \<longrightarrow> i < mid \<longrightarrow> compar key (arr ! i) \<noteq> 0)"
        using less mid by (intro less.hyps) auto
      ultimately show ?thesis using 2 mid by (auto simp: step not_less split: option.splits)
    next
      case 3
      have "compar key (arr ! i) \<noteq> 0" if "lo \<le> i" "i \<le> mid" for i
        using key_orderedD(2)[OF o, of i mid] that less.prems mid 3 by (cases "i = mid") auto
      moreover have "case bsearch_loop compar key arr (mid + 1) hi of
          Some i \<Rightarrow> mid + 1 \<le> i \<and> i < hi \<and> compar key (arr ! i) = 0
        | None \<Rightarrow> (\<forall>i. mid + 1 \<le> i \<longrightarrow> i < hi \<longrightarrow> compar key (arr ! i) \<noteq> 0)"
        using less mid by (intro less.hyps) auto
      ultimately show ?thesis using 3 mid by (auto simp: step split: option.splits) (meson not_less_eq_eq)
    qed
  qed
qed

section \<open>Properties\<close>

text \<open>C24: \<^verbatim>\<open>qsort\<close> sorts when its temporary element can be allocated: for a comparison that is
  transitive and total, the result is a permutation of the array in which no element compares
  greater than a later one.  When the allocation fails the array stays as it was, unsorted,
  and the caller is not told.\<close>

theorem qsort_sorts:
  assumes "\<And>a b c. compar a b \<le> 0 \<Longrightarrow> compar b c \<le> 0 \<Longrightarrow> compar a c \<le> (0::int)"
    and "\<And>a b. compar a b > 0 \<Longrightarrow> compar b a \<le> 0"
  shows "mset (qsort tmp compar arr) = mset arr \<and>
    (if tmp then sorted_wrt (\<lambda>a b. compar a b \<le> 0) (qsort tmp compar arr) else qsort tmp compar arr = arr)"
proof (cases "arr = [] \<or> \<not> tmp")
  case False
  then have n: "0 < length arr" "length arr \<le> length arr" by simp_all
  from qsort_loop[where compar = compar, OF assms n] show ?thesis using False by (simp add: qsort_def sorted_wrt_iff_nth_less)
qed (auto simp: qsort_def)

theorem qsort_sorts_witness:
  "sorted_wrt (\<lambda>a b. a - b \<le> 0) (qsort True (\<lambda>a b. a - b) [3, 1, 2 :: int]) \<and> qsort False (\<lambda>a b. a - b) [3, 1, 2 :: int] = [3, 1, 2]"
  using qsort_sorts[where compar = "\<lambda>a b :: int. a - b" and tmp = True and arr = "[3, 1, 2]"]
    qsort_sorts[where compar = "\<lambda>a b :: int. a - b" and tmp = False and arr = "[3, 1, 2]"] by auto

text \<open>C25: \<^verbatim>\<open>bsearch\<close> terminates and is exact: on an array whose comparisons with the key
  change sign at most once (the order \<^verbatim>\<open>bsearch\<close> requires) it returns an element equal to the key when there is one, and
  reports failure only when there is none.\<close>

theorem bsearch_exact:
  assumes "key_ordered compar key arr"
  shows "case bsearch compar key arr of
      Some i \<Rightarrow> i < length arr \<and> compar key (arr ! i) = 0
    | None \<Rightarrow> (\<forall>x\<in>set arr. compar key x \<noteq> 0)"
  using bsearch_loop_correct[OF assms, of "length arr" 0]
  by (auto simp: bsearch_def in_set_conv_nth split: option.splits)

theorem bsearch_exact_witness: "bsearch (\<lambda>k x. k - x) 5 [1, 3, 5, 7 :: int] = Some 2"
proof -
  have "key_ordered (\<lambda>k x. k - x) 5 [1, 3, 5, 7 :: int]"
    by (auto simp: key_ordered_def less_Suc_eq numeral_eq_Suc)
  from bsearch_exact[OF this] show ?thesis
    by (auto simp: less_Suc_eq numeral_eq_Suc nth_Cons split: option.splits nat.splits)
qed

end
