(* ===== verification/SF_Libc_Stdio.thy ===== *)
theory SF_Libc_Stdio
  imports SF_Libc_Stdlib
begin

text \<open>
  Formatted output and streams of the C library (\<^verbatim>\<open>recovered/libc/src/stdio.c\<close>).  The text
  written so far is the list \<open>out\<close>, whose length is \<^verbatim>\<open>pos\<close>; \<^const>\<open>None\<close> is undefined behaviour:
  an argument of another type than the conversion expects, a signed overflow of the field
  width or of the negation of a value, or a format that ends inside a conversion, behind whose
  terminator the code goes on reading.
\<close>

section \<open>Formatted output\<close>

datatype fmt_arg = A_Int u32 | A_Long u64 | A_Ptr u64 | A_Str "bytes option"

text \<open>\<^verbatim>\<open>if (pos < size - 1) buf[pos++] = c\<close>, for each of a sequence of characters.\<close>

fun emit :: "u64 \<Rightarrow> bytes \<Rightarrow> bytes \<Rightarrow> bytes" where
  "emit sz [] out = out"
| "emit sz (c # cs) out = (if length out < unat (sz - 1) then emit sz cs (out @ [c]) else out)"

text \<open>The loop that collects the digits of a value, least significant first.\<close>

function digits_loop :: "u64 \<Rightarrow> bytes \<Rightarrow> u64 \<Rightarrow> bytes" where
  "digits_loop base digs val =
     (if val = 0 \<or> base < 2 then [] else (digs ! unat (val mod base)) # digits_loop base digs (val div base))"
  by pat_completeness auto
termination
proof (relation "measure (\<lambda>(_, _, v). unat v)")
  fix base val :: u64 and digs :: bytes
  assume a: "\<not> (val = 0 \<or> base < 2)"
  then have "1 < unat base" "0 < unat val" by (auto simp: word_less_nat_alt unat_gt_0)
  then show "((base, digs, val div base), (base, digs, val)) \<in> measure (\<lambda>(_, _, v). unat v)"
    by (simp add: unat_div)
qed simp

declare digits_loop.simps [simp del]

definition dec_chars :: bytes where "dec_chars = map (\<lambda>i. 48 + of_nat i) [0..<10]"
definition hex_lower :: bytes where "hex_lower = dec_chars @ map (\<lambda>i. 97 + of_nat i) [0..<6]"
definition hex_upper :: bytes where "hex_upper = dec_chars @ map (\<lambda>i. 65 + of_nat i) [0..<6]"

text \<open>The contents of \<^verbatim>\<open>tmp\<close>.\<close>

definition tmp_digits :: "u64 \<Rightarrow> bytes \<Rightarrow> u64 \<Rightarrow> bytes" where
  "tmp_digits base digs val = (if val = 0 then [48] else digits_loop base digs val)"

definition pad_number :: "u64 \<Rightarrow> int \<Rightarrow> bool \<Rightarrow> bytes \<Rightarrow> bytes \<Rightarrow> bytes" where
  "pad_number sz width pad_zero tmp out =
     emit sz (rev tmp) (emit sz (replicate (nat (width - int (length tmp))) (if pad_zero then 48 else 32)) out)"

text \<open>Field width and length modifier.\<close>

fun fmt_width :: "int \<Rightarrow> bytes \<Rightarrow> (int \<times> bytes) option" where
  "fmt_width w (c # f) =
     (if 48 \<le> c \<and> c \<le> 57 then Option.bind (signed_val INT_LIMIT (w * 10 + (uint c - 48))) (\<lambda>w. fmt_width w f)
      else Some (w, c # f))"
| "fmt_width w [] = Some (w, [])"

definition fmt_long :: "bytes \<Rightarrow> bool \<times> bytes" where
  "fmt_long f = (case f of
      c # f' \<Rightarrow> if c = 108 then (True, case f' of d # f'' \<Rightarrow> if d = 108 then f'' else f' | [] \<Rightarrow> []) else (False, f)
    | [] \<Rightarrow> (False, []))"

text \<open>\<^verbatim>\<open>va_arg\<close> of a signed and of an unsigned value.\<close>

fun arg_signed :: "bool \<Rightarrow> fmt_arg list \<Rightarrow> (u64 \<times> fmt_arg list) option" where
  "arg_signed False (A_Int v # ap) = Some (scast v, ap)"
| "arg_signed True (A_Long v # ap) = Some (v, ap)"
| "arg_signed _ _ = None"

fun arg_unsigned :: "bool \<Rightarrow> fmt_arg list \<Rightarrow> (u64 \<times> fmt_arg list) option" where
  "arg_unsigned False (A_Int v # ap) = Some (ucast v, ap)"
| "arg_unsigned True (A_Long v # ap) = Some (v, ap)"
| "arg_unsigned _ _ = None"

definition conv_d :: "u64 \<Rightarrow> int \<Rightarrow> bool \<Rightarrow> u64 \<Rightarrow> bytes \<Rightarrow> bytes option" where
  "conv_d sz width pad_zero val out =
     (if sint val < 0 then
        map_option (\<lambda>v. pad_number sz width pad_zero (tmp_digits 10 dec_chars (of_int v)) (emit sz [45] out))
          (signed_val LONG_LIMIT (- sint val))
      else Some (pad_number sz width pad_zero (tmp_digits 10 dec_chars val) out))"

definition conv_p :: "u64 \<Rightarrow> u64 \<Rightarrow> bytes \<Rightarrow> bytes" where
  "conv_p sz val out =
     (let out = (if length out + 2 < unat sz then out @ [48, 120] else out)
      in emit sz (rev (tmp_digits 16 hex_lower val)) out)"

definition conv_s :: "u64 \<Rightarrow> int \<Rightarrow> bytes option \<Rightarrow> bytes \<Rightarrow> bytes" where
  "conv_s sz width s out =
     (let s = (case s of Some s \<Rightarrow> s | None \<Rightarrow> [40, 110, 117, 108, 108, 41])
      in emit sz s (emit sz (replicate (nat (width - int (length s))) 32) out))"

text \<open>One conversion: the character \<open>c\<close> behind flags, width and length.\<close>

definition convert :: "u64 \<Rightarrow> int \<Rightarrow> bool \<Rightarrow> bool \<Rightarrow> u8 \<Rightarrow> fmt_arg list \<Rightarrow> bytes \<Rightarrow> (fmt_arg list \<times> bytes) option" where
  "convert sz width pad_zero long c ap out =
     (if c = 100 \<or> c = 105 then
        Option.bind (arg_signed long ap) (\<lambda>(val, ap). map_option (Pair ap) (conv_d sz width pad_zero val out))
      else if c = 117 then
        map_option (\<lambda>(val, ap). (ap, pad_number sz width pad_zero (tmp_digits 10 dec_chars val) out)) (arg_unsigned long ap)
      else if c = 120 then
        map_option (\<lambda>(val, ap). (ap, pad_number sz width pad_zero (tmp_digits 16 hex_lower val) out)) (arg_unsigned long ap)
      else if c = 88 then
        map_option (\<lambda>(val, ap). (ap, pad_number sz width pad_zero (tmp_digits 16 hex_upper val) out)) (arg_unsigned long ap)
      else if c = 112 then
        (case ap of A_Ptr val # ap \<Rightarrow> Some (ap, conv_p sz val out) | _ \<Rightarrow> None)
      else if c = 115 then
        (case ap of A_Str s # ap \<Rightarrow> Some (ap, conv_s sz width s out) | _ \<Rightarrow> None)
      else if c = 99 then
        (case ap of A_Int v # ap \<Rightarrow> Some (ap, emit sz [ucast v] out) | _ \<Rightarrow> None)
      else if c = 37 then Some (ap, emit sz [37] out)
      else Some (ap, emit sz [37, c] out))"

text \<open>What stands between \<^verbatim>\<open>%\<close> and the end of a conversion: zero flag, width, length, the conversion
  character and the rest of the format.\<close>

definition directive :: "bytes \<Rightarrow> (bool \<times> int \<times> bool \<times> u8 \<times> bytes) option" where
  "directive fmt =
     (let (pad_zero, fmt) = (case fmt of z # f \<Rightarrow> if z = 48 then (True, f) else (False, fmt) | [] \<Rightarrow> (False, []))
      in Option.bind (fmt_width 0 fmt) (\<lambda>(w, fmt).
           let (long, fmt) = fmt_long fmt
           in case fmt of [] \<Rightarrow> None | conv # fmt \<Rightarrow> Some (pad_zero, w, long, conv, fmt)))"

lemma fmt_width_length: "fmt_width w f = Some (w', f') \<Longrightarrow> length f' \<le> length f"
  by (induction w f rule: fmt_width.induct) (auto split: if_splits bind_splits)

lemma fmt_long_length: "fmt_long f = (l, f') \<Longrightarrow> length f' \<le> length f"
  by (auto simp: fmt_long_def split: list.splits if_splits)

lemma directive_length: "directive f = Some (z, w, l, c, f') \<Longrightarrow> length f' < length f"
  by (auto simp: directive_def split: list.splits if_splits bind_splits prod.splits dest!: fmt_width_length fmt_long_length)

function vsnprintf_internal :: "u64 \<Rightarrow> bytes \<Rightarrow> fmt_arg list \<Rightarrow> bytes \<Rightarrow> bytes option" where
  "vsnprintf_internal sz fmt ap out =
     (case fmt of
        [] \<Rightarrow> Some out
      | c # fmt \<Rightarrow>
          if \<not> length out < unat (sz - 1) then Some out
          else if c \<noteq> 37 then vsnprintf_internal sz fmt ap (out @ [c])
          else
            case directive fmt of
              None \<Rightarrow> None
            | Some (pad_zero, w, long, conv, fmt) \<Rightarrow>
                (case convert sz w pad_zero long conv ap out of
                   None \<Rightarrow> None
                 | Some (ap, out) \<Rightarrow> vsnprintf_internal sz fmt ap out))"
  by pat_completeness auto
termination
  by (relation "measure (\<lambda>(_, f, _, _). length f)") (auto dest: directive_length)

declare vsnprintf_internal.simps [simp del]

lemmas vsnprintf_steps = vsnprintf_internal.simps[of _ "[]", simplified] vsnprintf_internal.simps[of _ "c # f" for c f, simplified]


definition snprintf :: "u64 \<Rightarrow> bytes \<Rightarrow> fmt_arg list \<Rightarrow> bytes option" where
  "snprintf sz fmt ap = vsnprintf_internal sz fmt ap []"

definition sprintf :: "bytes \<Rightarrow> fmt_arg list \<Rightarrow> bytes option" where
  "sprintf fmt ap = vsnprintf_internal (- 1) fmt ap []"

section \<open>Streams\<close>

record FILE =
  fl_fd :: int
  fl_flags :: u32
  fl_err :: bool
  fl_eof :: bool

text \<open>The system calls, over a world of type \<open>'w\<close>.\<close>

record 'w Posix =
  px_open :: "bytes \<Rightarrow> u32 \<Rightarrow> 'w \<Rightarrow> int \<times> 'w"
  px_close :: "int \<Rightarrow> 'w \<Rightarrow> int \<times> 'w"
  px_read :: "int \<Rightarrow> u64 \<Rightarrow> 'w \<Rightarrow> int \<times> bytes \<times> 'w"
  px_write :: "int \<Rightarrow> bytes \<Rightarrow> 'w \<Rightarrow> int \<times> 'w"
  px_lseek :: "int \<Rightarrow> int \<Rightarrow> int \<Rightarrow> 'w \<Rightarrow> int \<times> 'w"
  px_alloc :: "'w \<Rightarrow> bool"

definition O_RDONLY :: u32 where "O_RDONLY = 0"
definition O_WRONLY :: u32 where "O_WRONLY = 1"
definition O_RDWR :: u32 where "O_RDWR = 2"
definition O_CREAT :: u32 where "O_CREAT = 0x40"
definition O_TRUNC :: u32 where "O_TRUNC = 0x200"
definition O_APPEND :: u32 where "O_APPEND = 0x400"
definition IO_READ :: u32 where "IO_READ = 1"
definition IO_WRITE :: u32 where "IO_WRITE = 2"
definition IO_APPEND :: u32 where "IO_APPEND = 4"

text \<open>Modes: \<^verbatim>\<open>r\<close> is 114, \<^verbatim>\<open>w\<close> 119, \<^verbatim>\<open>a\<close> 97, \<^verbatim>\<open>b\<close> 98, \<^verbatim>\<open>+\<close> 43.\<close>

definition fopen_mode :: "bytes \<Rightarrow> u32 option" where
  "fopen_mode mode =
     (if mode = [114] \<or> mode = [114, 98] then Some O_RDONLY
      else if mode = [119] \<or> mode = [119, 98] then Some (O_WRONLY OR O_CREAT OR O_TRUNC)
      else if mode = [97] \<or> mode = [97, 98] then Some (O_WRONLY OR O_CREAT OR O_APPEND)
      else if mode = [114, 43] \<or> mode = [114, 98, 43] \<or> mode = [114, 43, 98] then Some O_RDWR
      else if mode = [119, 43] \<or> mode = [119, 98, 43] \<or> mode = [119, 43, 98] then Some (O_RDWR OR O_CREAT OR O_TRUNC)
      else if mode = [97, 43] \<or> mode = [97, 98, 43] \<or> mode = [97, 43, 98] then Some (O_RDWR OR O_CREAT OR O_APPEND)
      else None)"

definition stream_flags :: "u32 \<Rightarrow> u32" where
  "stream_flags flags =
     (let f = 0;
          f = (if flags AND O_RDONLY \<noteq> 0 then IO_READ else f);
          f = (if flags AND O_WRONLY \<noteq> 0 then IO_WRITE else f);
          f = (if flags AND O_RDWR \<noteq> 0 then IO_READ OR IO_WRITE else f)
      in if flags AND O_APPEND \<noteq> 0 then f OR IO_APPEND else f)"

definition fopen :: "'w Posix \<Rightarrow> bytes \<Rightarrow> bytes \<Rightarrow> 'w \<Rightarrow> FILE option \<times> 'w" where
  "fopen px pathname mode w =
     (case fopen_mode mode of
        None \<Rightarrow> (None, w)
      | Some flags \<Rightarrow>
          let (fd, w) = px_open px pathname flags w in
          if fd < 0 then (None, w)
          else if \<not> px_alloc px w then (None, snd (px_close px fd w))
          else (Some \<lparr>fl_fd = fd, fl_flags = stream_flags flags, fl_err = False, fl_eof = False\<rparr>, w))"

definition fdopen :: "'w Posix \<Rightarrow> int \<Rightarrow> 'w \<Rightarrow> FILE option" where
  "fdopen px fd w = (if \<not> px_alloc px w then None
     else Some \<lparr>fl_fd = fd, fl_flags = IO_READ OR IO_WRITE, fl_err = False, fl_eof = False\<rparr>)"

definition fclose :: "'w Posix \<Rightarrow> FILE option \<Rightarrow> 'w \<Rightarrow> int \<times> 'w" where
  "fclose px stream w =
     (case stream of None \<Rightarrow> (- 1, w)
      | Some f \<Rightarrow> let (ret, w) = px_close px (fl_fd f) w in (if ret < 0 then - 1 else 0, w))"

definition fread :: "'w Posix \<Rightarrow> u64 \<Rightarrow> u64 \<Rightarrow> FILE \<Rightarrow> 'w \<Rightarrow> u64 \<times> bytes \<times> FILE \<times> 'w" where
  "fread px sz nmemb f w =
     (if sz = 0 \<or> nmemb = 0 then (0, [], f, w)
      else let (r, bs, w) = px_read px (fl_fd f) (sz * nmemb) w in
        if r < 0 then (0, [], f\<lparr>fl_err := True\<rparr>, w)
        else if r = 0 then (0, [], f\<lparr>fl_eof := True\<rparr>, w)
        else (of_int r div sz, bs, f, w))"

definition fwrite :: "'w Posix \<Rightarrow> bytes \<Rightarrow> u64 \<Rightarrow> u64 \<Rightarrow> FILE \<Rightarrow> 'w \<Rightarrow> u64 \<times> FILE \<times> 'w" where
  "fwrite px ptr sz nmemb f w =
     (if sz = 0 \<or> nmemb = 0 then (0, f, w)
      else let (r, w) = px_write px (fl_fd f) (take (unat (sz * nmemb)) ptr) w in
        if r < 0 then (0, f\<lparr>fl_err := True\<rparr>, w) else (of_int r div sz, f, w))"

definition fgetc :: "'w Posix \<Rightarrow> FILE \<Rightarrow> 'w \<Rightarrow> u8 option \<times> FILE \<times> 'w" where
  "fgetc px f w =
     (let (r, bs, w) = px_read px (fl_fd f) 1 w in
      if r \<le> 0 then (None, f\<lparr>fl_eof := (r = 0), fl_err := (r < 0)\<rparr>, w) else (Some (hd bs), f, w))"

definition fputc :: "'w Posix \<Rightarrow> u8 \<Rightarrow> FILE \<Rightarrow> 'w \<Rightarrow> u8 option \<times> FILE \<times> 'w" where
  "fputc px c f w =
     (let (r, w) = px_write px (fl_fd f) [c] w in
      if r \<le> 0 then (None, f\<lparr>fl_err := True\<rparr>, w) else (Some c, f, w))"

text \<open>The loop of \<^verbatim>\<open>fgets\<close>; \<open>k\<close> is the room left in front of the terminator.\<close>

fun fgets_loop :: "'w Posix \<Rightarrow> nat \<Rightarrow> FILE \<Rightarrow> 'w \<Rightarrow> bytes \<times> FILE \<times> 'w" where
  "fgets_loop px 0 f w = ([], f, w)"
| "fgets_loop px (Suc k) f w =
     (case fgetc px f w of
        (None, f, w) \<Rightarrow> ([], f, w)
      | (Some c, f, w) \<Rightarrow>
          if c = 10 then ([c], f, w)
          else let (cs, f, w) = fgets_loop px k f w in (c # cs, f, w))"

definition fgets :: "'w Posix \<Rightarrow> int \<Rightarrow> FILE \<Rightarrow> 'w \<Rightarrow> bytes option \<times> FILE \<times> 'w" where
  "fgets px sz f w =
     (let (s, f, w) = fgets_loop px (nat (sz - 1)) f w in (if s = [] then None else Some s, f, w))"

definition fputs :: "'w Posix \<Rightarrow> bytes \<Rightarrow> FILE \<Rightarrow> 'w \<Rightarrow> int \<times> 'w" where
  "fputs px s f w = (let (r, w) = px_write px (fl_fd f) s w in (if r < 0 then - 1 else 0, w))"

definition fseek :: "'w Posix \<Rightarrow> FILE \<Rightarrow> int \<Rightarrow> int \<Rightarrow> 'w \<Rightarrow> int \<times> FILE \<times> 'w" where
  "fseek px f offset whence w =
     (let (r, w) = px_lseek px (fl_fd f) offset whence w in
      if r < 0 then (- 1, f, w) else (0, f\<lparr>fl_eof := False\<rparr>, w))"

definition rewind :: "'w Posix \<Rightarrow> FILE \<Rightarrow> 'w \<Rightarrow> FILE \<times> 'w" where
  "rewind px f w = (let (_, f, w) = fseek px f 0 0 w in (f\<lparr>fl_err := False\<rparr>, w))"

definition clearerr :: "FILE \<Rightarrow> FILE" where
  "clearerr f = f\<lparr>fl_err := False, fl_eof := False\<rparr>"

definition printf :: "'w Posix \<Rightarrow> bytes \<Rightarrow> fmt_arg list \<Rightarrow> 'w \<Rightarrow> (nat \<times> 'w) option" where
  "printf px fmt ap w =
     map_option (\<lambda>out. (length out, if out \<noteq> [] then snd (px_write px 1 out w) else w)) (vsnprintf_internal 1024 fmt ap [])"

definition fprintf :: "'w Posix \<Rightarrow> FILE \<Rightarrow> bytes \<Rightarrow> fmt_arg list \<Rightarrow> 'w \<Rightarrow> (nat \<times> 'w) option" where
  "fprintf px f fmt ap w =
     map_option (\<lambda>out. (length out, if out \<noteq> [] then snd (px_write px (fl_fd f) out w) else w)) (vsnprintf_internal 1024 fmt ap [])"

definition puts :: "'w Posix \<Rightarrow> bytes \<Rightarrow> 'w \<Rightarrow> int \<times> 'w" where
  "puts px s w = (let (_, w) = px_write px 1 s w; (_, w) = px_write px 1 [10] w in (0, w))"

section \<open>Bounds of formatted output\<close>

lemma emit_eq: "emit sz cs out = out @ take (unat (sz - 1) - length out) cs"
proof (induction sz cs out rule: emit.induct)
  case (2 sz c cs out)
  show ?case
  proof (cases "length out < unat (sz - 1)")
    case True
    then have "unat (sz - 1) - length out = Suc (unat (sz - 1) - length (out @ [c]))" by simp
    then show ?thesis using 2 True by simp
  qed simp
qed simp










section \<open>Printed numbers\<close>

lemma digits_loop_dec: "val \<noteq> 0 \<Longrightarrow> rev (digits_loop 10 dec_chars val) = dec (unat val)"
proof (induction "10 :: u64" dec_chars val rule: digits_loop.induct)
  case (1 val)
  have m: "unat (val mod 10) = unat val mod 10" "unat (val div 10) = unat val div 10" by (simp_all add: unat_mod unat_div)
  have c: "dec_chars ! (unat val mod 10) = 48 + of_nat (unat val mod 10)" by (simp add: dec_chars_def)
  have step: "rev (digits_loop 10 dec_chars val) = rev (digits_loop 10 dec_chars (val div 10)) @ [48 + of_nat (unat val mod 10)]"
    using "1.prems" by (subst digits_loop.simps) (simp add: m c del: of_nat_unat of_nat_mod)
  show ?case
  proof (cases "val div 10 = 0")
    case True
    then have "unat val < 10" using m(2) by simp
    moreover have "digits_loop 10 dec_chars 0 = []" by (simp add: digits_loop.simps)
    ultimately show ?thesis using step True by (simp add: dec.simps[of "unat val"] del: of_nat_unat of_nat_mod)
  next
    case False
    have "unat (val div 10) \<noteq> 0" using False by (simp only: unat_eq_0 not_False_eq_True)
    then have ge: "\<not> unat val < 10" unfolding m(2) by simp
    have "rev (digits_loop 10 dec_chars (val div 10)) = dec (unat val div 10)"
      using "1.hyps"[OF _ False] "1.prems" m(2) by simp
    then show ?thesis using step ge by (simp add: dec.simps[of "unat val"] del: of_nat_unat of_nat_mod)
  qed
qed

lemma unat_neg_sint:
  assumes "sint (val :: u64) < 0"
  shows "unat (- val) = nat (- sint val)"
proof -
  have "- val = of_int (- sint val)" by simp
  then have "uint (- val) = (- sint val) mod 2 ^ 64" by (simp only: uint_word_of_int) simp
  also have "\<dots> = - sint val" using assms sint_greater_eq[of val] by (intro mod_pos_pos_trivial) simp_all
  finally show ?thesis by (simp add: unat_eq_nat_uint)
qed

lemma unat_pos_sint: "0 \<le> sint (val :: u64) \<Longrightarrow> unat val = nat (sint val)"
proof -
  assume p: "0 \<le> sint val"
  have "uint (of_int (sint val) :: u64) = sint val mod 2 ^ 64" by (simp only: uint_word_of_int) simp
  also have "\<dots> = sint val" using p sint_less[of val] by (intro mod_pos_pos_trivial) simp_all
  finally show ?thesis by (simp add: unat_eq_nat_uint)
qed

lemma tmp_digits_dec: "rev (tmp_digits 10 dec_chars val) = dec (unat val)"
  using digits_loop_dec by (cases "val = 0") (simp_all add: tmp_digits_def dec.simps[of 0])

lemma conv_d_text:
  assumes "- (2 ^ 63) < sint val"
  shows "conv_d sz 0 False val [] = Some (take (unat (sz - 1)) (dec_int (sint val)))"
proof (cases "sint val < 0")
  case True
  have "unat (of_int (- sint val) :: u64) = nat (- sint val)" using unat_neg_sint[OF True] by simp
  moreover have "signed_val LONG_LIMIT (- sint val) = Some (- sint val)"
    using assms sint_less[of val] True by (simp add: signed_val_def LONG_LIMIT_def)
  ultimately have "conv_d sz 0 False val [] = Some (emit sz (dec (nat (- sint val))) (emit sz [45] []))"
    using True by (simp only: conv_d_def if_True option.map pad_number_def tmp_digits_dec) simp
  then show ?thesis using True by (cases "unat (sz - 1)") (simp_all add: emit_eq dec_int_def)
next
  case False
  then show ?thesis using unat_pos_sint[of val] by (simp add: conv_d_def pad_number_def emit_eq dec_int_def tmp_digits_dec)
qed



section \<open>Properties\<close>



text \<open>C28: Printing and reading numbers: the text that \<^verbatim>\<open>snprintf\<close> produces for \<^verbatim>\<open>%d\<close> in a buffer of at
  least twelve bytes is read back by base-ten \<^verbatim>\<open>strtol\<close> as the same value, to its end, and by
  \<^verbatim>\<open>atoi\<close> for every value except the smallest: there \<^verbatim>\<open>atoi\<close> forms the magnitude, which is no
  \<^verbatim>\<open>int\<close>, before it applies the sign, and its arithmetic overflows.\<close>

theorem print_read_roundtrip:
  assumes "12 \<le> unat sz"
  shows "\<exists>out. snprintf sz [37, 100] [A_Int v] = Some out \<and> strtol out 10 = Some (sint v, []) \<and>
    atoi out = (if v = - 2147483648 then None else Some (sint v))"
proof -
  let ?val = "scast v :: u64"
  have rng: "- (2 ^ 31) \<le> sint v" "sint v < 2 ^ 31" using sint_greater_eq[of v] sint_less[of v] by simp_all
  have sv: "sint ?val = sint v" unfolding scast_eq sint_sbintrunc'
    using rng by (intro signed_take_bit_int_eq_self) simp_all
  have u: "unat (sz - 1) = unat sz - 1" using assms by (intro unat_pred) auto
  have "length (dec (nat (- sint v))) \<le> 10" "length (dec (nat (sint v))) \<le> 10"
    using rng by (auto intro!: dec_length)
  then have "length (dec_int (sint v)) \<le> 11" by (simp add: dec_int_def)
  then have "conv_d sz 0 False ?val [] = Some (dec_int (sint v))"
    using conv_d_text[of ?val sz] sv rng u assms by simp
  moreover have "snprintf sz [37, 100] [A_Int v] = conv_d sz 0 False ?val []"
  proof -
    have g: "0 < unat (sz - 1)" using u assms by linarith
    have "convert sz 0 False False 100 [A_Int v] [] = map_option (Pair []) (conv_d sz 0 False ?val [])" by (simp add: convert_def)
    moreover have "directive [100] = Some (False, 0, False, 100, [])" by (simp add: directive_def fmt_long_def)
    ultimately show ?thesis using g by (cases "conv_d sz 0 False ?val []") (simp_all add: snprintf_def vsnprintf_steps)
  qed
  moreover have "strtol (dec_int (sint v)) 10 = Some (sint v, [])" using strtol_dec[of "[]" "sint v"] rng by simp
  moreover have "atoi (dec_int (sint v)) = (if v = - 2147483648 then None else Some (sint v))"
  proof -
    have "sint v = sint (- 2147483648 :: u32) \<longleftrightarrow> v = - 2147483648" using signed_word_eqI[of v "- 2147483648"] by blast
    then have "sint v = - 2147483648 \<longleftrightarrow> v = - 2147483648" by simp
    then have "\<bar>sint v\<bar> < 2 ^ 31 \<longleftrightarrow> v \<noteq> - 2147483648" using rng by auto
    then show ?thesis using atoi_dec[of "[]" "sint v"] by simp
  qed
  ultimately show ?thesis by simp
qed

theorem print_read_roundtrip_witness:
  "(\<exists>out. snprintf 12 [37, 100] [A_Int (- 2147483647)] = Some out \<and> atoi out = Some (- 2147483647)) \<and>
   (\<exists>out. snprintf 12 [37, 100] [A_Int (- 2147483648)] = Some out \<and> strtol out 10 = Some (- 2147483648, []) \<and> atoi out = None)"
  using print_read_roundtrip[of 12 "- 2147483647"] print_read_roundtrip[of 12 "- 2147483648"] by auto

text \<open>Three places where the code does not do what its callers rely on: a buffer of size zero
  is written, printing the most negative \<^verbatim>\<open>long\<close> overflows, and a stream opened for
  reading carries no read flag.\<close>

lemma snprintf_zero_size: "snprintf 0 [97] [] = Some [97]"
  by (simp add: snprintf_def vsnprintf_steps unat_max)

lemma printf_long_min: "snprintf 64 [37, 108, 100] [A_Long (2 ^ 63)] = None"
proof -
  have "directive [108, 100] = Some (False, 0, True, 100, [])" by (simp add: directive_def fmt_long_def)
  then show ?thesis by (simp add: snprintf_def vsnprintf_steps convert_def conv_d_def signed_val_def LONG_LIMIT_def)
qed

lemma fopen_read_flags: "fopen_mode [114] = Some O_RDONLY \<and> stream_flags O_RDONLY AND IO_READ = 0"
  by (simp add: fopen_mode_def stream_flags_def O_RDONLY_def)

end
