(* ===== verification/SF_Libc_Malloc.thy ===== *)
theory SF_Libc_Malloc
  imports SF_Libc_String SF_Bytes
begin

text \<open>
  The allocator of the C library (\<^verbatim>\<open>recovered/libc/src/malloc.c\<close>) over a flat memory: block
  headers are read and written as the 32-bit little-endian fields of
  \<^verbatim>\<open>malloc_header_t\<close>.  The \<^verbatim>\<open>brk\<close> system call is the parameter \<open>brk\<close>, which maps the current
  and the requested program break to the new one.
\<close>

section \<open>Header fields\<close>

definition rd32 :: "mem \<Rightarrow> nat \<Rightarrow> u32" where
  "rd32 m a = word_rcat (rev (map (\<lambda>i. m (a + i)) [0..<4]))"

definition wr32 :: "nat \<Rightarrow> u32 \<Rightarrow> mem \<Rightarrow> mem" where
  "wr32 a v m = (\<lambda>x. if a \<le> x \<and> x < a + 4 then ucast (drop_bit (8 * (x - a)) v) else m x)"

definition HEADER_SIZE :: nat where "HEADER_SIZE = 16"
definition MALLOC_MAGIC :: u32 where "MALLOC_MAGIC = 0xDEADBEEF"

definition hdr_size :: "mem \<Rightarrow> nat \<Rightarrow> nat" where "hdr_size m a = unat (rd32 m a)"
definition hdr_used :: "mem \<Rightarrow> nat \<Rightarrow> u32" where "hdr_used m a = rd32 m (a + 4)"
definition hdr_magic :: "mem \<Rightarrow> nat \<Rightarrow> u32" where "hdr_magic m a = rd32 m (a + 12)"

text \<open>\<open>hp_base = 0\<close> is the null \<^verbatim>\<open>heap_base\<close> before the first allocation; \<open>hp_now\<close> is the
  program break the system has.\<close>

record Heap =
  hp_mem :: mem
  hp_base :: nat
  hp_end :: nat
  hp_brk :: nat
  hp_now :: nat

section \<open>Operations\<close>

definition sys_brk :: "(nat \<Rightarrow> nat \<Rightarrow> nat) \<Rightarrow> nat \<Rightarrow> Heap \<Rightarrow> nat \<times> Heap" where
  "sys_brk brk req h = (let b = brk (hp_now h) req in (b, h\<lparr>hp_now := b\<rparr>))"

definition ensure_heap :: "(nat \<Rightarrow> nat \<Rightarrow> nat) \<Rightarrow> Heap \<Rightarrow> Heap" where
  "ensure_heap brk h =
     (if hp_base h = 0 then
        let (b, h) = sys_brk brk 0 h;
            h = h\<lparr>hp_brk := b, hp_base := b\<rparr>;
            (b, h) = sys_brk brk (hp_base h + 0x10000) h
        in h\<lparr>hp_brk := b, hp_end := b\<rparr>
      else h)"

function malloc_find :: "mem \<Rightarrow> nat \<Rightarrow> nat \<Rightarrow> nat \<Rightarrow> nat option" where
  "malloc_find m hdr heap_end sz =
     (if hdr < heap_end then
        if hdr_used m hdr = 0 \<and> hdr_size m hdr \<ge> sz then Some hdr
        else malloc_find m (hdr + HEADER_SIZE + hdr_size m hdr) heap_end sz
      else None)"
  by pat_completeness auto
termination by (relation "measure (\<lambda>(_, a, e, _). e - a)") (auto simp: HEADER_SIZE_def)

declare malloc_find.simps [simp del]

definition align_size :: "u64 \<Rightarrow> u64" where
  "align_size sz = (let sz = (sz + 15) AND NOT 15 in if sz < 16 then 16 else sz)"

definition new_header :: "nat \<Rightarrow> u64 \<Rightarrow> mem \<Rightarrow> mem" where
  "new_header a sz m = wr32 (a + 12) MALLOC_MAGIC (wr32 (a + 8) 0 (wr32 (a + 4) 1 (wr32 a (ucast sz) m)))"

definition malloc :: "(nat \<Rightarrow> nat \<Rightarrow> nat) \<Rightarrow> u64 \<Rightarrow> Heap \<Rightarrow> nat option \<times> Heap" where
  "malloc brk sz h =
     (if sz = 0 then (None, h)
      else let sz = align_size sz; h = ensure_heap brk h in
        case malloc_find (hp_mem h) (hp_base h) (hp_end h) (unat sz) of
          Some hdr \<Rightarrow> (Some (hdr + HEADER_SIZE), h\<lparr>hp_mem := wr32 (hdr + 4) 1 (hp_mem h)\<rparr>)
        | None \<Rightarrow>
            let needed = of_nat HEADER_SIZE + sz;
                grow = hp_end h + unat needed > hp_brk h;
                expand = (needed + 0x10000 - 1) AND NOT 0xFFFF;
                (new_brk, h) = (if grow then sys_brk brk (hp_brk h + unat expand) h else (hp_brk h, h)) in
            if grow \<and> new_brk = hp_brk h then (None, h)
            else let h = h\<lparr>hp_brk := new_brk\<rparr>; hdr = hp_end h in
              (Some (hdr + HEADER_SIZE),
               h\<lparr>hp_mem := new_header hdr sz (hp_mem h), hp_end := hdr + HEADER_SIZE + unat sz\<rparr>))"

definition free :: "nat option \<Rightarrow> Heap \<Rightarrow> Heap" where
  "free ptr h =
     (case ptr of None \<Rightarrow> h
      | Some p \<Rightarrow>
          let hdr = p - HEADER_SIZE in
          if hdr_magic (hp_mem h) hdr \<noteq> MALLOC_MAGIC then h
          else let m = wr32 (hdr + 4) 0 (hp_mem h);
                   nxt = hdr + HEADER_SIZE + hdr_size m hdr in
            if nxt < hp_end h \<and> hdr_used m nxt = 0 \<and> hdr_magic m nxt = MALLOC_MAGIC
            then h\<lparr>hp_mem := wr32 hdr (rd32 m hdr + (of_nat HEADER_SIZE + rd32 m nxt)) m\<rparr>
            else h\<lparr>hp_mem := m\<rparr>)"

definition calloc :: "(nat \<Rightarrow> nat \<Rightarrow> nat) \<Rightarrow> u64 \<Rightarrow> u64 \<Rightarrow> Heap \<Rightarrow> nat option \<times> Heap" where
  "calloc brk num sz h =
     (let tot = num * sz in
      case malloc brk tot h of
        (Some p, h) \<Rightarrow> (Some p, h\<lparr>hp_mem := memset_loop (hp_mem h) p 0 tot\<rparr>)
      | (None, h) \<Rightarrow> (None, h))"

definition realloc :: "(nat \<Rightarrow> nat \<Rightarrow> nat) \<Rightarrow> nat option \<Rightarrow> u64 \<Rightarrow> Heap \<Rightarrow> nat option \<times> Heap" where
  "realloc brk ptr sz h =
     (case ptr of
        None \<Rightarrow> malloc brk sz h
      | Some p \<Rightarrow>
          if sz = 0 then (None, free ptr h)
          else let old = rd32 (hp_mem h) (p - HEADER_SIZE) in
            if ucast old \<ge> sz then (ptr, h)
            else case malloc brk sz h of
              (None, h) \<Rightarrow> (None, h)
            | (Some q, h) \<Rightarrow>
                let copy = (if ucast (rd32 (hp_mem h) (p - HEADER_SIZE)) < sz
                            then ucast (rd32 (hp_mem h) (p - HEADER_SIZE)) else sz) in
                (Some q, free ptr (h\<lparr>hp_mem := memcpy (hp_mem h) q p copy\<rparr>)))"

text \<open>\<^verbatim>\<open>strdup\<close> of \<^verbatim>\<open>string.c\<close>.\<close>

definition strdup :: "(nat \<Rightarrow> nat \<Rightarrow> nat) \<Rightarrow> nat \<Rightarrow> Heap \<Rightarrow> (nat option \<times> Heap) option" where
  "strdup brk s h =
     map_option (\<lambda>n. let len = of_nat n + 1 in
       case malloc brk len h of
         (Some d, h) \<Rightarrow> (Some d, h\<lparr>hp_mem := memcpy (hp_mem h) d s len\<rparr>)
       | (None, h) \<Rightarrow> (None, h)) (strlen (hp_mem h) s)"

section \<open>Field lemmas\<close>

lemma bit_rd32: "bit (rd32 m a) n \<longleftrightarrow> n < 32 \<and> bit (m (a + n div 8)) (n mod 8)"
proof (cases "n < 32")
  case True
  then have "n div 8 < 4" by (simp add: div_less_iff_less_mult)
  then show ?thesis using True
    bit_horner_sum_uint_exp_iff[of "map (\<lambda>i. m (a + i)) [0..<4]" n]
    by (simp add: rd32_def word_rcat_def bit_word_of_int_iff)
qed (auto dest: bit_word_lessD)

lemma rd32_cong: "(\<And>i. i < 4 \<Longrightarrow> m (a + i) = m' (a + i)) \<Longrightarrow> rd32 m a = rd32 m' a"
  unfolding rd32_def by (intro arg_cong[where f = word_rcat] arg_cong[where f = rev] map_cong) auto

lemma rd32_wr32_same [simp]: "rd32 (wr32 a v m) a = v"
proof (rule bit_eqI)
  fix n
  show "bit (rd32 (wr32 a v m) a) n \<longleftrightarrow> bit v n"
  proof (cases "n < 32")
    case True
    then have "n div 8 < 4" by (simp add: div_less_iff_less_mult)
    then show ?thesis using True by (simp add: bit_rd32 wr32_def bit_simps)
  qed (auto simp: bit_rd32 dest: bit_word_lessD)
qed

lemma rd32_wr32_other: "a + 4 \<le> b \<or> b + 4 \<le> a \<Longrightarrow> rd32 (wr32 b v m) a = rd32 m a"
  by (rule rd32_cong) (auto simp: wr32_def)

lemma wr32_outside: "x < a \<or> a + 4 \<le> x \<Longrightarrow> wr32 a v m x = m x"
  by (auto simp: wr32_def)

section \<open>The chain of blocks\<close>

text \<open>A block header is either one the allocator wrote, or one of the sixteen zero bytes the
  system hands out.\<close>

definition hdr_ok :: "mem \<Rightarrow> nat \<Rightarrow> bool" where
  "hdr_ok m a \<longleftrightarrow>
     hdr_magic m a = MALLOC_MAGIC \<and> 16 \<le> hdr_size m a \<and> hdr_size m a mod 16 = 0 \<or>
     hdr_magic m a = 0 \<and> hdr_size m a = 0 \<and> hdr_used m a = 0"

fun chain :: "mem \<Rightarrow> nat \<Rightarrow> nat list \<Rightarrow> nat \<Rightarrow> bool" where
  "chain m a [] e = (a = e)"
| "chain m a (h # hs) e = (h = a \<and> hdr_ok m h \<and> chain m (h + HEADER_SIZE + hdr_size m h) hs e)"

definition same_header :: "mem \<Rightarrow> mem \<Rightarrow> nat \<Rightarrow> bool" where
  "same_header m m' a \<longleftrightarrow> hdr_size m' a = hdr_size m a \<and> hdr_used m' a = hdr_used m a \<and> hdr_magic m' a = hdr_magic m a"

definition block :: "mem \<Rightarrow> nat \<Rightarrow> nat set" where
  "block m a = {a ..< a + HEADER_SIZE + hdr_size m a}"

lemma chain_append: "chain m a (hs @ hs') e \<longleftrightarrow> (\<exists>x. chain m a hs x \<and> chain m x hs' e)"
  by (induction hs arbitrary: a) auto

lemma chain_le: "chain m a hs e \<Longrightarrow> a \<le> e"
  by (induction hs arbitrary: a) (fastforce simp: HEADER_SIZE_def)+

lemma chain_bounds: "chain m a hs e \<Longrightarrow> h \<in> set hs \<Longrightarrow> a \<le> h \<and> h + HEADER_SIZE + hdr_size m h \<le> e"
proof (induction hs arbitrary: a)
  case (Cons x hs)
  show ?case
  proof (cases "h = x")
    case True
    then show ?thesis using Cons.prems chain_le[of m "x + HEADER_SIZE + hdr_size m x" hs e] by auto
  next
    case False
    then have "h \<in> set hs" using Cons.prems by simp
    then show ?thesis using Cons.IH[of "x + HEADER_SIZE + hdr_size m x"] Cons.prems by auto
  qed
qed simp

lemma chain_hdr_ok: "chain m a hs e \<Longrightarrow> h \<in> set hs \<Longrightarrow> hdr_ok m h"
  by (induction hs arbitrary: a) auto

lemma chain_disjoint:
  "chain m a hs e \<Longrightarrow> h \<in> set hs \<Longrightarrow> k \<in> set hs \<Longrightarrow> h \<noteq> k \<Longrightarrow>
   h + HEADER_SIZE + hdr_size m h \<le> k \<or> k + HEADER_SIZE + hdr_size m k \<le> h"
proof (induction hs arbitrary: a)
  case (Cons x hs)
  have later: "x + HEADER_SIZE + hdr_size m x \<le> y" if "y \<in> set hs" for y
    using chain_bounds[of m "x + HEADER_SIZE + hdr_size m x" hs e y] Cons.prems(1) that by auto
  show ?case using Cons.prems Cons.IH[of "x + HEADER_SIZE + hdr_size m x"] later by auto
qed simp

lemma chain_cong:
  "chain m a hs e \<Longrightarrow> (\<And>h. h \<in> set hs \<Longrightarrow> same_header m m' h) \<Longrightarrow> chain m' a hs e"
  by (induction hs arbitrary: a) (simp_all add: same_header_def hdr_ok_def)

lemma chain_distinct: "chain m a hs e \<Longrightarrow> distinct hs"
proof (induction hs arbitrary: a)
  case (Cons x hs)
  then have "x \<notin> set hs" using chain_bounds[of m "x + HEADER_SIZE + hdr_size m x" hs e x] by (auto simp: HEADER_SIZE_def)
  then show ?case using Cons by auto
qed simp

lemma chain_aligned: "chain m a hs e \<Longrightarrow> a mod 16 = 0 \<Longrightarrow> h \<in> set hs \<Longrightarrow> h mod 16 = 0"
proof (induction hs arbitrary: a)
  case (Cons x hs)
  have "hdr_size m x mod 16 = 0" using Cons.prems(1) by (auto simp: hdr_ok_def)
  then have "(x + HEADER_SIZE + hdr_size m x) mod 16 = 0" using Cons.prems(1,2) by (simp add: HEADER_SIZE_def mod_eq_0_iff_dvd)
  then show ?case using Cons by auto
qed simp

text \<open>The search visits exactly the headers of the chain.\<close>

lemma malloc_find_chain:
  "chain m a hs e \<Longrightarrow> malloc_find m a e sz = List.find (\<lambda>h. hdr_used m h = 0 \<and> hdr_size m h \<ge> sz) hs"
proof (induction hs arbitrary: a)
  case Nil
  then show ?case by (simp add: malloc_find.simps)
next
  case (Cons x hs)
  have "x < e" using chain_bounds[OF Cons.prems, of x] by (simp add: HEADER_SIZE_def)
  then show ?case using Cons by (subst malloc_find.simps) auto
qed

section \<open>Sizes\<close>

lemma unat_round:
  assumes "n < 64"
  shows "unat ((v::u64) AND NOT (mask n)) = unat v div 2 ^ n * 2 ^ n"
proof -
  have "v AND NOT (mask n) = drop_bit n v * 2 ^ n"
    unfolding push_bit_eq_mult[symmetric] by (rule bit_eqI) (auto simp: bit_simps)
  moreover have "unat (2 ^ n :: u64) = 2 ^ n"
  proof -
    have "unat (2 ^ n :: u64) = unat (of_nat (2 ^ n) :: u64)" by simp
    also have "\<dots> = 2 ^ n mod 2 ^ 64" by (simp only: unat_of_nat take_bit_eq_mod) simp
    also have "\<dots> = 2 ^ n" using assms by (intro mod_less power_strict_increasing) simp_all
    finally show ?thesis .
  qed
  moreover have "unat v div 2 ^ n * 2 ^ n < 2 ^ 64"
    using unat_less_width(4)[of v] by (simp add: order.strict_trans1[OF div_times_less_eq_dividend])
  moreover have "unat v div 2 ^ n < 18446744073709551616"
    using div_le_dividend unat_less_width(4) by (rule le_less_trans)
  ultimately show ?thesis
    by (simp add: drop_bit_eq_div unat_word_ariths unat_div)
qed

lemma unat_round16: "unat ((v::u64) AND NOT 15) = unat v div 16 * 16"
  using unat_round[of 4 v] by (simp add: mask_eq_exp_minus_1)

lemma unat_round64K: "unat ((v::u64) AND NOT 0xFFFF) = unat v div 65536 * 65536"
  using unat_round[of 16 v] by (simp add: mask_eq_exp_minus_1)

lemma align_size_ok:
  assumes "0 < unat sz" "unat sz \<le> 2 ^ 32 - 32"
  shows "unat sz \<le> unat (align_size sz)" "unat (align_size sz) mod 16 = 0" "16 \<le> unat (align_size sz)"
    "unat (align_size sz) \<le> 2 ^ 32 - 32"
proof -
  have "unat (sz + 15) = unat sz + 15" using assms(2) by (simp add: unat_word_ariths)
  then have r: "unat ((sz + 15) AND NOT 15) = (unat sz + 15) div 16 * 16" by (simp only: unat_round16)
  have "16 \<le> (unat sz + 15) div 16 * 16" using assms(1) by simp
  then have "\<not> (sz + 15) AND NOT 15 < 16" using r by (simp only: word_less_nat_alt) simp
  then have a: "unat (align_size sz) = (unat sz + 15) div 16 * 16" unfolding align_size_def Let_def using r by simp
  show "unat sz \<le> unat (align_size sz)" "unat (align_size sz) mod 16 = 0" "16 \<le> unat (align_size sz)"
    unfolding a using assms(1) by simp_all
  show "unat (align_size sz) \<le> 2 ^ 32 - 32" unfolding a using assms(2) by simp
qed

section \<open>Soundness\<close>

definition brk_ok :: "(nat \<Rightarrow> nat \<Rightarrow> nat) \<Rightarrow> bool" where
  "brk_ok brk \<longleftrightarrow> (\<forall>cur. brk cur 0 = cur) \<and> (\<forall>cur req. brk cur req = cur \<or> brk cur req = req)"

definition heap_ok :: "Heap \<Rightarrow> nat list \<Rightarrow> bool" where
  "heap_ok h hs \<longleftrightarrow> hp_base h \<noteq> 0 \<and> hp_base h mod 16 = 0 \<and> chain (hp_mem h) (hp_base h) hs (hp_end h) \<and>
     hp_end h \<le> hp_brk h \<and> hp_now h = hp_brk h"

definition live :: "Heap \<Rightarrow> nat list \<Rightarrow> nat set" where
  "live h hs = {k \<in> set hs. hdr_used (hp_mem h) k \<noteq> 0}"

lemma header_outside:
  assumes "\<And>x. k \<le> x \<Longrightarrow> x < k + 16 \<Longrightarrow> m' x = m x"
  shows "same_header m m' k"
proof -
  have "rd32 m' (k + i) = rd32 m (k + i)" if "i \<le> 12" for i using that assms by (intro rd32_cong) auto
  from this[of 0] this[of 4] this[of 12] show ?thesis
    by (simp add: same_header_def hdr_size_def hdr_used_def hdr_magic_def)
qed

lemma header_after_used:
  "hdr_size (wr32 (a + 4) v m) a = hdr_size m a" "hdr_magic (wr32 (a + 4) v m) a = hdr_magic m a"
  "hdr_used (wr32 (a + 4) v m) a = v"
  by (simp_all add: hdr_size_def hdr_magic_def hdr_used_def rd32_wr32_other)

lemma chain_set_used:
  assumes c: "chain m a hs e" and k: "k \<in> set hs" and v: "hdr_magic m k = 0 \<longrightarrow> v = 0"
  shows "chain (wr32 (k + 4) v m) a hs e" "\<forall>x\<in>set hs. x \<noteq> k \<longrightarrow> same_header m (wr32 (k + 4) v m) x"
proof -
  let ?m = "wr32 (k + 4) v m"
  have other: "same_header m ?m x" if x: "x \<in> set hs" "x \<noteq> k" for x
  proof (rule header_outside)
    fix y assume "x \<le> y" "y < x + 16"
    then show "?m y = m y" using chain_disjoint[OF c x(1) k x(2)] by (intro wr32_outside) (auto simp: HEADER_SIZE_def)
  qed
  then show "\<forall>x\<in>set hs. x \<noteq> k \<longrightarrow> same_header m ?m x" by blast
  have ok: "hdr_size ?m x = hdr_size m x \<and> (hdr_ok m x \<longrightarrow> hdr_ok ?m x)" if "x \<in> set hs" for x
  proof (cases "x = k")
    case True
    then show ?thesis using v by (auto simp: header_after_used hdr_ok_def MALLOC_MAGIC_def)
  next
    case False
    then show ?thesis using other[OF that] by (auto simp: same_header_def hdr_ok_def)
  qed
  have "chain m a' ks e \<Longrightarrow> set ks \<subseteq> set hs \<Longrightarrow> chain ?m a' ks e" for a' ks
    by (induction ks arbitrary: a') (use ok in auto)
  then show "chain ?m a hs e" using c by blast
qed

lemma new_header_fields:
  assumes "unat sz \<le> 2 ^ 32 - 32"
  shows "hdr_size (new_header a sz m) a = unat sz" "hdr_used (new_header a sz m) a = 1"
    "hdr_magic (new_header a sz m) a = MALLOC_MAGIC" "x < a \<or> a + 16 \<le> x \<Longrightarrow> new_header a sz m x = m x"
proof -
  have "unat (ucast sz :: u32) = unat sz" using assms by (simp add: unat_ucast_mod)
  then show "hdr_size (new_header a sz m) a = unat sz" by (simp add: hdr_size_def new_header_def rd32_wr32_other)
  show "hdr_used (new_header a sz m) a = 1" "hdr_magic (new_header a sz m) a = MALLOC_MAGIC"
    by (simp_all add: hdr_used_def hdr_magic_def new_header_def rd32_wr32_other)
  show "x < a \<or> a + 16 \<le> x \<Longrightarrow> new_header a sz m x = m x"
    by (auto simp: new_header_def wr32_outside)
qed

definition granted :: "Heap \<Rightarrow> nat list \<Rightarrow> u64 \<Rightarrow> nat \<Rightarrow> Heap \<Rightarrow> bool" where
  "granted h hs sz p h' \<longleftrightarrow> (\<exists>hs'. heap_ok h' hs' \<and> 16 \<le> p \<and> p mod 16 = 0 \<and>
     p - 16 \<notin> live h hs \<and> live h' hs' = insert (p - 16) (live h hs) \<and> unat sz \<le> hdr_size (hp_mem h') (p - 16) \<and>
     (\<forall>k\<in>live h hs. block (hp_mem h') k = block (hp_mem h) k \<and> block (hp_mem h') k \<inter> block (hp_mem h') (p - 16) = {}) \<and>
     (\<forall>x. x < p - 16 \<or> p \<le> x \<longrightarrow> hp_mem h' x = hp_mem h x))"

lemma grant_reuse:
  assumes h: "heap_ok h hs" and k: "k \<in> set hs" "hdr_used (hp_mem h) k = 0" "unat sz \<le> hdr_size (hp_mem h) k" "0 < unat sz"
  shows "granted h hs sz (k + 16) (h\<lparr>hp_mem := wr32 (k + 4) 1 (hp_mem h)\<rparr>)"
proof -
  let ?m = "hp_mem h" and ?m' = "wr32 (k + 4) 1 (hp_mem h)"
  have c: "chain ?m (hp_base h) hs (hp_end h)" using h by (simp add: heap_ok_def)
  have "hdr_ok ?m k" using chain_hdr_ok[OF c k(1)] .
  then have mg: "hdr_magic ?m k = MALLOC_MAGIC" using k(3,4) by (auto simp: hdr_ok_def)
  then have "hdr_magic ?m k = 0 \<longrightarrow> (1::u32) = 0" by (simp add: MALLOC_MAGIC_def)
  note u = chain_set_used[OF c k(1) this]
  show ?thesis unfolding granted_def
  proof (intro exI[of _ hs] conjI ballI allI impI)
    show "heap_ok (h\<lparr>hp_mem := ?m'\<rparr>) hs" using h u(1) by (simp add: heap_ok_def)
    show "(k + 16) mod 16 = 0" using chain_aligned[OF c _ k(1)] h by (simp add: heap_ok_def)
    show "k + 16 - 16 \<notin> live h hs" using k(2) by (simp add: live_def)
    show "live (h\<lparr>hp_mem := ?m'\<rparr>) hs = insert (k + 16 - 16) (live h hs)"
      using u(2) k(1) by (auto simp: live_def same_header_def header_after_used)
    show "unat sz \<le> hdr_size (hp_mem (h\<lparr>hp_mem := ?m'\<rparr>)) (k + 16 - 16)" using k(3) by (simp add: header_after_used)
  next
    fix x assume x: "x \<in> live h hs"
    then have xk: "x \<in> set hs" "x \<noteq> k" using k(2) by (auto simp: live_def)
    then have sx: "hdr_size ?m' x = hdr_size ?m x" using u(2) by (simp add: same_header_def)
    then show "block (hp_mem (h\<lparr>hp_mem := ?m'\<rparr>)) x = block ?m x" by (simp add: block_def)
    show "block (hp_mem (h\<lparr>hp_mem := ?m'\<rparr>)) x \<inter> block (hp_mem (h\<lparr>hp_mem := ?m'\<rparr>)) (k + 16 - 16) = {}"
      using chain_disjoint[OF u(1) xk(1) k(1) xk(2)] by (auto simp: block_def)
  next
    fix x assume "x < k + 16 - 16 \<or> k + 16 \<le> x"
    then show "hp_mem (h\<lparr>hp_mem := ?m'\<rparr>) x = ?m x" by (auto intro: wr32_outside)
  qed simp
qed

lemma grant_fresh:
  assumes h: "heap_ok h hs" and sz: "unat sz \<le> unat az" "unat az mod 16 = 0" "16 \<le> unat az" "unat az \<le> 2 ^ 32 - 32"
    and b: "hp_end h + 16 + unat az \<le> b"
  shows "granted h hs sz (hp_end h + 16) (h\<lparr>hp_brk := b, hp_now := b, hp_mem := new_header (hp_end h) az (hp_mem h),
    hp_end := hp_end h + 16 + unat az\<rparr>)"
proof -
  let ?e = "hp_end h" and ?m = "hp_mem h" and ?m' = "new_header (hp_end h) az (hp_mem h)"
  let ?h = "h\<lparr>hp_brk := b, hp_now := b, hp_mem := ?m', hp_end := ?e + 16 + unat az\<rparr>"
  have c: "chain ?m (hp_base h) hs ?e" using h by (simp add: heap_ok_def)
  note f = new_header_fields[OF sz(4), where a = ?e and m = ?m]
  have below: "k + 16 \<le> ?e" if "k \<in> set hs" for k using chain_bounds[OF c that] by (simp add: HEADER_SIZE_def)
  have same: "same_header ?m ?m' k" if "k \<in> set hs" for k
    using below[OF that] by (intro header_outside f(4)) auto
  have c': "chain ?m' (hp_base h) (hs @ [?e]) (?e + 16 + unat az)"
    using chain_cong[OF c same] f(1-3) sz by (auto simp: chain_append hdr_ok_def HEADER_SIZE_def)
  have ne: "?e \<notin> set hs" using below by fastforce
  show ?thesis unfolding granted_def
  proof (intro exI[of _ "hs @ [?e]"] conjI ballI allI impI)
    show "heap_ok ?h (hs @ [?e])" using h c' b by (simp add: heap_ok_def)
    have "?e mod 16 = 0" using chain_aligned[OF c'] h by (simp add: heap_ok_def)
    then show "(?e + 16) mod 16 = 0" by simp
    show "?e + 16 - 16 \<notin> live h hs" using ne by (simp add: live_def)
    show "live ?h (hs @ [?e]) = insert (?e + 16 - 16) (live h hs)" using f(2) same ne by (auto simp: live_def same_header_def)
    show "unat sz \<le> hdr_size (hp_mem ?h) (?e + 16 - 16)" using f(1) sz(1) by simp
  next
    fix x assume "x \<in> live h hs"
    then have x: "x \<in> set hs" by (simp add: live_def)
    then have sx: "hdr_size ?m' x = hdr_size ?m x" using same by (simp add: same_header_def)
    then show "block (hp_mem ?h) x = block ?m x" by (simp add: block_def)
    show "block (hp_mem ?h) x \<inter> block (hp_mem ?h) (?e + 16 - 16) = {}"
      using chain_bounds[OF c x] sx by (auto simp: block_def)
  next
    fix x assume "x < ?e + 16 - 16 \<or> ?e + 16 \<le> x"
    then show "hp_mem ?h x = ?m x" using f(4) by simp
  qed simp
qed

lemma malloc_sound:
  assumes h: "heap_ok h hs" and br: "brk_ok brk" and sz: "0 < unat sz" "unat sz \<le> 2 ^ 32 - 32"
  shows "(\<exists>p h'. malloc brk sz h = (Some p, h') \<and> granted h hs sz p h') \<or> malloc brk sz h = (None, h)"
proof -
  define az where "az = align_size sz"
  note al = align_size_ok[OF sz, folded az_def]
  have nz: "sz \<noteq> 0" using sz by auto
  have e: "ensure_heap brk h = h" using h by (simp add: ensure_heap_def heap_ok_def)
  have c: "chain (hp_mem h) (hp_base h) hs (hp_end h)" and now: "hp_now h = hp_brk h" and eb: "hp_end h \<le> hp_brk h"
    using h by (simp_all add: heap_ok_def)
  show ?thesis
  proof (cases "malloc_find (hp_mem h) (hp_base h) (hp_end h) (unat az)")
    case (Some k)
    then have k: "k \<in> set hs" "hdr_used (hp_mem h) k = 0" "unat az \<le> hdr_size (hp_mem h) k"
      unfolding malloc_find_chain[OF c] by (auto simp: find_Some_iff)
    have "malloc brk sz h = (Some (k + 16), h\<lparr>hp_mem := wr32 (k + 4) 1 (hp_mem h)\<rparr>)"
      using nz e Some by (simp add: malloc_def Let_def az_def[symmetric] HEADER_SIZE_def)
    moreover have "unat sz \<le> hdr_size (hp_mem h) k" using k(3) al(1) by simp
    ultimately show ?thesis using grant_reuse[OF h k(1,2) _ sz(1)] by blast
  next
    case None
    have n: "unat (of_nat HEADER_SIZE + az) = 16 + unat az" using al(4) by (simp add: HEADER_SIZE_def unat_word_ariths)
    define x where "x = (of_nat HEADER_SIZE + az + 0x10000 - 1) AND NOT (0xFFFF :: u64)"
    have "unat (of_nat HEADER_SIZE + az + 0x10000 - 1) = 16 + unat az + 65535"
    proof -
      have "of_nat HEADER_SIZE + az + 0x10000 - 1 = of_nat (16 + unat az + 65535)" by (simp add: HEADER_SIZE_def)
      then show ?thesis using al(4) by (simp only: unat_of_nat) (simp add: take_bit_nat_eq_self)
    qed
    then have x: "16 + unat az \<le> unat x" unfolding x_def unat_round64K by simp
    show ?thesis
    proof (cases "hp_end h + (16 + unat az) > hp_brk h")
      case False
      have "malloc brk sz h = (Some (hp_end h + 16), h\<lparr>hp_brk := hp_brk h, hp_mem := new_header (hp_end h) az (hp_mem h),
          hp_end := hp_end h + 16 + unat az\<rparr>)"
        using nz e None False n by (simp add: malloc_def Let_def az_def[symmetric] HEADER_SIZE_def)
      moreover have "h\<lparr>hp_brk := hp_brk h, hp_now := hp_brk h, hp_mem := m, hp_end := e\<rparr> = h\<lparr>hp_brk := hp_brk h, hp_mem := m, hp_end := e\<rparr>"
        for m e using now by (cases h) simp
      ultimately show ?thesis using grant_fresh[OF h al, of "hp_brk h"] False by auto
    next
      case True
      define b where "b = brk (hp_now h) (hp_brk h + unat x)"
      have b: "b = hp_brk h \<or> b = hp_brk h + unat x" using br now by (simp add: b_def brk_ok_def)
      show ?thesis
      proof (cases "b = hp_brk h")
        case same: True
        have "malloc brk sz h = (None, h\<lparr>hp_now := hp_brk h\<rparr>)"
          using nz e None True n same b_def x_def
          by (simp add: malloc_def Let_def az_def[symmetric] sys_brk_def HEADER_SIZE_def)
        then show ?thesis using now by (cases h) simp
      next
        case False
        have "malloc brk sz h = (Some (hp_end h + 16), h\<lparr>hp_brk := b, hp_now := b, hp_mem := new_header (hp_end h) az (hp_mem h),
            hp_end := hp_end h + 16 + unat az\<rparr>)"
          using nz e None True n False b_def x_def
          by (simp add: malloc_def Let_def az_def[symmetric] sys_brk_def HEADER_SIZE_def)
        moreover have "hp_end h + 16 + unat az \<le> b" using b False x eb by linarith
        ultimately show ?thesis using grant_fresh[OF h al] by blast
      qed
    qed
  qed
qed

lemma merge_chain:
  assumes c: "chain m a (xs @ k # n # ys) e" and mg: "hdr_magic m k = MALLOC_MAGIC" "hdr_magic m n = MALLOC_MAGIC"
    and small: "e < a + 2 ^ 32"
  defines "m' \<equiv> wr32 k (rd32 m k + (of_nat HEADER_SIZE + rd32 m n)) m"
  shows "chain m' a (xs @ k # ys) e" "\<forall>x\<in>set (xs @ ys). same_header m m' x" "hdr_used m' k = hdr_used m k"
proof -
  have nk: "n = k + HEADER_SIZE + hdr_size m k" using c by (auto simp: chain_append)
  have dis: "x + HEADER_SIZE + hdr_size m x \<le> k \<or> k + HEADER_SIZE + hdr_size m k \<le> x" if "x \<in> set (xs @ ys)" for x
  proof -
    have "x \<noteq> k" using chain_distinct[OF c] that by auto
    then show ?thesis using chain_disjoint[OF c, of x k] that by auto
  qed
  have same: "same_header m m' x" if "x \<in> set (xs @ ys)" for x
    using dis[OF that] by (intro header_outside) (auto simp: m'_def HEADER_SIZE_def intro!: wr32_outside)
  then show "\<forall>x\<in>set (xs @ ys). same_header m m' x" by blast
  have bd: "a \<le> k" "n + HEADER_SIZE + hdr_size m n \<le> e" using chain_bounds[OF c, of k] chain_bounds[OF c, of n] by auto
  have sum: "hdr_size m k + (16 + hdr_size m n) < 2 ^ 32" using bd nk small by (simp add: HEADER_SIZE_def)
  have s': "hdr_size m' k = hdr_size m k + (16 + hdr_size m n)"
    using sum by (simp add: m'_def hdr_size_def HEADER_SIZE_def unat_word_ariths)
  have u': "hdr_used m' k = hdr_used m k" "hdr_magic m' k = hdr_magic m k"
    by (simp_all add: m'_def hdr_used_def hdr_magic_def rd32_wr32_other)
  show "hdr_used m' k = hdr_used m k" by (rule u'(1))
  have ok: "hdr_ok m k" "hdr_ok m n" using chain_hdr_ok[OF c] by auto
  then have "hdr_ok m' k" using mg u' s' by (auto simp: hdr_ok_def MALLOC_MAGIC_def)
  moreover have "chain m a xs k" "chain m (n + HEADER_SIZE + hdr_size m n) ys e" using c by (auto simp: chain_append)
  then have x: "chain m' a xs k" and y: "chain m' (n + HEADER_SIZE + hdr_size m n) ys e"
    using same by (auto intro: chain_cong)
  have "k + HEADER_SIZE + hdr_size m' k = n + HEADER_SIZE + hdr_size m n"
    using s' nk by (simp add: HEADER_SIZE_def)
  then have "chain m' (k + HEADER_SIZE + hdr_size m' k) ys e" using y by (simp only:)
  ultimately show "chain m' a (xs @ k # ys) e" using x by (auto simp: chain_append)
qed

lemma free_sound:
  assumes h: "heap_ok h hs" and k: "k \<in> live h hs" and small: "hp_end h < hp_base h + 2 ^ 32"
  shows "\<exists>hs'. heap_ok (free (Some (k + 16)) h) hs' \<and> live (free (Some (k + 16)) h) hs' = live h hs - {k} \<and>
    (\<forall>x. x < k \<or> k + 8 \<le> x \<longrightarrow> hp_mem (free (Some (k + 16)) h) x = hp_mem h x)"
proof -
  let ?m = "hp_mem h" and ?m1 = "wr32 (k + 4) 0 (hp_mem h)"
  have c: "chain ?m (hp_base h) hs (hp_end h)" using h by (simp add: heap_ok_def)
  have ks: "k \<in> set hs" "hdr_used ?m k \<noteq> 0" using k by (simp_all add: live_def)
  then have mg: "hdr_magic ?m k = MALLOC_MAGIC" using chain_hdr_ok[OF c ks(1)] by (auto simp: hdr_ok_def)
  note u = chain_set_used[OF c ks(1), of 0, simplified]
  obtain xs ys where hs: "hs = xs @ k # ys" using ks(1) by (meson split_list)
  define nxt where "nxt = k + HEADER_SIZE + hdr_size ?m1 k"
  have tl: "chain ?m1 nxt ys (hp_end h)" using u(1) by (auto simp: hs chain_append nxt_def)
  have live1: "{x \<in> set hs. hdr_used ?m1 x \<noteq> 0} = live h hs - {k}"
    using u(2) by (auto simp: live_def same_header_def header_after_used)
  have m1: "?m1 x = ?m x" if "x < k \<or> k + 8 \<le> x" for x using that by (auto intro: wr32_outside)
  define join where "join \<longleftrightarrow> nxt < hp_end h \<and> hdr_used ?m1 nxt = 0 \<and> hdr_magic ?m1 nxt = MALLOC_MAGIC"
  have fr: "free (Some (k + 16)) h = h\<lparr>hp_mem := (if join then wr32 k (rd32 ?m1 k + (of_nat HEADER_SIZE + rd32 ?m1 nxt)) ?m1 else ?m1)\<rparr>"
    using mg unfolding free_def join_def nxt_def by (simp add: Let_def HEADER_SIZE_def)
  show ?thesis
  proof (cases join)
    case False
    then have f: "free (Some (k + 16)) h = h\<lparr>hp_mem := ?m1\<rparr>" using fr by simp
    show ?thesis unfolding f
      using h u(1) live1 m1 by (intro exI[of _ hs]) (simp add: heap_ok_def live_def)
  next
    case True
    let ?m2 = "wr32 k (rd32 ?m1 k + (of_nat HEADER_SIZE + rd32 ?m1 nxt)) ?m1"
    have f: "free (Some (k + 16)) h = h\<lparr>hp_mem := ?m2\<rparr>" using fr True by simp
    obtain zs where ys: "ys = nxt # zs" using tl True by (cases ys) (auto simp: join_def)
    have c1: "chain ?m1 (hp_base h) (xs @ k # nxt # zs) (hp_end h)" using u(1) hs ys by simp
    have mk: "hdr_magic ?m1 k = MALLOC_MAGIC" "hdr_magic ?m1 nxt = MALLOC_MAGIC"
      using mg True by (simp_all add: join_def header_after_used)
    note g = merge_chain[OF c1 mk small]
    have "hdr_used ?m2 k = 0" using g(3) by (simp add: header_after_used)
    moreover have "hdr_used ?m1 nxt = 0" using True by (simp add: join_def)
    ultimately have "live (h\<lparr>hp_mem := ?m2\<rparr>) (xs @ k # zs) = live h hs - {k}"
      using g(2) live1 by (auto simp: live_def same_header_def hs ys)
    moreover have "?m2 x = ?m x" if "x < k \<or> k + 8 \<le> x" for x
      using m1[OF that] that wr32_outside[of x k _ ?m1] by auto
    ultimately show ?thesis unfolding f
      using h g(1) by (intro exI[of _ "xs @ k # zs"]) (simp add: heap_ok_def)
  qed
qed

section \<open>The first allocation\<close>

text \<open>Before the first call the variables are null, the break is aligned and the system hands out
  zero bytes above it.\<close>

definition heap_unset :: "Heap \<Rightarrow> bool" where
  "heap_unset h \<longleftrightarrow> hp_base h = 0 \<and> 0 < hp_now h \<and> hp_now h mod 16 = 0 \<and>
     (\<forall>x. hp_now h \<le> x \<and> x < hp_now h + 0x10000 \<longrightarrow> hp_mem h x = 0)"

definition heap_ready :: "Heap \<Rightarrow> nat list \<Rightarrow> bool" where
  "heap_ready h hs \<longleftrightarrow> heap_ok h hs \<or> heap_unset h \<and> hs = []"

lemma zero_header:
  assumes "\<And>x. a \<le> x \<Longrightarrow> x < a + 16 \<Longrightarrow> m x = 0"
  shows "hdr_size m a = 0" "hdr_used m a = 0" "hdr_magic m a = 0"
proof -
  have "rd32 m (a + i) = 0" if "i \<le> 12" for i
  proof (rule bit_eqI)
    fix n
    show "bit (rd32 m (a + i)) n \<longleftrightarrow> bit (0 :: u32) n"
      using assms[of "a + i + n div 8"] that by (cases "n < 32") (auto simp: bit_rd32 div_less_iff_less_mult)
  qed
  from this[of 0] this[of 4] this[of 12]
  show "hdr_size m a = 0" "hdr_used m a = 0" "hdr_magic m a = 0" by (simp_all add: hdr_size_def hdr_used_def hdr_magic_def)
qed

lemma zero_chain:
  assumes "\<And>x. a \<le> x \<Longrightarrow> x < a + 16 * n \<Longrightarrow> m x = 0"
  shows "\<exists>hs. chain m a hs (a + 16 * n) \<and> (\<forall>k\<in>set hs. hdr_used m k = 0)"
  using assms
proof (induction n arbitrary: a)
  case 0
  show ?case by (intro exI[of _ "[]"]) simp
next
  case (Suc n)
  have z: "hdr_size m a = 0" "hdr_used m a = 0" "hdr_magic m a = 0" using Suc.prems by (auto intro!: zero_header)
  obtain hs where "chain m (a + 16) hs (a + 16 + 16 * n)" "\<forall>k\<in>set hs. hdr_used m k = 0"
    using Suc.IH[of "a + 16"] Suc.prems by auto
  then show ?case using z by (intro exI[of _ "a # hs"]) (simp add: hdr_ok_def HEADER_SIZE_def add.assoc)
qed

lemma ensure_heap_unset:
  assumes u: "heap_unset h" and br: "brk_ok brk"
  shows "\<exists>hs. heap_ok (ensure_heap brk h) hs \<and> live (ensure_heap brk h) hs = {}" "hp_mem (ensure_heap brk h) = hp_mem h"
    "ensure_heap brk (ensure_heap brk h) = ensure_heap brk h"
proof -
  let ?b = "hp_now h"
  define e where "e = brk ?b (?b + 0x10000)"
  have z: "brk ?b 0 = ?b" "e = ?b \<or> e = ?b + 0x10000" using br by (auto simp: brk_ok_def e_def)
  have h: "hp_base h = 0" "0 < ?b" "?b mod 16 = 0" using u by (simp_all add: heap_unset_def)
  have ens: "ensure_heap brk h = h\<lparr>hp_now := e, hp_base := ?b, hp_brk := e, hp_end := e\<rparr>"
    using h(1) z(1) by (simp add: ensure_heap_def sys_brk_def Let_def e_def)
  show "hp_mem (ensure_heap brk h) = hp_mem h" by (simp add: ens)
  show "ensure_heap brk (ensure_heap brk h) = ensure_heap brk h" using h(2) unfolding ens by (simp add: ensure_heap_def)
  show "\<exists>hs. heap_ok (ensure_heap brk h) hs \<and> live (ensure_heap brk h) hs = {}"
  proof (cases "e = ?b")
    case True
    then show ?thesis using h by (intro exI[of _ "[]"]) (simp add: ens heap_ok_def live_def)
  next
    case False
    obtain hs where "chain (hp_mem h) ?b hs (?b + 16 * 4096)" "\<forall>k\<in>set hs. hdr_used (hp_mem h) k = 0"
      using zero_chain[of ?b 4096 "hp_mem h"] u by (auto simp: heap_unset_def)
    then show ?thesis using False z(2) h by (intro exI[of _ hs]) (simp add: ens heap_ok_def live_def)
  qed
qed

definition refused :: "Heap \<Rightarrow> nat list \<Rightarrow> Heap \<Rightarrow> bool" where
  "refused h hs h' \<longleftrightarrow> hp_mem h' = hp_mem h \<and> (\<exists>hs'. heap_ok h' hs' \<and> live h' hs' = live h hs)"

lemma malloc_ready:
  assumes h: "heap_ready h hs" and br: "brk_ok brk" and sz: "0 < unat sz" "unat sz \<le> 2 ^ 32 - 32"
  shows "case malloc brk sz h of (Some p, h') \<Rightarrow> granted h hs sz p h' | (None, h') \<Rightarrow> refused h hs h'"
proof (cases "heap_ok h hs")
  case True
  then show ?thesis using malloc_sound[OF True br sz] by (auto simp: refused_def)
next
  case False
  then have u: "heap_unset h" "hs = []" using h by (auto simp: heap_ready_def)
  note e = ensure_heap_unset[OF u(1) br]
  obtain hs0 where hs0: "heap_ok (ensure_heap brk h) hs0" "live (ensure_heap brk h) hs0 = {}" using e(1) by blast
  have l: "live h hs = {}" using u(2) by (simp add: live_def)
  have "sz \<noteq> 0" using sz(1) by auto
  then have m: "malloc brk sz h = malloc brk sz (ensure_heap brk h)" using e(3) by (simp add: malloc_def)
  have "granted (ensure_heap brk h) hs0 sz p h' = granted h hs sz p h'" for p h'
    unfolding granted_def hs0(2) l e(2) by simp
  then show ?thesis using malloc_sound[OF hs0(1) br sz] hs0 e(2) l unfolding m by (auto simp: refused_def)
qed

section \<open>Properties\<close>

text \<open>C26: The allocator is sound for requests of 1 to \<open>2^32 - 32\<close> bytes on a heap of less than 4 GiB, over
  a \<^verbatim>\<open>brk\<close> that grants the requested break or keeps the old one.  From the first call on,
  \<^verbatim>\<open>malloc\<close> either fails, leaving memory and the live blocks as they were, or returns a 16-byte
  aligned block of at least the requested size that no live block overlaps, writing nothing but
  its header; the heap stays well formed and exactly that block becomes live.  Freeing a live
  block makes exactly it available again, merging it with a free successor, and leaves every
  other byte alone.\<close>

theorem allocator_sound:
  assumes "heap_ready h hs" "brk_ok brk" "0 < unat sz" "unat sz \<le> 2 ^ 32 - 32" "hp_end h < hp_base h + 2 ^ 32"
  shows "(case malloc brk sz h of (Some p, h') \<Rightarrow> granted h hs sz p h' | (None, h') \<Rightarrow> refused h hs h') \<and>
    (\<forall>k\<in>live h hs. \<exists>hs'. heap_ok (free (Some (k + 16)) h) hs' \<and> live (free (Some (k + 16)) h) hs' = live h hs - {k} \<and>
      (\<forall>x. x < k \<or> k + 8 \<le> x \<longrightarrow> hp_mem (free (Some (k + 16)) h) x = hp_mem h x))"
proof -
  have "heap_ok h hs" if "k \<in> live h hs" for k using that assms(1) by (auto simp: heap_ready_def live_def)
  then show ?thesis using malloc_ready[OF assms(1-4)] free_sound[OF _ _ assms(5)] by blast
qed

definition demo_heap :: Heap where
  "demo_heap = \<lparr>hp_mem = (\<lambda>_. 0), hp_base = 0x1000, hp_end = 0x1000, hp_brk = 0x1000, hp_now = 0x1000\<rparr>"

definition demo_brk :: "nat \<Rightarrow> nat \<Rightarrow> nat" where
  "demo_brk cur req = (if req = 0 \<or> req > 0x100000 then cur else req)"

lemma demo_malloc:
  "\<exists>h. malloc demo_brk 100 demo_heap = (Some 0x1010, h) \<and> hp_base h = 0x1000 \<and> hp_end h = 0x1080"
proof -
  have "align_size 100 = 112" by (simp add: align_size_def)
  then show ?thesis
    by (simp add: malloc_def Let_def ensure_heap_def demo_heap_def malloc_find.simps sys_brk_def demo_brk_def HEADER_SIZE_def)
qed

text \<open>A first block is granted and then freed.\<close>

theorem allocator_sound_witness:
  "\<exists>h hs hs'. malloc demo_brk 100 demo_heap = (Some 0x1010, h) \<and> live h hs = {0x1000} \<and>
     heap_ok (free (Some 0x1010) h) hs' \<and> live (free (Some 0x1010) h) hs' = {}"
proof -
  have ok: "heap_ready demo_heap []" "brk_ok demo_brk" "hp_end demo_heap < hp_base demo_heap + 2 ^ 32"
    by (simp_all add: heap_ready_def heap_ok_def demo_heap_def brk_ok_def demo_brk_def)
  obtain h where h: "malloc demo_brk 100 demo_heap = (Some 0x1010, h)" "hp_base h = 0x1000" "hp_end h = 0x1080" using demo_malloc by blast
  have "granted demo_heap [] 100 0x1010 h"
    using conjunct1[OF allocator_sound[OF ok(1,2) _ _ ok(3), of 100]] h(1) by simp
  then obtain hs where hs: "heap_ok h hs" "live h hs = {0x1000}" by (auto simp: granted_def live_def)
  then have "heap_ready h hs" by (simp add: heap_ready_def)
  moreover have "hp_end h < hp_base h + 2 ^ 32" using h by simp
  ultimately have "\<forall>k\<in>live h hs. \<exists>hs'. heap_ok (free (Some (k + 16)) h) hs' \<and> live (free (Some (k + 16)) h) hs' = live h hs - {k}"
    using conjunct2[OF allocator_sound[OF _ ok(2), of h hs 100]] by auto
  then show ?thesis using h(1) hs(2) by auto
qed

text \<open>Requests within sixteen bytes of the top of \<^verbatim>\<open>size_t\<close> wrap to the smallest block.\<close>

lemma malloc_wraps:
  assumes "2 ^ 64 - 15 \<le> unat sz"
  shows "malloc brk sz h = malloc brk 16 h"
proof -
  define d where "d = unat sz - 18446744073709551601"
  have a: "18446744073709551601 \<le> unat sz" using assms by simp
  have b: "unat sz < 18446744073709551616" by (rule unat_less_width)
  have d: "unat sz = 18446744073709551601 + d" "d < 15" using a b unfolding d_def by linarith+
  have "sz + 15 = of_nat (unat sz + 15)" by simp
  also have "unat sz + 15 = 2 ^ 64 + d" using d by simp
  also have "(of_nat (2 ^ 64 + d) :: u64) = of_nat d" by simp
  finally have "sz + 15 = of_nat d" .
  then have "unat (sz + 15) = d" using d(2) by (simp only: unat_of_nat) (simp add: take_bit_nat_eq_self)
  then have "unat ((sz + 15) AND NOT 15) = 0" using d(2) by (simp only: unat_round16) simp
  then have "align_size sz = 16" by (simp add: align_size_def unat_eq_0)
  moreover have "align_size 16 = 16" by (simp add: align_size_def)
  moreover have "sz \<noteq> 0" using assms by auto
  ultimately show ?thesis by (simp add: malloc_def)
qed

end
