(* ===== verification/SF_Stack.thy ===== *)
theory SF_Stack
  imports SF_Bytes SF_Checksum "HOL-Library.Monad_Syntax"
begin

text \<open>
  The state of the recovered network stack (\<^verbatim>\<open>recovered/net\<close>), its byte-order and checksum
  helpers, socket tables and receive buffers (\<^verbatim>\<open>socket.c\<close>, \<^verbatim>\<open>net_utils.c\<close>).  A socket pointer
  is its index in the table; addresses and ports in network byte order are the words the
  little-endian machine holds, converted by \<^verbatim>\<open>htonl\<close> and \<^verbatim>\<open>htons\<close>.  \<open>None\<close> as the result of a
  state transformer is undefined behaviour: a read or write outside an object.  The time
  of day is the field \<open>nt_ms\<close>; the environment decides allocations and what happens while
  the code waits.
\<close>

section \<open>Byte order\<close>

definition htons :: "u16 \<Rightarrow> u16" where
  "htons v = push_bit 8 (v AND 0xFF) OR (drop_bit 8 v AND 0xFF)"

definition htonl :: "u32 \<Rightarrow> u32" where
  "htonl v = push_bit 24 (v AND 0xFF) OR push_bit 16 (drop_bit 8 v AND 0xFF) OR
     push_bit 8 (drop_bit 16 v AND 0xFF) OR (drop_bit 24 v AND 0xFF)"

section \<open>Checksums\<close>

text \<open>The sum of the first \<open>k\<close> little-endian 16-bit words.\<close>

definition sum_words :: "bytes \<Rightarrow> nat \<Rightarrow> u32 \<Rightarrow> u32" where
  "sum_words p k s = fold (\<lambda>i s. s + ucast (rd_le16 p (2 * i))) [0..<k] s"

definition compute_checksum :: "bytes \<Rightarrow> u16" where
  "compute_checksum data =
     (let s = sum_words data (length data div 2) 0
      in fold_sum (if odd (length data) then s + ucast (data ! (length data - 1)) else s))"

definition compute_ip_checksum :: "bytes \<Rightarrow> u16" where
  "compute_ip_checksum hdr = fold_sum (sum_words hdr (unat ((hdr ! 0 AND 0x0F) * 4) div 2) 0)"

text \<open>The checksum of a transport segment with its pseudo header; the addresses are in host
  byte order.\<close>

definition transport_checksum :: "u16 \<Rightarrow> u32 \<Rightarrow> u32 \<Rightarrow> bytes \<Rightarrow> u16" where
  "transport_checksum proto src_ip dst_ip seg =
     (let s = drop_bit 16 src_ip + (src_ip AND 0xFFFF) + drop_bit 16 dst_ip + (dst_ip AND 0xFFFF) +
              ucast (htons proto) + ucast (htons (of_nat (length seg)));
          s = sum_words seg (length seg div 2) s
      in fold_sum (if odd (length seg) then s + push_bit 8 (ucast (seg ! (length seg - 1))) else s))"

definition compute_tcp_checksum :: "u32 \<Rightarrow> u32 \<Rightarrow> bytes \<Rightarrow> u16" where
  "compute_tcp_checksum = transport_checksum 6"

definition compute_udp_checksum :: "u32 \<Rightarrow> u32 \<Rightarrow> bytes \<Rightarrow> u16" where
  "compute_udp_checksum = transport_checksum 17"

section \<open>Sockets\<close>

datatype tcp_state = TCP_CLOSED | TCP_LISTEN | TCP_SYN_SENT | TCP_SYN_RECEIVED | TCP_ESTABLISHED
  | TCP_FIN_WAIT_1 | TCP_FIN_WAIT_2 | TCP_CLOSING | TCP_TIME_WAIT | TCP_CLOSE_WAIT | TCP_LAST_ACK

datatype congestion = Slow_Start | Congestion_Avoid | Fast_Recovery

record Tcp_Seg =
  sg_seq :: u32
  sg_len :: u32
  sg_data :: bytes
  sg_send_time :: u64
  sg_retries :: u8

record Socket =
  sk_fd :: int
  sk_domain :: int
  sk_type :: int
  sk_protocol :: int
  sk_state :: tcp_state
  sk_flags :: u32
  sk_local_ip :: u32
  sk_local_port :: u16
  sk_remote_ip :: u32
  sk_remote_port :: u16
  sk_seq_num :: u32
  sk_ack_num :: u32
  sk_remote_seq :: u32
  sk_cwnd :: u32
  sk_ssthresh :: u32
  sk_rto :: u32
  sk_srtt :: u32
  sk_rttvar :: u32
  sk_retransmit_timer :: u64
  sk_dup_ack_count :: u32
  sk_bytes_in_flight :: u32
  sk_last_ack_sent :: u32
  sk_congestion_state :: congestion
  sk_time_wait_expire :: u64
  sk_retransmit_count :: u32
  sk_unacked :: "Tcp_Seg list"
  sk_rx_buf :: "bytes option"
  sk_rx_read_pos :: u32
  sk_rx_write_pos :: u32
  sk_rx_count :: u32
  sk_rx_size :: u32
  sk_tx_buf :: "bytes option"
  sk_tx_read_pos :: u32
  sk_tx_write_pos :: u32
  sk_tx_count :: u32
  sk_tx_size :: u32
  sk_listen_parent :: "nat option"
  sk_pending :: "nat list"
  sk_blocking_pid :: int
  sk_peer_pid :: u32
  sk_peer_uid :: u32
  sk_peer_gid :: u32

definition zero_socket :: Socket where
  "zero_socket = \<lparr>sk_fd = 0, sk_domain = 0, sk_type = 0, sk_protocol = 0, sk_state = TCP_CLOSED, sk_flags = 0,
     sk_local_ip = 0, sk_local_port = 0, sk_remote_ip = 0, sk_remote_port = 0, sk_seq_num = 0, sk_ack_num = 0,
     sk_remote_seq = 0, sk_cwnd = 0, sk_ssthresh = 0, sk_rto = 0, sk_srtt = 0, sk_rttvar = 0,
     sk_retransmit_timer = 0, sk_dup_ack_count = 0, sk_bytes_in_flight = 0, sk_last_ack_sent = 0,
     sk_congestion_state = Slow_Start, sk_time_wait_expire = 0, sk_retransmit_count = 0, sk_unacked = [],
     sk_rx_buf = None, sk_rx_read_pos = 0, sk_rx_write_pos = 0, sk_rx_count = 0, sk_rx_size = 0,
     sk_tx_buf = None, sk_tx_read_pos = 0, sk_tx_write_pos = 0, sk_tx_count = 0, sk_tx_size = 0,
     sk_listen_parent = None, sk_pending = [], sk_blocking_pid = 0,
     sk_peer_pid = 0, sk_peer_uid = 0, sk_peer_gid = 0\<rparr>"

definition NET_MAX_SOCKETS :: nat where "NET_MAX_SOCKETS = 256"
definition NET_RX_BUF_SIZE :: nat where "NET_RX_BUF_SIZE = 4096"
definition NET_TX_BUF_SIZE :: nat where "NET_TX_BUF_SIZE = 4096"
definition NET_TCP_WINDOW :: u32 where "NET_TCP_WINDOW = 65535"
definition NET_TCP_MSS :: u32 where "NET_TCP_MSS = 1460"
definition NET_TCP_BACKLOG :: nat where "NET_TCP_BACKLOG = 16"
definition INADDR_LOOPBACK :: u32 where "INADDR_LOOPBACK = 0x7F000001"
definition AF_UNIX :: int where "AF_UNIX = 1"
definition AF_INET :: int where "AF_INET = 2"
definition SOCK_STREAM :: int where "SOCK_STREAM = 1"
definition SOCK_DGRAM :: int where "SOCK_DGRAM = 2"
definition IP_PROTO_TCP :: int where "IP_PROTO_TCP = 6"
definition IP_PROTO_UDP :: int where "IP_PROTO_UDP = 17"

record Arp_Entry =
  ar_ip :: u32
  ar_mac :: bytes
  ar_expire :: u64

record Ping =
  pg_dst_ip :: u32
  pg_id :: u16
  pg_seq :: u16
  pg_send_time :: u64
  pg_active :: bool
  pg_timeout :: bool
  pg_rtt :: u32

text \<open>An open file as the network code reads it: whether it has an inode and the inode is a
  socket, the integer in \<^verbatim>\<open>inode->fs_data\<close> and the socket pointer.\<close>

record File =
  fl_inode :: bool
  fl_is_socket :: bool
  fl_fs_data :: int
  fl_socket :: "nat option"

text \<open>\<open>nt_fds\<close> is the current descriptor table, \<open>nt_wire\<close> the frames handed to the network
  card, \<open>nt_allocs\<close> the number of calls of the allocator so far.\<close>

record Net =
  nt_sockets :: "nat \<Rightarrow> Socket"
  nt_used :: "nat \<Rightarrow> bool"
  nt_next_port :: u16
  nt_initial_seq :: u32
  nt_local_ip :: u32
  nt_gateway_ip :: u32
  nt_netmask :: u32
  nt_mac :: bytes
  nt_hw :: bool
  nt_arp :: "nat \<Rightarrow> Arp_Entry"
  nt_ping :: "nat \<Rightarrow> Ping"
  nt_ms :: u64
  nt_fds :: "nat \<Rightarrow> File option"
  nt_wire :: "bytes list"
  nt_allocs :: nat

text \<open>Code that is not part of the sources: the kernel allocator, which returns the contents of
  a fresh block or fails; what interrupt handlers do to the state during \<^verbatim>\<open>hal_io_wait\<close>; and
  the local (AF_UNIX) sockets.\<close>

record Env =
  ev_kmalloc :: "Net \<Rightarrow> nat \<Rightarrow> bytes option"
  ev_wait :: "Net \<Rightarrow> Net"
  ev_unix_socket :: "int \<Rightarrow> int \<Rightarrow> Net \<Rightarrow> int \<times> Net"
  ev_unix_bind :: "int \<Rightarrow> bytes \<Rightarrow> Net \<Rightarrow> int \<times> Net"
  ev_unix_listen :: "int \<Rightarrow> int \<Rightarrow> Net \<Rightarrow> int \<times> Net"
  ev_unix_accept :: "int \<Rightarrow> Net \<Rightarrow> int \<times> Net"
  ev_unix_connect :: "int \<Rightarrow> bytes option \<Rightarrow> Net \<Rightarrow> int \<times> Net"
  ev_unix_send :: "int \<Rightarrow> bytes \<Rightarrow> int list \<Rightarrow> Net \<Rightarrow> int \<times> Net"
  ev_unix_recv :: "int \<Rightarrow> nat \<Rightarrow> nat option \<Rightarrow> Net \<Rightarrow> int \<times> bytes \<times> int list \<times> Net"
  ev_unix_close :: "int \<Rightarrow> Net \<Rightarrow> int \<times> Net"

definition kmalloc :: "Env \<Rightarrow> nat \<Rightarrow> Net \<Rightarrow> bytes option \<times> Net" where
  "kmalloc env sz n = (ev_kmalloc env n sz, n\<lparr>nt_allocs := Suc (nt_allocs n)\<rparr>)"

definition upd_socket :: "nat \<Rightarrow> (Socket \<Rightarrow> Socket) \<Rightarrow> Net \<Rightarrow> Net" where
  "upd_socket i f n = n\<lparr>nt_sockets := (nt_sockets n)(i := f (nt_sockets n i))\<rparr>"

definition net_random :: "Net \<Rightarrow> u32" where
  "net_random n = ucast (drop_bit 16 (nt_ms n * 1103515245 + 12345) AND 0x7FFFFFFF)"

section \<open>Socket table\<close>

definition VFS_MAX_FD :: nat where "VFS_MAX_FD = 32"

definition vfs_get_socket :: "Net \<Rightarrow> int \<Rightarrow> nat option" where
  "vfs_get_socket n fd =
     (if fd < 0 \<or> fd \<ge> int VFS_MAX_FD then None
      else case nt_fds n (nat fd) of
        None \<Rightarrow> None
      | Some f \<Rightarrow> if fl_inode f \<and> fl_is_socket f then fl_socket f else None)"

definition vfs_alloc_fd :: "Net \<Rightarrow> int" where
  "vfs_alloc_fd n = (case find (\<lambda>i. nt_fds n i = None) [3..<VFS_MAX_FD] of Some i \<Rightarrow> int i | None \<Rightarrow> -1)"

text \<open>The socket gets an inode (416 bytes) and a file object (64 bytes).\<close>

definition vfs_register_socket :: "Env \<Rightarrow> nat \<Rightarrow> Net \<Rightarrow> int \<times> Net" where
  "vfs_register_socket env i n =
     (let fd = vfs_alloc_fd n
      in if fd < 0 then (-24, n)
      else case kmalloc env 416 n of
        (None, n) \<Rightarrow> (-12, n)
      | (Some _, n) \<Rightarrow>
         (case kmalloc env 64 n of
            (None, n) \<Rightarrow> (-12, n)
          | (Some _, n) \<Rightarrow>
             (fd, upd_socket i (\<lambda>s. s\<lparr>sk_fd := fd\<rparr>)
                (n\<lparr>nt_fds := (nt_fds n)(nat fd \<mapsto> \<lparr>fl_inode = True, fl_is_socket = True,
                     fl_fs_data = sk_fd (nt_sockets n i), fl_socket = Some i\<rparr>)\<rparr>))))"

definition net_get_socket :: "Net \<Rightarrow> int \<Rightarrow> nat option" where
  "net_get_socket n fd =
     (case vfs_get_socket n fd of
        Some i \<Rightarrow> Some i
      | None \<Rightarrow> if fd < 0 \<or> fd \<ge> int NET_MAX_SOCKETS then None
               else if \<not> nt_used n (nat fd) then None else Some (nat fd))"

definition net_alloc_socket_slot :: "Net \<Rightarrow> nat option \<times> Net" where
  "net_alloc_socket_slot n =
     (case first_index (\<lambda>i. \<not> nt_used n i) NET_MAX_SOCKETS of
        Some i \<Rightarrow> (Some i, n\<lparr>nt_used := (nt_used n)(i := True)\<rparr>)
      | None \<Rightarrow> (None, n))"

definition drop_pending :: "nat \<Rightarrow> Socket \<Rightarrow> Socket" where
  "drop_pending i p = p\<lparr>sk_pending := remove1 i (sk_pending p)\<rparr>"

definition net_free_socket_slot :: "nat \<Rightarrow> Net \<Rightarrow> Net" where
  "net_free_socket_slot i n =
     (if i \<ge> NET_MAX_SOCKETS then n
      else let n = (case sk_listen_parent (nt_sockets n i) of
                      Some p \<Rightarrow> upd_socket p (drop_pending i) n
                    | None \<Rightarrow> n)
        in n\<lparr>nt_sockets := (nt_sockets n)(i := zero_socket), nt_used := (nt_used n)(i := False)\<rparr>)"

definition net_find_socket_by_port :: "Net \<Rightarrow> u16 \<Rightarrow> u32 \<Rightarrow> nat option" where
  "net_find_socket_by_port n port ip = first_index (\<lambda>i. let s = nt_sockets n i in
     nt_used n i \<and> sk_local_port s = port \<and> (sk_local_ip s = 0 \<or> sk_local_ip s = ip)) NET_MAX_SOCKETS"

definition net_find_listening_socket :: "Net \<Rightarrow> u16 \<Rightarrow> nat option" where
  "net_find_listening_socket n port = first_index (\<lambda>i. let s = nt_sockets n i in
     nt_used n i \<and> sk_type s = SOCK_STREAM \<and> sk_state s = TCP_LISTEN \<and> sk_local_port s = port) NET_MAX_SOCKETS"

definition net_find_tcp_socket :: "Net \<Rightarrow> u32 \<Rightarrow> u16 \<Rightarrow> u32 \<Rightarrow> u16 \<Rightarrow> nat option" where
  "net_find_tcp_socket n lip lport rip rport = first_index (\<lambda>i. let s = nt_sockets n i in
     nt_used n i \<and> sk_type s = SOCK_STREAM \<and> sk_local_port s = lport \<and>
     (sk_local_ip s = 0 \<or> sk_local_ip s = lip) \<and> sk_remote_port s = rport \<and> sk_remote_ip s = rip) NET_MAX_SOCKETS"

definition net_find_udp_socket :: "Net \<Rightarrow> u16 \<Rightarrow> u32 \<Rightarrow> nat option" where
  "net_find_udp_socket n port ip = first_index (\<lambda>i. let s = nt_sockets n i in
     nt_used n i \<and> sk_type s = SOCK_DGRAM \<and> sk_local_port s = port \<and>
     (sk_local_ip s = 0 \<or> sk_local_ip s = ip)) NET_MAX_SOCKETS"

section \<open>Receive buffer\<close>

text \<open>The copy loop of a circular buffer.\<close>

fun ring_write :: "u32 \<Rightarrow> bytes \<Rightarrow> bytes \<times> u32 \<Rightarrow> bytes \<times> u32" where
  "ring_write sz [] (buf, pos) = (buf, pos)"
| "ring_write sz (b # bs) (buf, pos) = ring_write sz bs (buf[unat pos := b], (pos + 1) mod sz)"

fun ring_read :: "u32 \<Rightarrow> nat \<Rightarrow> bytes \<Rightarrow> u32 \<Rightarrow> bytes \<times> u32" where
  "ring_read sz 0 buf pos = ([], pos)"
| "ring_read sz (Suc k) buf pos = (let (bs, p) = ring_read sz k buf ((pos + 1) mod sz) in (buf ! unat pos # bs, p))"

text \<open>\<open>data\<close> are the bytes that are there, \<open>len\<close> how many the caller asks to write.\<close>

definition net_rx_buffer_write :: "bytes \<Rightarrow> u64 \<Rightarrow> Socket \<Rightarrow> Socket option" where
  "net_rx_buffer_write data len s =
     (case sk_rx_buf s of
        None \<Rightarrow> Some s
      | Some buf \<Rightarrow>
          if len = 0 then Some s
          else let avail = ucast (sk_rx_size s - sk_rx_count s);
                   to_write = (if len < avail then len else avail);
                   (buf', pos) = ring_write (sk_rx_size s) (take (unat to_write) data) (buf, sk_rx_write_pos s)
            in if unat to_write > length data then None
               else Some (s\<lparr>sk_rx_buf := Some buf', sk_rx_write_pos := pos,
                            sk_rx_count := sk_rx_count s + ucast to_write\<rparr>))"

definition net_rx_buffer_read :: "u64 \<Rightarrow> Socket \<Rightarrow> bytes \<times> Socket" where
  "net_rx_buffer_read len s =
     (case sk_rx_buf s of
        None \<Rightarrow> ([], s)
      | Some buf \<Rightarrow>
          if sk_rx_count s = 0 then ([], s)
          else let to_read = (if len < ucast (sk_rx_count s) then len else ucast (sk_rx_count s));
                   (bs, pos) = ring_read (sk_rx_size s) (unat to_read) buf (sk_rx_read_pos s)
            in (bs, s\<lparr>sk_rx_read_pos := pos, sk_rx_count := sk_rx_count s - ucast to_read\<rparr>))"

section \<open>Ports\<close>

definition port_in_use :: "Net \<Rightarrow> u16 \<Rightarrow> bool" where
  "port_in_use n p \<longleftrightarrow> list_ex (\<lambda>i. nt_used n i \<and> sk_local_port (nt_sockets n i) = p) [0..<NET_MAX_SOCKETS]"

text \<open>A 16-bit port is never greater than 65535: the counter wraps to zero instead.\<close>

fun alloc_port_loop :: "nat \<Rightarrow> Net \<Rightarrow> u16 \<times> Net" where
  "alloc_port_loop 0 n = (0, n)"
| "alloc_port_loop (Suc k) n =
     (let candidate = nt_next_port n;
          nxt = nt_next_port n + 1;
          nxt = (if unat nxt > 65535 then 49152 else nxt);
          n = n\<lparr>nt_next_port := nxt\<rparr>
      in if \<not> port_in_use n candidate then (candidate, n) else alloc_port_loop k n)"

definition net_alloc_port :: "Net \<Rightarrow> u16 \<times> Net" where
  "net_alloc_port n = alloc_port_loop 16384 n"

definition net_configure_ip :: "u32 \<Rightarrow> u32 \<Rightarrow> u32 \<Rightarrow> Net \<Rightarrow> Net" where
  "net_configure_ip ip gateway netmask n = n\<lparr>nt_local_ip := ip, nt_gateway_ip := gateway, nt_netmask := netmask\<rparr>"

end
