(* ===== verification/SF_Stack_Proto.thy ===== *)
theory SF_Stack_Proto
  imports SF_Stack
begin

text \<open>
  The protocols of the recovered network stack: \<^verbatim>\<open>arp.c\<close>, \<^verbatim>\<open>tcp.c\<close>, \<^verbatim>\<open>udp.c\<close>, \<^verbatim>\<open>icmp.c\<close>,
  \<^verbatim>\<open>ip.c\<close> and \<^verbatim>\<open>eth.c\<close>.  Sending to a loopback address calls the receive path of the same
  stack, which may send again; a handler therefore takes the function that sends an IP
  packet as a parameter \<open>tx\<close>, and \<open>net_send_eth\<close> ties the knot with the depth of nested
  calls as fuel, \<open>None\<close> at depth zero being an exhausted kernel stack.  Printing is left out.
\<close>

section \<open>ARP\<close>

definition zero_arp :: Arp_Entry where "zero_arp = \<lparr>ar_ip = 0, ar_mac = replicate 6 0, ar_expire = 0\<rparr>"

definition net_arp_init :: "Net \<Rightarrow> Net" where
  "net_arp_init n = n\<lparr>nt_arp := (\<lambda>_. zero_arp)\<rparr>"

definition arp_slot :: "u32 \<Rightarrow> Net \<Rightarrow> nat" where
  "arp_slot ip n =
     (case first_index (\<lambda>i. ar_ip (nt_arp n i) = ip) 16 of
        Some i \<Rightarrow> i
      | None \<Rightarrow>
         (case first_index (\<lambda>i. ar_ip (nt_arp n i) = 0 \<or> ar_expire (nt_arp n i) \<le> nt_ms n) 16 of
            Some i \<Rightarrow> i
          | None \<Rightarrow> 0))"

definition arp_cache_insert :: "u32 \<Rightarrow> bytes \<Rightarrow> Net \<Rightarrow> Net" where
  "arp_cache_insert ip mac n =
     n\<lparr>nt_arp := (nt_arp n)(arp_slot ip n := \<lparr>ar_ip = ip, ar_mac = mac, ar_expire = nt_ms n + 60000\<rparr>)\<rparr>"

definition arp_cache_lookup :: "u32 \<Rightarrow> Net \<Rightarrow> bytes option" where
  "arp_cache_lookup ip n =
     map_option (\<lambda>i. ar_mac (nt_arp n i))
       (first_index (\<lambda>i. ar_ip (nt_arp n i) = ip \<and> ar_expire (nt_arp n i) > nt_ms n) 16)"

definition rtl8139_send :: "bytes \<Rightarrow> Net \<Rightarrow> Net" where
  "rtl8139_send frame n = n\<lparr>nt_wire := nt_wire n @ [frame]\<rparr>"

definition arp_frame :: "bytes \<Rightarrow> u16 \<Rightarrow> bytes \<Rightarrow> u32 \<Rightarrow> Net \<Rightarrow> bytes" where
  "arp_frame dst oper tha tpa n =
     dst @ nt_mac n @ le16 (htons 0x0806) @
     le16 (htons 1) @ le16 (htons 0x0800) @ [6, 4] @ le16 (htons oper) @
     nt_mac n @ le32 (nt_local_ip n) @ tha @ le32 tpa"

definition arp_send_request :: "u32 \<Rightarrow> Net \<Rightarrow> Net" where
  "arp_send_request target_ip n =
     rtl8139_send (arp_frame (replicate 6 0xFF) 1 (replicate 6 0) target_ip n) n"

definition arp_send_reply :: "u32 \<Rightarrow> bytes \<Rightarrow> Net \<Rightarrow> Net" where
  "arp_send_reply target_ip target_mac n =
     rtl8139_send (arp_frame target_mac 2 target_mac target_ip n) n"

definition net_arp_rx :: "bytes \<Rightarrow> Net \<Rightarrow> Net" where
  "net_arp_rx data n =
     (if length data < 28 then n
      else if htons (rd_le16 data 0) \<noteq> 1 \<or> htons (rd_le16 data 2) \<noteq> 0x0800 then n
      else if data ! 4 \<noteq> 6 \<or> data ! 5 \<noteq> 4 then n
      else let oper = htons (rd_le16 data 6);
               sha = segment 8 6 data; spa = rd_le32 data 14; tpa = rd_le32 data 24
        in if oper = 2 then (if tpa = nt_local_ip n then arp_cache_insert spa sha n else n)
           else if oper = 1 then
             (if tpa = nt_local_ip n then arp_send_reply spa sha (arp_cache_insert spa sha n) else n)
           else n)"

text \<open>The wait for a reply ends when the clock passes the deadline or the cache has an entry.\<close>

partial_function (option) arp_wait :: "Env \<Rightarrow> u64 \<Rightarrow> u32 \<Rightarrow> Net \<Rightarrow> (bytes option \<times> Net) option" where
  "arp_wait env deadline ip n =
     (if nt_ms n < deadline then
        (let n' = ev_wait env n
         in case arp_cache_lookup ip n' of
              Some mac \<Rightarrow> Some (Some mac, n')
            | None \<Rightarrow> arp_wait env deadline ip n')
      else Some (None, n))"

definition net_arp_resolve :: "Env \<Rightarrow> u32 \<Rightarrow> Net \<Rightarrow> (bytes option \<times> Net) option" where
  "net_arp_resolve env ip n =
     (case arp_cache_lookup ip n of
        Some mac \<Rightarrow> Some (Some mac, n)
      | None \<Rightarrow> let n = arp_send_request ip n in arp_wait env (nt_ms n + 1000) ip n)"

section \<open>IP headers\<close>

text \<open>The header every sender fills in: no options, don't fragment, TTL 64; \<open>src\<close> and \<open>dst\<close> in
  network byte order.\<close>

definition ip_header :: "Net \<Rightarrow> u8 \<Rightarrow> nat \<Rightarrow> u32 \<Rightarrow> u32 \<Rightarrow> bytes" where
  "ip_header n proto total_len src dst =
     (let h = [0x45, 0] @ le16 (htons (of_nat total_len)) @
              le16 (htons (ucast (net_random n AND 0xFFFF))) @ le16 (htons 0x4000) @
              [64, proto, 0, 0] @ le32 src @ le32 dst
      in put_at 10 (le16 (compute_ip_checksum h)) h)"

section \<open>TCP\<close>

type_synonym tx = "bytes \<Rightarrow> u32 \<Rightarrow> Net \<Rightarrow> Net option"

definition TCP_FIN :: u8 where "TCP_FIN = 0x01"
definition TCP_SYN :: u8 where "TCP_SYN = 0x02"
definition TCP_RST :: u8 where "TCP_RST = 0x04"
definition TCP_PSH :: u8 where "TCP_PSH = 0x08"
definition TCP_ACK :: u8 where "TCP_ACK = 0x10"
definition TCP_RTO_MIN :: u32 where "TCP_RTO_MIN = 200"
definition TCP_RTO_MAX :: u32 where "TCP_RTO_MAX = 60000"
definition TCP_RTO_INIT :: u32 where "TCP_RTO_INIT = 1000"
definition TCP_TIMEWAIT_MS :: u64 where "TCP_TIMEWAIT_MS = 60000"
definition TCP_MAX_RETRIES :: u32 where "TCP_MAX_RETRIES = 5"

definition has_flag :: "u8 \<Rightarrow> u8 \<Rightarrow> bool" where
  "has_flag flags f \<longleftrightarrow> flags AND f \<noteq> 0"

definition tcp_advertised_window :: "Socket \<Rightarrow> u16" where
  "tcp_advertised_window s =
     (let avail = sk_rx_size s - sk_rx_count s in ucast (if avail > 65535 then 65535 else avail))"

definition tcp_unacked_add :: "Env \<Rightarrow> nat \<Rightarrow> u32 \<Rightarrow> bytes \<Rightarrow> Net \<Rightarrow> Net" where
  "tcp_unacked_add env i sq data n =
     (case kmalloc env 40 n of
        (None, n) \<Rightarrow> n
      | (Some _, n) \<Rightarrow>
         (case kmalloc env (length data) n of
            (None, n) \<Rightarrow> n
          | (Some _, n) \<Rightarrow> upd_socket i (\<lambda>s. s\<lparr>sk_unacked := sk_unacked s @
               [\<lparr>sg_seq = sq, sg_len = of_nat (length data), sg_data = data, sg_send_time = nt_ms n,
                 sg_retries = 0\<rparr>]\<rparr>) n))"

definition tcp_unacked_ack :: "u32 \<Rightarrow> Socket \<Rightarrow> Socket" where
  "tcp_unacked_ack ack s = s\<lparr>sk_unacked := dropWhile (\<lambda>g. sg_seq g + sg_len g \<le> ack) (sk_unacked s)\<rparr>"

definition tcp_unacked_free :: "Socket \<Rightarrow> Socket" where
  "tcp_unacked_free s = s\<lparr>sk_unacked := []\<rparr>"

definition tcp_clamp_rto :: "u32 \<Rightarrow> u32" where
  "tcp_clamp_rto r = (let r = (if r < TCP_RTO_MIN then TCP_RTO_MIN else r)
     in if r > TCP_RTO_MAX then TCP_RTO_MAX else r)"

text \<open>The difference is computed in \<^verbatim>\<open>int\<close>; its overflow is undefined.\<close>

definition tcp_update_rtt :: "u32 \<Rightarrow> Socket \<Rightarrow> Socket option" where
  "tcp_update_rtt rtt s =
     (if sk_srtt s = 0 then
        Some (let v = rtt div 2 in s\<lparr>sk_srtt := rtt, sk_rttvar := v, sk_rto := tcp_clamp_rto (rtt + 4 * v)\<rparr>)
      else let diff = \<bar>sint (sk_srtt s) - sint rtt\<bar>
        in if diff \<ge> 2 ^ 31 then None
           else let v = (3 * sk_rttvar s + of_int diff) div 4;
                    m = (7 * sk_srtt s + rtt) div 8
             in Some (s\<lparr>sk_srtt := m, sk_rttvar := v, sk_rto := tcp_clamp_rto (m + 4 * v)\<rparr>))"

definition tcp_recalc_in_flight :: "Socket \<Rightarrow> Socket" where
  "tcp_recalc_in_flight s = s\<lparr>sk_bytes_in_flight := fold (\<lambda>g t. t + sg_len g) (sk_unacked s) 0\<rparr>"

definition tcp_segment :: "Socket \<Rightarrow> u8 \<Rightarrow> bytes \<Rightarrow> bytes" where
  "tcp_segment s flags data =
     (let seg = le16 (htons (sk_local_port s)) @ le16 (htons (sk_remote_port s)) @
                le32 (htonl (sk_seq_num s)) @ le32 (htonl (sk_ack_num s)) @ [0x50, flags] @
                le16 (htons (tcp_advertised_window s)) @ [0, 0, 0, 0] @ data;
          src = (if sk_local_ip s \<noteq> 0 then sk_local_ip s else INADDR_LOOPBACK)
      in put_at 16 (le16 (compute_tcp_checksum src (sk_remote_ip s) seg)) seg)"

definition tcp_packet :: "Net \<Rightarrow> Socket \<Rightarrow> u8 \<Rightarrow> bytes \<Rightarrow> bytes" where
  "tcp_packet n s flags data =
     ip_header n 6 (40 + length data)
       (htonl (if sk_local_ip s \<noteq> 0 then sk_local_ip s else INADDR_LOOPBACK)) (htonl (sk_remote_ip s)) @
     tcp_segment s flags data"

text \<open>What a send does to the socket besides remembering the segment.\<close>

definition tcp_sent :: "u64 \<Rightarrow> u8 \<Rightarrow> nat \<Rightarrow> Socket \<Rightarrow> Socket" where
  "tcp_sent ms flags len s =
     s\<lparr>sk_retransmit_timer := (if sk_unacked s \<noteq> [] \<and> sk_retransmit_timer s = 0
                                then ms + ucast (sk_rto s) else sk_retransmit_timer s),
       sk_seq_num := sk_seq_num s + (if has_flag flags TCP_SYN then 1 else 0) +
                     (if has_flag flags TCP_FIN then 1 else 0) + of_nat len,
       sk_last_ack_sent := sk_ack_num s\<rparr>"

text \<open>The packet is built in an array of 4096 bytes.\<close>

definition net_tcp_send_packet :: "Env \<Rightarrow> tx \<Rightarrow> nat \<Rightarrow> u8 \<Rightarrow> bytes \<Rightarrow> Net \<Rightarrow> Net option" where
  "net_tcp_send_packet env tx i flags data n =
     (if 40 + length data > NET_TX_BUF_SIZE then None
      else let s = nt_sockets n i;
               n' = (if data \<noteq> [] \<and> has_flag flags TCP_ACK
                     then upd_socket i (\<lambda>s. s\<lparr>sk_bytes_in_flight := sk_bytes_in_flight s + of_nat (length data)\<rparr>)
                            (tcp_unacked_add env i (sk_seq_num s) data n)
                     else n)
        in tx (tcp_packet n s flags data) (htonl (sk_remote_ip s))
              (upd_socket i (tcp_sent (nt_ms n) flags (length data)) n'))"

subsection \<open>Segments that match no connection\<close>

record Seg_In =
  in_dst_ip :: u32
  in_dst_port :: u16
  in_src_ip :: u32
  in_src_port :: u16
  in_seq :: u32
  in_ack :: u32
  in_flags :: u8

text \<open>The reply is built from a socket on the stack.\<close>

definition rst_socket :: "Seg_In \<Rightarrow> Socket" where
  "rst_socket g = zero_socket\<lparr>sk_local_ip := in_dst_ip g, sk_local_port := in_dst_port g,
     sk_remote_ip := in_src_ip g, sk_remote_port := in_src_port g, sk_seq_num := 0, sk_ack_num := in_ack g\<rparr>"

definition tcp_send_rst :: "tx \<Rightarrow> Seg_In \<Rightarrow> Net \<Rightarrow> Net option" where
  "tcp_send_rst tx g n =
     tx (tcp_packet n (rst_socket g) (TCP_RST OR TCP_ACK) []) (htonl (in_src_ip g)) n"

definition child_socket :: "nat \<Rightarrow> nat \<Rightarrow> Seg_In \<Rightarrow> u32 \<Rightarrow> bytes option \<Rightarrow> bytes option \<Rightarrow> Socket \<Rightarrow> Socket" where
  "child_socket child_fd parent g isn rx tb c = c\<lparr>
     sk_fd := int child_fd, sk_domain := AF_INET, sk_type := SOCK_STREAM, sk_protocol := 0,
     sk_state := TCP_SYN_RECEIVED, sk_flags := 0,
     sk_local_ip := in_dst_ip g, sk_local_port := in_dst_port g,
     sk_remote_ip := in_src_ip g, sk_remote_port := in_src_port g,
     sk_seq_num := isn, sk_ack_num := in_seq g + 1, sk_remote_seq := in_seq g + 1,
     sk_cwnd := NET_TCP_MSS, sk_ssthresh := NET_TCP_WINDOW, sk_rto := TCP_RTO_INIT, sk_srtt := 0, sk_rttvar := 0,
     sk_retransmit_timer := 0, sk_dup_ack_count := 0, sk_bytes_in_flight := 0, sk_last_ack_sent := in_seq g + 1,
     sk_congestion_state := Slow_Start, sk_time_wait_expire := 0, sk_retransmit_count := 0, sk_unacked := [],
     sk_rx_buf := rx, sk_rx_size := of_nat NET_RX_BUF_SIZE, sk_rx_read_pos := 0, sk_rx_write_pos := 0, sk_rx_count := 0,
     sk_tx_buf := tb, sk_tx_size := of_nat NET_TX_BUF_SIZE, sk_tx_read_pos := 0, sk_tx_write_pos := 0, sk_tx_count := 0,
     sk_listen_parent := Some parent, sk_blocking_pid := -1\<rparr>"

text \<open>The child is looked up again by its slot number, as a descriptor first.\<close>

definition tcp_rx_syn :: "Env \<Rightarrow> tx \<Rightarrow> nat \<Rightarrow> Seg_In \<Rightarrow> Net \<Rightarrow> Net option" where
  "tcp_rx_syn env tx p g n =
     (if length (sk_pending (nt_sockets n p)) \<ge> NET_TCP_BACKLOG then Some n
      else case net_alloc_socket_slot n of
        (None, n) \<Rightarrow> Some n
      | (Some child_fd, n) \<Rightarrow>
         (case net_get_socket n (int child_fd) of
            None \<Rightarrow> Some n
          | Some c \<Rightarrow>
             (let isn = nt_initial_seq n + net_random n;
                  (rx, n) = kmalloc env NET_RX_BUF_SIZE n;
                  (tb, n) = kmalloc env NET_TX_BUF_SIZE n;
                  n = upd_socket c (child_socket child_fd p g isn rx tb) n
              in if rx = None \<or> tb = None then Some (net_free_socket_slot child_fd n)
                 else net_tcp_send_packet env tx c (TCP_SYN OR TCP_ACK) []
                        (upd_socket p (\<lambda>s. s\<lparr>sk_pending := sk_pending s @ [c]\<rparr>) n))))"

definition tcp_rx_unmatched :: "Env \<Rightarrow> tx \<Rightarrow> Seg_In \<Rightarrow> Net \<Rightarrow> Net option" where
  "tcp_rx_unmatched env tx g n =
     (case net_find_listening_socket n (in_dst_port g) of
        None \<Rightarrow> tcp_send_rst tx g n
      | Some p \<Rightarrow> if has_flag (in_flags g) TCP_SYN then tcp_rx_syn env tx p g n else Some n)"

subsection \<open>Acknowledgements\<close>

definition tcp_congestion :: "u32 \<Rightarrow> u32 \<Rightarrow> Socket \<Rightarrow> Socket" where
  "tcp_congestion ack acked_bytes s =
     (case sk_congestion_state s of
        Slow_Start \<Rightarrow>
          (let cwnd = sk_cwnd s + acked_bytes
           in s\<lparr>sk_cwnd := cwnd, sk_congestion_state := (if cwnd \<ge> sk_ssthresh s then Congestion_Avoid else Slow_Start)\<rparr>)
      | Congestion_Avoid \<Rightarrow>
          (if sk_cwnd s > 0 then s\<lparr>sk_cwnd := sk_cwnd s + (NET_TCP_MSS * NET_TCP_MSS) div sk_cwnd s\<rparr> else s)
      | Fast_Recovery \<Rightarrow>
          (let s = s\<lparr>sk_cwnd := sk_cwnd s + acked_bytes\<rparr>
           in if sk_bytes_in_flight s = 0 \<or> ack \<ge> sk_ssthresh s
              then s\<lparr>sk_congestion_state := Congestion_Avoid, sk_cwnd := sk_ssthresh s\<rparr> else s))"

definition tcp_new_ack :: "u64 \<Rightarrow> u32 \<Rightarrow> Socket \<Rightarrow> Socket option" where
  "tcp_new_ack ms ack s = do {
     let prev_in_flight = sk_bytes_in_flight s;
     s \<leftarrow> (case sk_unacked s of
              [] \<Rightarrow> Some s
            | g # _ \<Rightarrow> if ack \<ge> sg_seq g + sg_len g then tcp_update_rtt (ucast (ms - sg_send_time g)) s else Some s);
     let s = tcp_recalc_in_flight (tcp_unacked_ack ack s);
     let s = tcp_congestion ack (prev_in_flight - sk_bytes_in_flight s) s;
     Some (s\<lparr>sk_dup_ack_count := 0,
             sk_retransmit_timer := (if sk_unacked s \<noteq> [] then ms + ucast (sk_rto s) else 0)\<rparr>)
   }"

definition half_window :: "u32 \<Rightarrow> u32" where
  "half_window cwnd = (if cwnd div 2 > 2 * NET_TCP_MSS then cwnd div 2 else 2 * NET_TCP_MSS)"

definition tcp_fast_retransmit :: "Socket \<Rightarrow> Socket" where
  "tcp_fast_retransmit s = s\<lparr>sk_ssthresh := half_window (sk_cwnd s),
     sk_cwnd := half_window (sk_cwnd s) + 3 * NET_TCP_MSS, sk_congestion_state := Fast_Recovery\<rparr>"

definition tcp_dup_ack :: "Env \<Rightarrow> tx \<Rightarrow> nat \<Rightarrow> Net \<Rightarrow> Net option" where
  "tcp_dup_ack env tx i n =
     (let n = upd_socket i (\<lambda>s. s\<lparr>sk_dup_ack_count := sk_dup_ack_count s + 1\<rparr>) n;
          s = nt_sockets n i
      in if sk_congestion_state s = Fast_Recovery
         then Some (upd_socket i (\<lambda>s. s\<lparr>sk_cwnd := sk_cwnd s + NET_TCP_MSS\<rparr>) n)
         else if sk_dup_ack_count s \<ge> 3 then
           (let n = upd_socket i tcp_fast_retransmit n
            in case sk_unacked s of
                 [] \<Rightarrow> Some n
               | g # _ \<Rightarrow>
                   map_option (upd_socket i (\<lambda>t. t\<lparr>sk_seq_num := sk_seq_num s\<rparr>))
                     (net_tcp_send_packet env tx i (TCP_PSH OR TCP_ACK) (sg_data g)
                        (upd_socket i (\<lambda>t. t\<lparr>sk_seq_num := sg_seq g\<rparr>) n)))
         else Some n)"

definition tcp_rx_ack :: "Env \<Rightarrow> tx \<Rightarrow> nat \<Rightarrow> u32 \<Rightarrow> Net \<Rightarrow> Net option" where
  "tcp_rx_ack env tx i ack n =
     (let s = nt_sockets n i
      in if ack > sk_last_ack_sent s \<or> (sk_unacked s \<noteq> [] \<and> ack > sg_seq (hd (sk_unacked s)))
         then map_option (\<lambda>s'. upd_socket i (\<lambda>_. s') n) (tcp_new_ack (nt_ms n) ack s)
         else if ack = sk_last_ack_sent s then tcp_dup_ack env tx i n
         else Some n)"

subsection \<open>Data and connection states\<close>

definition tcp_send_ack :: "Env \<Rightarrow> tx \<Rightarrow> nat \<Rightarrow> Net \<Rightarrow> Net option" where
  "tcp_send_ack env tx i n = net_tcp_send_packet env tx i TCP_ACK [] n"

definition set_tcp_state :: "nat \<Rightarrow> tcp_state \<Rightarrow> Net \<Rightarrow> Net" where
  "set_tcp_state i st = upd_socket i (\<lambda>s. s\<lparr>sk_state := st\<rparr>)"

definition expect_seq :: "nat \<Rightarrow> u32 \<Rightarrow> Net \<Rightarrow> Net" where
  "expect_seq i sq = upd_socket i (\<lambda>s. s\<lparr>sk_ack_num := sq, sk_remote_seq := sq\<rparr>)"

definition ack_seq :: "nat \<Rightarrow> u32 \<Rightarrow> Net \<Rightarrow> Net" where
  "ack_seq i sq = upd_socket i (\<lambda>s. s\<lparr>sk_ack_num := sq\<rparr>)"

text \<open>\<open>payload\<close> are the bytes behind the header, \<open>len\<close> the length the code computes.\<close>

definition tcp_deliver :: "Env \<Rightarrow> tx \<Rightarrow> nat \<Rightarrow> u32 \<Rightarrow> bytes \<Rightarrow> u64 \<Rightarrow> Net \<Rightarrow> Net option" where
  "tcp_deliver env tx i sq payload len n = do {
     s \<leftarrow> net_rx_buffer_write payload len (nt_sockets n i);
     tcp_send_ack env tx i (expect_seq i (sq + ucast len) (upd_socket i (\<lambda>_. s) n))
   }"

definition tcp_rx_data :: "Env \<Rightarrow> tx \<Rightarrow> nat \<Rightarrow> u32 \<Rightarrow> bytes \<Rightarrow> u64 \<Rightarrow> Net \<Rightarrow> Net option" where
  "tcp_rx_data env tx i sq payload len n =
     (if len > 0 then
        (let expected = sk_remote_seq (nt_sockets n i)
         in if sq = expected then tcp_deliver env tx i sq payload len n
            else if sq > expected then tcp_send_ack env tx i n
            else Some n)
      else Some n)"

definition tcp_time_wait :: "nat \<Rightarrow> Net \<Rightarrow> Net" where
  "tcp_time_wait i n = upd_socket i (\<lambda>s. s\<lparr>sk_state := TCP_TIME_WAIT,
     sk_time_wait_expire := nt_ms n + TCP_TIMEWAIT_MS\<rparr>) n"

definition tcp_rx_syn_sent :: "Env \<Rightarrow> tx \<Rightarrow> nat \<Rightarrow> Seg_In \<Rightarrow> Net \<Rightarrow> Net option" where
  "tcp_rx_syn_sent env tx i g n =
     (if has_flag (in_flags g) TCP_SYN \<and> has_flag (in_flags g) TCP_ACK then
        map_option (upd_socket i (\<lambda>s. s\<lparr>sk_state := TCP_ESTABLISHED, sk_cwnd := NET_TCP_MSS,
            sk_ssthresh := NET_TCP_WINDOW, sk_rto := TCP_RTO_INIT, sk_srtt := 0, sk_rttvar := 0,
            sk_congestion_state := Slow_Start\<rparr>))
          (tcp_send_ack env tx i (expect_seq i (in_seq g + 1) n))
      else if has_flag (in_flags g) TCP_RST then Some (set_tcp_state i TCP_CLOSED n)
      else Some n)"

definition tcp_rx_established :: "Env \<Rightarrow> tx \<Rightarrow> nat \<Rightarrow> Seg_In \<Rightarrow> bytes \<Rightarrow> u64 \<Rightarrow> Net \<Rightarrow> Net option" where
  "tcp_rx_established env tx i g payload len n =
     (if has_flag (in_flags g) TCP_RST
      then Some (upd_socket i (\<lambda>s. tcp_unacked_free (s\<lparr>sk_state := TCP_CLOSED\<rparr>)) n)
      else do {
        n \<leftarrow> (if has_flag (in_flags g) TCP_ACK then tcp_rx_ack env tx i (in_ack g) n else Some n);
        n \<leftarrow> tcp_rx_data env tx i (in_seq g) payload len n;
        (if has_flag (in_flags g) TCP_FIN
         then map_option (set_tcp_state i TCP_CLOSE_WAIT) (tcp_send_ack env tx i (expect_seq i (in_seq g + 1) n))
         else Some n)
      })"

definition tcp_rx_fin_wait_1 :: "Env \<Rightarrow> tx \<Rightarrow> nat \<Rightarrow> Seg_In \<Rightarrow> Net \<Rightarrow> Net option" where
  "tcp_rx_fin_wait_1 env tx i g n =
     (if has_flag (in_flags g) TCP_ACK then
        (if has_flag (in_flags g) TCP_FIN
         then map_option (tcp_time_wait i) (tcp_send_ack env tx i (ack_seq i (in_seq g + 1) n))
         else Some (set_tcp_state i TCP_FIN_WAIT_2 n))
      else if has_flag (in_flags g) TCP_FIN
      then map_option (set_tcp_state i TCP_CLOSING) (tcp_send_ack env tx i (ack_seq i (in_seq g + 1) n))
      else Some n)"

definition tcp_rx_fin_wait_2 :: "Env \<Rightarrow> tx \<Rightarrow> nat \<Rightarrow> Seg_In \<Rightarrow> bytes \<Rightarrow> u64 \<Rightarrow> Net \<Rightarrow> Net option" where
  "tcp_rx_fin_wait_2 env tx i g payload len n = do {
     n \<leftarrow> (if has_flag (in_flags g) TCP_FIN
           then map_option (tcp_time_wait i) (tcp_send_ack env tx i (ack_seq i (in_seq g + 1) n))
           else Some n);
     (if len > 0 then tcp_deliver env tx i (in_seq g) payload len n else Some n)
   }"

definition tcp_rx_state :: "Env \<Rightarrow> tx \<Rightarrow> nat \<Rightarrow> Seg_In \<Rightarrow> bytes \<Rightarrow> u64 \<Rightarrow> Net \<Rightarrow> Net option" where
  "tcp_rx_state env tx i g payload len n =
     (case sk_state (nt_sockets n i) of
        TCP_SYN_SENT \<Rightarrow> tcp_rx_syn_sent env tx i g n
      | TCP_SYN_RECEIVED \<Rightarrow>
          Some (if has_flag (in_flags g) TCP_ACK then set_tcp_state i TCP_ESTABLISHED n
                else if has_flag (in_flags g) TCP_RST then set_tcp_state i TCP_CLOSED n else n)
      | TCP_ESTABLISHED \<Rightarrow> tcp_rx_established env tx i g payload len n
      | TCP_FIN_WAIT_1 \<Rightarrow> tcp_rx_fin_wait_1 env tx i g n
      | TCP_FIN_WAIT_2 \<Rightarrow> tcp_rx_fin_wait_2 env tx i g payload len n
      | TCP_CLOSING \<Rightarrow>
          Some (upd_socket i (\<lambda>s. s\<lparr>sk_time_wait_expire := nt_ms n + TCP_TIMEWAIT_MS\<rparr>)
                 (if has_flag (in_flags g) TCP_ACK then set_tcp_state i TCP_TIME_WAIT n else n))
      | TCP_CLOSE_WAIT \<Rightarrow> if has_flag (in_flags g) TCP_FIN then tcp_send_ack env tx i n else Some n
      | TCP_LAST_ACK \<Rightarrow>
          Some (if has_flag (in_flags g) TCP_ACK
                then upd_socket i (\<lambda>s. tcp_unacked_free (s\<lparr>sk_state := TCP_CLOSED\<rparr>)) n else n)
      | TCP_TIME_WAIT \<Rightarrow> if has_flag (in_flags g) TCP_FIN then tcp_send_ack env tx i n else Some n
      | _ \<Rightarrow> Some n)"

text \<open>The fields of a segment, from the IP header and the TCP header; the data length is
  computed without a check of the header length.\<close>

definition seg_in :: "bytes \<Rightarrow> bytes \<Rightarrow> Seg_In" where
  "seg_in ip seg = \<lparr>in_dst_ip = htonl (rd_le32 ip 16), in_dst_port = htons (rd_le16 seg 2),
     in_src_ip = htonl (rd_le32 ip 12), in_src_port = htons (rd_le16 seg 0),
     in_seq = htonl (rd_le32 seg 4), in_ack = htonl (rd_le32 seg 8), in_flags = seg ! 13\<rparr>"

definition net_tcp_rx :: "Env \<Rightarrow> tx \<Rightarrow> bytes \<Rightarrow> bytes \<Rightarrow> u64 \<Rightarrow> Net \<Rightarrow> Net option" where
  "net_tcp_rx env tx ip seg len n =
     (if len < 20 then Some n
      else if length seg < 20 then None
      else let g = seg_in ip seg;
               header_len = drop_bit 4 (seg ! 12) * 4
        in case net_find_tcp_socket n (in_dst_ip g) (in_dst_port g) (in_src_ip g) (in_src_port g) of
             None \<Rightarrow> tcp_rx_unmatched env tx g n
           | Some i \<Rightarrow> tcp_rx_state env tx i g (drop (unat header_len) seg) (len - ucast header_len) n)"

subsection \<open>Timers\<close>

definition tcp_back_off :: "Socket \<Rightarrow> Socket" where
  "tcp_back_off s = s\<lparr>
     sk_rto := (if sk_rto s * 2 > TCP_RTO_MAX then TCP_RTO_MAX else sk_rto s * 2),
     sk_ssthresh := half_window (sk_cwnd s), sk_cwnd := NET_TCP_MSS, sk_congestion_state := Slow_Start\<rparr>"

definition tcp_resend :: "tx \<Rightarrow> nat \<Rightarrow> Tcp_Seg \<Rightarrow> Net \<Rightarrow> Net option" where
  "tcp_resend tx i g n =
     (let saved = sk_seq_num (nt_sockets n i);
          n = upd_socket i (\<lambda>s. s\<lparr>sk_seq_num := sg_seq g\<rparr>) n;
          s = nt_sockets n i;
          flags = (if sg_len g = 0 then TCP_ACK else TCP_PSH OR TCP_ACK)
      in if 40 + length (sg_data g) > NET_TX_BUF_SIZE then None
         else map_option (upd_socket i (\<lambda>s. s\<lparr>sk_seq_num := saved\<rparr>))
                (tx (tcp_packet n s flags (sg_data g)) (htonl (sk_remote_ip s)) n))"

definition tcp_retransmit_timeout :: "tx \<Rightarrow> u64 \<Rightarrow> nat \<Rightarrow> Net \<Rightarrow> Net option" where
  "tcp_retransmit_timeout tx now i n =
     (case sk_unacked (nt_sockets n i) of
        [] \<Rightarrow> Some (upd_socket i (\<lambda>s. s\<lparr>sk_retransmit_timer := 0\<rparr>) n)
      | g # _ \<Rightarrow>
         (let n = upd_socket i (\<lambda>s. s\<lparr>sk_retransmit_count := sk_retransmit_count s + 1\<rparr>) n
          in if sk_retransmit_count (nt_sockets n i) > TCP_MAX_RETRIES
             then Some (upd_socket i (\<lambda>s. (tcp_unacked_free (s\<lparr>sk_state := TCP_CLOSED\<rparr>))\<lparr>sk_retransmit_timer := 0\<rparr>) n)
             else map_option (upd_socket i (\<lambda>s. s\<lparr>sk_retransmit_timer := now + ucast (sk_rto s)\<rparr>))
                    (tcp_resend tx i g (upd_socket i tcp_back_off n))))"

definition tcp_time_wait_expiry :: "u64 \<Rightarrow> Socket \<Rightarrow> Socket" where
  "tcp_time_wait_expiry now s =
     (if sk_state s = TCP_TIME_WAIT \<and> sk_time_wait_expire s > 0 \<and> now \<ge> sk_time_wait_expire s
      then tcp_unacked_free (s\<lparr>sk_state := TCP_CLOSED, sk_time_wait_expire := 0\<rparr>) else s)"

definition tcp_tick_socket :: "tx \<Rightarrow> u64 \<Rightarrow> nat \<Rightarrow> Net \<Rightarrow> Net option" where
  "tcp_tick_socket tx now k n =
     (case net_get_socket n (int k) of
        None \<Rightarrow> Some n
      | Some i \<Rightarrow>
          if sk_type (nt_sockets n i) \<noteq> SOCK_STREAM then Some n
          else map_option (upd_socket i (tcp_time_wait_expiry now))
                 (if sk_retransmit_timer (nt_sockets n i) > 0 \<and> now \<ge> sk_retransmit_timer (nt_sockets n i)
                  then tcp_retransmit_timeout tx now i n else Some n))"

definition net_tcp_tick :: "tx \<Rightarrow> Net \<Rightarrow> Net option" where
  "net_tcp_tick tx n =
     fold (\<lambda>k st. Option.bind st (tcp_tick_socket tx (nt_ms n) k)) [0..<NET_MAX_SOCKETS] (Some n)"

section \<open>UDP\<close>

definition udp_segment :: "u32 \<Rightarrow> u16 \<Rightarrow> u32 \<Rightarrow> u16 \<Rightarrow> bytes \<Rightarrow> bytes" where
  "udp_segment src sport dst dport data =
     (let seg = le16 (htons sport) @ le16 (htons dport) @ le16 (htons (of_nat (8 + length data))) @ [0, 0] @ data
      in put_at 6 (le16 (compute_udp_checksum src dst seg)) seg)"

definition net_udp_send_packet :: "tx \<Rightarrow> u32 \<Rightarrow> u16 \<Rightarrow> u32 \<Rightarrow> u16 \<Rightarrow> bytes \<Rightarrow> Net \<Rightarrow> Net option" where
  "net_udp_send_packet tx src_ip sport dst_ip dport data n =
     (if 28 + length data > NET_TX_BUF_SIZE then None
      else let src = (if src_ip \<noteq> 0 then src_ip else INADDR_LOOPBACK)
        in tx (ip_header n 17 (28 + length data) (htonl src) (htonl dst_ip) @
               udp_segment src sport dst_ip dport data) (htonl dst_ip) n)"

definition net_udp_rx :: "bytes \<Rightarrow> bytes \<Rightarrow> u64 \<Rightarrow> Net \<Rightarrow> Net option" where
  "net_udp_rx ip seg len n =
     (if len < 8 then Some n
      else if length seg < 8 then None
      else let udp_len = htons (rd_le16 seg 4)
        in case net_find_udp_socket n (htons (rd_le16 seg 2)) (htonl (rd_le32 ip 16)) of
             None \<Rightarrow> Some n
           | Some i \<Rightarrow> do {
               let src_ip = htonl (rd_le32 ip 12);
               let src_port = htons (rd_le16 seg 0);
               s \<leftarrow> net_rx_buffer_write (le32 src_ip @ le16 src_port) 6 (nt_sockets n i);
               s \<leftarrow> net_rx_buffer_write (drop 8 seg) (ucast udp_len - 8) s;
               Some (upd_socket i (\<lambda>_. s) n)
             })"

section \<open>ICMP\<close>

definition MAX_PING_STATES :: nat where "MAX_PING_STATES = 8"

definition find_ping_slot :: "Net \<Rightarrow> u32 \<Rightarrow> u16 \<Rightarrow> nat option" where
  "find_ping_slot n dst_ip pid = first_index (\<lambda>i. let p = nt_ping n i in
     pg_active p \<and> pg_dst_ip p = dst_ip \<and> pg_id p = pid) MAX_PING_STATES"

definition alloc_ping_slot :: "Net \<Rightarrow> nat option" where
  "alloc_ping_slot n = first_index (\<lambda>i. \<not> pg_active (nt_ping n i)) MAX_PING_STATES"

definition net_icmp_send_echo :: "Env \<Rightarrow> tx \<Rightarrow> u32 \<Rightarrow> u16 \<Rightarrow> u16 \<Rightarrow> bytes \<Rightarrow> Net \<Rightarrow> (int \<times> Net) option" where
  "net_icmp_send_echo env tx dst_ip sq pid data n =
     (case alloc_ping_slot n of
        None \<Rightarrow> Some (-1, n)
      | Some slot \<Rightarrow>
         (let icmp_len = 8 + length data
          in case kmalloc env icmp_len n of
               (None, n) \<Rightarrow> Some (-1, n)
             | (Some _, n) \<Rightarrow>
                (let rest = push_bit 16 (ucast (htons pid)) OR ucast (htons sq) :: u32;
                     icmp = [8, 0, 0, 0] @ le32 rest @ data;
                     icmp = put_at 2 (le16 (compute_checksum icmp)) icmp
                 in case kmalloc env (20 + icmp_len) n of
                      (None, n) \<Rightarrow> Some (-1, n)
                    | (Some _, n) \<Rightarrow>
                        map_option (\<lambda>n. (0, n))
                          (tx (ip_header n 1 (20 + icmp_len) (nt_local_ip n) dst_ip @ icmp) dst_ip
                             (n\<lparr>nt_ping := (nt_ping n)(slot := \<lparr>pg_dst_ip = dst_ip, pg_id = pid, pg_seq = sq,
                                 pg_send_time = nt_ms n, pg_active = True, pg_timeout = False, pg_rtt = 0\<rparr>)\<rparr>)))))"

definition icmp_reply :: "Env \<Rightarrow> tx \<Rightarrow> bytes \<Rightarrow> u32 \<Rightarrow> Net \<Rightarrow> Net option" where
  "icmp_reply env tx req src_ip n =
     (case kmalloc env (length req) n of
        (None, n) \<Rightarrow> Some n
      | (Some _, n) \<Rightarrow>
         (let reply = put_at 0 [0, 0, 0, 0] req;
              reply = put_at 2 (le16 (compute_checksum reply)) reply
          in case kmalloc env (20 + length req) n of
               (None, n) \<Rightarrow> Some n
             | (Some _, n) \<Rightarrow> tx (ip_header n 1 (20 + length req) (nt_local_ip n) src_ip @ reply) src_ip n))"

definition net_icmp_rx :: "Env \<Rightarrow> tx \<Rightarrow> bytes \<Rightarrow> u64 \<Rightarrow> u32 \<Rightarrow> Net \<Rightarrow> Net option" where
  "net_icmp_rx env tx seg len src_ip n =
     (if len < 8 then Some n
      else if length seg < 8 then None
      else if seg ! 0 = 8 \<and> seg ! 1 = 0 then
        (if unat len > length seg then None else icmp_reply env tx (take (unat len) seg) src_ip n)
      else if seg ! 0 = 0 \<and> seg ! 1 = 0 then
        (let rest = rd_le32 seg 4
         in case find_ping_slot n src_ip (htons (ucast (drop_bit 16 rest))) of
              None \<Rightarrow> Some n
            | Some i \<Rightarrow> let p = nt_ping n i in
                Some (n\<lparr>nt_ping := (nt_ping n)(i := p\<lparr>pg_rtt := ucast (nt_ms n - pg_send_time p), pg_active := False\<rparr>)\<rparr>))
      else Some n)"

definition net_icmp_tick :: "Net \<Rightarrow> Net" where
  "net_icmp_tick n = n\<lparr>nt_ping := (\<lambda>i. let p = nt_ping n i in
     if i < MAX_PING_STATES \<and> pg_active p \<and> nt_ms n - pg_send_time p > 5000
     then p\<lparr>pg_active := False, pg_timeout := True\<rparr> else p)\<rparr>"

section \<open>IP and Ethernet\<close>

definition net_rx_ipv4 :: "Env \<Rightarrow> tx \<Rightarrow> bytes \<Rightarrow> Net \<Rightarrow> Net option" where
  "net_rx_ipv4 env tx data n =
     (if length data < 20 then Some n
      else if drop_bit 4 (data ! 0) \<noteq> 4 then Some n
      else let total_length = htons (rd_le16 data 2);
               ihl = (data ! 0 AND 0x0F) * 4;
               payload = drop (unat ihl) data;
               payload_len = ucast total_length - ucast ihl :: u64
        in if unat total_length > length data then Some n
           else if ihl < 20 then Some n
           else if data ! 9 = 6 then net_tcp_rx env tx data payload payload_len n
           else if data ! 9 = 17 then net_udp_rx data payload payload_len n
           else if data ! 9 = 1 then net_icmp_rx env tx payload payload_len (rd_le32 data 12) n
           else Some n)"

definition net_loopback_tx :: "Env \<Rightarrow> tx \<Rightarrow> bytes \<Rightarrow> Net \<Rightarrow> Net option" where
  "net_loopback_tx env tx data n =
     (if length data < 20 then Some n
      else if drop_bit 4 (data ! 0) \<noteq> 4 then Some n
      else net_rx_ipv4 env tx data n)"

definition eth_transmit :: "Env \<Rightarrow> bytes \<Rightarrow> u32 \<Rightarrow> Net \<Rightarrow> Net option" where
  "eth_transmit env pkt dst_ip n = do {
     let next_hop = (if dst_ip AND nt_netmask n = nt_local_ip n AND nt_netmask n then dst_ip else nt_gateway_ip n);
     (mac, n) \<leftarrow> net_arp_resolve env next_hop n;
     (case mac of
        None \<Rightarrow> Some n
      | Some mac \<Rightarrow>
         (case kmalloc env (14 + length pkt) n of
            (None, n) \<Rightarrow> Some n
          | (Some _, n) \<Rightarrow> Some (rtl8139_send (mac @ nt_mac n @ le16 (htons 0x0800) @ pkt) n)))
   }"

fun net_send_eth :: "Env \<Rightarrow> nat \<Rightarrow> tx" where
  "net_send_eth env 0 pkt dst_ip n = None"
| "net_send_eth env (Suc depth) pkt dst_ip n =
     (if pkt = [] then Some n
      else if drop_bit 24 (htonl dst_ip) AND 0xFF = 127 \<or> \<not> nt_hw n
      then net_loopback_tx env (net_send_eth env depth) pkt n
      else eth_transmit env pkt dst_ip n)"

end
