(* ===== verification/SF_Stack_Api.thy ===== *)
theory SF_Stack_Api
  imports SF_Stack_Proto
begin

text \<open>
  The socket calls of the recovered network stack (\<^verbatim>\<open>recovered/net/src/socket.c\<close>).  A call
  returns the number the C function returns, what it stores through its pointer arguments,
  and the state; buffers are the bytes they hold, a socket address its 16-byte image.
\<close>

section \<open>Initialisation\<close>

text \<open>\<open>mac\<close> is the address the network card reports, if there is a card.\<close>

definition net_init :: "bytes option \<Rightarrow> Net \<Rightarrow> Net" where
  "net_init mac n =
     (let n = net_arp_init (n\<lparr>nt_sockets := (\<lambda>_. zero_socket), nt_used := (\<lambda>_. False), nt_next_port := 49152,
                nt_initial_seq := net_random n\<rparr>)
      in case mac of
           None \<Rightarrow> n
         | Some m \<Rightarrow>
             (let n = n\<lparr>nt_mac := m, nt_hw := True\<rparr>
              in if nt_local_ip n = 0 \<and> m ! 0 = 0x52 \<and> m ! 1 = 0x54 \<and> m ! 2 = 0x00
                 then n\<lparr>nt_local_ip := htonl 0x0A00020F, nt_gateway_ip := htonl 0x0A000202,
                        nt_netmask := htonl 0xFFFFFF00\<rparr>
                 else n))"

definition EINVAL :: int where "EINVAL = 22"
definition ENOMEM :: int where "ENOMEM = 12"
definition EADDRINUSE :: int where "EADDRINUSE = 98"
definition ENOTCONN :: int where "ENOTCONN = 107"
definition EAGAIN :: int where "EAGAIN = 11"
definition EOPNOTSUPP :: int where "EOPNOTSUPP = 95"
definition EAFNOSUPPORT :: int where "EAFNOSUPPORT = 97"
definition EPROTONOSUPPORT :: int where "EPROTONOSUPPORT = 93"
definition ESOCKTNOSUPPORT :: int where "ESOCKTNOSUPPORT = 94"
definition EBADF :: int where "EBADF = 9"

text \<open>A size cast to \<^verbatim>\<open>int\<close>.\<close>

definition int_of_size :: "nat \<Rightarrow> int" where
  "int_of_size k = sint (of_nat k :: u32)"

section \<open>Creating, binding and listening\<close>

definition fresh_socket :: "nat \<Rightarrow> int \<Rightarrow> int \<Rightarrow> u32 \<Rightarrow> bytes option \<Rightarrow> bytes option \<Rightarrow> Socket \<Rightarrow> Socket" where
  "fresh_socket net_fd domain type isn rx tb s = s\<lparr>
     sk_fd := int net_fd, sk_domain := domain, sk_type := type,
     sk_protocol := (if type = SOCK_STREAM then IP_PROTO_TCP else IP_PROTO_UDP),
     sk_state := TCP_CLOSED, sk_flags := 0, sk_local_ip := 0, sk_local_port := 0, sk_remote_ip := 0, sk_remote_port := 0,
     sk_seq_num := isn, sk_ack_num := 0, sk_remote_seq := 0,
     sk_cwnd := NET_TCP_MSS, sk_ssthresh := NET_TCP_WINDOW, sk_rto := 1000, sk_srtt := 0, sk_rttvar := 0,
     sk_retransmit_timer := 0, sk_dup_ack_count := 0, sk_bytes_in_flight := 0, sk_last_ack_sent := 0,
     sk_congestion_state := Slow_Start, sk_time_wait_expire := 0, sk_retransmit_count := 0, sk_unacked := [],
     sk_rx_buf := rx, sk_tx_buf := tb, sk_listen_parent := None, sk_pending := [], sk_blocking_pid := -1\<rparr>"

definition empty_buffers :: "Socket \<Rightarrow> Socket" where
  "empty_buffers s = s\<lparr>
     sk_rx_size := of_nat NET_RX_BUF_SIZE, sk_rx_read_pos := 0, sk_rx_write_pos := 0, sk_rx_count := 0,
     sk_tx_size := of_nat NET_TX_BUF_SIZE, sk_tx_read_pos := 0, sk_tx_write_pos := 0, sk_tx_count := 0\<rparr>"

definition socket_args_error :: "int \<Rightarrow> int \<Rightarrow> int \<Rightarrow> int option" where
  "socket_args_error domain type protocol =
     (if domain \<noteq> AF_INET then Some (- EAFNOSUPPORT)
      else if type \<noteq> SOCK_STREAM \<and> type \<noteq> SOCK_DGRAM then Some (- ESOCKTNOSUPPORT)
      else if protocol \<noteq> 0 \<and> protocol \<noteq> IP_PROTO_TCP \<and> protocol \<noteq> IP_PROTO_UDP then Some (- EPROTONOSUPPORT)
      else if type = SOCK_STREAM \<and> protocol \<noteq> 0 \<and> protocol \<noteq> IP_PROTO_TCP then Some (- EPROTONOSUPPORT)
      else if type = SOCK_DGRAM \<and> protocol \<noteq> 0 \<and> protocol \<noteq> IP_PROTO_UDP then Some (- EPROTONOSUPPORT)
      else None)"

text \<open>When the registration fails the buffers are freed twice, which is undefined.\<close>

definition net_socket :: "Env \<Rightarrow> int \<Rightarrow> int \<Rightarrow> int \<Rightarrow> Net \<Rightarrow> (int \<times> Net) option" where
  "net_socket env domain type protocol n =
     (if domain = AF_UNIX then Some (ev_unix_socket env type protocol n)
      else case socket_args_error domain type protocol of
        Some e \<Rightarrow> Some (e, n)
      | None \<Rightarrow>
         (case net_alloc_socket_slot n of
            (None, n) \<Rightarrow> Some (- ENOMEM, n)
          | (Some i, n) \<Rightarrow>
             (let isn = nt_initial_seq n + net_random n;
                  (rx, n) = kmalloc env NET_RX_BUF_SIZE n;
                  (tb, n) = kmalloc env NET_TX_BUF_SIZE n;
                  n = upd_socket i (fresh_socket i domain type isn rx tb) n
              in if rx = None \<or> tb = None then Some (- ENOMEM, net_free_socket_slot i n)
                 else case vfs_register_socket env i (upd_socket i empty_buffers n) of
                   (fd, n) \<Rightarrow> if fd < 0 then None else Some (fd, n))))"

definition net_bind :: "Env \<Rightarrow> int \<Rightarrow> bytes option \<Rightarrow> Net \<Rightarrow> (int \<times> Net) option" where
  "net_bind env fd addr n =
     (case net_get_socket n fd of
        None \<Rightarrow> Some (- EBADF, n)
      | Some i \<Rightarrow>
         (case addr of
            None \<Rightarrow> Some (- EINVAL, n)
          | Some a \<Rightarrow>
              if sk_domain (nt_sockets n i) = AF_UNIX then Some (ev_unix_bind env fd a n)
              else if length a < 8 then None
              else if rd_le16 a 0 \<noteq> 2 then Some (- EAFNOSUPPORT, n)
              else let port = htons (rd_le16 a 2); ip = htonl (rd_le32 a 4)
                in if port \<noteq> 0 \<and> (case net_find_socket_by_port n port ip of
                                     None \<Rightarrow> False | Some j \<Rightarrow> sk_fd (nt_sockets n j) \<noteq> fd)
                   then Some (- EADDRINUSE, n)
                   else let (port, n) = (if port = 0 then net_alloc_port n else (port, n))
                     in Some (0, upd_socket i (\<lambda>s. s\<lparr>sk_local_ip := ip, sk_local_port := port\<rparr>) n)))"

definition net_listen :: "Env \<Rightarrow> int \<Rightarrow> int \<Rightarrow> Net \<Rightarrow> int \<times> Net" where
  "net_listen env fd backlog n =
     (case net_get_socket n fd of
        None \<Rightarrow> (- EBADF, n)
      | Some i \<Rightarrow>
         (let s = nt_sockets n i
          in if sk_domain s = AF_UNIX then ev_unix_listen env fd backlog n
             else if sk_type s \<noteq> SOCK_STREAM then (- EOPNOTSUPP, n)
             else if sk_local_port s = 0 then (- EINVAL, n)
             else (0, upd_socket i (\<lambda>s. s\<lparr>sk_state := TCP_LISTEN, sk_pending := []\<rparr>) n)))"

definition net_accept :: "Env \<Rightarrow> int \<Rightarrow> Net \<Rightarrow> int \<times> Net" where
  "net_accept env fd n =
     (case net_get_socket n fd of
        None \<Rightarrow> (- EBADF, n)
      | Some i \<Rightarrow>
         (let s = nt_sockets n i
          in if sk_domain s = AF_UNIX then ev_unix_accept env fd n
             else if sk_type s \<noteq> SOCK_STREAM then (- EOPNOTSUPP, n)
             else if sk_state s \<noteq> TCP_LISTEN then (- EINVAL, n)
             else case first_index (\<lambda>k. sk_state (nt_sockets n (sk_pending s ! k)) = TCP_ESTABLISHED)
                         (length (sk_pending s)) of
               None \<Rightarrow> (- EAGAIN, n)
             | Some k \<Rightarrow>
                (let c = sk_pending s ! k;
                     n = upd_socket i (\<lambda>s. s\<lparr>sk_pending := take k (sk_pending s) @ drop (Suc k) (sk_pending s)\<rparr>) n;
                     n = upd_socket c (\<lambda>s. s\<lparr>sk_listen_parent := None\<rparr>) n
                 in (sk_fd (nt_sockets n c), n))))"

text \<open>An unbound socket gets a port and the loopback address.\<close>

definition bind_ephemeral :: "nat \<Rightarrow> Net \<Rightarrow> Net" where
  "bind_ephemeral i n =
     (if sk_local_port (nt_sockets n i) = 0
      then let (port, n) = net_alloc_port n
        in upd_socket i (\<lambda>s. s\<lparr>sk_local_port := port, sk_local_ip := INADDR_LOOPBACK\<rparr>) n
      else n)"

definition connecting :: "u32 \<Rightarrow> u16 \<Rightarrow> u32 \<Rightarrow> Socket \<Rightarrow> Socket" where
  "connecting ip port isn s = s\<lparr>sk_remote_ip := ip, sk_remote_port := port, sk_seq_num := isn, sk_ack_num := 0,
     sk_cwnd := NET_TCP_MSS, sk_ssthresh := NET_TCP_WINDOW, sk_rto := 1000, sk_srtt := 0, sk_rttvar := 0,
     sk_retransmit_timer := 0, sk_dup_ack_count := 0, sk_bytes_in_flight := 0, sk_last_ack_sent := 0,
     sk_congestion_state := Slow_Start, sk_unacked := [], sk_state := TCP_SYN_SENT\<rparr>"

definition net_connect :: "Env \<Rightarrow> tx \<Rightarrow> int \<Rightarrow> bytes option \<Rightarrow> Net \<Rightarrow> (int \<times> Net) option" where
  "net_connect env tx fd addr n =
     (case net_get_socket n fd of
        None \<Rightarrow> Some (- EBADF, n)
      | Some i \<Rightarrow>
         (let s = nt_sockets n i
          in if sk_domain s = AF_UNIX then Some (ev_unix_connect env fd addr n)
             else if sk_type s \<noteq> SOCK_STREAM then Some (- EOPNOTSUPP, n)
             else case addr of
               None \<Rightarrow> Some (- EAFNOSUPPORT, n)
             | Some a \<Rightarrow>
                 if length a < 8 then None
                 else if rd_le16 a 0 \<noteq> 2 then Some (- EAFNOSUPPORT, n)
                 else let n = bind_ephemeral i n;
                          n = upd_socket i (connecting (htonl (rd_le32 a 4)) (htons (rd_le16 a 2))
                                (nt_initial_seq n + net_random n)) n
                   in map_option (\<lambda>n. (0, n)) (net_tcp_send_packet env tx i TCP_SYN [] n)))"

section \<open>Sending and receiving\<close>

function net_send_loop :: "Env \<Rightarrow> tx \<Rightarrow> nat \<Rightarrow> u32 \<Rightarrow> bytes \<Rightarrow> nat \<Rightarrow> Net \<Rightarrow> (bytes \<times> nat \<times> Net) option" where
  "net_send_loop env tx i window data total_sent n =
     (if data = [] \<or> window = 0 then Some (data, total_sent, n)
      else let chunk = (if length data > unat NET_TCP_MSS then unat NET_TCP_MSS else length data);
               chunk = (if chunk > unat window then unat window else chunk)
        in case net_tcp_send_packet env tx i (TCP_PSH OR TCP_ACK) (take chunk data) n of
             None \<Rightarrow> None
           | Some n \<Rightarrow> net_send_loop env tx i (window - of_nat chunk) (drop chunk data) (total_sent + chunk) n)"
  by pat_completeness auto
termination
  by (relation "measure (\<lambda>(env, tx, i, window, data, t, n). length data)")
     (auto simp: NET_TCP_MSS_def unat_gt_0)

declare net_send_loop.simps [simp del]

definition tx_enqueue :: "bytes \<Rightarrow> Socket \<Rightarrow> nat \<times> Socket" where
  "tx_enqueue data s =
     (case sk_tx_buf s of
        None \<Rightarrow> (0, s)
      | Some buf \<Rightarrow>
         (let avail = unat (sk_tx_size s - sk_tx_count s);
              to_queue = (if length data < avail then length data else avail);
              (buf, pos) = ring_write (sk_tx_size s) (take to_queue data) (buf, sk_tx_write_pos s)
          in (to_queue, s\<lparr>sk_tx_buf := Some buf, sk_tx_write_pos := pos, sk_tx_count := sk_tx_count s + of_nat to_queue\<rparr>)))"

definition send_window :: "Socket \<Rightarrow> u32" where
  "send_window s =
     (let w = (if NET_TCP_WINDOW < sk_cwnd s then NET_TCP_WINDOW else sk_cwnd s)
      in if sk_bytes_in_flight s \<ge> w then 0 else w - sk_bytes_in_flight s)"

definition net_send :: "Env \<Rightarrow> tx \<Rightarrow> int \<Rightarrow> bytes \<Rightarrow> Net \<Rightarrow> (int \<times> Net) option" where
  "net_send env tx fd buf n =
     (case net_get_socket n fd of
        None \<Rightarrow> Some (- EBADF, n)
      | Some i \<Rightarrow>
         (let s = nt_sockets n i
          in if sk_domain s = AF_UNIX then Some (ev_unix_send env fd buf [] n)
             else if sk_type s \<noteq> SOCK_STREAM then Some (- EOPNOTSUPP, n)
             else if sk_state s \<noteq> TCP_ESTABLISHED \<and> sk_state s \<noteq> TCP_CLOSE_WAIT then Some (- ENOTCONN, n)
             else if buf = [] then Some (0, n)
             else do {
               (rest, total_sent, n) \<leftarrow> net_send_loop env tx i (send_window s) buf 0 n;
               let (queued, s) = (if rest \<noteq> [] then tx_enqueue rest (nt_sockets n i) else (0, nt_sockets n i));
               Some (int_of_size (total_sent + queued), upd_socket i (\<lambda>_. s) n)
             }))"

definition net_recv :: "Env \<Rightarrow> int \<Rightarrow> nat \<Rightarrow> Net \<Rightarrow> int \<times> bytes \<times> Net" where
  "net_recv env fd len n =
     (case net_get_socket n fd of
        None \<Rightarrow> (- EBADF, [], n)
      | Some i \<Rightarrow>
         (let s = nt_sockets n i
          in if sk_domain s = AF_UNIX then (let (r, bs, _, n) = ev_unix_recv env fd len None n in (r, bs, n))
             else if sk_type s \<noteq> SOCK_STREAM then (- EOPNOTSUPP, [], n)
             else if sk_state s \<notin> {TCP_ESTABLISHED, TCP_FIN_WAIT_1, TCP_FIN_WAIT_2, TCP_CLOSE_WAIT}
             then (if sk_state s = TCP_CLOSED \<or> sk_state s = TCP_TIME_WAIT then (0, [], n) else (- ENOTCONN, [], n))
             else if sk_rx_count s = 0 then (- EAGAIN, [], n)
             else let (bs, s) = net_rx_buffer_read (of_nat len) s
               in (int_of_size (length bs), bs, upd_socket i (\<lambda>_. s) n)))"

definition net_sendto :: "Env \<Rightarrow> tx \<Rightarrow> int \<Rightarrow> bytes \<Rightarrow> bytes option \<Rightarrow> Net \<Rightarrow> (int \<times> Net) option" where
  "net_sendto env tx fd buf dest n =
     (case net_get_socket n fd of
        None \<Rightarrow> Some (- EBADF, n)
      | Some i \<Rightarrow>
         (case dest of
            None \<Rightarrow> Some (- EAFNOSUPPORT, n)
          | Some a \<Rightarrow>
              if length a < 8 then None
              else if rd_le16 a 0 \<noteq> 2 then Some (- EAFNOSUPPORT, n)
              else if sk_type (nt_sockets n i) = SOCK_STREAM then net_send env tx fd buf n
              else let n = bind_ephemeral i n; s = nt_sockets n i;
                       src = (if sk_local_ip s \<noteq> 0 then sk_local_ip s else INADDR_LOOPBACK)
                in map_option (\<lambda>n. (int_of_size (length buf), n))
                     (net_udp_send_packet tx src (sk_local_port s) (htonl (rd_le32 a 4)) (htons (rd_le16 a 2)) buf n)))"

text \<open>The image of a socket address.\<close>

definition sockaddr :: "u16 \<Rightarrow> u32 \<Rightarrow> bytes" where
  "sockaddr port ip = le16 2 @ le16 (htons port) @ le32 (htonl ip) @ replicate 8 0"

text \<open>The address is what the call stores where the caller passes room for one.\<close>

definition net_recvfrom :: "Env \<Rightarrow> int \<Rightarrow> nat \<Rightarrow> Net \<Rightarrow> (int \<times> bytes \<times> bytes option \<times> Net) option" where
  "net_recvfrom env fd len n =
     (case net_get_socket n fd of
        None \<Rightarrow> Some (- EBADF, [], None, n)
      | Some i \<Rightarrow>
         (let s = nt_sockets n i
          in if sk_type s = SOCK_STREAM then (let (r, bs, n) = net_recv env fd len n in Some (r, bs, None, n))
             else if sk_rx_count s < 6 then Some (- EAGAIN, [], None, n)
             else let (meta, s) = net_rx_buffer_read 6 s
               in if length meta < 6 then None
                  else let avail = unat (sk_rx_count s);
                           to_read = (if len < avail then len else avail);
                           (bs, s) = net_rx_buffer_read (of_nat to_read) s
                    in Some (int_of_size (length bs), bs, Some (sockaddr (rd_le16 meta 4) (rd_le32 meta 0)),
                             upd_socket i (\<lambda>_. s) n)))"

section \<open>Closing and options\<close>

definition send_fin :: "Env \<Rightarrow> tx \<Rightarrow> nat \<Rightarrow> Net \<Rightarrow> Net option" where
  "send_fin env tx i n =
     (if sk_state (nt_sockets n i) = TCP_ESTABLISHED
      then map_option (set_tcp_state i TCP_FIN_WAIT_1) (net_tcp_send_packet env tx i (TCP_FIN OR TCP_ACK) [] n)
      else if sk_state (nt_sockets n i) = TCP_CLOSE_WAIT
      then map_option (set_tcp_state i TCP_LAST_ACK) (net_tcp_send_packet env tx i (TCP_FIN OR TCP_ACK) [] n)
      else Some n)"

definition net_shutdown :: "Env \<Rightarrow> tx \<Rightarrow> int \<Rightarrow> int \<Rightarrow> Net \<Rightarrow> (int \<times> Net) option" where
  "net_shutdown env tx fd how n =
     (case net_get_socket n fd of
        None \<Rightarrow> Some (- EBADF, n)
      | Some i \<Rightarrow>
          if sk_type (nt_sockets n i) \<noteq> SOCK_STREAM then Some (- EOPNOTSUPP, n)
          else map_option (\<lambda>n. (0, n)) (if how = 1 \<or> how = 2 then send_fin env tx i n else Some n))"

text \<open>The slot to free is the one the inode of the descriptor names.\<close>

definition net_close :: "Env \<Rightarrow> tx \<Rightarrow> int \<Rightarrow> Net \<Rightarrow> (int \<times> Net) option" where
  "net_close env tx fd n =
     (case net_get_socket n fd of
        None \<Rightarrow> Some (- EBADF, n)
      | Some i \<Rightarrow>
          if sk_domain (nt_sockets n i) = AF_UNIX then Some (ev_unix_close env fd n)
          else do {
            n \<leftarrow> (if sk_type (nt_sockets n i) = SOCK_STREAM then send_fin env tx i n else Some n);
            let net_fd = (if fd \<ge> 0 \<and> fd < int VFS_MAX_FD
                          then case nt_fds n (nat fd) of
                                 Some f \<Rightarrow> if fl_inode f then fl_fs_data f else -1
                               | None \<Rightarrow> -1
                          else -1);
            Some (0, if net_fd \<ge> 0 then net_free_socket_slot (nat net_fd) n else n)
          })"

definition SOL_SOCKET :: int where "SOL_SOCKET = 1"
definition SO_REUSEADDR :: int where "SO_REUSEADDR = 2"
definition SO_BINDTODEVICE :: int where "SO_BINDTODEVICE = 25"
definition SO_PEERCRED :: int where "SO_PEERCRED = 17"

definition net_setsockopt :: "Net \<Rightarrow> int \<Rightarrow> int \<Rightarrow> int \<Rightarrow> int" where
  "net_setsockopt n fd level optname =
     (case net_get_socket n fd of
        None \<Rightarrow> - EBADF
      | Some i \<Rightarrow>
          if level = SOL_SOCKET \<and> (optname = SO_REUSEADDR \<or> optname = SO_BINDTODEVICE) then 0 else - EOPNOTSUPP)"

text \<open>\<open>val\<close> tells whether \<^verbatim>\<open>optval\<close> is given, \<open>klen\<close> is the length at \<^verbatim>\<open>optlen\<close> if that is given
  (zero where its page is not mapped); the second result is what is stored at the two.\<close>

definition net_getsockopt :: "Net \<Rightarrow> int \<Rightarrow> int \<Rightarrow> int \<Rightarrow> bool \<Rightarrow> u32 option \<Rightarrow> int \<times> (bytes \<times> u32) option" where
  "net_getsockopt n fd level optname val klen =
     (case net_get_socket n fd of
        None \<Rightarrow> (- EBADF, None)
      | Some i \<Rightarrow>
         (let s = nt_sockets n i
          in if level \<noteq> SOL_SOCKET then (- EOPNOTSUPP, None)
             else if optname = SO_REUSEADDR then
               (case klen of
                  Some k \<Rightarrow> (0, if val \<and> k \<ge> 4 then Some (le32 1, 4) else None)
                | None \<Rightarrow> (0, None))
             else if optname = SO_PEERCRED then
               (if sk_domain s \<noteq> AF_UNIX then (- EOPNOTSUPP, None)
                else case klen of
                  None \<Rightarrow> (- EINVAL, None)
                | Some k \<Rightarrow>
                    if \<not> val then (- EINVAL, None)
                    else if k < 12 then (- EINVAL, None)
                    else (0, Some (le32 (sk_peer_pid s) @ le32 (sk_peer_uid s) @ le32 (sk_peer_gid s), 12)))
             else (- EOPNOTSUPP, None)))"

definition net_getsockname :: "Net \<Rightarrow> int \<Rightarrow> bool \<Rightarrow> int \<times> bytes option" where
  "net_getsockname n fd room =
     (case net_get_socket n fd of
        None \<Rightarrow> (- EBADF, None)
      | Some i \<Rightarrow>
          if \<not> room then (- EINVAL, None)
          else (0, Some (sockaddr (sk_local_port (nt_sockets n i)) (sk_local_ip (nt_sockets n i)))))"

definition net_getpeername :: "Net \<Rightarrow> int \<Rightarrow> bool \<Rightarrow> int \<times> bytes option" where
  "net_getpeername n fd room =
     (case net_get_socket n fd of
        None \<Rightarrow> (- EBADF, None)
      | Some i \<Rightarrow>
          if sk_remote_port (nt_sockets n i) = 0 then (- ENOTCONN, None)
          else if \<not> room then (- EINVAL, None)
          else (0, Some (sockaddr (sk_remote_port (nt_sockets n i)) (sk_remote_ip (nt_sockets n i)))))"

section \<open>Messages\<close>

subsection \<open>Control data\<close>

definition CMSG_ALIGN :: "nat \<Rightarrow> nat" where
  "CMSG_ALIGN len = (len + 7) div 8 * 8"

definition CMSG_SPACE :: "nat \<Rightarrow> nat" where
  "CMSG_SPACE len = CMSG_ALIGN len + CMSG_ALIGN 16"

definition CMSG_LEN :: "nat \<Rightarrow> nat" where
  "CMSG_LEN len = CMSG_ALIGN 16 + len"

definition cmsg_ints :: "bytes \<Rightarrow> nat \<Rightarrow> nat \<Rightarrow> int list" where
  "cmsg_ints ctrl k cnt = map (\<lambda>i. sint (rd_le32 ctrl (k + 16 + 4 * i))) [0..<cnt]"

text \<open>The descriptors of the SCM_RIGHTS messages in a control buffer, at most eight; \<open>k\<close> is the
  offset of the current header.\<close>

function scm_rights :: "bytes \<Rightarrow> nat \<Rightarrow> int list \<Rightarrow> int list" where
  "scm_rights ctrl k fds =
     (if k + 16 \<le> length ctrl then
        (let clen = unat (rd_le32 ctrl k)
         in if clen < 16 \<or> k + clen > length ctrl then fds
            else let fds = (if rd_le32 ctrl (k + 8) = 1 \<and> rd_le32 ctrl (k + 12) = 1
                            then take 8 (fds @ cmsg_ints ctrl k ((clen - 16) div 4)) else fds);
                     adv = CMSG_ALIGN clen
              in if adv < 16 then fds else scm_rights ctrl (k + adv) fds)
      else fds)"
  by pat_completeness auto
termination
  by (relation "measure (\<lambda>(ctrl, k, fds). length ctrl - k)") auto

declare scm_rights.simps [simp del]

definition control_fds :: "bytes option \<Rightarrow> int list" where
  "control_fds control =
     (case control of None \<Rightarrow> [] | Some c \<Rightarrow> if length c \<ge> 16 then scm_rights c 0 [] else [])"

definition cmsg_build :: "int list \<Rightarrow> bytes" where
  "cmsg_build fds = le32 (of_nat (CMSG_LEN (4 * length fds))) @ le32 0 @ le32 1 @ le32 1 @
     concat (map (\<lambda>d. le32 (of_int d)) fds)"

text \<open>How many descriptors a control buffer can take.\<close>

definition control_cap :: "bytes option \<Rightarrow> nat" where
  "control_cap control =
     (case control of
        None \<Rightarrow> 0
      | Some c \<Rightarrow> length (takeWhile (\<lambda>k. CMSG_SPACE (k * 4) \<le> length c) [1..<9]))"

subsection \<open>sendmsg\<close>

text \<open>The bytes of each buffer of the vector are sent in turn until one is refused or sent in
  part; \<open>send\<close> is told whether it is the first call.  The first result is the value of an early
  return.\<close>

fun send_vector :: "(bool \<Rightarrow> bytes \<Rightarrow> Net \<Rightarrow> (int \<times> Net) option) \<Rightarrow> bool \<Rightarrow> bytes list \<Rightarrow> nat \<Rightarrow> Net
    \<Rightarrow> (int option \<times> bool \<times> nat \<times> Net) option" where
  "send_vector send first [] total_sent n = Some (None, first, total_sent, n)"
| "send_vector send first (v # vs) total_sent n =
     (if v = [] then send_vector send first vs total_sent n
      else case send first v n of
        None \<Rightarrow> None
      | Some (ret, n) \<Rightarrow>
          if ret < 0 then Some (Some (if total_sent > 0 then int_of_size total_sent else ret), False, total_sent, n)
          else if nat ret < length v then Some (None, False, total_sent + nat ret, n)
          else send_vector send False vs (total_sent + nat ret) n)"

definition unix_sendmsg :: "Env \<Rightarrow> int \<Rightarrow> bytes list \<Rightarrow> bytes option \<Rightarrow> Net \<Rightarrow> (int \<times> Net) option" where
  "unix_sendmsg env fd iov control n =
     (let fds = control_fds control;
          send = (\<lambda>first v n. Some (ev_unix_send env fd v (if first then fds else []) n))
      in case send_vector send True iov 0 n of
           None \<Rightarrow> None
         | Some (Some ret, _, _, n) \<Rightarrow> Some (ret, n)
         | Some (None, first, total_sent, n) \<Rightarrow>
             if first \<and> fds \<noteq> [] then
               (let (r, n) = ev_unix_send env fd [] fds n
                in Some (if r < 0 \<and> total_sent = 0 then r else int_of_size total_sent, n))
             else Some (int_of_size total_sent, n))"

definition net_sendmsg :: "Env \<Rightarrow> tx \<Rightarrow> int \<Rightarrow> (bytes list \<times> bytes option) option \<Rightarrow> Net \<Rightarrow> (int \<times> Net) option" where
  "net_sendmsg env tx fd msg n =
     (case msg of
        None \<Rightarrow> Some (- EINVAL, n)
      | Some (iov, control) \<Rightarrow>
         (case net_get_socket n fd of
            None \<Rightarrow> Some (- EBADF, n)
          | Some i \<Rightarrow>
              if sk_domain (nt_sockets n i) = AF_UNIX then unix_sendmsg env fd iov control n
              else map_option (\<lambda>(early, _, total_sent, n). (case early of Some ret \<Rightarrow> ret | None \<Rightarrow> int_of_size total_sent, n))
                     (send_vector (\<lambda>_ v n. net_send env tx fd v n) True iov 0 n)))"

subsection \<open>recvmsg\<close>

fun recv_vector :: "(bool \<Rightarrow> nat \<Rightarrow> Net \<Rightarrow> int \<times> bytes \<times> int list \<times> Net) \<Rightarrow> bool \<Rightarrow> nat list \<Rightarrow> nat \<Rightarrow> bytes list \<Rightarrow> int list
    \<Rightarrow> Net \<Rightarrow> int option \<times> bool \<times> nat \<times> bytes list \<times> int list \<times> Net" where
  "recv_vector recv first [] got out fds n = (None, first, got, out, fds, n)"
| "recv_vector recv first (len # lens) got out fds n =
     (if len = 0 then recv_vector recv first lens got (out @ [[]]) fds n
      else let (ret, bs, fs, n) = recv first len n;
               fds = (if first then fs else fds)
        in if ret < 0 then (if got > 0 then None else Some ret, False, got, out, fds, n)
           else if nat ret < len then (None, False, got + nat ret, out @ [bs], fds, n)
           else recv_vector recv False lens (got + nat ret) (out @ [bs]) fds n)"

text \<open>What is reported: the return value, the bytes in each buffer, the control buffer, its
  new length and whether the control data was truncated.\<close>

record Recv_Msg =
  rm_ret :: int
  rm_data :: "bytes list"
  rm_control :: "bytes option"
  rm_controllen :: nat
  rm_ctrunc :: bool

definition report_fds :: "int list \<Rightarrow> Recv_Msg \<Rightarrow> Recv_Msg" where
  "report_fds fds m =
     (if fds = [] then m\<lparr>rm_controllen := 0\<rparr>
      else case rm_control m of
        None \<Rightarrow> m\<lparr>rm_ctrunc := True, rm_controllen := 0\<rparr>
      | Some c \<Rightarrow>
          if CMSG_SPACE (4 * length fds) \<le> length c
          then m\<lparr>rm_control := Some (put_at 0 (cmsg_build fds) c), rm_controllen := CMSG_SPACE (4 * length fds)\<rparr>
          else m\<lparr>rm_ctrunc := True, rm_controllen := 0\<rparr>)"

definition unix_recvmsg :: "Env \<Rightarrow> int \<Rightarrow> nat list \<Rightarrow> bytes option \<Rightarrow> Recv_Msg \<Rightarrow> Net \<Rightarrow> Recv_Msg \<times> Net" where
  "unix_recvmsg env fd lens control m n =
     (let recv = (\<lambda>first len n. ev_unix_recv env fd len (if first then Some (control_cap control) else None) n);
          (early, first, got, out, fds, n) = recv_vector recv True lens 0 [] [] n
      in case early of
           Some ret \<Rightarrow> (m\<lparr>rm_ret := ret, rm_data := out\<rparr>, n)
         | None \<Rightarrow> (report_fds (if first then [] else fds) (m\<lparr>rm_ret := int_of_size got, rm_data := out\<rparr>), n))"

definition inet_recvmsg :: "Env \<Rightarrow> int \<Rightarrow> nat list \<Rightarrow> Recv_Msg \<Rightarrow> Net \<Rightarrow> Recv_Msg \<times> Net" where
  "inet_recvmsg env fd lens m n =
     (let recv = (\<lambda>_ len n. let (r, bs, n) = net_recv env fd len n in (r, bs, [], n));
          (early, _, got, out, _, n) = recv_vector recv True lens 0 [] [] n
      in (m\<lparr>rm_ret := (case early of Some ret \<Rightarrow> ret | None \<Rightarrow> int_of_size got), rm_data := out\<rparr>, n))"

definition net_recvmsg_impl :: "Env \<Rightarrow> int \<Rightarrow> (nat list \<times> bytes option) option \<Rightarrow> Net \<Rightarrow> Recv_Msg \<times> Net" where
  "net_recvmsg_impl env fd msg n =
     (let m0 = \<lparr>rm_ret = 0, rm_data = [], rm_control = None, rm_controllen = 0, rm_ctrunc = False\<rparr>
      in case msg of
        None \<Rightarrow> (m0\<lparr>rm_ret := - EINVAL\<rparr>, n)
      | Some (lens, control) \<Rightarrow>
         (let clen = (case control of Some c \<Rightarrow> length c | None \<Rightarrow> 0);
              m = m0\<lparr>rm_control := control, rm_controllen := clen\<rparr>
          in case net_get_socket n fd of
               None \<Rightarrow> (m\<lparr>rm_ret := - EBADF\<rparr>, n)
             | Some i \<Rightarrow>
                 if sk_domain (nt_sockets n i) = AF_UNIX then unix_recvmsg env fd lens control m n
                 else inet_recvmsg env fd lens m n))"

end
