(* ===== verification/SF_Queue.thy ===== *)
theory SF_Queue
  imports SF_Prelude
begin

text \<open>
  Bounded byte queues: the interface that the receive buffers of the system share, and the
  fact that makes them streams, for every sequence of writes and reads.
\<close>

datatype 'a queue_op = Put "'a list" | Get nat

text \<open>A run collects the items the queue accepted and the items it delivered.\<close>

fun queue_run :: "('q \<Rightarrow> nat) \<Rightarrow> ('a list \<Rightarrow> 'q \<Rightarrow> 'q) \<Rightarrow> (nat \<Rightarrow> 'q \<Rightarrow> 'a list \<times> 'q) \<Rightarrow> 'a queue_op list \<Rightarrow> 'q
    \<Rightarrow> 'a list \<times> 'a list \<times> 'q" where
  "queue_run room put get [] q = ([], [], q)"
| "queue_run room put get (Put xs # ops) q =
     (let (acc, del, q') = queue_run room put get ops (put xs q) in (take (room q) xs @ acc, del, q'))"
| "queue_run room put get (Get k # ops) q =
     (let (ys, q1) = get k q; (acc, del, q') = queue_run room put get ops q1 in (acc, ys @ del, q'))"

fun small_op :: "'a queue_op \<Rightarrow> bool" where
  "small_op (Put xs) \<longleftrightarrow> length xs < 2 ^ 64"
| "small_op (Get k) \<longleftrightarrow> k < 2 ^ 64"

locale bounded_queue =
  fixes valid :: "'q \<Rightarrow> bool"
    and contents :: "'q \<Rightarrow> 'a list"
    and room :: "'q \<Rightarrow> nat"
    and put :: "'a list \<Rightarrow> 'q \<Rightarrow> 'q"
    and get :: "nat \<Rightarrow> 'q \<Rightarrow> 'a list \<times> 'q"
  assumes put_valid: "valid q \<Longrightarrow> length xs < 2 ^ 64 \<Longrightarrow> valid (put xs q)"
    and put_contents: "valid q \<Longrightarrow> length xs < 2 ^ 64 \<Longrightarrow> contents (put xs q) = contents q @ take (room q) xs"
    and get_valid: "valid q \<Longrightarrow> k < 2 ^ 64 \<Longrightarrow> valid (snd (get k q))"
    and get_front: "valid q \<Longrightarrow> k < 2 ^ 64 \<Longrightarrow> fst (get k q) = take k (contents q)"
    and get_contents: "valid q \<Longrightarrow> k < 2 ^ 64 \<Longrightarrow> contents (snd (get k q)) = drop k (contents q)"
begin

lemma run_fifo:
  "valid q \<Longrightarrow> list_all small_op ops \<Longrightarrow> queue_run room put get ops q = (acc, del, q') \<Longrightarrow>
   valid q' \<and> contents q @ acc = del @ contents q'"
proof (induction ops arbitrary: q acc del)
  case Nil
  then show ?case by simp
next
  case (Cons op ops)
  show ?case
  proof (cases op)
    case (Put xs)
    then obtain acc' where "queue_run room put get ops (put xs q) = (acc', del, q')" "acc = take (room q) xs @ acc'"
      using Cons.prems(3) by (auto split: prod.splits)
    moreover have "length xs < 2 ^ 64" "list_all small_op ops" using Cons.prems(2) Put by auto
    ultimately show ?thesis
      using Cons.IH[of "put xs q" acc' del] Cons.prems(1) by (simp add: put_valid put_contents)
  next
    case (Get k)
    obtain ys q1 where g: "get k q = (ys, q1)" by fastforce
    then obtain del' where "queue_run room put get ops q1 = (acc, del', q')" "del = ys @ del'"
      using Cons.prems(3) Get by (auto split: prod.splits)
    moreover have k: "k < 2 ^ 64" "list_all small_op ops" using Cons.prems(2) Get by auto
    moreover have "valid q1" "ys = take k (contents q)" "contents q1 = drop k (contents q)"
      using get_valid[OF Cons.prems(1) k(1)] get_front[OF Cons.prems(1) k(1)] get_contents[OF Cons.prems(1) k(1)] g by simp_all
    ultimately show ?thesis using Cons.IH[of q1 acc del'] by (metis append.assoc append_take_drop_id)
  qed
qed

end

end
