(* ===== verification/SF_Stack_Ring.thy ===== *)
theory SF_Stack_Ring
  imports SF_Stack_Api SF_Queue
begin

text \<open>
  The circular receive buffer of a socket of the recovered network stack is a bounded queue
  of bytes.
\<close>

section \<open>Circular buffers\<close>

definition ring_contents :: "nat \<Rightarrow> bytes \<Rightarrow> nat \<Rightarrow> nat \<Rightarrow> bytes" where
  "ring_contents sz buf r c = map (\<lambda>i. buf ! ((r + i) mod sz)) [0..<c]"

lemma length_ring_contents [simp]: "length (ring_contents sz buf r c) = c"
  by (simp add: ring_contents_def)

lemma mod_distinct:
  fixes r :: nat
  assumes "i < c" "c < sz"
  shows "(r + i) mod sz \<noteq> (r + c) mod sz"
proof
  assume "(r + i) mod sz = (r + c) mod sz"
  then have "sz dvd c - i" using assms by (metis add_diff_cancel_left mod_eq_dvd_iff_nat nat_add_left_cancel_less le_simps(1) less_imp_le)
  then show False using dvd_imp_le[of sz "c - i"] assms by simp
qed

lemma ring_contents_snoc:
  assumes "c < sz" "length buf = sz"
  shows "ring_contents sz (buf[(r + c) mod sz := b]) r (Suc c) = ring_contents sz buf r c @ [b]"
proof -
  have "map (\<lambda>i. buf[(r + c) mod sz := b] ! ((r + i) mod sz)) [0..<c] = map (\<lambda>i. buf ! ((r + i) mod sz)) [0..<c]"
    using assms(1) by (intro map_cong refl nth_list_update_neq not_sym[OF mod_distinct]) auto
  moreover have "buf[(r + c) mod sz := b] ! ((r + c) mod sz) = b" using assms by simp
  ultimately show ?thesis by (simp add: ring_contents_def)
qed

lemma ring_contents_drop:
  "k \<le> c \<Longrightarrow> ring_contents sz buf ((r + k) mod sz) (c - k) = drop k (ring_contents sz buf r c)"
  by (rule nth_equalityI) (auto simp: ring_contents_def mod_add_left_eq add.assoc)

lemma ring_contents_mod: "ring_contents sz buf (r mod sz) c = ring_contents sz buf r c"
  by (simp add: ring_contents_def mod_add_left_eq)

lemma unat_step_mod:
  assumes "unat pos < unat sz" "unat sz \<le> 2 ^ 31"
  shows "unat ((pos + 1) mod sz :: u32) = (unat pos + 1) mod unat sz"
proof -
  have "unat (pos + 1) = unat pos + 1" using assms by (subst unat_add_lem[THEN iffD1]) auto
  then show ?thesis by (simp add: unat_mod)
qed

lemma ring_write_contents:
  assumes "length buf = unat sz" "unat sz \<le> 2 ^ 31" "unat pos = (r + c) mod unat sz" "c + length bs \<le> unat sz" "0 < unat sz"
    and "ring_write sz bs (buf, pos) = (buf', pos')"
  shows "length buf' = unat sz \<and> unat pos' = (r + (c + length bs)) mod unat sz \<and>
         ring_contents (unat sz) buf' r (c + length bs) = ring_contents (unat sz) buf r c @ bs"
  using assms
proof (induction bs arbitrary: buf pos c)
  case Nil
  then show ?case by simp
next
  case (Cons b bs)
  have p: "unat pos < unat sz" using Cons.prems(3,5) by simp
  have "unat ((pos + 1) mod sz) = (r + Suc c) mod unat sz"
    using unat_step_mod[OF p Cons.prems(2)] Cons.prems(3) by (simp add: mod_Suc_eq)
  then have "length buf' = unat sz \<and> unat pos' = (r + (Suc c + length bs)) mod unat sz \<and>
      ring_contents (unat sz) buf' r (Suc c + length bs) = ring_contents (unat sz) (buf[unat pos := b]) r (Suc c) @ bs"
    using Cons.prems by (intro Cons.IH[of "buf[unat pos := b]" "(pos + 1) mod sz" "Suc c"]) simp_all
  moreover have "ring_contents (unat sz) (buf[unat pos := b]) r (Suc c) = ring_contents (unat sz) buf r c @ [b]"
    using ring_contents_snoc[of c "unat sz" buf r b] Cons.prems by simp
  ultimately show ?case by simp
qed

lemma ring_read_contents:
  assumes "unat sz \<le> 2 ^ 31" "unat pos < unat sz" "ring_read sz k buf pos = (bs, pos')"
  shows "bs = ring_contents (unat sz) buf (unat pos) k \<and> unat pos' = (unat pos + k) mod unat sz"
  using assms
proof (induction k arbitrary: pos bs)
  case 0
  then show ?case by (simp add: ring_contents_def)
next
  case (Suc k)
  obtain cs where r: "ring_read sz k buf ((pos + 1) mod sz) = (cs, pos')" "bs = buf ! unat pos # cs"
    using Suc.prems(3) by (auto split: prod.splits)
  have u: "unat ((pos + 1) mod sz) = (unat pos + 1) mod unat sz" using unat_step_mod Suc.prems by blast
  have "cs = ring_contents (unat sz) buf (unat pos + 1) k" "unat pos' = (unat pos + Suc k) mod unat sz"
    using Suc.IH[OF Suc.prems(1) _ r(1)] Suc.prems(2) by (simp_all add: u ring_contents_mod mod_add_left_eq)
  moreover have "ring_contents (unat sz) buf (unat pos) (Suc k) =
      buf ! unat pos # ring_contents (unat sz) buf (unat pos + 1) k"
    using Suc.prems(2) by (simp add: ring_contents_def upt_conv_Cons map_Suc_upt[symmetric] del: upt_Suc)
  ultimately show ?case using r by simp
qed

section \<open>The receive buffer as a queue\<close>

definition rx_ok :: "Socket \<Rightarrow> bool" where
  "rx_ok s \<longleftrightarrow>
     (case sk_rx_buf s of
        None \<Rightarrow> sk_rx_count s = 0
      | Some buf \<Rightarrow> sk_rx_size s = 4096 \<and> length buf = 4096 \<and> unat (sk_rx_read_pos s) < 4096 \<and>
          unat (sk_rx_count s) \<le> 4096 \<and>
          unat (sk_rx_write_pos s) = (unat (sk_rx_read_pos s) + unat (sk_rx_count s)) mod 4096)"

definition rx_bytes :: "Socket \<Rightarrow> bytes" where
  "rx_bytes s =
     (case sk_rx_buf s of
        None \<Rightarrow> []
      | Some buf \<Rightarrow> ring_contents 4096 buf (unat (sk_rx_read_pos s)) (unat (sk_rx_count s)))"

definition rx_room :: "Socket \<Rightarrow> nat" where
  "rx_room s = (case sk_rx_buf s of None \<Rightarrow> 0 | Some buf \<Rightarrow> 4096 - unat (sk_rx_count s))"

text \<open>Writing and reading whole buffers.\<close>

definition rx_put :: "bytes \<Rightarrow> Socket \<Rightarrow> Socket" where
  "rx_put xs s = (case net_rx_buffer_write xs (of_nat (length xs)) s of Some s' \<Rightarrow> s' | None \<Rightarrow> s)"

definition rx_get :: "nat \<Rightarrow> Socket \<Rightarrow> bytes \<times> Socket" where
  "rx_get k s = net_rx_buffer_read (of_nat k) s"

text \<open>Nothing but the receive buffer differs.\<close>

definition only_rx :: "Socket \<Rightarrow> Socket \<Rightarrow> bool" where
  "only_rx s s' \<longleftrightarrow> s' = s\<lparr>sk_rx_buf := sk_rx_buf s', sk_rx_read_pos := sk_rx_read_pos s',
     sk_rx_write_pos := sk_rx_write_pos s', sk_rx_count := sk_rx_count s'\<rparr>"

lemma only_rx_refl: "only_rx s s"
  by (simp add: only_rx_def)

lemma only_rx_upd:
  "only_rx s (s\<lparr>sk_rx_buf := b, sk_rx_write_pos := p, sk_rx_count := c\<rparr>)"
  "only_rx s (s\<lparr>sk_rx_read_pos := p, sk_rx_count := c\<rparr>)"
  by (simp_all add: only_rx_def)

lemma unat_avail: "unat c \<le> 4096 \<Longrightarrow> unat (4096 - c :: u32) = 4096 - unat c"
  by (simp add: unat_sub word_le_nat_alt)

lemma unat_of_nat_small:
  "k \<le> 4096 \<Longrightarrow> unat (of_nat k :: u64) = k" "k \<le> 4096 \<Longrightarrow> unat (of_nat k :: u32) = k"
  by (simp_all add: unat_of_nat)

lemma unat_ucast_small: "unat (w :: u64) \<le> 4096 \<Longrightarrow> unat (ucast w :: u32) = unat w"
  by (simp add: unat_ucast_mod)

lemma unat_min: "unat (if a < b then a else b :: u64) = min (unat a) (unat b)"
  by (auto simp: word_less_nat_alt)

lemma rx_write_cases:
  assumes "rx_ok s" "sk_rx_buf s = Some buf" "len \<noteq> 0"
  defines "k \<equiv> min (unat len) (rx_room s)"
  assumes "ring_write 4096 (take k data) (buf, sk_rx_write_pos s) = (buf', pos)"
  shows "net_rx_buffer_write data len s =
     (if k > length data then None
      else Some (s\<lparr>sk_rx_buf := Some buf', sk_rx_write_pos := pos, sk_rx_count := sk_rx_count s + of_nat k\<rparr>))"
proof -
  define w where "w = (if len < ucast (4096 - sk_rx_count s) then len else ucast (4096 - sk_rx_count s))"
  have sz: "sk_rx_size s = 4096" "unat (sk_rx_count s) \<le> 4096" using assms(1,2) by (simp_all add: rx_ok_def)
  have w: "unat w = k" unfolding w_def k_def unat_min using sz assms(2) by (simp add: unat_avail rx_room_def)
  then have "ucast w = (of_nat k :: u32)" by (metis of_nat_unat)
  then show ?thesis
    unfolding net_rx_buffer_write_def Let_def assms(2) option.case sz(1) w_def[symmetric] w
    using assms(3,5) by simp
qed

lemma rx_write_step:
  assumes ok: "rx_ok s" and k: "min (unat len) (rx_room s) \<le> length data"
  shows "\<exists>s'. net_rx_buffer_write data len s = Some s' \<and> rx_ok s' \<and>
           rx_bytes s' = rx_bytes s @ take (min (unat len) (rx_room s)) data \<and>
           only_rx s s'"
proof (cases "sk_rx_buf s = None \<or> len = 0")
  case True
  then have "net_rx_buffer_write data len s = Some s" "take (min (unat len) (rx_room s)) data = []"
    by (auto simp: net_rx_buffer_write_def rx_room_def split: option.splits)
  then show ?thesis using ok by (simp add: only_rx_refl)
next
  case False
  then obtain buf where b: "sk_rx_buf s = Some buf" by auto
  define m where "m = min (unat len) (rx_room s)"
  obtain buf' pos where w: "ring_write 4096 (take m data) (buf, sk_rx_write_pos s) = (buf', pos)" by fastforce
  have f: "sk_rx_size s = 4096" "length buf = 4096" "unat (sk_rx_read_pos s) < 4096" "unat (sk_rx_count s) \<le> 4096"
    "unat (sk_rx_write_pos s) = (unat (sk_rx_read_pos s) + unat (sk_rx_count s)) mod 4096"
    using ok b by (simp_all add: rx_ok_def)
  have m: "unat (sk_rx_count s) + m \<le> 4096" "length (take m data) = m"
    using f(4) b k by (simp_all add: m_def rx_room_def)
  have c: "unat (sk_rx_count s + of_nat m) = unat (sk_rx_count s) + m"
    using m(1) by (simp add: unat_add_lem[THEN iffD1] unat_of_nat_small)
  have "length buf' = 4096 \<and> unat pos = (unat (sk_rx_read_pos s) + (unat (sk_rx_count s) + m)) mod 4096 \<and>
      ring_contents 4096 buf' (unat (sk_rx_read_pos s)) (unat (sk_rx_count s) + m) =
      ring_contents 4096 buf (unat (sk_rx_read_pos s)) (unat (sk_rx_count s)) @ take m data"
    using ring_write_contents[of buf 4096 "sk_rx_write_pos s" "unat (sk_rx_read_pos s)" "unat (sk_rx_count s)" "take m data", OF _ _ _ _ _ w]
      f m by simp
  moreover have "net_rx_buffer_write data len s =
      Some (s\<lparr>sk_rx_buf := Some buf', sk_rx_write_pos := pos, sk_rx_count := sk_rx_count s + of_nat m\<rparr>)"
    using rx_write_cases[OF ok b, of len data buf' pos, folded m_def, OF _ w] False k[folded m_def] by simp
  ultimately show ?thesis using f m b c by (simp add: rx_ok_def rx_bytes_def m_def[symmetric] only_rx_upd)
qed

lemma rx_read_step:
  assumes ok: "rx_ok s"
  shows "fst (net_rx_buffer_read len s) = take (unat len) (rx_bytes s) \<and>
         rx_bytes (snd (net_rx_buffer_read len s)) = drop (unat len) (rx_bytes s) \<and>
         rx_ok (snd (net_rx_buffer_read len s)) \<and>
         only_rx s (snd (net_rx_buffer_read len s))"
proof (cases "sk_rx_buf s = None \<or> sk_rx_count s = 0")
  case True
  then have "net_rx_buffer_read len s = ([], s)" "rx_bytes s = []"
    by (auto simp: net_rx_buffer_read_def rx_bytes_def ring_contents_def split: option.splits)
  then show ?thesis using ok by (simp add: only_rx_refl)
next
  case False
  then obtain buf where b: "sk_rx_buf s = Some buf" by auto
  define w where "w = (if len < ucast (sk_rx_count s) then len else ucast (sk_rx_count s))"
  have f: "sk_rx_size s = 4096" "length buf = 4096" "unat (sk_rx_read_pos s) < 4096" "unat (sk_rx_count s) \<le> 4096"
    "unat (sk_rx_write_pos s) = (unat (sk_rx_read_pos s) + unat (sk_rx_count s)) mod 4096"
    using ok b by (simp_all add: rx_ok_def)
  have w: "unat w = min (unat len) (unat (sk_rx_count s))" unfolding w_def unat_min by (simp add: unat_ucast_up)
  obtain bs pos where r: "ring_read 4096 (unat w) buf (sk_rx_read_pos s) = (bs, pos)" by fastforce
  have bs: "bs = ring_contents 4096 buf (unat (sk_rx_read_pos s)) (unat w)" "unat pos = (unat (sk_rx_read_pos s) + unat w) mod 4096"
    using ring_read_contents[of 4096 "sk_rx_read_pos s" "unat w" buf bs pos] r f by simp_all
  have c: "unat (sk_rx_count s - ucast w) = unat (sk_rx_count s) - unat w"
    using w f(4) by (simp add: unat_sub word_le_nat_alt unat_ucast_small)
  have e: "net_rx_buffer_read len s = (bs, s\<lparr>sk_rx_read_pos := pos, sk_rx_count := sk_rx_count s - ucast w\<rparr>)"
    unfolding net_rx_buffer_read_def Let_def b option.case f(1) w_def[symmetric] using False r b by simp
  have "ring_contents 4096 buf (unat pos) (unat (sk_rx_count s) - unat w) = drop (unat len) (rx_bytes s)"
    using ring_contents_drop[of "unat w" "unat (sk_rx_count s)" 4096 buf "unat (sk_rx_read_pos s)"] w b
    by (auto simp: bs(2) rx_bytes_def min_def)
  moreover have "bs = take (unat len) (rx_bytes s)"
    using w b by (auto simp: bs(1) rx_bytes_def ring_contents_def take_map min_def)
  moreover have "unat w \<le> unat (sk_rx_count s)" using w by simp
  then have "(unat pos + (unat (sk_rx_count s) - unat w)) mod 4096 = unat (sk_rx_write_pos s)"
    unfolding bs(2) mod_add_left_eq f(5) by simp
  moreover have "unat pos < 4096" "unat (sk_rx_count s) - unat w \<le> 4096" using f(4) by (simp_all add: bs(2))
  ultimately show ?thesis using b f c by (simp add: e rx_ok_def rx_bytes_def only_rx_upd)
qed

lemma rx_room_le: "rx_room s \<le> 4096"
  by (simp add: rx_room_def split: option.splits)

lemma rx_put_eq:
  assumes "rx_ok s" "length xs < 2 ^ 64"
  shows "net_rx_buffer_write xs (of_nat (length xs)) s = Some (rx_put xs s)" "rx_ok (rx_put xs s)"
    "rx_bytes (rx_put xs s) = rx_bytes s @ take (rx_room s) xs"
proof -
  have u: "unat (of_nat (length xs) :: u64) = length xs" using assms(2) by (simp add: unat_of_nat)
  obtain s' where w: "net_rx_buffer_write xs (of_nat (length xs)) s = Some s'" "rx_ok s'"
      "rx_bytes s' = rx_bytes s @ take (min (length xs) (rx_room s)) xs"
    using rx_write_step[OF assms(1), of "of_nat (length xs)" xs] by (auto simp: u)
  then show "net_rx_buffer_write xs (of_nat (length xs)) s = Some (rx_put xs s)" "rx_ok (rx_put xs s)"
    "rx_bytes (rx_put xs s) = rx_bytes s @ take (rx_room s) xs"
    by (simp_all add: rx_put_def min_def)
qed

interpretation rxq: bounded_queue rx_ok rx_bytes rx_room rx_put rx_get
  by unfold_locales
    (simp_all add: rx_put_eq rx_get_def rx_read_step unat_of_nat)

end
