(* ===== verification/SF_Stack_Inv.thy ===== *)
theory SF_Stack_Inv
  imports SF_Stack_Ring
begin

text \<open>
  What every call and every received packet keeps of the sockets of the recovered network
  stack: circular buffers whose positions agree with their counts, retransmission timeouts
  within their bounds, unacknowledged segments that fit a packet and a backlog that fits its
  array.  The invariant is that of internet sockets: no slot is a local (AF_UNIX) one, whose
  code is not part of the sources.  It holds for any depth of nested loopback delivery.
\<close>

section \<open>The invariant\<close>

definition tx_ok :: "Socket \<Rightarrow> bool" where
  "tx_ok s \<longleftrightarrow>
     (case sk_tx_buf s of
        None \<Rightarrow> True
      | Some buf \<Rightarrow> sk_tx_size s = 4096 \<and> length buf = 4096 \<and> unat (sk_tx_count s) \<le> 4096 \<and>
          unat (sk_tx_write_pos s) = unat (sk_tx_count s) mod 4096)"

definition seg_ok :: "Tcp_Seg \<Rightarrow> bool" where
  "seg_ok g \<longleftrightarrow> length (sg_data g) \<le> 1460 \<and> sg_len g = of_nat (length (sg_data g))"

definition rto_ok :: "Socket \<Rightarrow> bool" where
  "rto_ok s \<longleftrightarrow> (sk_type s = SOCK_STREAM \<longrightarrow> TCP_RTO_MIN \<le> sk_rto s \<and> sk_rto s \<le> TCP_RTO_MAX)"

definition sock_inv :: "Socket \<Rightarrow> bool" where
  "sock_inv s \<longleftrightarrow> rx_ok s \<and> tx_ok s \<and> rto_ok s \<and> length (sk_pending s) \<le> NET_TCP_BACKLOG \<and>
     list_all seg_ok (sk_unacked s) \<and> sk_domain s \<noteq> AF_UNIX"

definition net_inv :: "Net \<Rightarrow> bool" where
  "net_inv n \<longleftrightarrow> (\<forall>i. sock_inv (nt_sockets n i))"

text \<open>Outcomes that keep the invariant if there is one.\<close>

definition keeps :: "Net option \<Rightarrow> bool" where
  "keeps r \<longleftrightarrow> (case r of None \<Rightarrow> True | Some n \<Rightarrow> net_inv n)"

definition keeps_ret :: "('a \<times> Net) option \<Rightarrow> bool" where
  "keeps_ret r \<longleftrightarrow> (case r of None \<Rightarrow> True | Some (_, n) \<Rightarrow> net_inv n)"

definition tx_keeps :: "tx \<Rightarrow> bool" where
  "tx_keeps tx \<longleftrightarrow> (\<forall>p d n. net_inv n \<longrightarrow> keeps (tx p d n))"

text \<open>What is asked of the code that is not part of the sources: the allocator returns blocks of
  the size asked for, and the delay \<^verbatim>\<open>hal_io_wait\<close> changes no socket (it may let the clock and the
  address cache move on).\<close>

definition env_ok :: "Env \<Rightarrow> bool" where
  "env_ok env \<longleftrightarrow>
     (\<forall>n k b. ev_kmalloc env n k = Some b \<longrightarrow> length b = k) \<and>
     (\<forall>n. nt_sockets (ev_wait env n) = nt_sockets n)"

named_theorems net_intros
named_theorems sock_simps

lemma sock_inv_zero [simp]: "sock_inv zero_socket"
  by (simp add: sock_inv_def rx_ok_def tx_ok_def rto_ok_def zero_socket_def SOCK_STREAM_def AF_UNIX_def)

lemma net_inv_sock: "net_inv n \<Longrightarrow> sock_inv (nt_sockets n i)"
  by (simp add: net_inv_def)

lemma net_inv_inet: "net_inv n \<Longrightarrow> sk_domain (nt_sockets n i) \<noteq> AF_UNIX"
  by (simp add: net_inv_def sock_inv_def)

lemma net_inv_upd [net_intros]:
  "net_inv n \<Longrightarrow> (sock_inv (nt_sockets n i) \<Longrightarrow> sock_inv (f (nt_sockets n i))) \<Longrightarrow> net_inv (upd_socket i f n)"
  by (simp add: net_inv_def upd_socket_def)

lemma net_inv_fields [simp]:
  "net_inv (n\<lparr>nt_used := a\<rparr>) = net_inv n" "net_inv (n\<lparr>nt_next_port := b\<rparr>) = net_inv n"
  "net_inv (n\<lparr>nt_arp := c\<rparr>) = net_inv n" "net_inv (n\<lparr>nt_ping := d\<rparr>) = net_inv n"
  "net_inv (n\<lparr>nt_wire := e\<rparr>) = net_inv n" "net_inv (n\<lparr>nt_allocs := f\<rparr>) = net_inv n"
  "net_inv (n\<lparr>nt_fds := g\<rparr>) = net_inv n" "net_inv (n\<lparr>nt_ms := ms\<rparr>) = net_inv n"
  "net_inv (n\<lparr>nt_local_ip := ip\<rparr>) = net_inv n" "net_inv (n\<lparr>nt_gateway_ip := ip\<rparr>) = net_inv n"
  "net_inv (n\<lparr>nt_netmask := ip\<rparr>) = net_inv n"
  by (simp_all add: net_inv_def)

lemma keeps_simps [simp]: "keeps None" "keeps (Some n) = net_inv n" "keeps_ret None" "keeps_ret (Some (v, n)) = net_inv n"
  by (simp_all add: keeps_def keeps_ret_def)

lemma keeps_map [net_intros]:
  "keeps r \<Longrightarrow> (\<And>n. net_inv n \<Longrightarrow> net_inv (f n)) \<Longrightarrow> keeps (map_option f r)"
  by (cases r) simp_all

lemma keeps_bind [net_intros]:
  "keeps r \<Longrightarrow> (\<And>n. net_inv n \<Longrightarrow> keeps (f n)) \<Longrightarrow> keeps (r \<bind> f)"
  by (cases r) simp_all

lemma keeps_ret_map [net_intros]:
  "keeps r \<Longrightarrow> keeps_ret (map_option (\<lambda>n. (v, n)) r)"
  by (cases r) simp_all

lemma keeps_tx [net_intros]: "tx_keeps tx \<Longrightarrow> net_inv n \<Longrightarrow> keeps (tx p d n)"
  by (simp add: tx_keeps_def)

section \<open>Updates of one socket\<close>

text \<open>The fields the invariant does not look at.\<close>

lemma sock_inv_fields [simp]:
  "sock_inv (s\<lparr>sk_fd := i\<rparr>) = sock_inv s" "sock_inv (s\<lparr>sk_state := st\<rparr>) = sock_inv s"
  "sock_inv (s\<lparr>sk_local_ip := w\<rparr>) = sock_inv s" "sock_inv (s\<lparr>sk_local_port := p\<rparr>) = sock_inv s"
  "sock_inv (s\<lparr>sk_remote_ip := w\<rparr>) = sock_inv s" "sock_inv (s\<lparr>sk_remote_port := p\<rparr>) = sock_inv s"
  "sock_inv (s\<lparr>sk_seq_num := w\<rparr>) = sock_inv s" "sock_inv (s\<lparr>sk_ack_num := w\<rparr>) = sock_inv s"
  "sock_inv (s\<lparr>sk_remote_seq := w\<rparr>) = sock_inv s" "sock_inv (s\<lparr>sk_cwnd := w\<rparr>) = sock_inv s"
  "sock_inv (s\<lparr>sk_ssthresh := w\<rparr>) = sock_inv s" "sock_inv (s\<lparr>sk_srtt := w\<rparr>) = sock_inv s"
  "sock_inv (s\<lparr>sk_rttvar := w\<rparr>) = sock_inv s" "sock_inv (s\<lparr>sk_retransmit_timer := t\<rparr>) = sock_inv s"
  "sock_inv (s\<lparr>sk_dup_ack_count := w\<rparr>) = sock_inv s" "sock_inv (s\<lparr>sk_bytes_in_flight := w\<rparr>) = sock_inv s"
  "sock_inv (s\<lparr>sk_last_ack_sent := w\<rparr>) = sock_inv s" "sock_inv (s\<lparr>sk_congestion_state := c\<rparr>) = sock_inv s"
  "sock_inv (s\<lparr>sk_time_wait_expire := t\<rparr>) = sock_inv s" "sock_inv (s\<lparr>sk_retransmit_count := w\<rparr>) = sock_inv s"
  "sock_inv (s\<lparr>sk_listen_parent := lp\<rparr>) = sock_inv s"
  by (simp_all add: sock_inv_def rx_ok_def tx_ok_def rto_ok_def cong: option.case_cong)

lemma sock_inv_rto: "sock_inv s \<Longrightarrow> TCP_RTO_MIN \<le> r \<Longrightarrow> r \<le> TCP_RTO_MAX \<Longrightarrow> sock_inv (s\<lparr>sk_rto := r\<rparr>)"
  by (simp add: sock_inv_def rx_ok_def tx_ok_def rto_ok_def cong: option.case_cong)

lemma sock_inv_unacked: "sock_inv s \<Longrightarrow> list_all seg_ok gs \<Longrightarrow> sock_inv (s\<lparr>sk_unacked := gs\<rparr>)"
  by (simp add: sock_inv_def rx_ok_def tx_ok_def rto_ok_def cong: option.case_cong)

lemma sock_inv_pending: "sock_inv s \<Longrightarrow> length ps \<le> NET_TCP_BACKLOG \<Longrightarrow> sock_inv (s\<lparr>sk_pending := ps\<rparr>)"
  by (simp add: sock_inv_def rx_ok_def tx_ok_def rto_ok_def cong: option.case_cong)

lemma sock_inv_only_rx:
  assumes "sock_inv s" "rx_ok s'" "only_rx s s'"
  shows "sock_inv s'"
proof -
  have "s' = s\<lparr>sk_rx_buf := sk_rx_buf s', sk_rx_read_pos := sk_rx_read_pos s',
     sk_rx_write_pos := sk_rx_write_pos s', sk_rx_count := sk_rx_count s'\<rparr>" using assms(3) by (simp only: only_rx_def)
  then obtain b r w c where e: "s' = s\<lparr>sk_rx_buf := b, sk_rx_read_pos := r, sk_rx_write_pos := w, sk_rx_count := c\<rparr>" by blast
  show ?thesis using assms(1,2) unfolding e sock_inv_def tx_ok_def rto_ok_def by (simp cong: option.case_cong)
qed

lemma clamp_bounds: "TCP_RTO_MIN \<le> tcp_clamp_rto r" "tcp_clamp_rto r \<le> TCP_RTO_MAX"
  by (auto simp: tcp_clamp_rto_def Let_def TCP_RTO_MIN_def TCP_RTO_MAX_def not_less)

lemma double_rto:
  assumes "TCP_RTO_MIN \<le> r" "r \<le> TCP_RTO_MAX"
  shows "TCP_RTO_MIN \<le> (if r * 2 > TCP_RTO_MAX then TCP_RTO_MAX else r * 2)"
proof -
  have "unat (r * 2) = unat r * 2"
    using assms(2) by (subst unat_mult_lem[THEN iffD1]) (simp_all add: TCP_RTO_MAX_def word_le_nat_alt)
  then show ?thesis using assms by (simp add: TCP_RTO_MIN_def TCP_RTO_MAX_def word_le_nat_alt)
qed

lemma const_rto: "TCP_RTO_MIN \<le> TCP_RTO_INIT" "TCP_RTO_INIT \<le> TCP_RTO_MAX" "TCP_RTO_MIN \<le> 1000" "1000 \<le> TCP_RTO_MAX"
  by (simp_all add: TCP_RTO_MIN_def TCP_RTO_MAX_def TCP_RTO_INIT_def)

lemma tcp_back_off_inv: "sock_inv s \<Longrightarrow> sk_type s = SOCK_STREAM \<Longrightarrow> sock_inv (tcp_back_off s)"
proof -
  assume i: "sock_inv s" and t: "sk_type s = SOCK_STREAM"
  then have r: "TCP_RTO_MIN \<le> sk_rto s" "sk_rto s \<le> TCP_RTO_MAX" by (simp_all add: sock_inv_def rto_ok_def)
  have "sock_inv (s\<lparr>sk_rto := if sk_rto s * 2 > TCP_RTO_MAX then TCP_RTO_MAX else sk_rto s * 2\<rparr>)"
    by (rule sock_inv_rto[OF i double_rto[OF r]]) (simp add: not_less)
  then show ?thesis by (simp add: tcp_back_off_def)
qed

lemma tcp_sent_inv [simp]: "sock_inv (tcp_sent ms flags len s) = sock_inv s"
  by (simp add: tcp_sent_def)

lemma tcp_unacked_free_inv: "sock_inv s \<Longrightarrow> sock_inv (tcp_unacked_free s)"
  by (simp add: tcp_unacked_free_def sock_inv_unacked)

lemma tcp_unacked_ack_inv: "sock_inv s \<Longrightarrow> sock_inv (tcp_unacked_ack ack s)"
  unfolding tcp_unacked_ack_def
  by (rule sock_inv_unacked) (auto simp: sock_inv_def list_all_iff dest: set_dropWhileD)

lemma tcp_update_rtt_inv: "sock_inv s \<Longrightarrow> tcp_update_rtt rtt s = Some s' \<Longrightarrow> sock_inv s'"
  by (auto simp: tcp_update_rtt_def Let_def clamp_bounds sock_inv_rto split: if_splits)

lemma tcp_congestion_inv [simp]: "sock_inv (tcp_congestion ack b s) = sock_inv s"
  by (simp add: tcp_congestion_def Let_def split: congestion.splits)

lemma tcp_recalc_inv [simp]: "sock_inv (tcp_recalc_in_flight s) = sock_inv s"
  by (simp add: tcp_recalc_in_flight_def)

lemma tcp_new_ack_inv: "sock_inv s \<Longrightarrow> tcp_new_ack ms ack s = Some s' \<Longrightarrow> sock_inv s'"
proof -
  assume i: "sock_inv s" and a: "tcp_new_ack ms ack s = Some s'"
  define r where "r = (case sk_unacked s of [] \<Rightarrow> Some s
     | g # _ \<Rightarrow> if ack \<ge> sg_seq g + sg_len g then tcp_update_rtt (ucast (ms - sg_send_time g)) s else Some s)"
  obtain s1 where s1: "r = Some s1" using a by (cases r) (simp_all add: tcp_new_ack_def r_def[symmetric])
  then have "sock_inv s1" using i tcp_update_rtt_inv[OF i] by (auto simp: r_def split: list.splits if_splits)
  then have "sock_inv (tcp_unacked_ack ack s1)" by (rule tcp_unacked_ack_inv)
  then show ?thesis using a by (simp only: tcp_new_ack_def r_def[symmetric] s1 Let_def bind.bind_lunit option.inject) (auto simp only: tcp_congestion_inv tcp_recalc_inv sock_inv_fields)
qed

lemma tcp_fast_retransmit_inv [simp]: "sock_inv (tcp_fast_retransmit s) = sock_inv s"
  by (simp add: tcp_fast_retransmit_def)

lemma tcp_time_wait_expiry_inv: "sock_inv s \<Longrightarrow> sock_inv (tcp_time_wait_expiry now s)"
  by (simp add: tcp_time_wait_expiry_def tcp_unacked_free_inv)

lemma rx_write_inv: "sock_inv s \<Longrightarrow> net_rx_buffer_write data len s = Some s' \<Longrightarrow> sock_inv s'"
proof -
  assume i: "sock_inv s" and w: "net_rx_buffer_write data len s = Some s'"
  then have ok: "rx_ok s" by (simp add: sock_inv_def)
  show "sock_inv s'"
  proof (cases "min (unat len) (rx_room s) \<le> length data")
    case True
    then show ?thesis using rx_write_step[OF ok True] w i by (auto intro: sock_inv_only_rx)
  next
    case False
    then have l: "len \<noteq> 0" by auto
    from False obtain buf where b: "sk_rx_buf s = Some buf" by (auto simp: rx_room_def split: option.splits)
    obtain buf' pos where "ring_write 4096 (take (min (unat len) (rx_room s)) data) (buf, sk_rx_write_pos s) = (buf', pos)" by fastforce
    from rx_write_cases[OF ok b l this] have "net_rx_buffer_write data len s = None" using False by (simp only: not_le if_True)
    then show ?thesis using w by simp
  qed
qed

lemma rx_read_inv: "sock_inv s \<Longrightarrow> net_rx_buffer_read len s = (bs, s') \<Longrightarrow> sock_inv s'"
  using rx_read_step[of s len] sock_inv_only_rx[of s s'] by (simp add: sock_inv_def)

section \<open>Tables and the allocator\<close>

lemma kmalloc_sockets: "kmalloc env k n = (b, n') \<Longrightarrow> nt_sockets n' = nt_sockets n"
  by (auto simp: kmalloc_def)

lemma kmalloc_inv: "kmalloc env k n = (b, n') \<Longrightarrow> net_inv n' = net_inv n"
  by (auto simp: kmalloc_def)

lemma kmalloc_length: "env_ok env \<Longrightarrow> kmalloc env k n = (Some b, n') \<Longrightarrow> length b = k"
  by (auto simp: kmalloc_def env_ok_def)

lemma alloc_slot_inv: "net_alloc_socket_slot n = (r, n') \<Longrightarrow> net_inv n' = net_inv n"
  by (auto simp: net_alloc_socket_slot_def split: option.splits)

lemma free_slot_inv: "net_inv n \<Longrightarrow> net_inv (net_free_socket_slot i n)"
proof -
  assume n: "net_inv n"
  have d: "sock_inv s \<Longrightarrow> sock_inv (drop_pending i s)" for s
    unfolding drop_pending_def
    by (rule sock_inv_pending, assumption) (auto simp: sock_inv_def length_remove1)
  have "net_inv (upd_socket p (drop_pending i) n)" for p using n by (intro net_inv_upd d)
  then have z: "net_inv (case sk_listen_parent (nt_sockets n i) of Some p \<Rightarrow> upd_socket p (drop_pending i) n | None \<Rightarrow> n)"
    using n by (simp split: option.split)
  have "net_inv m \<Longrightarrow> net_inv (m\<lparr>nt_sockets := (nt_sockets m)(i := zero_socket), nt_used := (nt_used m)(i := False)\<rparr>)" for m
    by (simp add: net_inv_def)
  then show ?thesis using n z by (simp add: net_free_socket_slot_def Let_def)
qed

lemma alloc_port_loop_inv: "alloc_port_loop k n = (p, n') \<Longrightarrow> net_inv n' = net_inv n"
  by (induction k n rule: alloc_port_loop.induct) (auto simp: Let_def split: if_splits)

lemma alloc_port_inv: "net_alloc_port n = (p, n') \<Longrightarrow> net_inv n' = net_inv n"
  unfolding net_alloc_port_def by (rule alloc_port_loop_inv)

section \<open>TCP\<close>

lemma unacked_add_inv:
  assumes "net_inv n" "length data \<le> 1460"
  shows "net_inv (tcp_unacked_add env i sq data n)"
proof -
  have "sock_inv s \<Longrightarrow> sock_inv (s\<lparr>sk_unacked := sk_unacked s @ [\<lparr>sg_seq = sq, sg_len = of_nat (length data),
      sg_data = data, sg_send_time = t, sg_retries = 0\<rparr>]\<rparr>)" for s t
    using assms(2) by (intro sock_inv_unacked) (auto simp: sock_inv_def seg_ok_def)
  then show ?thesis using assms(1)
    by (auto simp: tcp_unacked_add_def kmalloc_inv intro!: net_inv_upd split: prod.splits option.splits)
qed

lemma send_packet_keeps:
  assumes "tx_keeps tx" "net_inv n" "length data \<le> 1460"
  shows "keeps (net_tcp_send_packet env tx i flags data n)"
  using assms unacked_add_inv[OF assms(2,3)]
  by (auto simp: net_tcp_send_packet_def Let_def intro!: keeps_tx net_inv_upd)

lemma send_empty_keeps:
  "tx_keeps tx \<Longrightarrow> net_inv n \<Longrightarrow> keeps (net_tcp_send_packet env tx i flags [] n)"
  by (simp add: send_packet_keeps)

lemma send_ack_keeps: "tx_keeps tx \<Longrightarrow> net_inv n \<Longrightarrow> keeps (tcp_send_ack env tx i n)"
  by (simp add: tcp_send_ack_def send_packet_keeps)

lemma seq_inv [simp]:
  "net_inv n \<Longrightarrow> net_inv (expect_seq i q n)" "net_inv n \<Longrightarrow> net_inv (ack_seq i q n)"
  "net_inv n \<Longrightarrow> net_inv (set_tcp_state i st n)" "net_inv n \<Longrightarrow> net_inv (tcp_time_wait i n)"
  by (auto simp: expect_seq_def ack_seq_def set_tcp_state_def tcp_time_wait_def intro!: net_inv_upd)

lemma unacked_hd: "net_inv n \<Longrightarrow> sk_unacked (nt_sockets n i) = g # gs \<Longrightarrow> length (sg_data g) \<le> 1460"
  using net_inv_sock[of n i] by (simp add: sock_inv_def seg_ok_def)

lemma child_inv_env:
  assumes "env_ok env" "kmalloc env NET_RX_BUF_SIZE n = (rx, n1)" "kmalloc env NET_TX_BUF_SIZE n1 = (tb, n2)" "sock_inv c"
  shows "sock_inv (child_socket fd p g isn rx tb c)"
proof -
  have "rx = Some b \<Longrightarrow> length b = 4096" "tb = Some b \<Longrightarrow> length b = 4096" for b
    using kmalloc_length[OF assms(1)] assms(2,3) by (auto simp: NET_RX_BUF_SIZE_def NET_TX_BUF_SIZE_def)
  then show ?thesis using assms(4)
    by (cases rx; cases tb)
      (simp_all add: sock_inv_def rx_ok_def tx_ok_def rto_ok_def child_socket_def const_rto NET_RX_BUF_SIZE_def NET_TX_BUF_SIZE_def
        AF_INET_def AF_UNIX_def)
qed

lemma rx_syn_keeps:
  assumes "env_ok env" "tx_keeps tx" "net_inv n"
  shows "keeps (tcp_rx_syn env tx p g n)"
proof (cases "length (sk_pending (nt_sockets n p)) \<ge> NET_TCP_BACKLOG")
  case True
  then show ?thesis using assms(3) by (simp add: tcp_rx_syn_def)
next
  case False
  obtain r n1 where a: "net_alloc_socket_slot n = (r, n1)" by fastforce
  have n1: "net_inv n1" "nt_sockets n1 = nt_sockets n"
    using alloc_slot_inv[OF a] assms(3) a by (auto simp: net_alloc_socket_slot_def split: option.splits)
  show ?thesis
  proof (cases "\<exists>fd c. r = Some fd \<and> net_get_socket n1 (int fd) = Some c")
    case False2: False
    then show ?thesis using a False n1(1) by (auto simp: tcp_rx_syn_def split: option.splits)
  next
    case True
    then obtain fd c where c: "r = Some fd" "net_get_socket n1 (int fd) = Some c" by blast
    obtain rx n2 where k1: "kmalloc env NET_RX_BUF_SIZE n1 = (rx, n2)" by fastforce
    obtain tb n3 where k2: "kmalloc env NET_TX_BUF_SIZE n2 = (tb, n3)" by fastforce
    define isn where "isn = nt_initial_seq n1 + net_random n1"
    define m where "m = upd_socket c (child_socket fd p g isn rx tb) n3"
    have n3: "net_inv n3" "nt_sockets n3 = nt_sockets n"
      using kmalloc_inv[OF k1] kmalloc_inv[OF k2] kmalloc_sockets[OF k1] kmalloc_sockets[OF k2] n1 by simp_all
    have m: "net_inv m" unfolding m_def
      using child_inv_env[OF assms(1) k1 k2] n3(1) by (intro net_inv_upd)
    have "length (sk_pending (nt_sockets m p)) < NET_TCP_BACKLOG"
      using False n3(2) by (auto simp: m_def upd_socket_def child_socket_def)
    then have "net_inv (upd_socket p (\<lambda>s. s\<lparr>sk_pending := sk_pending s @ [c]\<rparr>) m)"
      using m by (intro net_inv_upd sock_inv_pending) simp_all
    then have "keeps (net_tcp_send_packet env tx c (TCP_SYN OR TCP_ACK) []
        (upd_socket p (\<lambda>s. s\<lparr>sk_pending := sk_pending s @ [c]\<rparr>) m))"
      using assms(2) by (intro send_empty_keeps)
    then show ?thesis using False a c k1 k2 m free_slot_inv[OF m]
      by (simp add: tcp_rx_syn_def Let_def isn_def[symmetric] m_def[symmetric])
  qed
qed

lemma rx_unmatched_keeps:
  "env_ok env \<Longrightarrow> tx_keeps tx \<Longrightarrow> net_inv n \<Longrightarrow> keeps (tcp_rx_unmatched env tx g n)"
  by (simp add: tcp_rx_unmatched_def tcp_send_rst_def keeps_tx rx_syn_keeps split: option.splits)

lemma dup_ack_keeps:
  assumes "tx_keeps tx" "net_inv n"
  shows "keeps (tcp_dup_ack env tx i n)"
proof -
  define n1 where "n1 = upd_socket i (\<lambda>s. s\<lparr>sk_dup_ack_count := sk_dup_ack_count s + 1\<rparr>) n"
  have n1: "net_inv n1" unfolding n1_def using assms(2) by (intro net_inv_upd) simp_all
  have n2: "net_inv (upd_socket i tcp_fast_retransmit n1)" using n1 by (intro net_inv_upd) simp_all
  have "keeps (map_option (upd_socket i (\<lambda>t. t\<lparr>sk_seq_num := v\<rparr>))
      (net_tcp_send_packet env tx i fl (sg_data g) (upd_socket i (\<lambda>t. t\<lparr>sk_seq_num := sg_seq g\<rparr>) (upd_socket i tcp_fast_retransmit n1))))"
    if "sk_unacked (nt_sockets n1 i) = g # gs" for g gs fl v
    using assms(1) n1 n2 unacked_hd[OF n1 that] by (intro keeps_map send_packet_keeps net_inv_upd) auto
  then show ?thesis
    unfolding tcp_dup_ack_def Let_def n1_def[symmetric] using n1 n2
    by (auto intro!: net_inv_upd split: list.splits)
qed

lemma rx_ack_keeps: "tx_keeps tx \<Longrightarrow> net_inv n \<Longrightarrow> keeps (tcp_rx_ack env tx i ack n)"
proof -
  assume tx: "tx_keeps tx" and n: "net_inv n"
  have "keeps (map_option (\<lambda>s'. upd_socket i (\<lambda>_. s') n) (tcp_new_ack (nt_ms n) ack (nt_sockets n i)))"
  proof (cases "tcp_new_ack (nt_ms n) ack (nt_sockets n i)")
    case (Some s')
    then have "sock_inv s'" by (rule tcp_new_ack_inv[OF net_inv_sock[OF n]])
    then show ?thesis using n Some by (simp add: net_inv_upd)
  qed simp
  then show ?thesis using n dup_ack_keeps[OF tx n] by (simp add: tcp_rx_ack_def Let_def)
qed

lemma deliver_keeps:
  assumes "tx_keeps tx" "net_inv n"
  shows "keeps (tcp_deliver env tx i q payload len n)"
proof (cases "net_rx_buffer_write payload len (nt_sockets n i)")
  case (Some s')
  then have "sock_inv s'" by (rule rx_write_inv[OF net_inv_sock[OF assms(2)]])
  then have "net_inv (upd_socket i (\<lambda>_. s') n)" using assms(2) by (intro net_inv_upd)
  then show ?thesis using assms(1) Some by (simp add: tcp_deliver_def send_ack_keeps)
qed (simp add: tcp_deliver_def)

lemma rx_data_keeps: "tx_keeps tx \<Longrightarrow> net_inv n \<Longrightarrow> keeps (tcp_rx_data env tx i q payload len n)"
  by (simp add: tcp_rx_data_def Let_def deliver_keeps send_ack_keeps)

lemma closed_inv:
  "net_inv n \<Longrightarrow> net_inv (upd_socket i (\<lambda>s. tcp_unacked_free (s\<lparr>sk_state := st\<rparr>)) n)"
  by (intro net_inv_upd tcp_unacked_free_inv) simp_all

lemma rx_established_keeps:
  "tx_keeps tx \<Longrightarrow> net_inv n \<Longrightarrow> keeps (tcp_rx_established env tx i g payload len n)"
  unfolding tcp_rx_established_def
  by (auto simp: closed_inv intro!: keeps_bind keeps_map rx_ack_keeps rx_data_keeps send_ack_keeps)

lemma rx_syn_sent_keeps: "tx_keeps tx \<Longrightarrow> net_inv n \<Longrightarrow> keeps (tcp_rx_syn_sent env tx i g n)"
  unfolding tcp_rx_syn_sent_def
  by (auto simp: const_rto intro!: keeps_map send_ack_keeps net_inv_upd sock_inv_rto)

lemma rx_fin_wait_keeps:
  "tx_keeps tx \<Longrightarrow> net_inv n \<Longrightarrow> keeps (tcp_rx_fin_wait_1 env tx i g n)"
  "tx_keeps tx \<Longrightarrow> net_inv n \<Longrightarrow> keeps (tcp_rx_fin_wait_2 env tx i g payload len n)"
  unfolding tcp_rx_fin_wait_1_def tcp_rx_fin_wait_2_def
  by (auto intro!: keeps_bind keeps_map send_ack_keeps deliver_keeps)

lemma rx_state_keeps:
  assumes "tx_keeps tx" "net_inv n"
  shows "keeps (tcp_rx_state env tx i g payload len n)"
  using assms closed_inv[OF assms(2)]
  by (auto simp: tcp_rx_state_def rx_established_keeps rx_syn_sent_keeps rx_fin_wait_keeps send_ack_keeps
      intro!: net_inv_upd split: tcp_state.splits)

lemma tcp_rx_keeps:
  "env_ok env \<Longrightarrow> tx_keeps tx \<Longrightarrow> net_inv n \<Longrightarrow> keeps (net_tcp_rx env tx ip seg len n)"
  by (simp add: net_tcp_rx_def Let_def rx_unmatched_keeps rx_state_keeps split: option.splits)

section \<open>Timers, datagrams and the loopback knot\<close>

lemma resend_keeps:
  assumes "tx_keeps tx" "net_inv n"
  shows "keeps (tcp_resend tx i g n)"
proof -
  have "net_inv (upd_socket i (\<lambda>s. s\<lparr>sk_seq_num := sg_seq g\<rparr>) n)" using assms(2) by (intro net_inv_upd) simp_all
  then have "keeps (map_option (upd_socket i (\<lambda>s. s\<lparr>sk_seq_num := v\<rparr>)) (tx p d (upd_socket i (\<lambda>s. s\<lparr>sk_seq_num := sg_seq g\<rparr>) n)))" for v p d
    by (rule keeps_map[OF keeps_tx[OF assms(1)]]) (rule net_inv_upd, simp_all)
  then show ?thesis by (simp add: tcp_resend_def Let_def)
qed

lemma retransmit_timeout_keeps:
  assumes "tx_keeps tx" "net_inv n" "sk_type (nt_sockets n i) = SOCK_STREAM"
  shows "keeps (tcp_retransmit_timeout tx now i n)"
proof -
  define n1 where "n1 = upd_socket i (\<lambda>s. s\<lparr>sk_retransmit_count := sk_retransmit_count s + 1\<rparr>) n"
  have n1: "net_inv n1" unfolding n1_def using assms(2) by (intro net_inv_upd) simp_all
  have "sk_type (nt_sockets n1 i) = SOCK_STREAM" using assms(3) by (simp add: n1_def upd_socket_def)
  then have n2: "net_inv (upd_socket i tcp_back_off n1)" using n1 by (intro net_inv_upd tcp_back_off_inv)
  have n3: "net_inv (upd_socket i (\<lambda>s. (tcp_unacked_free (s\<lparr>sk_state := TCP_CLOSED\<rparr>))\<lparr>sk_retransmit_timer := 0\<rparr>) n1)"
    using n1 by (intro net_inv_upd) (simp_all add: tcp_unacked_free_inv)
  have "keeps (map_option (upd_socket i (\<lambda>s. s\<lparr>sk_retransmit_timer := now + ucast (sk_rto s)\<rparr>))
      (tcp_resend tx i g (upd_socket i tcp_back_off n1)))" for g
    by (rule keeps_map[OF resend_keeps[OF assms(1) n2]]) (rule net_inv_upd, simp_all)
  then show ?thesis using assms(2) n3
    by (auto simp: tcp_retransmit_timeout_def Let_def n1_def[symmetric] intro!: net_inv_upd split: list.splits)
qed

lemma tick_socket_keeps:
  assumes "tx_keeps tx" "net_inv n"
  shows "keeps (tcp_tick_socket tx now k n)"
proof (cases "net_get_socket n (int k)")
  case (Some i)
  have "keeps (if sk_retransmit_timer (nt_sockets n i) > 0 \<and> now \<ge> sk_retransmit_timer (nt_sockets n i)
      then tcp_retransmit_timeout tx now i n else Some n)" if "sk_type (nt_sockets n i) = SOCK_STREAM"
    using retransmit_timeout_keeps[OF assms that] assms(2) by simp
  then show ?thesis using Some assms(2)
    by (auto simp: tcp_tick_socket_def tcp_time_wait_expiry_inv intro!: keeps_map net_inv_upd)
qed (simp add: tcp_tick_socket_def assms(2))

lemma tick_keeps: "tx_keeps tx \<Longrightarrow> net_inv n \<Longrightarrow> keeps (net_tcp_tick tx n)"
proof -
  assume tx: "tx_keeps tx" and n: "net_inv n"
  have "keeps st \<Longrightarrow> keeps (fold (\<lambda>k st. st \<bind> tcp_tick_socket tx now k) ks st)" for ks st now
    by (induction ks arbitrary: st) (simp_all add: keeps_bind tick_socket_keeps[OF tx])
  then show ?thesis using n by (simp add: net_tcp_tick_def)
qed

lemma udp_rx_keeps: "net_inv n \<Longrightarrow> keeps (net_udp_rx ip seg len n)"
proof -
  assume n: "net_inv n"
  have "keeps (net_rx_buffer_write a l (nt_sockets n i) \<bind> (\<lambda>s. net_rx_buffer_write b k s \<bind> (\<lambda>s. Some (upd_socket i (\<lambda>_. s) n))))"
    for a l b k i
  proof (cases "net_rx_buffer_write a l (nt_sockets n i)")
    case (Some s)
    then have "sock_inv s" by (rule rx_write_inv[OF net_inv_sock[OF n]])
    then show ?thesis using Some n rx_write_inv by (cases "net_rx_buffer_write b k s") (auto intro!: net_inv_upd)
  qed simp
  then show ?thesis using n by (simp add: net_udp_rx_def Let_def split: option.splits)
qed

lemma udp_send_keeps: "tx_keeps tx \<Longrightarrow> net_inv n \<Longrightarrow> keeps (net_udp_send_packet tx a p b q data n)"
  by (simp add: net_udp_send_packet_def Let_def keeps_tx)

lemma icmp_rx_keeps:
  assumes "tx_keeps tx" "net_inv n"
  shows "keeps (net_icmp_rx env tx seg len src n)"
proof -
  have "keeps (icmp_reply env tx req src n)" for req
    using assms by (auto simp: icmp_reply_def Let_def kmalloc_inv intro!: keeps_tx split: prod.splits option.splits)
  then show ?thesis using assms(2) by (simp add: net_icmp_rx_def Let_def split: option.splits)
qed

lemma send_echo_keeps:
  assumes "tx_keeps tx" "net_inv n"
  shows "keeps_ret (net_icmp_send_echo env tx d q p data n)"
  using assms by (auto simp: net_icmp_send_echo_def Let_def kmalloc_inv intro!: keeps_ret_map keeps_tx split: prod.splits option.splits)

lemma rx_ipv4_keeps:
  "env_ok env \<Longrightarrow> tx_keeps tx \<Longrightarrow> net_inv n \<Longrightarrow> keeps (net_rx_ipv4 env tx data n)"
  by (simp add: net_rx_ipv4_def Let_def tcp_rx_keeps udp_rx_keeps icmp_rx_keeps)

lemma arp_inv [simp]:
  "net_inv (arp_cache_insert ip mac n) = net_inv n" "net_inv (rtl8139_send f n) = net_inv n"
  "net_inv (arp_send_request ip n) = net_inv n" "net_inv (arp_send_reply ip mac n) = net_inv n"
  by (simp_all add: arp_cache_insert_def rtl8139_send_def arp_send_request_def arp_send_reply_def)

lemma arp_rx_inv: "net_inv n \<Longrightarrow> net_inv (net_arp_rx data n)"
  by (simp add: net_arp_rx_def Let_def)

lemma arp_wait_inv:
  assumes "arp_wait env d ip n = Some r" "env_ok env" "net_inv n"
  shows "net_inv (snd r)"
proof -
  have "env_ok env \<longrightarrow> net_inv n \<longrightarrow> net_inv (snd r)"
  proof (rule arp_wait.raw_induct[OF _ assms(1), where P = "\<lambda>env d ip n r. env_ok env \<longrightarrow> net_inv n \<longrightarrow> net_inv (snd r)"])
    fix aw env d ip n r
    assume IH: "\<And>env d ip n r. aw env d ip n = Some r \<Longrightarrow> env_ok env \<longrightarrow> net_inv n \<longrightarrow> net_inv (snd r)"
      and b: "(if nt_ms n < d then let n' = ev_wait env n in case arp_cache_lookup ip n' of None \<Rightarrow> aw env d ip n'
                 | Some mac \<Rightarrow> Some (Some mac, n') else Some (None, n)) = Some r"
    show "env_ok env \<longrightarrow> net_inv n \<longrightarrow> net_inv (snd r)"
    proof (intro impI)
      assume e: "env_ok env" and n: "net_inv n"
      then have w: "net_inv (ev_wait env n)" by (simp add: env_ok_def net_inv_def)
      show "net_inv (snd r)"
        using b n w IH[of env d ip "ev_wait env n" r] e by (auto simp: Let_def split: if_splits option.splits)
    qed
  qed
  then show ?thesis using assms by simp
qed

lemma arp_resolve_keeps: "env_ok env \<Longrightarrow> net_inv n \<Longrightarrow> keeps_ret (net_arp_resolve env ip n)"
proof -
  assume e: "env_ok env" and n: "net_inv n"
  show ?thesis
  proof (cases "arp_cache_lookup ip n")
    case None
    show ?thesis
    proof (cases "net_arp_resolve env ip n")
      case (Some r)
      then have "net_inv (snd r)" using None arp_wait_inv[OF _ e, of _ ip "arp_send_request ip n"] n
        by (simp add: net_arp_resolve_def Let_def)
      then show ?thesis using Some by (cases r) simp
    qed simp
  qed (simp add: net_arp_resolve_def n)
qed

lemma eth_transmit_keeps: "env_ok env \<Longrightarrow> net_inv n \<Longrightarrow> keeps (eth_transmit env pkt d n)"
proof -
  assume e: "env_ok env" and n: "net_inv n"
  show ?thesis
  proof (cases "net_arp_resolve env (if d AND nt_netmask n = nt_local_ip n AND nt_netmask n then d else nt_gateway_ip n) n")
    case (Some r)
    obtain mac n' where r: "r = (mac, n')" by fastforce
    then have "net_inv n'" using arp_resolve_keeps[OF e n] Some by (metis keeps_simps(4))
    then show ?thesis using Some r
      by (auto simp: eth_transmit_def Let_def kmalloc_inv split: option.splits prod.splits)
  qed (simp add: eth_transmit_def)
qed

lemma send_eth_keeps: "env_ok env \<Longrightarrow> tx_keeps (net_send_eth env depth)"
proof (induction depth)
  case 0
  then show ?case by (simp add: tx_keeps_def)
next
  case (Suc depth)
  then have tx: "tx_keeps (net_send_eth env depth)" by simp
  have "net_inv n \<Longrightarrow> keeps (net_send_eth env (Suc depth) p d n)" for p d n
    using Suc.prems tx by (simp add: net_loopback_tx_def eth_transmit_keeps rx_ipv4_keeps)
  then show ?case by (simp only: tx_keeps_def simp_thms) blast
qed

end
