(* ===== verification/SF_Stack_Runs.thy ===== *)
theory SF_Stack_Runs
  imports SF_Stack_Inv
begin

text \<open>
  The calls on internet sockets keep the invariant of the recovered network stack, and so does
  every sequence of calls, received packets and timer ticks from initialisation on in which no
  local (AF_UNIX) socket is created.
\<close>

section \<open>Socket calls\<close>

lemma init_inv: "net_inv (net_init mac n)"
proof -
  have "net_inv (net_arp_init (n\<lparr>nt_sockets := (\<lambda>_. zero_socket), nt_used := u, nt_next_port := p, nt_initial_seq := q\<rparr>))" for u p q
    by (simp add: net_inv_def net_arp_init_def)
  then show ?thesis by (simp add: net_init_def Let_def net_inv_def split: option.splits)
qed

lemma register_inv: "vfs_register_socket env i n = (fd, n') \<Longrightarrow> net_inv n \<Longrightarrow> net_inv n'"
  by (auto simp: vfs_register_socket_def Let_def kmalloc_inv intro!: net_inv_upd split: if_splits option.splits prod.splits)

lemma fresh_inv:
  assumes "length rx = 4096" "length tb = 4096" "d \<noteq> AF_UNIX"
  shows "sock_inv (empty_buffers (fresh_socket i d t isn (Some rx) (Some tb) s))"
  using assms
  by (simp add: sock_inv_def rx_ok_def tx_ok_def rto_ok_def empty_buffers_def fresh_socket_def const_rto NET_RX_BUF_SIZE_def NET_TX_BUF_SIZE_def)

lemma keeps_ret_snd: "keeps_ret (Some r) = net_inv (snd r)"
  by (cases r) simp

lemma socket_keeps:
  assumes "env_ok env" "net_inv n" "d \<noteq> AF_UNIX"
  shows "keeps_ret (net_socket env d t p n)"
proof (cases "socket_args_error d t p \<noteq> None")
  case True
  then show ?thesis using assms(2,3) by (auto simp: net_socket_def)
next
  case False
  obtain r n1 where a: "net_alloc_socket_slot n = (r, n1)" by fastforce
  have n1: "net_inv n1" using alloc_slot_inv[OF a] assms(2) by simp
  show ?thesis
  proof (cases r)
    case None
    then show ?thesis using False a n1 assms(3) by (simp add: net_socket_def)
  next
    case (Some i)
    obtain rx n2 where k1: "kmalloc env NET_RX_BUF_SIZE n1 = (rx, n2)" by fastforce
    obtain tb n3 where k2: "kmalloc env NET_TX_BUF_SIZE n2 = (tb, n3)" by fastforce
    have n3: "net_inv n3" using kmalloc_inv[OF k1] kmalloc_inv[OF k2] n1 by simp
    define isn where "isn = nt_initial_seq n1 + net_random n1"
    define m where "m = upd_socket i (fresh_socket i d t isn rx tb) n3"
    have other: "j \<noteq> i \<Longrightarrow> sock_inv (nt_sockets m j)" for j using n3 by (simp add: m_def upd_socket_def net_inv_def)
    have fr: "net_inv (net_free_socket_slot i m)"
    proof -
      have "sk_listen_parent (nt_sockets m i) = None" by (simp add: m_def upd_socket_def fresh_socket_def)
      moreover have "net_inv (n3\<lparr>nt_sockets := (nt_sockets n3)(i := zero_socket)\<rparr>)" using n3 by (simp add: net_inv_def)
      moreover have "i < NET_MAX_SOCKETS"
        using a Some by (auto simp: net_alloc_socket_slot_def split: option.splits dest: first_index_SomeD)
      ultimately show ?thesis using other by (simp add: net_free_socket_slot_def net_inv_def)
    qed
    have "net_inv (upd_socket i empty_buffers m)" if rb: "rx = Some b" "tb = Some c" for b c
    proof -
      have "length b = 4096" "length c = 4096"
        using kmalloc_length[OF assms(1)] k1 k2 rb by (auto simp: NET_RX_BUF_SIZE_def NET_TX_BUF_SIZE_def)
      then have "sock_inv (empty_buffers (nt_sockets m i))" using fresh_inv rb assms(3) by (simp add: m_def upd_socket_def)
      then show ?thesis using other by (simp add: net_inv_def upd_socket_def)
    qed
    moreover have "net_socket env d t p n =
        (if rx = None \<or> tb = None then Some (- ENOMEM, net_free_socket_slot i m)
         else case vfs_register_socket env i (upd_socket i empty_buffers m) of
           (fd, n) \<Rightarrow> if fd < 0 then None else Some (fd, n))"
      using False assms(3) a Some k1 k2 by (simp add: net_socket_def Let_def isn_def m_def)
    ultimately show ?thesis using fr register_inv by (auto split: prod.splits)
  qed
qed

lemma bind_keeps: "net_inv n \<Longrightarrow> keeps_ret (net_bind env fd addr n)"
  using alloc_port_inv net_inv_inet[of n]
  by (auto simp: net_bind_def Let_def intro!: net_inv_upd split: option.splits prod.splits if_splits)

lemma listen_inv: "net_inv n \<Longrightarrow> net_inv (snd (net_listen env fd k n))"
  using net_inv_inet[of n]
  by (auto simp: net_listen_def Let_def sock_inv_pending intro!: net_inv_upd split: option.splits)

lemma accept_inv: "net_inv n \<Longrightarrow> net_inv (snd (net_accept env fd n))"
proof -
  assume n: "net_inv n"
  have "net_inv (upd_socket i (\<lambda>s. s\<lparr>sk_pending := take k (sk_pending s) @ drop (Suc k) (sk_pending s)\<rparr>) n)" for i k
    using n by (intro net_inv_upd sock_inv_pending) (auto simp: sock_inv_def)
  then have "net_inv (upd_socket c (\<lambda>s. s\<lparr>sk_listen_parent := None\<rparr>)
      (upd_socket i (\<lambda>s. s\<lparr>sk_pending := take k (sk_pending s) @ drop (Suc k) (sk_pending s)\<rparr>) n))" for c i k
    by (rule net_inv_upd) simp
  then show ?thesis using n net_inv_inet[OF n] by (auto simp: net_accept_def Let_def split: option.splits)
qed

lemma bind_ephemeral_inv: "net_inv n \<Longrightarrow> net_inv (bind_ephemeral i n)"
  using alloc_port_inv by (auto simp: bind_ephemeral_def Let_def intro!: net_inv_upd split: prod.splits)

lemma connect_keeps:
  assumes "tx_keeps tx" "net_inv n"
  shows "keeps_ret (net_connect env tx fd addr n)"
proof -
  have "sock_inv s \<Longrightarrow> sock_inv (connecting ip port q s)" for s ip port q
    by (simp add: connecting_def sock_inv_rto sock_inv_unacked const_rto)
  then have "net_inv (upd_socket i (connecting ip port q) (bind_ephemeral i n))" for i ip port q
    using bind_ephemeral_inv[OF assms(2)] by (intro net_inv_upd)
  then have "keeps (net_tcp_send_packet env tx i TCP_SYN [] (upd_socket i (connecting ip port q) (bind_ephemeral i n)))" for i ip port q
    by (intro send_empty_keeps[OF assms(1)])
  then show ?thesis using net_inv_inet[OF assms(2)] assms(2)
    by (auto simp: net_connect_def Let_def intro!: keeps_ret_map split: option.splits)
qed

lemma send_loop_keeps:
  "tx_keeps tx \<Longrightarrow> net_inv n \<Longrightarrow> net_send_loop env tx i w data k n = Some (rest, sent, n') \<Longrightarrow> net_inv n'"
proof (induction env tx i w data k n rule: net_send_loop.induct)
  case (1 env tx i w data k n)
  define chunk where "chunk = (let c = (if length data > unat NET_TCP_MSS then unat NET_TCP_MSS else length data)
     in if c > unat w then unat w else c)"
  have c: "chunk \<le> 1460" by (simp add: chunk_def Let_def NET_TCP_MSS_def)
  have k: "keeps (net_tcp_send_packet env tx i (TCP_PSH OR TCP_ACK) (take chunk data) n)"
    using 1(2,3) c by (intro send_packet_keeps) simp_all
  show ?case
  proof (cases "data = [] \<or> w = 0")
    case True
    then show ?thesis using 1(3,4) by (subst (asm) net_send_loop.simps) simp
  next
    case False
    then have "(case net_tcp_send_packet env tx i (TCP_PSH OR TCP_ACK) (take chunk data) n of
        None \<Rightarrow> None
      | Some n \<Rightarrow> net_send_loop env tx i (w - of_nat chunk) (drop chunk data) (k + chunk) n) = Some (rest, sent, n')"
      using 1(4) by (subst (asm) net_send_loop.simps) (simp only: chunk_def Let_def if_False)
    then obtain m where m: "net_tcp_send_packet env tx i (TCP_PSH OR TCP_ACK) (take chunk data) n = Some m"
        "net_send_loop env tx i (w - of_nat chunk) (drop chunk data) (k + chunk) m = Some (rest, sent, n')"
      by (cases "net_tcp_send_packet env tx i (TCP_PSH OR TCP_ACK) (take chunk data) n") simp_all
    have "net_inv m" using k m(1) by simp
    then show ?thesis
      using 1(1)[OF False refl refl, of m] m 1(2) by (simp only: chunk_def Let_def)
  qed
qed

lemma tx_enqueue_inv: "sock_inv s \<Longrightarrow> tx_enqueue data s = (k, s') \<Longrightarrow> sock_inv s'"
proof -
  assume i: "sock_inv s" and e: "tx_enqueue data s = (k, s')"
  show "sock_inv s'"
  proof (cases "sk_tx_buf s")
    case None
    then show ?thesis using i e by (simp add: tx_enqueue_def)
  next
    case (Some buf)
    then have f: "sk_tx_size s = 4096" "length buf = 4096" "unat (sk_tx_count s) \<le> 4096"
      "unat (sk_tx_write_pos s) = unat (sk_tx_count s) mod 4096" using i by (simp_all add: sock_inv_def tx_ok_def)
    define q where "q = (if length data < 4096 - unat (sk_tx_count s) then length data else 4096 - unat (sk_tx_count s))"
    obtain buf' pos where w: "ring_write 4096 (take q data) (buf, sk_tx_write_pos s) = (buf', pos)" by fastforce
    have q: "length (take q data) = q" "unat (sk_tx_count s) + q \<le> 4096" using f(3) by (auto simp: q_def)
    have c: "unat (sk_tx_count s + of_nat q) = unat (sk_tx_count s) + q"
      using q(2) by (simp add: unat_add_lem[THEN iffD1] unat_of_nat_small)
    have "length buf' = 4096 \<and> unat pos = (unat (sk_tx_count s) + q) mod 4096"
      using ring_write_contents[of buf 4096 "sk_tx_write_pos s" 0 "unat (sk_tx_count s)" "take q data", OF _ _ _ _ _ w] f q by simp
    moreover have "s' = s\<lparr>sk_tx_buf := Some buf', sk_tx_write_pos := pos, sk_tx_count := sk_tx_count s + of_nat q\<rparr>"
      using e Some w f by (auto simp: tx_enqueue_def Let_def unat_avail q_def[symmetric])
    ultimately show ?thesis using i f c q Some
      by (simp add: sock_inv_def rx_ok_def tx_ok_def rto_ok_def cong: option.case_cong)
  qed
qed

lemma send_keeps:
  assumes "tx_keeps tx" "net_inv n"
  shows "keeps_ret (net_send env tx fd buf n)"
proof -
  have "keeps_ret (do {
      (rest, total_sent, n) \<leftarrow> net_send_loop env tx i w buf 0 n;
      let (queued, s) = (if rest \<noteq> [] then tx_enqueue rest (nt_sockets n i) else (0, nt_sockets n i));
      Some (int_of_size (total_sent + queued), upd_socket i (\<lambda>_. s) n)})" for i w
  proof (cases "net_send_loop env tx i w buf 0 n")
    case (Some r)
    obtain rest sent m where r: "r = (rest, sent, m)" by (cases r)
    have m: "net_inv m" using send_loop_keeps[OF assms] Some r by simp
    obtain q s' where q: "(if rest \<noteq> [] then tx_enqueue rest (nt_sockets m i) else (0, nt_sockets m i)) = (q, s')" by fastforce
    then have "sock_inv s'" using tx_enqueue_inv[OF net_inv_sock[OF m]] net_inv_sock[OF m] by (auto split: if_splits)
    then have "net_inv (upd_socket i (\<lambda>_. s') m)" using m by (intro net_inv_upd)
    then show ?thesis by (simp add: Some r q)
  qed simp
  then show ?thesis using net_inv_inet[OF assms(2)] assms(2) by (simp add: net_send_def Let_def split: option.splits)
qed

lemma recv_inv: "net_inv n \<Longrightarrow> net_recv env fd len n = (r, bs, n') \<Longrightarrow> net_inv n'"
proof -
  assume n: "net_inv n" and r: "net_recv env fd len n = (r, bs, n')"
  have "net_inv (upd_socket i (\<lambda>_. s') n)" if "net_rx_buffer_read l (nt_sockets n i) = (x, s')" for i l x s'
    using n rx_read_inv[OF net_inv_sock[OF n] that] by (intro net_inv_upd)
  then show ?thesis using r n net_inv_inet[OF n]
    by (auto simp: net_recv_def Let_def split: option.splits if_splits prod.splits)
qed

lemma sendto_keeps:
  assumes "tx_keeps tx" "net_inv n"
  shows "keeps_ret (net_sendto env tx fd buf dest n)"
  using assms(2) send_keeps[OF assms] bind_ephemeral_inv[OF assms(2)]
  by (auto simp: net_sendto_def Let_def intro!: keeps_ret_map udp_send_keeps[OF assms(1)] split: option.splits)

lemma recvfrom_inv:
  assumes "net_inv n" "net_recvfrom env fd len n = Some (r, bs, a, n')"
  shows "net_inv n'"
proof -
  have "net_inv (upd_socket i (\<lambda>_. s2) n)"
    if "net_rx_buffer_read l (nt_sockets n i) = (x, s1)" "net_rx_buffer_read k s1 = (y, s2)" for i l k x y s1 s2
    using assms(1) rx_read_inv[OF rx_read_inv[OF net_inv_sock[OF assms(1)] that(1)] that(2)] by (intro net_inv_upd)
  then show ?thesis using assms recv_inv[OF assms(1)]
    by (auto simp: net_recvfrom_def Let_def split: option.splits if_splits prod.splits)
qed

lemma send_fin_keeps: "tx_keeps tx \<Longrightarrow> net_inv n \<Longrightarrow> keeps (send_fin env tx i n)"
  by (auto simp: send_fin_def intro!: keeps_map send_empty_keeps)

lemma shutdown_keeps: "tx_keeps tx \<Longrightarrow> net_inv n \<Longrightarrow> keeps_ret (net_shutdown env tx fd how n)"
  by (auto simp: net_shutdown_def intro!: keeps_ret_map send_fin_keeps split: option.splits)

lemma close_keeps:
  assumes "tx_keeps tx" "net_inv n"
  shows "keeps_ret (net_close env tx fd n)"
proof (cases "net_get_socket n fd")
  case (Some i)
  have "keeps (if sk_type (nt_sockets n i) = SOCK_STREAM then send_fin env tx i n else Some n)"
    using send_fin_keeps[OF assms] assms(2) by simp
  then show ?thesis using Some free_slot_inv net_inv_inet[OF assms(2), of i]
    by (cases "if sk_type (nt_sockets n i) = SOCK_STREAM then send_fin env tx i n else Some n")
      (simp_all add: net_close_def Let_def)
qed (simp add: net_close_def assms(2))

lemma send_vector_inv:
  assumes "\<And>f v n. net_inv n \<Longrightarrow> keeps_ret (send f v n)"
  shows "net_inv n \<Longrightarrow> send_vector send f vs k n = Some (e, g, t, n') \<Longrightarrow> net_inv n'"
proof (induction vs arbitrary: f k n)
  case (Cons v vs)
  show ?case
  proof (cases "v = []")
    case True
    then show ?thesis using Cons by simp
  next
    case False
    then obtain ret m where r: "send f v n = Some (ret, m)" using Cons.prems(2) by (auto split: option.splits)
    then have "net_inv m" using assms[OF Cons.prems(1), of f v] by simp
    then show ?thesis using Cons.prems(2) Cons.IH[of m False "k + nat ret"] False r by (auto split: if_splits)
  qed
qed simp

lemma sendmsg_keeps:
  assumes "tx_keeps tx" "net_inv n"
  shows "keeps_ret (net_sendmsg env tx fd msg n)"
proof -
  have "keeps_ret (map_option (\<lambda>(early, _, t, n). (case early of Some ret \<Rightarrow> ret | None \<Rightarrow> int_of_size t, n))
      (send_vector (\<lambda>_ v n. net_send env tx fd v n) True iov 0 n))" for iov
    using send_vector_inv[OF send_keeps[OF assms(1)] assms(2)]
    by (cases "send_vector (\<lambda>_ v n. net_send env tx fd v n) True iov 0 n") auto
  then show ?thesis using assms(2) net_inv_inet[OF assms(2)]
    by (simp add: net_sendmsg_def split: option.splits prod.splits)
qed

lemma recv_vector_inv:
  assumes "\<And>f l n. net_inv n \<Longrightarrow> net_inv (snd (snd (snd (recv f l n))))"
  shows "net_inv n \<Longrightarrow> net_inv (snd (snd (snd (snd (snd (recv_vector recv f lens k out fds n))))))"
proof (induction lens arbitrary: f k out fds n)
  case (Cons l lens)
  obtain ret bs fs m where r: "recv f l n = (ret, bs, fs, m)" by (metis prod_cases4)
  then have "net_inv m" using assms[OF Cons.prems, of f l] by simp
  then show ?case using Cons r by simp
qed simp

lemma inet_recvmsg_inv:
  assumes "net_inv n"
  shows "net_inv (snd (inet_recvmsg env fd lens m n))"
proof -
  define recv where "recv = (\<lambda>(_::bool) len n. let (r, bs, n) = net_recv env fd len n in (r, bs, [] :: int list, n))"
  have "net_inv k \<Longrightarrow> net_inv (snd (snd (snd (recv f l k))))" for f l k
    using recv_inv by (auto simp: recv_def split: prod.splits)
  note v = recv_vector_inv[of recv, OF this assms, of True lens 0 "[]" "[]"]
  obtain e f g out fds k where "recv_vector recv True lens 0 [] [] n = (e, f, g, out, fds, k)" by (metis prod_cases6)
  then show ?thesis using v unfolding inet_recvmsg_def recv_def[symmetric] by (simp add: Let_def)
qed

lemma recvmsg_inv: "net_inv n \<Longrightarrow> net_inv (snd (net_recvmsg_impl env fd msg n))"
  using net_inv_inet[of n]
  by (simp add: net_recvmsg_impl_def Let_def inet_recvmsg_inv split: option.splits prod.splits)

section \<open>Every sequence of events\<close>

text \<open>What can happen to the stack: a received packet, the timers, the passing of time and the
  socket calls.\<close>

datatype net_op =
    Rx_Ip bytes | Rx_Arp bytes | Tcp_Tick | Icmp_Tick | Clock u64 | Configure u32 u32 u32
  | Ping u32 u16 u16 bytes
  | Sys_Socket int int int | Sys_Bind int "bytes option" | Sys_Listen int int | Sys_Accept int
  | Sys_Connect int "bytes option" | Sys_Send int bytes | Sys_Recv int nat
  | Sys_Sendto int bytes "bytes option" | Sys_Recvfrom int nat | Sys_Shutdown int int | Sys_Close int
  | Sys_Sendmsg int "(bytes list \<times> bytes option) option" | Sys_Recvmsg int "(nat list \<times> bytes option) option"

fun net_apply :: "Env \<Rightarrow> nat \<Rightarrow> net_op \<Rightarrow> Net \<Rightarrow> Net option" where
  "net_apply env d (Rx_Ip p) n = net_rx_ipv4 env (net_send_eth env d) p n"
| "net_apply env d (Rx_Arp p) n = Some (net_arp_rx p n)"
| "net_apply env d Tcp_Tick n = net_tcp_tick (net_send_eth env d) n"
| "net_apply env d Icmp_Tick n = Some (net_icmp_tick n)"
| "net_apply env d (Clock ms) n = Some (n\<lparr>nt_ms := ms\<rparr>)"
| "net_apply env d (Configure ip gw nm) n = Some (net_configure_ip ip gw nm n)"
| "net_apply env d (Ping ip sq pid data) n = map_option snd (net_icmp_send_echo env (net_send_eth env d) ip sq pid data n)"
| "net_apply env d (Sys_Socket a b c) n = map_option snd (net_socket env a b c n)"
| "net_apply env d (Sys_Bind fd a) n = map_option snd (net_bind env fd a n)"
| "net_apply env d (Sys_Listen fd k) n = Some (snd (net_listen env fd k n))"
| "net_apply env d (Sys_Accept fd) n = Some (snd (net_accept env fd n))"
| "net_apply env d (Sys_Connect fd a) n = map_option snd (net_connect env (net_send_eth env d) fd a n)"
| "net_apply env d (Sys_Send fd b) n = map_option snd (net_send env (net_send_eth env d) fd b n)"
| "net_apply env d (Sys_Recv fd l) n = Some (snd (snd (net_recv env fd l n)))"
| "net_apply env d (Sys_Sendto fd b a) n = map_option snd (net_sendto env (net_send_eth env d) fd b a n)"
| "net_apply env d (Sys_Recvfrom fd l) n = map_option (\<lambda>(_, _, _, n). n) (net_recvfrom env fd l n)"
| "net_apply env d (Sys_Shutdown fd h) n = map_option snd (net_shutdown env (net_send_eth env d) fd h n)"
| "net_apply env d (Sys_Close fd) n = map_option snd (net_close env (net_send_eth env d) fd n)"
| "net_apply env d (Sys_Sendmsg fd m) n = map_option snd (net_sendmsg env (net_send_eth env d) fd m n)"
| "net_apply env d (Sys_Recvmsg fd m) n = Some (snd (net_recvmsg_impl env fd m n))"

fun net_run :: "Env \<Rightarrow> nat \<Rightarrow> net_op list \<Rightarrow> Net \<Rightarrow> Net option" where
  "net_run env d [] n = Some n"
| "net_run env d (op # ops) n = (case net_apply env d op n of None \<Rightarrow> None | Some n \<Rightarrow> net_run env d ops n)"

text \<open>The only call through which a local socket could come into being is left out: its code is
  not part of the sources.\<close>

fun inet_op :: "net_op \<Rightarrow> bool" where
  "inet_op (Sys_Socket a b c) \<longleftrightarrow> a \<noteq> AF_UNIX"
| "inet_op _ \<longleftrightarrow> True"

lemma keeps_snd: "keeps_ret r \<Longrightarrow> keeps (map_option snd r)"
  by (cases r) (simp_all add: keeps_ret_snd)

lemma apply_keeps:
  assumes "env_ok env" "net_inv n" "inet_op op"
  shows "keeps (net_apply env d op n)"
proof -
  note tx = send_eth_keeps[OF assms(1), of d]
  have r: "net_inv (snd (snd (net_recv env fd l n)))" for fd l
    using recv_inv[OF assms(2)] by (metis prod.collapse)
  have f: "keeps (map_option (\<lambda>(_, _, _, n). n) (net_recvfrom env fd l n))" for fd l
    using recvfrom_inv[OF assms(2)] by (cases "net_recvfrom env fd l n") auto
  show ?thesis
    using assms tx
    by (cases op)
      (simp_all add: r f rx_ipv4_keeps arp_rx_inv tick_keeps net_icmp_tick_def net_configure_ip_def
        send_echo_keeps socket_keeps bind_keeps listen_inv accept_inv connect_keeps send_keeps sendto_keeps
        shutdown_keeps close_keeps sendmsg_keeps recvmsg_inv keeps_snd)
qed

lemma run_inv: "env_ok env \<Longrightarrow> net_inv n \<Longrightarrow> list_all inet_op ops \<Longrightarrow> net_run env d ops n = Some n' \<Longrightarrow> net_inv n'"
proof (induction ops arbitrary: n)
  case (Cons op ops)
  then obtain m where m: "net_apply env d op n = Some m" "net_run env d ops m = Some n'" by (auto split: option.splits)
  have "net_inv m" using apply_keeps[OF Cons.prems(1,2), of op d] m(1) Cons.prems(3) by simp
  then show ?case using Cons m by simp
qed simp

end
