(* ===== verification/SF_Stack_Claims.thy ===== *)
theory SF_Stack_Claims
  imports SF_Stack_Runs
begin

text \<open>
  Properties of the recovered network stack: what a receiver reads of a packet is what the
  sender put in, resets on the loopback interface, descriptors in control messages, the ARP
  cache, the receive buffer as a stream and the invariant of every run.
\<close>

section \<open>Byte order\<close>

lemma ff_mask: "(0xFF :: 'a::len word) = mask 8"
  by (simp add: mask_eq_exp_minus_1)

lemma bit_htons: "bit (htons v) n \<longleftrightarrow> (n < 8 \<and> bit v (n + 8)) \<or> (8 \<le> n \<and> n < 16 \<and> bit v (n - 8))"
  unfolding htons_def ff_mask
  by (auto simp: bit_simps add.commute)

lemma bit_htonl: "bit (htonl v) n \<longleftrightarrow> n < 32 \<and>
    bit v (if n < 8 then n + 24 else if n < 16 then n + 8 else if n < 24 then n - 8 else n - 24)"
proof -
  have e: "bit (htonl v) n \<longleftrightarrow> n < 32 \<and>
      (24 \<le> n \<and> bit v (n - 24) \<or> 16 \<le> n \<and> n < 24 \<and> bit v (n - 16 + 8) \<or>
       8 \<le> n \<and> n < 16 \<and> bit v (n - 8 + 16) \<or> n < 8 \<and> bit v (n + 24))"
    unfolding htonl_def ff_mask bit_or_iff bit_push_bit_iff bit_and_iff bit_drop_bit_eq bit_mask_iff comp_apply
    by (auto simp: add.commute dest: bit_imp_le_length)
  show ?thesis
    by (cases "n < 8"; cases "n < 16"; cases "n < 24") (simp_all add: e add.commute)
qed

lemma htons_htons [simp]: "htons (htons v) = v"
  by (rule bit_word_eqI) (auto simp: bit_htons)

lemma htonl_htonl [simp]: "htonl (htonl v) = v"
proof (rule bit_word_eqI)
  fix n assume "n < LENGTH(32)"
  then show "bit (htonl (htonl v)) n = bit v n"
    by (cases "n < 8"; cases "n < 16"; cases "n < 24") (auto simp: bit_htonl)
qed

lemma length_le [simp]: "length (le16 v) = 2" "length (le32 w) = 4"
  by (simp_all add: le16_def le32_def)

lemmas rd_join = rd_le16_def rd_le32_def join16 join32

lemma ip_header_fields:
  assumes "total_len < 65536"
  shows "length (ip_header n proto total_len src dst) = 20"
    and "ip_header n proto total_len src dst ! 0 = 0x45"
    and "ip_header n proto total_len src dst ! 9 = proto"
    and "unat (htons (rd_le16 (ip_header n proto total_len src dst) 2)) = total_len"
    and "rd_le32 (ip_header n proto total_len src dst) 12 = src"
    and "rd_le32 (ip_header n proto total_len src dst) 16 = dst"
  using assms
  by (simp_all add: ip_header_def Let_def le16_def le32_def put_at_def rd_join unat_of_nat)

lemma rd_append:
  "k + 2 \<le> length p \<Longrightarrow> rd_le16 (p @ q) k = rd_le16 p k"
  "k + 4 \<le> length p \<Longrightarrow> rd_le32 (p @ q) k = rd_le32 p k"
  by (simp_all add: rd_le16_def rd_le32_def nth_append)

lemma rd_skip: "rd_le32 (p @ q) (length p + k) = rd_le32 q k"
  by (simp add: rd_le32_def nth_append add.assoc)

lemma tcp_segment_fields:
  shows "length (tcp_segment s flags data) = 20 + length data"
    and "tcp_segment s flags data ! 12 = 0x50"
    and "tcp_segment s flags data ! 13 = flags"
    and "rd_le16 (tcp_segment s flags data) 0 = htons (sk_local_port s)"
    and "rd_le16 (tcp_segment s flags data) 2 = htons (sk_remote_port s)"
    and "rd_le32 (tcp_segment s flags data) 4 = htonl (sk_seq_num s)"
    and "rd_le32 (tcp_segment s flags data) 8 = htonl (sk_ack_num s)"
  by (simp_all add: tcp_segment_def Let_def le16_def le32_def put_at_def rd_join)

text \<open>What the receiver of a packet reads is what the sender put in.\<close>

lemma rx_tcp_packet:
  assumes "40 + length data < 65536" "sk_local_ip s \<noteq> 0"
  shows "net_rx_ipv4 env tx (tcp_packet n s flags data) m =
    net_tcp_rx env tx (tcp_packet n s flags data) (tcp_segment s flags data) (of_nat (20 + length data)) m"
    and "seg_in (tcp_packet n s flags data) (tcp_segment s flags data) =
      \<lparr>in_dst_ip = sk_remote_ip s, in_dst_port = sk_remote_port s, in_src_ip = sk_local_ip s, in_src_port = sk_local_port s,
        in_seq = sk_seq_num s, in_ack = sk_ack_num s, in_flags = flags\<rparr>"
proof -
  define h where "h = ip_header n 6 (40 + length data) (htonl (sk_local_ip s)) (htonl (sk_remote_ip s))"
  define g where "g = tcp_segment s flags data"
  have p: "tcp_packet n s flags data = h @ g" using assms(2) by (simp add: tcp_packet_def h_def g_def)
  note hf = ip_header_fields[OF assms(1), of n 6 "htonl (sk_local_ip s)" "htonl (sk_remote_ip s)", folded h_def]
  note gf = tcp_segment_fields[of s flags data, folded g_def]
  have w: "unat (htons (rd_le16 (h @ g) 2)) = 40 + length data" using hf by (simp add: rd_append)
  have "ucast (htons (rd_le16 (h @ g) 2)) = (of_nat (40 + length data) :: u64)" using w by (metis of_nat_unat)
  then have l: "ucast (htons (rd_le16 (h @ g) 2)) - 20 = (of_nat (20 + length data) :: u64)" by simp
  show "net_rx_ipv4 env tx (tcp_packet n s flags data) m =
    net_tcp_rx env tx (tcp_packet n s flags data) (tcp_segment s flags data) (of_nat (20 + length data)) m"
    unfolding p g_def[symmetric] using hf gf w l
    by (simp add: net_rx_ipv4_def Let_def nth_append)
  show "seg_in (tcp_packet n s flags data) (tcp_segment s flags data) =
      \<lparr>in_dst_ip = sk_remote_ip s, in_dst_port = sk_remote_port s, in_src_ip = sk_local_ip s, in_src_port = sk_local_port s,
        in_seq = sk_seq_num s, in_ack = sk_ack_num s, in_flags = flags\<rparr>"
    unfolding p g_def[symmetric] using hf gf by (simp add: seg_in_def rd_append)
qed

section \<open>Resets on the loopback interface\<close>

definition no_receiver :: "Net \<Rightarrow> u32 \<Rightarrow> u16 \<Rightarrow> u32 \<Rightarrow> u16 \<Rightarrow> bool" where
  "no_receiver n dip dport sip sport \<longleftrightarrow>
     net_find_tcp_socket n dip dport sip sport = None \<and> net_find_listening_socket n dport = None"

text \<open>A segment between two loopback addresses that belongs to no connection and no listener, in
  either direction.\<close>

definition stray :: "Net \<Rightarrow> Seg_In \<Rightarrow> bool" where
  "stray n g \<longleftrightarrow>
     drop_bit 24 (in_dst_ip g) = 127 \<and> drop_bit 24 (in_src_ip g) = 127 \<and>
     no_receiver n (in_dst_ip g) (in_dst_port g) (in_src_ip g) (in_src_port g) \<and>
     no_receiver n (in_src_ip g) (in_src_port g) (in_dst_ip g) (in_dst_port g)"

lemma stray_unmatched:
  assumes "stray n g" "20 \<le> len" "20 \<le> length seg" "seg_in ip seg = g"
  shows "net_tcp_rx env tx ip seg len n = tcp_send_rst tx g n"
  using assms by (simp add: net_tcp_rx_def tcp_rx_unmatched_def stray_def no_receiver_def word_less_nat_alt word_le_nat_alt)

lemma stray_reset: "stray n g \<Longrightarrow> tcp_send_rst (net_send_eth env depth) g n = None"
proof (induction depth arbitrary: g)
  case 0
  then show ?case by (simp add: tcp_send_rst_def)
next
  case (Suc depth)
  define g' where "g' = \<lparr>in_dst_ip = in_src_ip g, in_dst_port = in_src_port g, in_src_ip = in_dst_ip g,
    in_src_port = in_dst_port g, in_seq = 0, in_ack = in_ack g, in_flags = TCP_RST OR TCP_ACK\<rparr>"
  define pkt where "pkt = tcp_packet n (rst_socket g) (TCP_RST OR TCP_ACK) []"
  have nz: "sk_local_ip (rst_socket g) \<noteq> 0" using Suc.prems by (auto simp: stray_def rst_socket_def)
  have g': "stray n g'" using Suc.prems by (simp add: stray_def g'_def)
  have fields: "length pkt = 40" "pkt ! 0 = 0x45"
    using ip_header_fields[of 40 n 6] tcp_segment_fields(1)[of "rst_socket g" _ "[]"]
    by (simp_all add: pkt_def tcp_packet_def nth_append)
  have "net_rx_ipv4 env tx pkt n = tcp_send_rst tx g' n" for tx
    unfolding pkt_def using rx_tcp_packet[OF _ nz, of "[]"] tcp_segment_fields(1)[of "rst_socket g" _ "[]"]
    by (simp add: stray_unmatched[OF g'] g'_def rst_socket_def)
  moreover have "pkt \<noteq> []" using fields(1) by auto
  moreover have "drop_bit 24 (in_src_ip g) AND 255 = 127" using Suc.prems by (simp add: stray_def)
  ultimately show ?case using fields Suc.IH[OF g']
    by (simp add: tcp_send_rst_def pkt_def[symmetric] net_loopback_tx_def)
qed

section \<open>Descriptors in control messages\<close>

lemma rd_le32_concat:
  "i < length fds \<Longrightarrow> rd_le32 (concat (map (\<lambda>d. le32 (of_int d)) fds) @ r) (4 * i) = of_int (fds ! i)"
proof (induction fds arbitrary: i)
  case (Cons d fds)
  show ?case
  proof (cases i)
    case 0
    then show ?thesis by (simp add: rd_join le32_def)
  next
    case (Suc j)
    then have "rd_le32 (concat (map (\<lambda>d. le32 (of_int d)) fds) @ r) (4 * j) = of_int (fds ! j)" using Cons by simp
    then show ?thesis using Suc rd_skip[of "le32 (of_int d)" _ "4 * j"] by simp
  qed
qed simp

lemma length_cmsg_build: "length (cmsg_build fds) = 16 + 4 * length fds"
proof -
  have "length (concat (map (\<lambda>d. le32 (of_int d)) fds)) = 4 * length fds" by (induction fds) simp_all
  then show ?thesis by (simp add: cmsg_build_def)
qed

lemma cmsg_build_fields:
  assumes "length fds \<le> 8"
  shows "unat (rd_le32 (cmsg_build fds @ r) 0) = 16 + 4 * length fds" "rd_le32 (cmsg_build fds @ r) 8 = 1"
    "rd_le32 (cmsg_build fds @ r) 12 = 1"
    "i < length fds \<Longrightarrow> rd_le32 (cmsg_build fds @ r) (16 + 4 * i) = of_int (fds ! i)"
proof -
  have "16 + 4 * length fds < 4294967296" using assms by simp
  then show "unat (rd_le32 (cmsg_build fds @ r) 0) = 16 + 4 * length fds"
    unfolding cmsg_build_def CMSG_LEN_def CMSG_ALIGN_def
    by (simp add: le32_def rd_le32_def join32 unat_of_nat del: of_nat_add of_nat_mult)
  show "rd_le32 (cmsg_build fds @ r) 8 = 1" "rd_le32 (cmsg_build fds @ r) 12 = 1"
    by (simp_all add: cmsg_build_def le32_def rd_le32_def)
  show "rd_le32 (cmsg_build fds @ r) (16 + 4 * i) = of_int (fds ! i)" if "i < length fds"
    using rd_le32_concat[OF that, of r]
      rd_skip[of "le32 (of_nat (CMSG_LEN (4 * length fds))) @ le32 0 @ le32 1 @ le32 1" _ "4 * i"]
    by (simp add: cmsg_build_def)
qed

lemma sint_fd: "- (2 ^ 31) \<le> d \<Longrightarrow> d < 2 ^ 31 \<Longrightarrow> sint (of_int d :: u32) = d"
  by (simp add: sint_sbintrunc' signed_take_bit_int_eq_self)

section \<open>The ARP cache\<close>

lemma arp_slot_less: "arp_slot ip n < 16"
  by (auto simp: arp_slot_def dest: first_index_SomeD split: option.splits)

lemma arp_slot_first:
  "i < arp_slot ip n \<Longrightarrow> ar_ip (nt_arp n i) \<noteq> ip"
  by (auto simp: arp_slot_def first_index_Some first_index_None split: option.splits)

definition arp_reusable :: "Net \<Rightarrow> nat \<Rightarrow> bool" where
  "arp_reusable n i \<longleftrightarrow> ar_ip (nt_arp n i) = 0 \<or> ar_expire (nt_arp n i) \<le> nt_ms n"

lemma arp_displaced:
  assumes "\<exists>i<16. arp_reusable n i \<or> ar_ip (nt_arp n i) = ip"
  shows "ar_ip (nt_arp n (arp_slot ip n)) = ip \<or> arp_reusable n (arp_slot ip n)"
proof (cases "first_index (\<lambda>i. ar_ip (nt_arp n i) = ip) 16")
  case None
  then have "\<exists>i<16. arp_reusable n i" using assms by (auto simp: first_index_None)
  then obtain j where "first_index (arp_reusable n) 16 = Some j" using first_index_ex by metis
  then show ?thesis using None
    by (auto simp: arp_slot_def arp_reusable_def[abs_def] dest: first_index_SomeD(2))
next
  case (Some i)
  then show ?thesis by (auto simp: arp_slot_def dest: first_index_SomeD(2))
qed

lemma first_index_cong: "(\<And>i. i < k \<Longrightarrow> P i = Q i) \<Longrightarrow> first_index P k = first_index Q k"
  unfolding first_index_def by (rule find_cong) simp_all

section \<open>Properties\<close>

text \<open>C33: Learning an address (\<^verbatim>\<open>arp_cache_insert\<close>) makes the next lookup return it, and as long
  as the sixteen-entry cache has an empty or expired entry, or already an entry for that address,
  no other address that was known is forgotten or changed.\<close>

theorem arp_learning:
  assumes "unat (nt_ms n) + 60000 < 2 ^ 64"
  shows "arp_cache_lookup ip (arp_cache_insert ip mac n) = Some mac \<and>
    ((\<exists>i<16. arp_reusable n i \<or> ar_ip (nt_arp n i) = ip) \<longrightarrow>
     (\<forall>j. j \<noteq> ip \<longrightarrow> j \<noteq> 0 \<longrightarrow> arp_cache_lookup j (arp_cache_insert ip mac n) = arp_cache_lookup j n))"
proof (intro conjI impI allI)
  define s where "s = arp_slot ip n"
  define m where "m = arp_cache_insert ip mac n"
  have s: "s < 16" "\<And>i. i < s \<Longrightarrow> ar_ip (nt_arp n i) \<noteq> ip" by (simp_all add: s_def arp_slot_less arp_slot_first)
  have m: "nt_ms m = nt_ms n" "nt_arp m = (nt_arp n)(s := \<lparr>ar_ip = ip, ar_mac = mac, ar_expire = nt_ms n + 60000\<rparr>)"
    by (simp_all add: m_def arp_cache_insert_def s_def)
  have "unat (nt_ms n + 60000) = unat (nt_ms n) + 60000" using assms by (subst unat_add_lem[THEN iffD1]) simp_all
  then have "nt_ms n < nt_ms n + 60000" by (simp add: word_less_nat_alt)
  then have "first_index (\<lambda>i. ar_ip (nt_arp m i) = ip \<and> ar_expire (nt_arp m i) > nt_ms m) 16 = Some s"
    using s by (simp add: first_index_Some m)
  then show "arp_cache_lookup ip (arp_cache_insert ip mac n) = Some mac"
    by (simp add: arp_cache_lookup_def m_def[symmetric] m)
  fix j
  assume "\<exists>i<16. arp_reusable n i \<or> ar_ip (nt_arp n i) = ip" and j: "j \<noteq> ip" "j \<noteq> 0"
  from arp_displaced[OF this(1)]
  have d: "\<not> (ar_ip (nt_arp n s) = j \<and> ar_expire (nt_arp n s) > nt_ms n)"
    using j by (auto simp: s_def arp_reusable_def)
  have f: "first_index (\<lambda>i. ar_ip (nt_arp m i) = j \<and> ar_expire (nt_arp m i) > nt_ms m) 16 =
      first_index (\<lambda>i. ar_ip (nt_arp n i) = j \<and> ar_expire (nt_arp n i) > nt_ms n) 16"
    using d j by (intro first_index_cong) (auto simp: m)
  show "arp_cache_lookup j (arp_cache_insert ip mac n) = arp_cache_lookup j n"
    unfolding arp_cache_lookup_def m_def[symmetric] f
    using d by (auto simp: m intro!: option.map_cong dest: first_index_SomeD(2))
qed

text \<open>The stack before initialisation and an environment that always allocates.\<close>

definition blank_net :: Net where
  "blank_net = \<lparr>nt_sockets = (\<lambda>_. zero_socket), nt_used = (\<lambda>_. False), nt_next_port = 49152, nt_initial_seq = 0,
     nt_local_ip = 0, nt_gateway_ip = 0, nt_netmask = 0, nt_mac = replicate 6 0, nt_hw = False,
     nt_arp = (\<lambda>_. zero_arp), nt_ping = (\<lambda>_. \<lparr>pg_dst_ip = 0, pg_id = 0, pg_seq = 0, pg_send_time = 0, pg_active = False,
       pg_timeout = False, pg_rtt = 0\<rparr>), nt_ms = 0, nt_fds = (\<lambda>_. None), nt_wire = [], nt_allocs = 0\<rparr>"

definition quiet_env :: Env where
  "quiet_env = \<lparr>ev_kmalloc = (\<lambda>n k. Some (replicate k 0)), ev_wait = (\<lambda>n. n),
     ev_unix_socket = (\<lambda>a b n. (-1, n)), ev_unix_bind = (\<lambda>a b n. (-1, n)), ev_unix_listen = (\<lambda>a b n. (-1, n)),
     ev_unix_accept = (\<lambda>a n. (-1, n)), ev_unix_connect = (\<lambda>a b n. (-1, n)), ev_unix_send = (\<lambda>a b c n. (-1, n)),
     ev_unix_recv = (\<lambda>a b c n. (-1, [], [], n)), ev_unix_close = (\<lambda>a n. (-1, n))\<rparr>"

lemma quiet_env_ok: "env_ok quiet_env"
  by (simp add: env_ok_def quiet_env_def)

theorem arp_learning_witness:
  "arp_cache_lookup 7 (arp_cache_insert 7 [1, 2, 3, 4, 5, 6] blank_net) = Some [1, 2, 3, 4, 5, 6] \<and>
   arp_cache_lookup 9 (arp_cache_insert 7 [1, 2, 3, 4, 5, 6] blank_net) = arp_cache_lookup 9 blank_net"
proof -
  have "unat (nt_ms blank_net) + 60000 < 2 ^ 64" "arp_reusable blank_net 0"
    by (simp_all add: blank_net_def arp_reusable_def zero_arp_def)
  then show ?thesis using arp_learning[of blank_net 7 "[1, 2, 3, 4, 5, 6]"] by fastforce
qed

text \<open>C31: A TCP segment between loopback addresses that belongs to no connection and no listener
  in either direction is never finished: the reset it is answered with is delivered to the same
  stack, answered with a reset in turn, and so on, so that for no depth of nested calls does
  \<^verbatim>\<open>net_tcp_rx\<close> return.\<close>

theorem loopback_reset_storm:
  assumes "20 \<le> len" "20 \<le> length seg" "stray n (seg_in ip seg)"
  shows "net_tcp_rx env (net_send_eth env depth) ip seg len n = None"
  by (simp add: stray_unmatched[OF assms(3,1,2) refl] stray_reset[OF assms(3)])

definition stray_socket :: Socket where
  "stray_socket = zero_socket\<lparr>sk_local_ip := INADDR_LOOPBACK, sk_remote_ip := INADDR_LOOPBACK, sk_local_port := 1000, sk_remote_port := 80\<rparr>"

theorem loopback_reset_storm_witness:
  "net_tcp_rx quiet_env (net_send_eth quiet_env 50) (tcp_packet blank_net stray_socket TCP_ACK [])
     (tcp_segment stray_socket TCP_ACK []) 20 blank_net = None"
proof -
  have "no_receiver blank_net a b c d" for a b c d
    by (simp add: no_receiver_def net_find_tcp_socket_def net_find_listening_socket_def first_index_None blank_net_def)
  then have "stray blank_net (seg_in (tcp_packet blank_net stray_socket TCP_ACK []) (tcp_segment stray_socket TCP_ACK []))"
    using rx_tcp_packet(2)[of "[]" stray_socket blank_net TCP_ACK]
    by (simp add: stray_def stray_socket_def INADDR_LOOPBACK_def)
  then show ?thesis by (intro loopback_reset_storm) (simp_all add: tcp_segment_fields)
qed

text \<open>C32: The descriptors that \<^verbatim>\<open>recvmsg\<close> reports in a control buffer are the ones that
  \<^verbatim>\<open>sendmsg\<close> reads back from the buffer and the length it stored, for up to eight descriptors.\<close>

theorem control_roundtrip:
  assumes "fds \<noteq> []" "length fds \<le> 8" "list_all (\<lambda>d. - (2 ^ 31) \<le> d \<and> d < 2 ^ 31) fds"
    and "rm_control m = Some c" "CMSG_SPACE (4 * length fds) \<le> length c"
  shows "control_fds (map_option (take (rm_controllen (report_fds fds m))) (rm_control (report_fds fds m))) = fds"
proof -
  define k where "k = CMSG_SPACE (4 * length fds)"
  define r where "r = take (k - (16 + 4 * length fds)) (drop (16 + 4 * length fds) c)"
  have "(23 + 4 * length fds) div 8 = (4 * length fds + 7) div 8 + 2" by presburger
  then have k: "16 + 4 * length fds \<le> k" "CMSG_ALIGN (16 + 4 * length fds) = k" "16 \<le> k"
    by (auto simp: k_def CMSG_SPACE_def CMSG_ALIGN_def)
  have t: "take k (put_at 0 (cmsg_build fds) c) = cmsg_build fds @ r"
    using k(1) by (simp add: put_at_def length_cmsg_build r_def)
  have len: "length (cmsg_build fds @ r) = k"
    using assms(5) k(1) by (simp add: length_cmsg_build r_def k_def[symmetric])
  have ints: "cmsg_ints (cmsg_build fds @ r) 0 (length fds) = fds"
    using assms(3) cmsg_build_fields(4)[OF assms(2)]
    by (intro nth_equalityI) (simp_all add: cmsg_ints_def sint_fd list_all_length)
  have "scm_rights (cmsg_build fds @ r) 0 [] = scm_rights (cmsg_build fds @ r) k fds"
    using assms(2) k len cmsg_build_fields(1-3)[OF assms(2), of r] ints
    by (subst scm_rights.simps) (simp add: Let_def del: length_append)
  also have "\<dots> = fds" by (subst scm_rights.simps) (simp add: len del: length_append)
  finally show ?thesis
    using assms(1,4,5) t len k(3) by (simp add: report_fds_def control_fds_def k_def[symmetric] del: length_append)
qed

theorem control_roundtrip_witness:
  "control_fds (map_option (take (rm_controllen (report_fds [3, 4] \<lparr>rm_ret = 0, rm_data = [], rm_control = Some (replicate 32 0),
      rm_controllen = 32, rm_ctrunc = False\<rparr>)))
    (rm_control (report_fds [3, 4] \<lparr>rm_ret = 0, rm_data = [], rm_control = Some (replicate 32 0),
      rm_controllen = 32, rm_ctrunc = False\<rparr>))) = [3, 4]"
  by (rule control_roundtrip[where c = "replicate 32 0"]) (simp_all add: CMSG_SPACE_def CMSG_ALIGN_def)

text \<open>C30: The circular receive buffer of a socket refines an unbounded queue of bytes: for every
  sequence of writes and reads the bytes accepted, after those already there, are the bytes
  delivered followed by those still there, and the positions and the count stay consistent.\<close>

theorem rx_buffer_stream:
  assumes "rx_ok s" "list_all small_op ops" "queue_run rx_room rx_put rx_get ops s = (acc, del, s')"
  shows "rx_ok s' \<and> rx_bytes s @ acc = del @ rx_bytes s'"
  using assms by (rule rxq.run_fifo)

definition empty_socket :: Socket where
  "empty_socket = zero_socket\<lparr>sk_rx_buf := Some (replicate 4096 0), sk_rx_size := 4096\<rparr>"

theorem rx_buffer_stream_witness:
  "\<exists>acc del s'. queue_run rx_room rx_put rx_get [Put [1, 2, 3], Get 2, Put [4]] empty_socket = (acc, del, s') \<and>
     rx_ok s' \<and> rx_bytes empty_socket @ acc = del @ rx_bytes s'"
proof -
  have ok: "rx_ok empty_socket" by (simp add: empty_socket_def rx_ok_def zero_socket_def)
  obtain acc del s' where r: "queue_run rx_room rx_put rx_get [Put [1, 2, 3], Get 2, Put [4]] empty_socket = (acc, del, s')"
    by (metis prod_cases3)
  have "rx_ok s' \<and> rx_bytes empty_socket @ acc = del @ rx_bytes s'"
    by (rule rx_buffer_stream[OF ok _ r]) simp
  then show ?thesis using r by blast
qed

text \<open>C29: From initialisation on, after every sequence of received packets, timer ticks and calls
  on internet sockets (no local socket is created) each step of which returns, at whatever depth
  of loopback delivery: buffer positions and counts agree, retransmission timeouts of stream
  sockets lie between 200 ms and 60 s, unacknowledged segments fit a packet and the backlog of a
  listener fits its array.  Of the parameters it is assumed that blocks have the size
  requested and that the delay leaves the sockets alone.\<close>

theorem stack_invariant:
  assumes "env_ok env" "list_all inet_op ops" "net_run env depth ops (net_init mac n) = Some n'"
  shows "net_inv n'"
  by (rule run_inv[OF assms(1) init_inv assms(2,3)])

theorem stack_invariant_witness:
  "\<exists>n'. net_run quiet_env 1 [Sys_Socket 2 1 0, Sys_Listen 3 4, Clock 5, Sys_Recv 3 10] (net_init None blank_net) = Some n' \<and> net_inv n'"
proof -
  have "\<exists>n'. net_run quiet_env 1 [Sys_Socket 2 1 0, Sys_Listen 3 4, Clock 5, Sys_Recv 3 10] (net_init None blank_net) = Some n'"
    by (simp add: net_socket_def socket_args_error_def AF_INET_def AF_UNIX_def SOCK_STREAM_def SOCK_DGRAM_def
        net_init_def Let_def blank_net_def net_arp_init_def net_alloc_socket_slot_def first_index_def upt_rec NET_MAX_SOCKETS_def
        kmalloc_def quiet_env_def vfs_register_socket_def vfs_alloc_fd_def VFS_MAX_FD_def upd_socket_def)
  moreover have "list_all inet_op [Sys_Socket 2 1 0, Sys_Listen 3 4, Clock 5, Sys_Recv 3 10]" by (simp add: AF_UNIX_def)
  ultimately show ?thesis using stack_invariant[OF quiet_env_ok, of _ 1 None blank_net] by blast
qed

end
