(* ===== verification/SF_Ipc.thy ===== *)
theory SF_Ipc
  imports SF_Memory
begin

text \<open>
  Capabilities and message passing (\<^verbatim>\<open>kernel/ipc.c\<close>).  A handle is the number a task holds;
  it names a slot of the task's capability table and the slot's generation.  A system call
  returns the number put into the caller's \<^verbatim>\<open>rax\<close>; \<open>None\<close> is a panic or a copy through a
  missing translation.
\<close>

section \<open>Messages\<close>

text \<open>The fields of the 328-byte image of \<^verbatim>\<open>SfMessage\<close> the kernel reads.\<close>

definition ms_flags :: "bytes \<Rightarrow> u32" where "ms_flags m = rd_le32 m 12"
definition ms_request :: "bytes \<Rightarrow> u64" where "ms_request m = rd_le64 m 16"
definition ms_deadline :: "bytes \<Rightarrow> u64" where "ms_deadline m = rd_le64 m 32"

definition copied :: "u64 \<Rightarrow> nat \<Rightarrow> u64" where
  "copied cnt k = (if of_nat k > - 1 - cnt then - 1 else cnt + of_nat k)"

text \<open>The clock in nanoseconds; the product wraps.\<close>

definition now_ns :: "Kernel \<Rightarrow> u64" where
  "now_ns ks = ks_ticks ks * 10000000"

section \<open>Capabilities\<close>

definition cap :: "Kernel \<Rightarrow> nat \<Rightarrow> u64 \<Rightarrow> u32 \<Rightarrow> nat option" where
  "cap ks ti h rights =
     (let i = unat (h AND 255)
      in if h > 0xffffffff then None
         else if i = 0 \<or> i > 32 then None
         else let c = tk_caps (ks_tasks ks ti) (i - 1)
           in if cp_endpoint c = 0 \<or> ucast (cp_generation c) \<noteq> drop_bit 8 h \<or> cp_rights c AND rights \<noteq> rights
              then None
              else let e = ks_endpoints ks (unat (cp_endpoint c) - 1)
                in if ep_owner e \<noteq> 0 \<and> cp_epoch c = ep_epoch e then Some (i - 1) else None)"

definition task_caps_used :: "Task \<Rightarrow> nat" where
  "task_caps_used t = length (filter (\<lambda>i. cp_endpoint (tk_caps t i) \<noteq> 0) [0..<32])"

definition cap_slot :: "Task \<Rightarrow> nat option" where
  "cap_slot t =
     (if tk_cap_limit t > SF_CAP_LIMIT_MAX \<or> of_nat (task_caps_used t) \<ge> tk_cap_limit t then None
      else first_index (\<lambda>i. cp_endpoint (tk_caps t i) = 0 \<and> cp_generation (tk_caps t i) < 0x7fffff) 32)"

definition install :: "Kernel \<Rightarrow> nat \<Rightarrow> nat \<Rightarrow> u32 \<Rightarrow> int \<times> Kernel" where
  "install ks ti ep rights =
     (case cap_slot (ks_tasks ks ti) of
        None \<Rightarrow> (sf_code SF_NO_SPACE, ks)
      | Some slot \<Rightarrow>
         (let g = cp_generation (tk_caps (ks_tasks ks ti) slot) + 1
          in (sint (push_bit 8 g OR (of_nat slot + 1)),
              put_cap ti slot \<lparr>cp_endpoint = of_nat ep + 1, cp_epoch = ep_epoch (ks_endpoints ks ep),
                cp_rights = rights, cp_generation = g\<rparr> ks)))"

text \<open>The endpoint index of a capability.\<close>

definition cap_ep :: "Kernel \<Rightarrow> nat \<Rightarrow> nat \<Rightarrow> nat" where
  "cap_ep ks ti k = unat (cp_endpoint (tk_caps (ks_tasks ks ti) k)) - 1"

definition ipc_grant :: "Kernel \<Rightarrow> nat \<Rightarrow> nat \<Rightarrow> u32 \<Rightarrow> u32 \<Rightarrow> int \<times> Kernel" where
  "ipc_grant ks src dst handle rights =
     (case cap ks src (ucast handle) RIGHT_DELEGATE of
        None \<Rightarrow> (sf_code SF_DENIED, ks)
      | Some k \<Rightarrow>
          if rights AND cp_rights (tk_caps (ks_tasks ks src) k) \<noteq> rights then (sf_code SF_DENIED, ks)
          else install ks dst (cap_ep ks src k) rights)"

definition wake :: "Kernel \<Rightarrow> u64 \<Rightarrow> Task \<Rightarrow> Task" where
  "wake ks v t = t\<lparr>tk_frame := (tk_frame t)\<lparr>fr_rax := v\<rparr>, tk_state := T_READY, tk_ready_since := ks_ticks ks\<rparr>"

definition drop_endpoint :: "Kernel \<Rightarrow> nat \<Rightarrow> Task \<Rightarrow> Task" where
  "drop_endpoint ks i t =
     (let t = (if tk_state t = T_BLOCKED \<and> tk_wait_endpoint t = of_nat i + 1
               then wake ks (of_int (sf_code SF_REVOKED)) t else t)
      in t\<lparr>tk_caps := (\<lambda>k. let c = tk_caps t k in
            if k < 32 \<and> cp_endpoint c = of_nat i + 1 then c\<lparr>cp_endpoint := 0\<rparr> else c)\<rparr>)"

definition invalidate :: "nat \<Rightarrow> Kernel \<Rightarrow> Kernel" where
  "invalidate i ks =
     (let e = ks_endpoints ks i;
          ks = put_endpoint i (e\<lparr>ep_owner := 0, ep_count := 0, ep_epoch := ep_epoch e + 1\<rparr>) ks
      in ks\<lparr>ks_tasks := (\<lambda>j. if j < SF_MAX_TASKS then drop_endpoint ks i (ks_tasks ks j) else ks_tasks ks j)\<rparr>)"

definition endpoint_held :: "Kernel \<Rightarrow> u32 \<Rightarrow> bool" where
  "endpoint_held ks ep \<longleftrightarrow>
     list_ex (\<lambda>j. list_ex (\<lambda>k. cp_endpoint (tk_caps (ks_tasks ks j) k) = ep) [0..<32]) [0..<SF_MAX_TASKS]"

definition close_cap :: "nat \<Rightarrow> nat \<Rightarrow> Kernel \<Rightarrow> Kernel" where
  "close_cap ti k ks =
     (let c = tk_caps (ks_tasks ks ti) k;
          ks = put_cap ti k (c\<lparr>cp_endpoint := 0\<rparr>) ks
      in if endpoint_held ks (cp_endpoint c) then ks else invalidate (unat (cp_endpoint c) - 1) ks)"

definition ipc_cleanup :: "nat \<Rightarrow> Kernel \<Rightarrow> Kernel" where
  "ipc_cleanup ti ks =
     (let pid = tk_pid (ks_tasks ks ti);
          ks = fold (\<lambda>i ks. if ep_owner (ks_endpoints ks i) = pid then invalidate i ks else ks) [0..<ENDPOINTS] ks
      in fold (\<lambda>k ks. if cp_endpoint (tk_caps (ks_tasks ks ti) k) \<noteq> 0 then close_cap ti k ks else ks) [0..<32] ks)"

definition ipc_deadlines :: "Kernel \<Rightarrow> Kernel" where
  "ipc_deadlines ks = ks\<lparr>ks_tasks := (\<lambda>i. let t = ks_tasks ks i in
     if i < SF_MAX_TASKS \<and> tk_state t = T_BLOCKED \<and> tk_wait_deadline t \<noteq> 0 \<and> now_ns ks \<ge> tk_wait_deadline t
     then wake ks (of_int (sf_code SF_TIMEOUT)) t else t)\<rparr>"

section \<open>System calls\<close>

definition sys_ep_create :: "nat \<Rightarrow> Kernel \<Rightarrow> int \<times> Kernel" where
  "sys_ep_create ti ks =
     (if cap_slot (ks_tasks ks ti) = None then (sf_code SF_NO_SPACE, ks)
      else case first_index (\<lambda>i. ep_owner (ks_endpoints ks i) = 0) ENDPOINTS of
        None \<Rightarrow> (sf_code SF_NO_SPACE, ks)
      | Some i \<Rightarrow>
         (let e = ks_endpoints ks i;
              ks = put_endpoint i (e\<lparr>ep_owner := tk_pid (ks_tasks ks ti), ep_epoch := ep_epoch e + 1,
                     ep_head := 0, ep_count := 0\<rparr>) ks;
              (h, ks) = install ks ti i 7
          in (h, if h < 0 then put_endpoint i ((ks_endpoints ks i)\<lparr>ep_owner := 0\<rparr>) ks else ks)))"

definition sys_cap_close :: "nat \<Rightarrow> u64 \<Rightarrow> Kernel \<Rightarrow> int \<times> Kernel" where
  "sys_cap_close ti a ks =
     (case cap ks ti a 0 of
        None \<Rightarrow> (sf_code SF_STALE_HANDLE, ks)
      | Some k \<Rightarrow> (0, close_cap ti k ks))"

definition sys_cap_derive :: "nat \<Rightarrow> u64 \<Rightarrow> u64 \<Rightarrow> Kernel \<Rightarrow> int \<times> Kernel" where
  "sys_cap_derive ti a b ks =
     (case cap ks ti a RIGHT_DELEGATE of
        None \<Rightarrow> (sf_code SF_DENIED, ks)
      | Some k \<Rightarrow>
          if b AND NOT 7 \<noteq> 0 \<or> b AND ucast (cp_rights (tk_caps (ks_tasks ks ti) k)) \<noteq> b then (sf_code SF_DENIED, ks)
          else install ks ti (cap_ep ks ti k) (ucast b))"

definition sys_cap_revoke :: "nat \<Rightarrow> u64 \<Rightarrow> Kernel \<Rightarrow> int \<times> Kernel" where
  "sys_cap_revoke ti a ks =
     (case cap ks ti a RIGHT_DELEGATE of
        None \<Rightarrow> (sf_code SF_DENIED, ks)
      | Some k \<Rightarrow>
          if ep_owner (ks_endpoints ks (cap_ep ks ti k)) \<noteq> tk_pid (ks_tasks ks ti) then (sf_code SF_DENIED, ks)
          else (0, invalidate (cap_ep ks ti k) ks))"

text \<open>The compaction loop of a cancellation: the slots written and the number of messages kept.\<close>

definition cancelled :: "u32 \<Rightarrow> u64 \<Rightarrow> bytes \<Rightarrow> bool" where
  "cancelled pid req m \<longleftrightarrow> ms_flags m = pid \<and> ms_request m = req"

definition compact_step :: "u32 \<Rightarrow> u64 \<Rightarrow> nat \<Rightarrow> nat \<Rightarrow> nat \<times> (nat \<Rightarrow> bytes) \<Rightarrow> nat \<times> (nat \<Rightarrow> bytes)" where
  "compact_step pid req head i st =
     (case st of (kept, q) \<Rightarrow>
        let m = q ((head + i) mod 8)
        in if cancelled pid req m then (kept, q)
           else (kept + 1, if kept \<noteq> i then q((head + kept) mod 8 := m) else q))"

definition ep_cancel :: "u32 \<Rightarrow> u64 \<Rightarrow> Endpoint \<Rightarrow> nat \<times> Endpoint" where
  "ep_cancel pid req e =
     (let head = unat (ep_head e); cnt = unat (ep_count e);
          (kept, q) = fold (compact_step pid req head) [0..<cnt] (0, ep_queue e)
      in if kept = cnt then (0, e\<lparr>ep_queue := q\<rparr>)
         else (cnt - kept, e\<lparr>ep_queue := fold (\<lambda>i q. q((head + i) mod 8 := replicate MSG_SIZE 0)) [kept..<cnt] q,
                             ep_count := of_nat kept, ep_head := (if kept = 0 then 0 else ep_head e)\<rparr>))"

definition sys_send_cancel :: "nat \<Rightarrow> u64 \<Rightarrow> u64 \<Rightarrow> u64 \<Rightarrow> Kernel \<Rightarrow> int \<times> Kernel" where
  "sys_send_cancel ti a b c ks =
     (case cap ks ti a RIGHT_SEND of
        None \<Rightarrow> (sf_code SF_STALE_HANDLE, ks)
      | Some k \<Rightarrow>
         (let ep = cap_ep ks ti k; e = ks_endpoints ks ep
          in if c \<noteq> 0 then (sf_code SF_INVALID, ks)
             else if ep_head e \<ge> 8 \<or> ep_count e > 8 then (sf_code SF_BAD_FORMAT, ks)
             else let (removed, e) = ep_cancel (tk_pid (ks_tasks ks ti)) b e
               in (int removed, put_endpoint ep e ks)))"

text \<open>The header fields \<^verbatim>\<open>size\<close>, \<^verbatim>\<open>protocol_major\<close>, \<^verbatim>\<open>protocol_minor\<close>, \<^verbatim>\<open>payload_bytes\<close>, \<^verbatim>\<open>cap_count\<close> and
  the \<^verbatim>\<open>length\<close> of a message.\<close>

definition message_ok :: "bytes \<Rightarrow> bool" where
  "message_ok m \<longleftrightarrow> rd_le32 m 0 = 40 \<and> rd_le16 m 4 = 1 \<and> rd_le16 m 6 = 0 \<and> rd_le32 m 24 \<le> 288 \<and>
     rd_le32 m 28 = 0 \<and> rd_le32 m 64 \<le> SF_MSG_BYTES"

definition ep_push :: "bytes \<Rightarrow> Endpoint \<Rightarrow> Endpoint" where
  "ep_push m e = e\<lparr>ep_queue := (ep_queue e)((unat (ep_head e) + unat (ep_count e)) mod 8 := m), ep_count := ep_count e + 1\<rparr>"

definition sys_send :: "nat \<Rightarrow> u64 \<Rightarrow> u64 \<Rightarrow> Kernel \<Rightarrow> (int \<times> Kernel) option" where
  "sys_send ti a b ks =
     (case cap ks ti a RIGHT_SEND of
        None \<Rightarrow> Some (sf_code SF_STALE_HANDLE, ks)
      | Some k \<Rightarrow>
         (case copy_in ks ti b MSG_SIZE of
            None \<Rightarrow> None
          | Some (Err _) \<Rightarrow> Some (sf_code SF_DENIED, ks)
          | Some (Ok m) \<Rightarrow>
             (let ks = ks\<lparr>ks_send_bytes := copied (ks_send_bytes ks) MSG_SIZE\<rparr>;
                  pid = tk_pid (ks_tasks ks ti); x = cp_endpoint (tk_caps (ks_tasks ks ti) k); ep = unat x - 1;
                  e = ks_endpoints ks ep
              in if \<not> message_ok m then Some (sf_code SF_INVALID, ks)
                 else if ms_deadline m \<noteq> 0 \<and> now_ns ks \<ge> ms_deadline m then Some (sf_code SF_TIMEOUT, ks)
                 else let m = put_at 12 (le32 pid) m
                   in case first_index (\<lambda>j. tk_state (ks_tasks ks j) = T_BLOCKED \<and> tk_wait_endpoint (ks_tasks ks j) = x) SF_MAX_TASKS of
                        Some r \<Rightarrow>
                          (case copy_out ks r (tk_recv_buffer (ks_tasks ks r)) m of
                             Some (Ok _, ks) \<Rightarrow>
                               (let ks = ks\<lparr>ks_receive_bytes := copied (ks_receive_bytes ks) MSG_SIZE\<rparr>
                                in Some (0, put_task r (wake ks (ucast pid) (ks_tasks ks r)) ks))
                           | _ \<Rightarrow> None)
                      | None \<Rightarrow>
                          if ep_count e = 8 then Some (sf_code SF_WOULD_BLOCK, ks)
                          else Some (0, put_endpoint ep (ep_push m e) ks))))"

definition ep_pop :: "Endpoint \<Rightarrow> Endpoint" where
  "ep_pop e = e\<lparr>ep_head := (ep_head e + 1) mod 8, ep_count := ep_count e - 1\<rparr>"

definition sys_recv :: "nat \<Rightarrow> u64 \<Rightarrow> u64 \<Rightarrow> u64 \<Rightarrow> Kernel \<Rightarrow> (int \<times> Kernel) option" where
  "sys_recv ti a b c ks =
     (case cap ks ti a RIGHT_RECV of
        None \<Rightarrow> Some (sf_code SF_STALE_HANDLE, ks)
      | Some k \<Rightarrow>
         (let x = cp_endpoint (tk_caps (ks_tasks ks ti) k); ep = unat x - 1; e = ks_endpoints ks ep
          in if \<not> user_range ks ti b (of_nat MSG_SIZE) True then Some (sf_code SF_DENIED, ks)
             else if ep_count e \<noteq> 0 then
               (let m = ep_queue e (unat (ep_head e))
                in case copy_out ks ti b m of
                     None \<Rightarrow> None
                   | Some (Err _, ks) \<Rightarrow> Some (sf_code SF_DENIED, ks)
                   | Some (Ok _, ks) \<Rightarrow>
                       Some (int (unat (ms_flags m)),
                         put_endpoint ep (ep_pop e) (ks\<lparr>ks_receive_bytes := copied (ks_receive_bytes ks) MSG_SIZE\<rparr>)))
             else if c \<noteq> 0 \<and> now_ns ks \<ge> c then Some (sf_code SF_TIMEOUT, ks)
             else Some (0, put_task ti ((ks_tasks ks ti)\<lparr>tk_state := T_BLOCKED, tk_wait_endpoint := x,
                    tk_recv_buffer := b, tk_wait_deadline := c\<rparr>) ks)))"

text \<open>The numbers of the calls, in the order of the enumeration in \<^verbatim>\<open>sf.h\<close>.\<close>

definition SYS_EP_CREATE :: u64 where "SYS_EP_CREATE = 4"
definition SYS_SEND :: u64 where "SYS_SEND = 5"
definition SYS_RECV :: u64 where "SYS_RECV = 6"
definition SYS_CAP_DERIVE :: u64 where "SYS_CAP_DERIVE = 12"
definition SYS_CAP_CLOSE :: u64 where "SYS_CAP_CLOSE = 13"
definition SYS_CAP_REVOKE :: u64 where "SYS_CAP_REVOKE = 15"
definition SYS_SEND_CANCEL :: u64 where "SYS_SEND_CANCEL = 22"

lemmas ipc_numbers = SYS_EP_CREATE_def SYS_SEND_def SYS_RECV_def SYS_CAP_DERIVE_def SYS_CAP_CLOSE_def
  SYS_CAP_REVOKE_def SYS_SEND_CANCEL_def

definition ipc_syscall :: "u64 \<Rightarrow> u64 \<Rightarrow> u64 \<Rightarrow> u64 \<Rightarrow> Kernel \<Rightarrow> (int \<times> Kernel) option" where
  "ipc_syscall call a b c ks =
     (let ti = nat (ks_current ks)
      in if call = SYS_EP_CREATE then Some (sys_ep_create ti ks)
         else if call = SYS_CAP_CLOSE then Some (sys_cap_close ti a ks)
         else if call = SYS_CAP_DERIVE then Some (sys_cap_derive ti a b ks)
         else if call = SYS_CAP_REVOKE then Some (sys_cap_revoke ti a ks)
         else if call = SYS_SEND_CANCEL then Some (sys_send_cancel ti a b c ks)
         else if call = SYS_SEND then sys_send ti a b ks
         else if call = SYS_RECV then sys_recv ti a b c ks
         else Some (sf_code SF_INVALID, ks))"

definition ipc_stats_snapshot :: "Kernel \<Rightarrow> bytes" where
  "ipc_stats_snapshot ks =
     le32 24 @ le32 1 @ le32 (ucast (ks_send_bytes ks)) @ le32 (ucast (drop_bit 32 (ks_send_bytes ks))) @
     le32 (ucast (ks_receive_bytes ks)) @ le32 (ucast (drop_bit 32 (ks_receive_bytes ks)))"

end
