(* ===== verification/SF_Ipc_Queue.thy ===== *)
theory SF_Ipc_Queue
  imports SF_Ipc SF_Memory_Ops
begin

text \<open>
  Endpoint queues.  The ring of an endpoint is abstracted to the list of its messages, oldest
  first; appending, taking and cancelling are shown to act on that list, and every
  communication system call is shown to make one step of the specification on lists.
\<close>

section \<open>Endpoint queues\<close>

text \<open>The messages waiting at an endpoint, oldest first.\<close>

definition ep_messages :: "Endpoint \<Rightarrow> bytes list" where
  "ep_messages e = map (\<lambda>i. ep_queue e ((unat (ep_head e) + i) mod 8)) [0..<unat (ep_count e)]"

definition ep_ok :: "Endpoint \<Rightarrow> bool" where
  "ep_ok e \<longleftrightarrow> unat (ep_head e) < 8 \<and> unat (ep_count e) \<le> 8"

lemma ring_inj: "i < 8 \<Longrightarrow> j < 8 \<Longrightarrow> (h + i) mod 8 = (h + j) mod (8::nat) \<longleftrightarrow> i = j"
proof -
  assume ij: "i < 8" "j < 8"
  define r where "r = h mod 8"
  have "(h + n) mod 8 = (if r + n < 8 then r + n else r + n - 8)" if "n < 8" for n
  proof -
    have "(h + n) mod 8 = (r + n) mod 8" by (simp add: r_def mod_simps)
    moreover have "r < 8" by (simp add: r_def)
    ultimately show ?thesis using that by (simp add: le_mod_geq)
  qed
  moreover have "r < 8" by (simp add: r_def)
  ultimately show ?thesis using ij by (auto split: if_splits)
qed

lemma ep_push_ok:
  assumes "ep_ok e" "unat (ep_count e) < 8"
  shows "ep_ok (ep_push m e)" "ep_messages (ep_push m e) = ep_messages e @ [m]"
proof -
  have c: "unat (ep_count e + 1) = unat (ep_count e) + 1"
    using assms(2) by (simp add: unat_word_ariths(1))
  show "ep_ok (ep_push m e)" using assms by (simp add: ep_ok_def ep_push_def c)
  have "(unat (ep_head e) + i) mod 8 \<noteq> (unat (ep_head e) + unat (ep_count e)) mod 8" if "i < unat (ep_count e)" for i
    using that assms(2) ring_inj[of i "unat (ep_count e)" "unat (ep_head e)"] by simp
  then show "ep_messages (ep_push m e) = ep_messages e @ [m]"
    by (simp add: ep_messages_def ep_push_def c)
qed

lemma ep_pop_ok:
  assumes "ep_ok e" "ep_count e \<noteq> 0"
  shows "ep_ok (ep_pop e)" "ep_messages e = ep_queue e (unat (ep_head e)) # ep_messages (ep_pop e)"
proof -
  have pos: "0 < unat (ep_count e)" using assms(2) by (simp add: unat_gt_0)
  then have c: "unat (ep_count e - 1) = unat (ep_count e) - 1" by (simp add: unat_minus_one assms(2))
  have h: "unat ((ep_head e + 1) mod 8) = (unat (ep_head e) + 1) mod 8"
    using assms(1) by (simp add: ep_ok_def unat_mod unat_word_ariths(1))
  show "ep_ok (ep_pop e)" using assms pos by (auto simp: ep_ok_def ep_pop_def c h)
  obtain n where n: "unat (ep_count e) = Suc n" using pos gr0_implies_Suc by blast
  have "map (\<lambda>i. ep_queue e ((unat (ep_head e) + i) mod 8)) [0..<Suc n] =
    ep_queue e (unat (ep_head e)) # map (\<lambda>i. ep_queue e (((unat (ep_head e) + 1) mod 8 + i) mod 8)) [0..<n]"
    using assms(1) by (simp add: upt_conv_Cons map_Suc_upt[symmetric] ep_ok_def mod_simps del: upt_Suc)
  then show "ep_messages e = ep_queue e (unat (ep_head e)) # ep_messages (ep_pop e)"
    by (simp add: ep_messages_def ep_pop_def c h n)
qed

text \<open>Compaction: after \<open>i\<close> rounds the kept prefix is the filtered one and the unread
  suffix is untouched.\<close>

lemma compact_prefix:
  assumes "i \<le> 8" "fold (compact_step pid req h) [0..<i] (0, q) = (kept, q')"
  shows "kept \<le> i \<and>
    map (\<lambda>j. q' ((h + j) mod 8)) [0..<kept] = filter (\<lambda>m. \<not> cancelled pid req m) (map (\<lambda>j. q ((h + j) mod 8)) [0..<i]) \<and>
    (\<forall>j. i \<le> j \<and> j < 8 \<longrightarrow> q' ((h + j) mod 8) = q ((h + j) mod 8))"
  using assms
proof (induction i arbitrary: kept q')
  case 0
  then show ?case by simp
next
  case (Suc i)
  obtain kp qp where p: "fold (compact_step pid req h) [0..<i] (0, q) = (kp, qp)"
    by (cases "fold (compact_step pid req h) [0..<i] (0, q)") auto
  have IH: "kp \<le> i"
    "map (\<lambda>j. qp ((h + j) mod 8)) [0..<kp] = filter (\<lambda>m. \<not> cancelled pid req m) (map (\<lambda>j. q ((h + j) mod 8)) [0..<i])"
    "\<And>j. i \<le> j \<Longrightarrow> j < 8 \<Longrightarrow> qp ((h + j) mod 8) = q ((h + j) mod 8)"
    using Suc.IH[OF _ p] Suc.prems(1) by auto
  have st: "compact_step pid req h i (kp, qp) = (kept, q')" using Suc.prems(2) p by simp
  have m: "qp ((h + i) mod 8) = q ((h + i) mod 8)" using IH(3)[of i] Suc.prems(1) by simp
  show ?case
  proof (cases "cancelled pid req (q ((h + i) mod 8))")
    case True
    then have "kept = kp" "q' = qp" using st m by (simp_all add: compact_step_def)
    then show ?thesis using IH True by simp
  next
    case False
    then have k: "kept = kp + 1" and q: "q' = (if kp \<noteq> i then qp((h + kp) mod 8 := q ((h + i) mod 8)) else qp)"
      using st m by (auto simp: compact_step_def Let_def)
    have at: "q' ((h + kp) mod 8) = q ((h + i) mod 8)" using q m by auto
    have oth: "q' ((h + j) mod 8) = qp ((h + j) mod 8)" if "j \<noteq> kp" "j < 8" for j
      using that q IH(1) Suc.prems(1) ring_inj[of j kp h] by auto
    have "map (\<lambda>j. q' ((h + j) mod 8)) [0..<kp] = map (\<lambda>j. qp ((h + j) mod 8)) [0..<kp]"
      using oth IH(1) Suc.prems(1) by simp
    then show ?thesis using IH k at oth False Suc.prems(1) by simp
  qed
qed

lemma clear_outside:
  "b \<le> 8 \<Longrightarrow> j < a \<Longrightarrow> j < 8 \<Longrightarrow>
   fold (\<lambda>i q. q((h + i) mod 8 := z)) [a..<b] q ((h + j) mod 8) = q ((h + j) mod (8::nat))"
proof (induction b arbitrary: q)
  case (Suc b)
  show ?case
  proof (cases "a \<le> b")
    case True
    then have "(h + j) mod 8 \<noteq> (h + b) mod 8" using Suc.prems ring_inj[of j b h] by simp
    then show ?thesis using Suc True by simp
  qed simp
qed simp

lemma ep_cancel_ok:
  assumes "ep_ok e" "ep_cancel pid req e = (n, e')"
  shows "ep_ok e'" "ep_messages e' = filter (\<lambda>m. \<not> cancelled pid req m) (ep_messages e)"
    "n = length (filter (cancelled pid req) (ep_messages e))"
proof -
  let ?h = "unat (ep_head e)" and ?c = "unat (ep_count e)"
  let ?keep = "filter (\<lambda>m. \<not> cancelled pid req m) (ep_messages e)"
  obtain kept q where f: "fold (compact_step pid req ?h) [0..<?c] (0, ep_queue e) = (kept, q)"
    by (cases "fold (compact_step pid req ?h) [0..<?c] (0, ep_queue e)") auto
  have c8: "?c \<le> 8" using assms(1) by (simp add: ep_ok_def)
  note p = compact_prefix[OF c8 f]
  have k: "map (\<lambda>j. q ((?h + j) mod 8)) [0..<kept] = ?keep" using p by (simp add: ep_messages_def)
  then have len: "kept = length ?keep" by (metis length_map length_upt minus_nat.diff_0)
  have tot: "length ?keep + length (filter (cancelled pid req) (ep_messages e)) = ?c"
    using sum_length_filter_compl[of "cancelled pid req" "ep_messages e"] by (simp add: ep_messages_def)
  have all: "ep_ok e' \<and> ep_messages e' = ?keep \<and> n = length (filter (cancelled pid req) (ep_messages e))"
  proof (cases "kept = ?c")
    case True
    then have "e' = e\<lparr>ep_queue := q\<rparr>" "n = 0" using assms(2) f by (simp_all add: ep_cancel_def Let_def)
    moreover from this have "ep_messages e' = ?keep" using k True by (simp add: ep_messages_def)
    ultimately show ?thesis using assms(1) tot len True by (simp add: ep_ok_def)
  next
    case False
    let ?q = "fold (\<lambda>i q. q((?h + i) mod 8 := replicate MSG_SIZE 0)) [kept..<?c] q"
    have e': "e' = e\<lparr>ep_queue := ?q, ep_count := of_nat kept, ep_head := (if kept = 0 then 0 else ep_head e)\<rparr>"
      and n: "n = ?c - kept" using assms(2) f False by (auto simp: ep_cancel_def Let_def)
    have kl: "kept < 8" using p False c8 by linarith
    then have u: "unat (of_nat kept :: u32) = kept" by (simp add: unat_of_nat)
    have "map (\<lambda>j. ?q ((?h + j) mod 8)) [0..<kept] = map (\<lambda>j. q ((?h + j) mod 8)) [0..<kept]"
      by (rule map_cong[OF refl], rule clear_outside[OF c8]) (use kl in auto)
    then have "map (\<lambda>j. ?q ((?h + j) mod 8)) [0..<kept] = ?keep" using k by simp
    moreover have "ep_messages e' = map (\<lambda>j. ?q ((?h + j) mod 8)) [0..<kept]"
      by (cases "kept = 0") (simp_all add: e' ep_messages_def u)
    ultimately have "ep_messages e' = ?keep" by simp
    moreover have "ep_ok e'" using assms(1) kl by (simp add: e' ep_ok_def u)
    ultimately show ?thesis using n len tot by simp
  qed
  then show "ep_ok e'" "ep_messages e' = ?keep" "n = length (filter (cancelled pid req) (ep_messages e))" by auto
qed

section \<open>System calls as operations on queues\<close>

definition queue_of :: "Kernel \<Rightarrow> nat \<Rightarrow> bytes list" where
  "queue_of ks i = ep_messages (ks_endpoints ks i)"

definition endpoints_ok :: "Kernel \<Rightarrow> bool" where
  "endpoints_ok ks \<longleftrightarrow> (\<forall>i. ep_ok (ks_endpoints ks i))"

text \<open>Some task is blocked receiving from the endpoint.\<close>

definition awaited :: "Kernel \<Rightarrow> u32 \<Rightarrow> bool" where
  "awaited ks x \<longleftrightarrow>
     list_ex (\<lambda>j. tk_state (ks_tasks ks j) = T_BLOCKED \<and> tk_wait_endpoint (ks_tasks ks j) = x) [0..<SF_MAX_TASKS]"

text \<open>What a call of task \<open>ti\<close> that returned \<open>r\<close> did to the queue of endpoint \<open>i\<close>.\<close>

definition queue_spec :: "Kernel \<Rightarrow> nat \<Rightarrow> u64 \<Rightarrow> u64 \<Rightarrow> int \<Rightarrow> Kernel \<Rightarrow> nat \<Rightarrow> bool" where
  "queue_spec ks ti call b r ks' i =
     (let pid = tk_pid (ks_tasks ks ti); q = queue_of ks i; q' = queue_of ks' i
      in if r < 0 then q' = q \<and> (r = sf_code SF_WOULD_BLOCK \<longrightarrow> call = SYS_SEND \<and> length q = 8)
         else if call = SYS_SEND then
           r = 0 \<and> (\<exists>m. copy_in ks ti b MSG_SIZE = Some (Ok m) \<and> message_ok m \<and>
             (if awaited ks (of_nat i + 1) then q' = q else length q < 8 \<and> q' = q @ [put_at 12 (le32 pid) m]))
         else if call = SYS_RECV then
           (case q of [] \<Rightarrow> r = 0 \<and> q' = [] \<and> tk_state (ks_tasks ks' ti) = T_BLOCKED
            | m # ms \<Rightarrow> r = int (unat (ms_flags m)) \<and> q' = ms \<and>
                (\<exists>ks1. copy_out ks ti b m = Some (Ok (), ks1) \<and> ks_phys ks' = ks_phys ks1))
         else if call = SYS_SEND_CANCEL then
           r = int (length (filter (cancelled pid b) q)) \<and> q' = filter (\<lambda>m. \<not> cancelled pid b m) q
         else if call = SYS_CAP_DERIVE then q' = q
         else if call = SYS_CAP_CLOSE then q' = q \<or> q' = []
         else q' = [])"

text \<open>Either the call failed, or it created the endpoint, or the caller's handle names it.\<close>

definition call_target :: "Kernel \<Rightarrow> nat \<Rightarrow> u64 \<Rightarrow> u64 \<Rightarrow> int \<Rightarrow> nat \<Rightarrow> bool" where
  "call_target ks ti call a r i \<longleftrightarrow>
     r < 0 \<or> (if call = SYS_EP_CREATE then ep_owner (ks_endpoints ks i) = 0
              else \<exists>k. cap ks ti a 0 = Some k \<and> cap_ep ks ti k = i)"

lemma sf_code_block: "sf_code e = - 15 \<longleftrightarrow> e = SF_WOULD_BLOCK"
  by (cases e) simp_all

lemma cap_rights: "cap ks ti a r = Some k \<Longrightarrow> cap ks ti a 0 = Some k"
  by (auto simp: cap_def Let_def split: if_splits)

lemma cap_SomeD:
  assumes "cap ks ti h r = Some k"
  shows "k < 32" "unat (h AND 255) = k + 1" "cp_endpoint (tk_caps (ks_tasks ks ti) k) \<noteq> 0"
    "ucast (cp_generation (tk_caps (ks_tasks ks ti) k)) = drop_bit 8 h"
    "cp_rights (tk_caps (ks_tasks ks ti) k) AND r = r"
    "ep_owner (ks_endpoints ks (cap_ep ks ti k)) \<noteq> 0"
    "cp_epoch (tk_caps (ks_tasks ks ti) k) = ep_epoch (ks_endpoints ks (cap_ep ks ti k))"
    "h \<le> 0xffffffff"
  using assms by (auto simp: cap_def cap_ep_def Let_def split: if_splits)

lemma cap_ep_word: "cap ks ti h r = Some k \<Longrightarrow> of_nat (cap_ep ks ti k) + 1 = cp_endpoint (tk_caps (ks_tasks ks ti) k)"
proof -
  assume "cap ks ti h r = Some k"
  then have "cp_endpoint (tk_caps (ks_tasks ks ti) k) \<noteq> 0" by (rule cap_SomeD)
  then have "0 < unat (cp_endpoint (tk_caps (ks_tasks ks ti) k))" by (simp add: unat_gt_0)
  then show ?thesis by (simp add: cap_ep_def)
qed

lemma put_cap_simps [simp]:
  "ks_endpoints (put_cap ti k c ks) = ks_endpoints ks"
  "ks_phys (put_cap ti k c ks) = ks_phys ks"
  "tk_state (ks_tasks (put_cap ti k c ks) tj) = tk_state (ks_tasks ks tj)"
  by (simp_all add: put_cap_def)

lemma install_endpoints: "install ks ti ep r = (h, ks') \<Longrightarrow> ks_endpoints ks' = ks_endpoints ks"
  by (auto simp: install_def Let_def split: option.splits)

lemma bit_imp_le_nat: "bit (x :: nat) m \<Longrightarrow> 2 ^ m \<le> x"
  by (metis bit_iff_odd div_less even_zero not_le)

lemma small_bits: "unat (x :: 'a::len word) < 2 ^ n \<Longrightarrow> n \<le> m \<Longrightarrow> \<not> bit x m"
proof
  assume a: "unat x < 2 ^ n" "n \<le> m" "bit x m"
  then have "bit (unat x) m" by (simp add: bit_simps)
  then have "2 ^ m \<le> unat x" by (rule bit_imp_le_nat)
  moreover have "(2::nat) ^ n \<le> 2 ^ m" using a(2) by (rule power_increasing) simp
  ultimately show False using a(1) by linarith
qed

definition handle_of :: "u32 \<Rightarrow> nat \<Rightarrow> u32" where
  "handle_of g s = push_bit 8 g OR (of_nat s + 1)"

lemma nonneg_sint:
  assumes "\<not> bit (w :: u32) 31"
  shows "sint w = uint w" "0 \<le> sint w"
proof -
  have "n < 31" if "bit w n" for n
    using that assms bit_imp_le_length[of w n] by (cases "n = 31") auto
  then have "take_bit 31 (uint w) = uint w" by (auto simp: bit_eq_iff bit_simps)
  then show "sint w = uint w" using assms by (simp add: sint_uint signed_take_bit_eq_if_positive bit_uint_iff)
  then show "0 \<le> sint w" by simp
qed

lemma handle_fields:
  assumes g: "unat g < 2 ^ 23" and s: "s < 32"
  shows "0 \<le> sint (handle_of g s)" "(of_int (sint (handle_of g s)) :: u64) = ucast (handle_of g s)"
    "unat ((ucast (handle_of g s) :: u64) AND 255) = s + 1"
    "drop_bit 8 (ucast (handle_of g s) :: u64) = ucast g"
proof -
  define x :: u32 where "x = of_nat s + 1"
  have "x = of_nat (s + 1)" by (simp add: x_def)
  moreover have "unat (of_nat (s + 1) :: u32) = s + 1" using s unfolding unat_of_nat by simp
  ultimately have ux: "unat x = s + 1" by simp
  have xb: "\<not> bit x n" if "8 \<le> n" for n using small_bits[of x 8 n] that s ux by simp
  have gb: "\<not> bit g n" if "23 \<le> n" for n using small_bits[of g 23 n] that g by simp
  have nb: "\<not> bit (handle_of g s) 31" using xb gb[of 23] by (simp add: handle_of_def x_def[symmetric] bit_simps)
  show "0 \<le> sint (handle_of g s)" using nonneg_sint[OF nb] by simp
  show "(of_int (sint (handle_of g s)) :: u64) = ucast (handle_of g s)"
    unfolding nonneg_sint(1)[OF nb] ucast_eq ..
  have "(ucast (handle_of g s) :: u64) AND 255 = ucast x"
  proof -
    have "(255 :: u64) = mask 8" by (simp add: mask_eq_exp_minus_1)
    then show ?thesis using xb by (auto simp: bit_eq_iff handle_of_def x_def[symmetric] bit_simps)
  qed
  then show "unat ((ucast (handle_of g s) :: u64) AND 255) = s + 1" using ux by (simp add: unsigned_ucast_eq)
  show "drop_bit 8 (ucast (handle_of g s) :: u64) = ucast g"
  proof -
    have "n < 23" if "bit g n" for n using gb[of n] that by (cases "23 \<le> n") auto
    then show ?thesis using xb by (fastforce simp: bit_eq_iff handle_of_def x_def[symmetric] bit_simps)
  qed
qed

lemma cap_slot_SomeD:
  assumes "cap_slot t = Some s"
  shows "s < 32" "cp_endpoint (tk_caps t s) = 0" "cp_generation (tk_caps t s) < 0x7fffff"
    "unat (cp_generation (tk_caps t s) + 1) = unat (cp_generation (tk_caps t s)) + 1"
    "unat (cp_generation (tk_caps t s) + 1) < 2 ^ 23"
    "of_nat (task_caps_used t) < tk_cap_limit t" "tk_cap_limit t \<le> 32"
proof -
  show s: "s < 32" "cp_endpoint (tk_caps t s) = 0" and g: "cp_generation (tk_caps t s) < 0x7fffff"
    using assms first_index_SomeD[where n = 32 and i = s] by (auto simp: cap_slot_def split: if_splits)
  show u: "unat (cp_generation (tk_caps t s) + 1) = unat (cp_generation (tk_caps t s)) + 1"
    using unat_less_inc[OF g] by simp
  show "unat (cp_generation (tk_caps t s) + 1) < 2 ^ 23" using unat_less_inc[OF g] by simp
  show "of_nat (task_caps_used t) < tk_cap_limit t" "tk_cap_limit t \<le> 32"
    using assms by (auto simp: cap_slot_def SF_CAP_LIMIT_MAX_def split: if_splits)
qed

lemma install_cases:
  assumes "install ks ti ep r = (h, ks')"
  obtains (full) "cap_slot (ks_tasks ks ti) = None" "h = sf_code SF_NO_SPACE" "ks' = ks"
  | (slot) s g where "cap_slot (ks_tasks ks ti) = Some s" "g = cp_generation (tk_caps (ks_tasks ks ti) s) + 1"
      "h = sint (handle_of g s)" "0 \<le> h"
      "ks' = put_cap ti s \<lparr>cp_endpoint = of_nat ep + 1, cp_epoch = ep_epoch (ks_endpoints ks ep),
                cp_rights = r, cp_generation = g\<rparr> ks"
proof (cases "cap_slot (ks_tasks ks ti)")
  case None
  then show thesis using assms by (intro full) (simp_all add: install_def)
next
  case (Some s)
  let ?g = "cp_generation (tk_caps (ks_tasks ks ti) s) + 1"
  have "0 \<le> sint (handle_of ?g s)" using handle_fields(1) cap_slot_SomeD(1,5)[OF Some] by blast
  then show thesis using assms Some by (intro slot[OF Some refl]) (simp_all add: install_def Let_def handle_of_def)
qed

definition queue_step :: "Kernel \<Rightarrow> nat \<Rightarrow> u64 \<Rightarrow> u64 \<Rightarrow> u64 \<Rightarrow> int \<Rightarrow> Kernel \<Rightarrow> bool" where
  "queue_step ks ti call a b r ks' \<longleftrightarrow> endpoints_ok ks' \<and>
     (\<exists>i. call_target ks ti call a r i \<and> queue_spec ks ti call b r ks' i \<and> (\<forall>j. j \<noteq> i \<longrightarrow> queue_of ks' j = queue_of ks j))"

lemma queue_step_error:
  assumes "endpoints_ok ks" "ks_endpoints ks' = ks_endpoints ks" "r = sf_code e" "e \<noteq> SF_WOULD_BLOCK"
  shows "queue_step ks ti call a b r ks'"
  unfolding queue_step_def call_target_def queue_spec_def Let_def
  using assms sf_code_neg[of e] sf_code_block[of e]
  by (simp add: endpoints_ok_def queue_of_def)

lemma queue_stepI:
  assumes "endpoints_ok ks" "ks_endpoints ks' = (ks_endpoints ks)(i := e)" "ep_ok e"
    and "call_target ks ti call a r i" "queue_spec ks ti call b r ks' i"
  shows "queue_step ks ti call a b r ks'"
  using assms unfolding queue_step_def endpoints_ok_def by (auto simp: queue_of_def)

lemma endpoint_same: "ks_endpoints ks' = ks_endpoints ks \<Longrightarrow> ks_endpoints ks' = (ks_endpoints ks)(i := ks_endpoints ks i)"
  by simp

lemma invalidate_endpoints:
  "ks_endpoints (invalidate i ks) = (ks_endpoints ks)(i := (ks_endpoints ks i)\<lparr>ep_owner := 0, ep_count := 0,
     ep_epoch := ep_epoch (ks_endpoints ks i) + 1\<rparr>)"
  by (simp add: invalidate_def Let_def)

lemma ep_messages_empty: "ep_messages e = [] \<longleftrightarrow> ep_count e = 0"
  by (simp add: ep_messages_def unat_eq_zero)

lemma call_targetI: "cap ks ti a r = Some k \<Longrightarrow> call \<noteq> SYS_EP_CREATE \<Longrightarrow> call_target ks ti call a v (cap_ep ks ti k)"
  using cap_rights by (auto simp: call_target_def)

lemma create_step:
  assumes ok: "endpoints_ok ks" and c: "sys_ep_create ti ks = (r, ks')"
  shows "queue_step ks ti SYS_EP_CREATE a b r ks'"
proof (cases "cap_slot (ks_tasks ks ti)")
  case None
  then show ?thesis using c ok by (intro queue_step_error[of _ _ _ SF_NO_SPACE]) (auto simp: sys_ep_create_def)
next
  case (Some s)
  show ?thesis
  proof (cases "first_index (\<lambda>i. ep_owner (ks_endpoints ks i) = 0) ENDPOINTS")
    case None
    then show ?thesis using c ok Some by (intro queue_step_error[of _ _ _ SF_NO_SPACE]) (auto simp: sys_ep_create_def)
  next
    case (Some i)
    define e where "e = (ks_endpoints ks i)\<lparr>ep_owner := tk_pid (ks_tasks ks ti), ep_epoch := ep_epoch (ks_endpoints ks i) + 1,
      ep_head := 0, ep_count := 0\<rparr>"
    obtain h ks1 where inst: "install (put_endpoint i e ks) ti i 7 = (h, ks1)" by fastforce
    then have h: "0 \<le> h" using \<open>cap_slot (ks_tasks ks ti) = Some s\<close> by (cases rule: install_cases) auto
    have "r = h" "ks' = ks1" using c inst h \<open>cap_slot (ks_tasks ks ti) = Some s\<close> Some
      by (auto simp: sys_ep_create_def Let_def e_def)
    then have "ks_endpoints ks' = (ks_endpoints ks)(i := e)" using install_endpoints[OF inst] by simp
    moreover have "ep_ok e" "ep_messages e = []" by (simp_all add: e_def ep_ok_def ep_messages_empty)
    ultimately show ?thesis using h \<open>r = h\<close> first_index_SomeD(2)[OF Some]
      by (intro queue_stepI[OF ok]) (auto simp: call_target_def queue_spec_def queue_of_def ipc_numbers)
  qed
qed

lemma queue_nochange:
  assumes "endpoints_ok ks" "ks_endpoints ks' = ks_endpoints ks" "call_target ks ti call a r i"
    "queue_spec ks ti call b r ks' i"
  shows "queue_step ks ti call a b r ks'"
  using assms queue_stepI[OF assms(1) endpoint_same[OF assms(2)]] by (auto simp: endpoints_ok_def)

lemma invalidated_ok: "ep_ok e \<Longrightarrow> ep_ok (e\<lparr>ep_owner := 0, ep_count := 0, ep_epoch := x\<rparr>)"
  by (simp add: ep_ok_def)

lemma close_step:
  assumes ok: "endpoints_ok ks" and c: "sys_cap_close ti a ks = (r, ks')"
  shows "queue_step ks ti SYS_CAP_CLOSE a b r ks'"
proof (cases "cap ks ti a 0")
  case None
  then show ?thesis using c ok by (intro queue_step_error[of _ _ _ SF_STALE_HANDLE]) (auto simp: sys_cap_close_def)
next
  case (Some k)
  let ?i = "cap_ep ks ti k"
  have r: "r = 0" and ks': "ks' = close_cap ti k ks" using c Some by (simp_all add: sys_cap_close_def)
  have t: "call_target ks ti SYS_CAP_CLOSE a r ?i" by (rule call_targetI[OF Some]) (simp add: ipc_numbers)
  let ?e = "(ks_endpoints ks ?i)\<lparr>ep_owner := 0, ep_count := 0, ep_epoch := ep_epoch (ks_endpoints ks ?i) + 1\<rparr>"
  consider "ks_endpoints ks' = ks_endpoints ks" | "ks_endpoints ks' = (ks_endpoints ks)(?i := ?e)"
    by (atomize_elim, cases "endpoint_held (put_cap ti k ((tk_caps (ks_tasks ks ti) k)\<lparr>cp_endpoint := 0\<rparr>) ks)
        (cp_endpoint (tk_caps (ks_tasks ks ti) k))")
      (simp_all add: ks' close_cap_def Let_def invalidate_endpoints cap_ep_def)
  then show ?thesis
  proof cases
    case 1
    show ?thesis by (rule queue_nochange[OF ok 1 t]) (simp add: queue_spec_def queue_of_def 1 r ipc_numbers)
  next
    case 2
    have "ep_ok ?e" using ok invalidated_ok by (simp add: endpoints_ok_def)
    then show ?thesis
      by (rule queue_stepI[OF ok 2 _ t]) (simp add: queue_spec_def queue_of_def 2 r ipc_numbers ep_messages_empty)
  qed
qed

lemma derive_step:
  assumes ok: "endpoints_ok ks" and c: "sys_cap_derive ti a b ks = (r, ks')"
  shows "queue_step ks ti SYS_CAP_DERIVE a b r ks'"
proof (cases "cap ks ti a RIGHT_DELEGATE")
  case None
  then show ?thesis using c ok by (intro queue_step_error[of _ _ _ SF_DENIED]) (auto simp: sys_cap_derive_def)
next
  case (Some k)
  show ?thesis
  proof (cases "b AND NOT 7 \<noteq> 0 \<or> b AND ucast (cp_rights (tk_caps (ks_tasks ks ti) k)) \<noteq> b")
    case True
    then show ?thesis using c ok Some by (intro queue_step_error[of _ _ _ SF_DENIED]) (auto simp: sys_cap_derive_def)
  next
    case False
    then have inst: "install ks ti (cap_ep ks ti k) (ucast b) = (r, ks')" using c Some by (simp add: sys_cap_derive_def)
    note e = install_endpoints[OF inst]
    have t: "call_target ks ti SYS_CAP_DERIVE a r (cap_ep ks ti k)" by (rule call_targetI[OF Some]) (simp add: ipc_numbers)
    from inst show ?thesis
    proof (cases rule: install_cases)
      case full
      then show ?thesis by (intro queue_step_error[OF ok e, of _ SF_NO_SPACE]) simp_all
    next
      case slot
      show ?thesis by (rule queue_nochange[OF ok e t]) (use slot in \<open>simp add: queue_spec_def queue_of_def e ipc_numbers\<close>)
    qed
  qed
qed

lemma revoke_step:
  assumes ok: "endpoints_ok ks" and c: "sys_cap_revoke ti a ks = (r, ks')"
  shows "queue_step ks ti SYS_CAP_REVOKE a b r ks'"
proof (cases "cap ks ti a RIGHT_DELEGATE")
  case None
  then show ?thesis using c ok by (intro queue_step_error[of _ _ _ SF_DENIED]) (auto simp: sys_cap_revoke_def)
next
  case (Some k)
  let ?i = "cap_ep ks ti k"
  show ?thesis
  proof (cases "ep_owner (ks_endpoints ks ?i) = tk_pid (ks_tasks ks ti)")
    case False
    then show ?thesis using c ok Some by (intro queue_step_error[of _ _ _ SF_DENIED]) (auto simp: sys_cap_revoke_def)
  next
    case True
    then have r: "r = 0" "ks' = invalidate ?i ks" using c Some by (simp_all add: sys_cap_revoke_def)
    have t: "call_target ks ti SYS_CAP_REVOKE a r ?i" by (rule call_targetI[OF Some]) (simp add: ipc_numbers)
    let ?e = "(ks_endpoints ks ?i)\<lparr>ep_owner := 0, ep_count := 0, ep_epoch := ep_epoch (ks_endpoints ks ?i) + 1\<rparr>"
    have e: "ks_endpoints ks' = (ks_endpoints ks)(?i := ?e)" by (simp add: r invalidate_endpoints)
    have "ep_ok ?e" using ok invalidated_ok by (simp add: endpoints_ok_def)
    then show ?thesis
      by (rule queue_stepI[OF ok e _ t]) (simp add: queue_spec_def queue_of_def e r(1) ipc_numbers ep_messages_empty)
  qed
qed

lemma cancel_step:
  assumes ok: "endpoints_ok ks" and c: "sys_send_cancel ti a b c ks = (r, ks')"
  shows "queue_step ks ti SYS_SEND_CANCEL a b r ks'"
proof (cases "cap ks ti a RIGHT_SEND")
  case None
  then show ?thesis using c ok by (intro queue_step_error[of _ _ _ SF_STALE_HANDLE]) (auto simp: sys_send_cancel_def)
next
  case (Some k)
  let ?i = "cap_ep ks ti k" and ?pid = "tk_pid (ks_tasks ks ti)"
  have eo: "ep_ok (ks_endpoints ks ?i)" using ok by (simp add: endpoints_ok_def)
  then have hc: "\<not> (ep_head (ks_endpoints ks ?i) \<ge> 8 \<or> ep_count (ks_endpoints ks ?i) > 8)"
    by (auto simp: ep_ok_def word_le_nat_alt word_less_nat_alt)
  show ?thesis
  proof (cases "c = 0")
    case False
    then show ?thesis using \<open>sys_send_cancel ti a b c ks = (r, ks')\<close> ok Some
      by (intro queue_step_error[of _ _ _ SF_INVALID]) (auto simp: sys_send_cancel_def)
  next
    case True
    obtain n e' where e': "ep_cancel ?pid b (ks_endpoints ks ?i) = (n, e')" by fastforce
    have r: "r = int n" "ks' = put_endpoint ?i e' ks"
      using \<open>sys_send_cancel ti a b c ks = (r, ks')\<close> Some True hc e' by (auto simp: sys_send_cancel_def Let_def)
    have t: "call_target ks ti SYS_SEND_CANCEL a r ?i" by (rule call_targetI[OF Some]) (simp add: ipc_numbers)
    have e: "ks_endpoints ks' = (ks_endpoints ks)(?i := e')" by (simp add: r)
    note m = ep_cancel_ok[OF eo e']
    show ?thesis by (rule queue_stepI[OF ok e m(1) t]) (simp add: queue_spec_def queue_of_def e r(1) ipc_numbers m(2,3))
  qed
qed

lemma awaited_first:
  "first_index (\<lambda>j. tk_state (ks_tasks ks j) = T_BLOCKED \<and> tk_wait_endpoint (ks_tasks ks j) = x) SF_MAX_TASKS = None \<longleftrightarrow>
   \<not> awaited ks x"
  by (auto simp: first_index_None awaited_def list_ex_iff)

lemma send_step:
  assumes ok: "endpoints_ok ks" and c: "sys_send ti a b ks = Some (r, ks')"
  shows "queue_step ks ti SYS_SEND a b r ks'"
proof (cases "cap ks ti a RIGHT_SEND")
  case None
  then show ?thesis using c ok by (intro queue_step_error[of _ _ _ SF_STALE_HANDLE]) (auto simp: sys_send_def)
next
  case (Some k)
  let ?i = "cap_ep ks ti k" and ?pid = "tk_pid (ks_tasks ks ti)" and ?x = "cp_endpoint (tk_caps (ks_tasks ks ti) k)"
  have x: "of_nat ?i + 1 = ?x" by (rule cap_ep_word[OF Some])
  have eo: "ep_ok (ks_endpoints ks ?i)" using ok by (simp add: endpoints_ok_def)
  have t: "call_target ks ti SYS_SEND a r ?i" by (rule call_targetI[OF Some]) (simp add: ipc_numbers)
  define ks0 where "ks0 = ks\<lparr>ks_send_bytes := copied (ks_send_bytes ks) MSG_SIZE\<rparr>"
  have k0: "ks_endpoints ks0 = ks_endpoints ks" "ks_tasks ks0 = ks_tasks ks" "now_ns ks0 = now_ns ks"
    by (simp_all add: ks0_def now_ns_def)
  consider "copy_in ks ti b MSG_SIZE = Some (Err SF_DENIED)" | m where "copy_in ks ti b MSG_SIZE = Some (Ok m)"
    using copy_in_bytes[of MSG_SIZE ks ti b] by (auto simp: MSG_SIZE_def split: if_splits)
  then show ?thesis
  proof cases
    case 1
    then show ?thesis using c ok Some by (intro queue_step_error[of _ _ _ SF_DENIED]) (auto simp: sys_send_def)
  next
    case (2 m)
    show ?thesis
    proof (cases "message_ok m \<and> \<not> (ms_deadline m \<noteq> 0 \<and> now_ns ks \<ge> ms_deadline m)")
      case False
      then have "(r = sf_code SF_INVALID \<or> r = sf_code SF_TIMEOUT) \<and> ks' = ks0"
        using c Some 2 k0 by (cases "message_ok m") (simp_all add: sys_send_def Let_def ks0_def[symmetric])
      then show ?thesis using queue_step_error[OF ok, of ks' r SF_INVALID] queue_step_error[OF ok, of ks' r SF_TIMEOUT] k0(1)
        by (elim conjE disjE) simp_all
    next
      case True
      let ?m = "put_at 12 (le32 ?pid) m"
      have mok: "message_ok m" using True ..
      show ?thesis
      proof (cases "awaited ks ?x")
        case aw: True
        then obtain j where j: "first_index (\<lambda>j. tk_state (ks_tasks ks j) = T_BLOCKED \<and> tk_wait_endpoint (ks_tasks ks j) = ?x) SF_MAX_TASKS = Some j"
          using awaited_first[of ks ?x] by auto
        obtain ks1 where o: "copy_out ks0 j (tk_recv_buffer (ks_tasks ks j)) ?m = Some (Ok (), ks1)" and r: "r = 0"
          and ks': "ks_endpoints ks' = ks_endpoints ks1"
          using c Some 2 True j k0 by (auto simp: sys_send_def Let_def ks0_def[symmetric] split: option.splits sum.splits prod.splits)
        have e: "ks_endpoints ks' = ks_endpoints ks" using copy_out_set[OF o] ks' k0 by auto
        show ?thesis by (rule queue_nochange[OF ok e t])
            (use 2 mok aw x in \<open>simp add: queue_spec_def queue_of_def e r ipc_numbers\<close>)
      next
        case na: False
        let ?e = "ks_endpoints ks ?i"
        have nf: "first_index (\<lambda>j. tk_state (ks_tasks ks j) = T_BLOCKED \<and> tk_wait_endpoint (ks_tasks ks j) = ?x) SF_MAX_TASKS = None"
          using na awaited_first[of ks ?x] by simp
        have len: "length (queue_of ks ?i) = unat (ep_count ?e)" by (simp add: queue_of_def ep_messages_def)
        show ?thesis
        proof (cases "ep_count ?e = 8")
          case full: True
          then have r: "r = sf_code SF_WOULD_BLOCK" "ks' = ks0"
            using c Some 2 True nf k0 by (auto simp: sys_send_def Let_def ks0_def[symmetric] cap_ep_def)
          have e: "ks_endpoints ks' = ks_endpoints ks" by (simp add: r k0)
          show ?thesis by (rule queue_nochange[OF ok e t])
            (use len full in \<open>simp add: queue_spec_def e r(1) ipc_numbers, simp add: queue_of_def e\<close>)
        next
          case False
          then have r: "r = 0" "ks' = put_endpoint ?i (ep_push ?m ?e) ks0"
            using c Some 2 True nf k0 by (auto simp: sys_send_def Let_def ks0_def[symmetric] cap_ep_def)
          have "unat (ep_count ?e) \<noteq> 8" using False by (simp add: word_unat_eq_iff)
          then have lt: "unat (ep_count ?e) < 8" using eo by (simp add: ep_ok_def)
          note p = ep_push_ok[OF eo lt, of ?m]
          have e: "ks_endpoints ks' = (ks_endpoints ks)(?i := ep_push ?m ?e)" by (simp add: r k0)
          have q: "queue_of ks' ?i = queue_of ks ?i @ [?m]" by (simp add: queue_of_def e p(2))
          show ?thesis by (rule queue_stepI[OF ok e p(1) t])
            (use 2 mok na x lt len q in \<open>simp add: queue_spec_def r(1) ipc_numbers\<close>)
        qed
      qed
    qed
  qed
qed

lemma recv_step:
  assumes ok: "endpoints_ok ks" and c: "sys_recv ti a b c ks = Some (r, ks')"
  shows "queue_step ks ti SYS_RECV a b r ks'"
proof (cases "cap ks ti a RIGHT_RECV")
  case None
  then show ?thesis using c ok by (intro queue_step_error[of _ _ _ SF_STALE_HANDLE]) (auto simp: sys_recv_def)
next
  case (Some k)
  let ?i = "cap_ep ks ti k" and ?x = "cp_endpoint (tk_caps (ks_tasks ks ti) k)"
  let ?e = "ks_endpoints ks ?i"
  have eo: "ep_ok ?e" using ok by (simp add: endpoints_ok_def)
  have t: "call_target ks ti SYS_RECV a r ?i" by (rule call_targetI[OF Some]) (simp add: ipc_numbers)
  show ?thesis
  proof (cases "user_range ks ti b (of_nat MSG_SIZE) True")
    case False
    then show ?thesis using c ok Some by (intro queue_step_error[of _ _ _ SF_DENIED]) (auto simp: sys_recv_def Let_def)
  next
    case rng: True
    show ?thesis
    proof (cases "ep_count ?e = 0")
      case False
      let ?m = "ep_queue ?e (unat (ep_head ?e))"
      note p = ep_pop_ok[OF eo False]
      obtain v ks1 where o: "copy_out ks ti b ?m = Some (v, ks1)"
        using c Some rng False by (auto simp: sys_recv_def Let_def cap_ep_def split: option.splits)
      have e1: "ks_endpoints ks1 = ks_endpoints ks" using copy_out_set[OF o] by auto
      show ?thesis
      proof (cases v)
        case (Inl x)
        then have "r = sf_code SF_DENIED" "ks' = ks1" using c Some rng False o by (auto simp: sys_recv_def Let_def cap_ep_def)
        then show ?thesis by (intro queue_step_error[OF ok, of _ _ SF_DENIED]) (simp_all add: e1)
      next
        case (Inr x)
        have r: "r = int (unat (ms_flags ?m))"
          "ks' = put_endpoint ?i (ep_pop ?e) (ks1\<lparr>ks_receive_bytes := copied (ks_receive_bytes ks1) MSG_SIZE\<rparr>)"
          using c Some rng False o Inr by (auto simp: sys_recv_def Let_def cap_ep_def)
        have e: "ks_endpoints ks' = (ks_endpoints ks)(?i := ep_pop ?e)" by (simp add: r e1)
        have q: "queue_of ks ?i = ?m # queue_of ks' ?i" by (simp add: queue_of_def e p(2))
        have "ks_phys ks' = ks_phys ks1" by (simp add: r)
        then show ?thesis using o Inr
          by (intro queue_stepI[OF ok e p(1) t]) (auto simp: queue_spec_def q r(1) ipc_numbers)
      qed
    next
      case empty: True
      then have q: "queue_of ks ?i = []" by (simp add: queue_of_def ep_messages_empty)
      show ?thesis
      proof (cases "c \<noteq> 0 \<and> now_ns ks \<ge> c")
        case True
        then show ?thesis using \<open>sys_recv ti a b c ks = Some (r, ks')\<close> ok Some rng empty
          by (intro queue_step_error[of _ _ _ SF_TIMEOUT]) (auto simp: sys_recv_def Let_def cap_ep_def)
      next
        case False
        then have r: "r = 0" and ks': "ks' = put_task ti ((ks_tasks ks ti)\<lparr>tk_state := T_BLOCKED, tk_wait_endpoint := ?x,
                    tk_recv_buffer := b, tk_wait_deadline := c\<rparr>) ks"
          using \<open>sys_recv ti a b c ks = Some (r, ks')\<close> Some rng empty by (auto simp: sys_recv_def Let_def cap_ep_def)
        have e: "ks_endpoints ks' = ks_endpoints ks" by (simp add: ks')
        have "queue_of ks' ?i = []" using q by (simp add: queue_of_def e)
        then show ?thesis by (intro queue_nochange[OF ok e t]) (simp add: queue_spec_def q r ks' ipc_numbers)
      qed
    qed
  qed
qed

end
