(* ===== verification/SF_Ipc_Claims.thy ===== *)
theory SF_Ipc_Claims
  imports SF_Ipc_Queue SF_Memory_Claims
begin

text \<open>Message passing refines queues of messages.\<close>

text \<open>C35: The message queues of the kernel.  Every communication system call acts on the
  endpoints as the specification on lists says: at most one queue changes, the one the
  caller's handle names or a free one being created; a send appends the caller's message,
  stamped with the caller's process number, unless a receiver is waiting for it or eight
  messages are queued; a receive takes the oldest message and delivers it; a cancellation
  removes exactly the caller's messages with the given request number, keeps the order of the
  others and reports how many it removed; closing and revoking empty a queue; a call that
  fails changes no queue.  Ring positions and counts stay within the ring.\<close>

theorem ipc_refines_queues:
  assumes "endpoints_ok ks" "ipc_syscall call a b c ks = Some (r, ks')"
  shows "endpoints_ok ks' \<and>
    (\<exists>i. call_target ks (nat (ks_current ks)) call a r i \<and>
      queue_spec ks (nat (ks_current ks)) call b r ks' i \<and>
      (\<forall>j. j \<noteq> i \<longrightarrow> queue_of ks' j = queue_of ks j))"
proof -
  have "queue_step ks (nat (ks_current ks)) call a b r ks'"
    using assms(2) create_step[OF assms(1)] close_step[OF assms(1)] derive_step[OF assms(1)] revoke_step[OF assms(1)]
      cancel_step[OF assms(1)] send_step[OF assms(1)] recv_step[OF assms(1)] queue_step_error[OF assms(1) refl, of _ SF_INVALID]
    by (auto simp: ipc_syscall_def Let_def split: if_splits)
  then show ?thesis by (simp add: queue_step_def)
qed

definition ipc_msg :: "u8 \<Rightarrow> u8 \<Rightarrow> bytes" where
  "ipc_msg pid req = replicate 12 0 @ [pid, 0, 0, 0, req, 0, 0, 0, 0, 0, 0, 0]"

definition ipc_endpoint :: Endpoint where
  "ipc_endpoint = \<lparr>ep_owner = 1, ep_epoch = 1, ep_head = 6, ep_count = 3,
     ep_queue = (\<lambda>_. [])(6 := ipc_msg 1 7, 7 := ipc_msg 2 7, 0 := ipc_msg 1 7)\<rparr>"

definition ipc_example :: Kernel where
  "ipc_example = put_endpoint 0 ipc_endpoint
     (put_cap 0 0 \<lparr>cp_endpoint = 1, cp_epoch = 1, cp_rights = 7, cp_generation = 1\<rparr> example_kernel)"

lemma ipc_example_fields:
  "ks_current ipc_example = 0" "tk_pid (ks_tasks ipc_example 0) = 1" "ks_endpoints ipc_example 0 = ipc_endpoint"
  "tk_caps (ks_tasks ipc_example 0) 0 = \<lparr>cp_endpoint = 1, cp_epoch = 1, cp_rights = 7, cp_generation = 1\<rparr>"
  "endpoints_ok ipc_example"
  by (auto simp: ipc_example_def put_cap_def example_kernel_def example_blank_def example_task_def endpoints_ok_def ep_ok_def ipc_endpoint_def set_phys_def)

lemma ipc_msg_fields: "cancelled 1 7 (ipc_msg 1 7)" "\<not> cancelled 1 7 (ipc_msg 2 7)"
  by (simp_all add: cancelled_def ms_flags_def ms_request_def ipc_msg_def rd_le64_def rd_le32_def nth_append)

lemma ipc_example_queue: "queue_of ipc_example 0 = [ipc_msg 1 7, ipc_msg 2 7, ipc_msg 1 7]"
  by (simp add: queue_of_def ipc_example_fields ep_messages_def ipc_endpoint_def upt_rec)

lemma ipc_example_cap: "cap ipc_example 0 257 r = (if 7 AND r = r then Some 0 else None)" "cap_ep ipc_example 0 0 = 0"
  by (simp_all add: cap_def cap_ep_def ipc_example_fields ipc_endpoint_def)

lemma ipc_example_call: "\<exists>r ks'. ipc_syscall SYS_SEND_CANCEL 257 7 0 ipc_example = Some (r, ks') \<and> 0 \<le> r"
proof -
  obtain n e where "ep_cancel 1 7 ipc_endpoint = (n, e)" by fastforce
  then show ?thesis
    by (simp add: ipc_syscall_def ipc_numbers sys_send_cancel_def ipc_example_fields ipc_example_cap RIGHT_SEND_def Let_def)
      (simp add: ipc_endpoint_def)
qed

theorem ipc_refines_queues_witness:
  "\<exists>ks'. ipc_syscall SYS_SEND_CANCEL 257 7 0 ipc_example = Some (2, ks') \<and> queue_of ks' 0 = [ipc_msg 2 7] \<and>
     queue_of ks' 1 = queue_of ipc_example 1"
proof -
  obtain r ks' where c: "ipc_syscall SYS_SEND_CANCEL 257 7 0 ipc_example = Some (r, ks')" and r: "0 \<le> r"
    using ipc_example_call by blast
  from ipc_refines_queues[OF ipc_example_fields(5) c] obtain i where
    t: "call_target ipc_example 0 SYS_SEND_CANCEL 257 r i" and q: "queue_spec ipc_example 0 SYS_SEND_CANCEL 7 r ks' i"
    and o: "\<forall>j. j \<noteq> i \<longrightarrow> queue_of ks' j = queue_of ipc_example j" by (auto simp: ipc_example_fields)
  have "i = 0" using t r ipc_example_cap by (auto simp: call_target_def ipc_numbers split: if_splits)
  then show ?thesis using q o r c
    by (simp add: queue_spec_def ipc_example_fields ipc_example_queue ipc_msg_fields ipc_numbers)
qed

end
