(* ===== verification/SF_Iommu.thy ===== *)
theory SF_Iommu
  imports SF_Memory
begin

text \<open>
  The remapping unit (\<^verbatim>\<open>kernel/iommu.c\<close>, \<^verbatim>\<open>kernel/vtd_tables.c\<close>): the tables that confine a
  device to the DMA arena, their installation and removal, and the fault log.  A register
  read takes the next value the hardware offers; memory barriers and cache flushes have no
  effect in the model.
\<close>

section \<open>Hardware access\<close>

definition hw_next :: "Kernel \<Rightarrow> u64 \<times> Kernel" where
  "hw_next ks = (hw_reads (ks_hw ks) 0, ks\<lparr>ks_hw := (ks_hw ks)\<lparr>hw_reads := (\<lambda>n. hw_reads (ks_hw ks) (Suc n))\<rparr>\<rparr>)"

definition hw_out :: "hw_write \<Rightarrow> Kernel \<Rightarrow> Kernel" where
  "hw_out w ks = ks\<lparr>ks_hw := (ks_hw ks)\<lparr>hw_log := hw_log (ks_hw ks) @ [w]\<rparr>\<rparr>"

definition set_iommu :: "(Iommu \<Rightarrow> Iommu) \<Rightarrow> Kernel \<Rightarrow> Kernel" where
  "set_iommu f ks = ks\<lparr>ks_iommu := f (ks_iommu ks)\<rparr>"

definition r32 :: "u32 \<Rightarrow> Kernel \<Rightarrow> u32 \<times> Kernel" where
  "r32 off ks = (case hw_next ks of (v, ks) \<Rightarrow> (ucast v, ks))"

definition r64 :: "u32 \<Rightarrow> Kernel \<Rightarrow> u64 \<times> Kernel" where
  "r64 off ks = hw_next ks"

definition w32 :: "u32 \<Rightarrow> u32 \<Rightarrow> Kernel \<Rightarrow> Kernel" where
  "w32 off n ks = hw_out (Mmio32 off n) ks"

definition w64 :: "u32 \<Rightarrow> u64 \<Rightarrow> Kernel \<Rightarrow> Kernel" where
  "w64 off n ks = hw_out (Mmio64 off n) ks"

text \<open>The polling loop: \<open>n\<close> attempts remain.\<close>

primrec wait64_loop :: "nat \<Rightarrow> u32 \<Rightarrow> u64 \<Rightarrow> Kernel \<Rightarrow> unit res \<times> Kernel" where
  "wait64_loop 0 off msk ks = (Err SF_TIMEOUT, ks)"
| "wait64_loop (Suc n) off msk ks =
     (case r64 off ks of (v, ks) \<Rightarrow> if v AND msk = 0 then (Ok (), ks) else wait64_loop n off msk ks)"

definition wait64 :: "u32 \<Rightarrow> u64 \<Rightarrow> Kernel \<Rightarrow> unit res \<times> Kernel" where
  "wait64 off msk ks = wait64_loop 1000000 off msk ks"

section \<open>Tables\<close>

definition SF_DMA_IOVA :: u64 where "SF_DMA_IOVA = 0x01000000"

definition no_tables :: SfVtdTables where
  "no_tables = \<lparr>vt_root = \<lambda>_. 0, vt_context = \<lambda>_. 0, vt_level3 = \<lambda>_. 0, vt_level2 = \<lambda>_. 0, vt_level1 = \<lambda>_. 0\<rparr>"

definition sf_vtd_tables :: "u64 \<Rightarrow> u32 \<Rightarrow> u64 \<Rightarrow> SfVtdTables res" where
  "sf_vtd_tables address bdf physical =
     (if (address OR physical) AND 4095 \<noteq> 0 \<or> address \<ge> 0x40000000 \<or> 20480 > 0x40000000 - address \<or>
         physical \<ge> 0x40000000 \<or> of_nat SF_DMA_BYTES > 0x40000000 - physical \<or> bdf \<ge> 256
      then Err SF_INVALID
      else Ok \<lparr>vt_root = (vt_root no_tables)(0 := (address + 4096) OR 1),
        vt_context = (vt_context no_tables)(unat bdf * 2 := (address + 8192) OR 1, unat bdf * 2 + 1 := 0x101),
        vt_level3 = (vt_level3 no_tables)(0 := (address + 12288) OR 3),
        vt_level2 = (vt_level2 no_tables)(unat (drop_bit 21 SF_DMA_IOVA) := (address + 16384) OR 3),
        vt_level1 = (\<lambda>i. if i < SF_DMA_BYTES div 4096 then (physical + of_nat i * 4096) OR 3 else 0)\<rparr>)"

section \<open>Installing and removing a mapping\<close>

definition iommu_fail :: "Kernel \<Rightarrow> unit res \<times> Kernel" where
  "iommu_fail ks = (Err SF_DEVICE_GONE, set_iommu (\<lambda>m. m\<lparr>im_mode := 2\<rparr>) ks)"

definition iommu_invalidate :: "Kernel \<Rightarrow> unit res \<times> Kernel" where
  "iommu_invalidate ks =
     (let ks = w64 0x28 (push_bit 63 1 OR push_bit 61 1) ks
      in case wait64 0x28 (push_bit 63 1) ks of
           (Err _, ks) \<Rightarrow> iommu_fail ks
         | (Ok _, ks) \<Rightarrow>
             (case r64 0x28 ks of (v, ks) \<Rightarrow>
                if drop_bit 59 v AND 3 \<noteq> 1 then iommu_fail ks
                else let m = ks_iommu ks;
                         flags = (push_bit 63 1 OR push_bit 60 1) OR
                           (if bit (im_capability m) 54 then push_bit 48 1 else 0) OR
                           (if bit (im_capability m) 55 then push_bit 49 1 else 0);
                         ks = w64 (im_iotlb_offset m) flags ks
                  in case wait64 (im_iotlb_offset m) (push_bit 63 1) ks of
                       (Err _, ks) \<Rightarrow> iommu_fail ks
                     | (Ok _, ks) \<Rightarrow>
                         (case r64 (im_iotlb_offset m) ks of (v, ks) \<Rightarrow>
                            if drop_bit 57 v AND 3 \<noteq> 1 then iommu_fail ks else (Ok (), ks))))"

text \<open>The result carries the bus address of the arena.\<close>

definition iommu_grant :: "u32 \<Rightarrow> u64 \<Rightarrow> Kernel \<Rightarrow> u64 res \<times> Kernel" where
  "iommu_grant bdf physical ks =
     (let m = ks_iommu ks
      in if im_mode m = 0 then (Ok physical, ks)
         else if im_mode m \<noteq> 1 \<or> im_active_bdf m \<noteq> - 1 then (Err SF_DEVICE_GONE, ks)
         else if bdf \<ge> 256 \<or> im_covered m (unat bdf) = 0 then (Err SF_DENIED, ks)
         else case sf_vtd_tables (im_address m) bdf physical of
             Err _ \<Rightarrow> (Err SF_DEVICE_GONE, ks)
           | Ok t \<Rightarrow>
               (case iommu_invalidate (set_iommu (\<lambda>m. m\<lparr>im_tables := t\<rparr>) ks) of
                  (Err _, ks) \<Rightarrow> (Err SF_DEVICE_GONE, ks)
                | (Ok _, ks) \<Rightarrow> (Ok SF_DMA_IOVA, set_iommu (\<lambda>m. m\<lparr>im_active_bdf := bdf\<rparr>) ks)))"

definition iommu_revoke :: "u32 \<Rightarrow> Kernel \<Rightarrow> unit res \<times> Kernel" where
  "iommu_revoke bdf ks =
     (let m = ks_iommu ks
      in if im_mode m = 0 then (Ok (), ks)
         else if im_mode m \<noteq> 1 then (Err SF_DEVICE_GONE, ks)
         else if im_active_bdf m = - 1 then (Ok (), ks)
         else if im_active_bdf m \<noteq> bdf then (Err SF_DENIED, ks)
         else let t = im_tables m;
                  ks = set_iommu (\<lambda>m. m\<lparr>im_tables := t\<lparr>vt_context := (vt_context t)(unat bdf * 2 := 0)\<rparr>\<rparr>) ks
           in case iommu_invalidate ks of
                (Err _, ks) \<Rightarrow> (Err SF_DEVICE_GONE, ks)
              | (Ok _, ks) \<Rightarrow> (Ok (), set_iommu (\<lambda>m. m\<lparr>im_tables := no_tables, im_active_bdf := - 1\<rparr>) ks))"

definition iommu_active :: "Kernel \<Rightarrow> bool" where
  "iommu_active ks \<longleftrightarrow> im_active_bdf (ks_iommu ks) \<noteq> - 1"

text \<open>The first pending record among \<open>n\<close>, as source, reason and page address.\<close>

primrec fault_scan :: "nat \<Rightarrow> u32 \<Rightarrow> Kernel \<Rightarrow> (u32 \<times> u32 \<times> u64) option \<times> Kernel" where
  "fault_scan 0 off ks = (None, ks)"
| "fault_scan (Suc n) off ks =
     (case r64 (off + 8) ks of (high, ks) \<Rightarrow>
        if \<not> bit high 63 then fault_scan n (off + 16) ks
        else case r64 off ks of (low, ks) \<Rightarrow>
          (Some (ucast (high AND 65535), ucast (drop_bit 32 high AND 255), low AND NOT 4095),
           w32 0x34 1 (w64 (off + 8) (push_bit 63 1) ks)))"

definition iommu_fault :: "Kernel \<Rightarrow> (u32 \<times> u32 \<times> u64) option \<times> Kernel" where
  "iommu_fault ks =
     (let m = ks_iommu ks
      in if im_mode m \<noteq> 1 then (None, ks) else fault_scan (unat (im_fault_records m)) (im_fault_offset m) ks)"

section \<open>What the unit does with the tables\<close>

text \<open>The word at a bus address of the linked tables.\<close>

definition vt_word :: "u64 \<Rightarrow> SfVtdTables \<Rightarrow> u64 \<Rightarrow> u64" where
  "vt_word base t a =
     (let i = unat (a - base) mod 4096 div 8
      in case unat (a - base) div 4096 of
           0 \<Rightarrow> vt_root t i | Suc 0 \<Rightarrow> vt_context t i | Suc (Suc 0) \<Rightarrow> vt_level3 t i
         | Suc (Suc (Suc 0)) \<Rightarrow> vt_level2 t i | Suc (Suc (Suc (Suc 0))) \<Rightarrow> vt_level1 t i | _ \<Rightarrow> 0)"

definition vt_next :: "u64 \<Rightarrow> u64" where
  "vt_next e = e AND NOT 4095"

text \<open>The walk the architecture defines for a bus-zero requester in 39-bit legacy mode: an
  entry must be present in the root and context tables, and readable and writable below.\<close>

definition vtd_walk :: "u64 \<Rightarrow> SfVtdTables \<Rightarrow> nat \<Rightarrow> u64 \<Rightarrow> u64 option" where
  "vtd_walk base t bdf iova =
     (let re = vt_word base t base
      in if \<not> bit re 0 \<or> iova \<ge> push_bit 39 1 then None
         else let cl = vt_word base t (vt_next re + of_nat (16 * bdf)); ch = vt_word base t (vt_next re + of_nat (16 * bdf) + 8)
           in if \<not> bit cl 0 \<or> ch AND 7 \<noteq> 1 then None
              else let e3 = vt_word base t (vt_next cl + 8 * (drop_bit 30 iova AND 511))
                in if e3 AND 3 \<noteq> 3 then None
                   else let e2 = vt_word base t (vt_next e3 + 8 * (drop_bit 21 iova AND 511))
                     in if e2 AND 3 \<noteq> 3 then None
                        else let e1 = vt_word base t (vt_next e2 + 8 * (drop_bit 12 iova AND 511))
                          in if e1 AND 3 \<noteq> 3 then None else Some (vt_next e1 + (iova AND 4095)))"

end
