(* ===== verification/SF_Iommu_Walk.thy ===== *)
theory SF_Iommu_Walk
  imports SF_Iommu SF_Memory_Inv
begin

text \<open>
  What the remapping unit does with the tables of a grant: the walk is evaluated level by
  level on the table words, and the register traffic of an invalidation is shown to leave the
  rest of the kernel alone.
\<close>

section \<open>Table words\<close>

lemma vt_next_or:
  assumes "a mod 4096 = 0" "f < 4096" "a < 2 ^ 60"
  shows "vt_next (of_nat a OR of_nat f) = of_nat a"
proof (rule word_unat_eq_iff[THEN iffD2])
  have u: "unat (of_nat a OR of_nat f :: u64) = a + f" using assms by (intro unat_or_low) simp_all
  obtain k where k: "a = 4096 * k" using assms(1) by auto
  then have "(a + f) div 4096 * 4096 = a" using assms(2) by simp
  then show "unat (vt_next (of_nat a OR of_nat f)) = unat (of_nat a :: u64)"
    using assms(3) unfolding vt_next_def unat_page_base u by (simp add: unat_of_nat)
qed

lemma low_or_three:
  "((w :: u64) OR 3) AND 3 = 3" "bit ((w :: u64) OR 1) 0"
proof -
  show "bit (w OR 1) 0" by (simp add: bit_or_iff)
  have "(3 :: u64) = mask 2" by (simp add: mask_eq_exp_minus_1)
  then show "(w OR 3) AND 3 = 3" by (auto simp: bit_eq_iff bit_simps)
qed

primrec vt_table :: "SfVtdTables \<Rightarrow> nat \<Rightarrow> nat \<Rightarrow> u64" where
  "vt_table t 0 = vt_root t"
| "vt_table t (Suc n) = (case n of 0 \<Rightarrow> vt_context t | Suc 0 \<Rightarrow> vt_level3 t | Suc (Suc 0) \<Rightarrow> vt_level2 t | _ \<Rightarrow> vt_level1 t)"

lemma vt_word_at:
  assumes "k < 5" "j < 512"
  shows "vt_word (of_nat a) t (of_nat (a + 4096 * k) + of_nat (8 * j)) = vt_table t k j"
proof -
  let ?x = "4096 * k + 8 * j"
  have "(of_nat (a + 4096 * k) + of_nat (8 * j) :: u64) - of_nat a = of_nat ?x" by simp
  moreover have "unat (of_nat ?x :: u64) = ?x" using assms unfolding unat_of_nat by simp
  ultimately have u: "unat ((of_nat (a + 4096 * k) + of_nat (8 * j) :: u64) - of_nat a) = ?x" by metis
  have d: "?x div 4096 = k" "?x mod 4096 div 8 = j" using assms by simp_all
  from assms(1) consider "k = 0" | "k = 1" | "k = 2" | "k = 3" | "k = 4" by linarith
  then show ?thesis unfolding vt_word_def Let_def u d by cases (simp_all add: numeral_eq_Suc)
qed

lemma iova_index:
  fixes v :: u64
  shows "unat (drop_bit 12 v AND 511) = unat v div 4096 mod 512"
    "unat (drop_bit 21 v AND 511) = unat v div 0x200000 mod 512"
    "unat (drop_bit 30 v AND 511) = unat v div 0x40000000 mod 512"
proof -
  have m: "unat (w AND 511) = unat w mod 512" for w :: u64
  proof -
    have "w AND 511 = take_bit 9 w" by (simp add: take_bit_eq_mask mask_eq_exp_minus_1)
    then show ?thesis by (simp add: take_bit_eq_mod unat_mod)
  qed
  show "unat (drop_bit 12 v AND 511) = unat v div 4096 mod 512"
    "unat (drop_bit 21 v AND 511) = unat v div 0x200000 mod 512"
    "unat (drop_bit 30 v AND 511) = unat v div 0x40000000 mod 512"
    by (simp_all add: m drop_bit_eq_div unat_div)
qed

lemma vt_word_index:
  assumes "k < 5" "unat (x AND 511) < 512"
  shows "vt_word (of_nat a) t (of_nat (a + 4096 * k) + 8 * (x AND 511)) = vt_table t k (unat (x AND 511))"
proof -
  have "(8 * (x AND 511) :: u64) = of_nat (8 * unat (x AND 511))" by simp
  then show ?thesis using vt_word_at[OF assms, of a t] by metis
qed

lemma iova_window:
  assumes "x < 2 ^ 39"
  shows "x div 0x40000000 mod 512 = 0 \<and> x div 0x200000 mod 512 = 8 \<and> x div 4096 mod 512 < 16 \<longleftrightarrow>
    0x1000000 \<le> x \<and> x < (0x1010000::nat)"
proof -
  define y where "y = x div 4096"
  define q where "q = y div 512"
  define r where "r = y mod 512"
  define s where "s = q div 512"
  define p where "p = q mod 512"
  have x: "x div 0x200000 = q" "x div 0x40000000 = s"
    by (simp_all add: y_def q_def s_def div_mult2_eq[symmetric])
  have y: "y = 512 * q + r" "r < 512" and q: "q = 512 * s + p" "p < 512" by (simp_all add: q_def r_def s_def p_def)
  have "s < 512" using assms by (simp add: x(2)[symmetric])
  then have sm: "s mod 512 = s" by simp
  have b: "0x1000000 \<le> x \<longleftrightarrow> 4096 \<le> y" "x < 0x1010000 \<longleftrightarrow> y < 4112" unfolding y_def by linarith+
  have "s = 0 \<and> p = 8 \<and> r < 16 \<longleftrightarrow> 4096 \<le> y \<and> y < 4112"
  proof
    assume "s = 0 \<and> p = 8 \<and> r < 16"
    then show "4096 \<le> y \<and> y < 4112" using y q by simp
  next
    assume yr: "4096 \<le> y \<and> y < 4112"
    then have "q = 8" unfolding q_def by (intro div_nat_eqI) simp_all
    then show "s = 0 \<and> p = 8 \<and> r < 16" using yr y(1) by (simp add: s_def p_def)
  qed
  then show ?thesis unfolding b x sm p_def r_def y_def[symmetric] by blast
qed

lemma vt_table_numerals [simp]:
  "vt_table t (Suc 0) = vt_context t" "vt_table t 2 = vt_level3 t" "vt_table t 3 = vt_level2 t" "vt_table t 4 = vt_level1 t"
  by (simp_all add: numeral_eq_Suc)

lemma vtd_tables_Ok:
  assumes "sf_vtd_tables base bdf physical = Ok t"
  shows "unat base mod 4096 = 0" "unat physical mod 4096 = 0" "unat base + 20480 \<le> 2 ^ 30" "unat physical + 65536 \<le> 2 ^ 30"
    "unat bdf < 256"
    "vt_table t 0 = (\<lambda>_. 0)(0 := (base + 4096) OR 1)"
    "vt_table t 1 = (\<lambda>_. 0)(unat bdf * 2 := (base + 8192) OR 1, unat bdf * 2 + 1 := 0x101)"
    "vt_table t 2 = (\<lambda>_. 0)(0 := (base + 12288) OR 3)"
    "vt_table t 3 = (\<lambda>_. 0)(8 := (base + 16384) OR 3)"
    "vt_table t 4 = (\<lambda>i. if i < 16 then (physical + of_nat i * 4096) OR 3 else 0)"
proof -
  let ?bad = "(base OR physical) AND 4095 \<noteq> 0 \<or> base \<ge> 0x40000000 \<or> 20480 > 0x40000000 - base \<or>
    physical \<ge> 0x40000000 \<or> of_nat SF_DMA_BYTES > 0x40000000 - physical \<or> bdf \<ge> 256"
  have nb: "\<not> ?bad"
  proof
    assume ?bad
    then have "sf_vtd_tables base bdf physical = Err SF_INVALID" unfolding sf_vtd_tables_def by (rule if_P)
    then show False using assms by simp
  qed
  then have c: "(base OR physical) AND 4095 = 0" "base < 0x40000000" "20480 \<le> 0x40000000 - base" "physical < 0x40000000"
    "0x10000 \<le> 0x40000000 - physical" "bdf < 256"
    by (simp_all add: SF_DMA_BYTES_def not_le not_less)
  note t = assms[unfolded sf_vtd_tables_def if_not_P[OF nb], unfolded sum.inject(2), symmetric]
  have "base AND 4095 = 0" "physical AND 4095 = 0" using c(1) by (simp_all add: bit.conj_disj_distrib2 or_eq_0_iff)
  then show "unat base mod 4096 = 0" "unat physical mod 4096 = 0" by (simp_all flip: page_offset)
  have "unat (0x40000000 - base) = 2 ^ 30 - unat base" "unat (0x40000000 - physical) = 2 ^ 30 - unat physical"
    using c(2,4) by (simp_all add: unat_sub word_le_nat_alt word_less_nat_alt)
  then show "unat base + 20480 \<le> 2 ^ 30" "unat physical + 65536 \<le> 2 ^ 30"
    using c(2-5) by (simp_all add: word_le_nat_alt word_less_nat_alt)
  show "unat bdf < 256" using c(6) by (simp add: word_less_nat_alt)
  show "vt_table t 0 = (\<lambda>_. 0)(0 := (base + 4096) OR 1)"
    "vt_table t 1 = (\<lambda>_. 0)(unat bdf * 2 := (base + 8192) OR 1, unat bdf * 2 + 1 := 0x101)"
    "vt_table t 2 = (\<lambda>_. 0)(0 := (base + 12288) OR 3)"
    "vt_table t 3 = (\<lambda>_. 0)(8 := (base + 16384) OR 3)"
    "vt_table t 4 = (\<lambda>i. if i < 16 then (physical + of_nat i * 4096) OR 3 else 0)"
    by (simp_all add: t no_tables_def SF_DMA_BYTES_def SF_DMA_IOVA_def fun_eq_iff)
qed

lemma vt_entry:
  assumes "unat base mod 4096 = 0" "unat base + 20480 \<le> 2 ^ 30" "k < 5" "f < 4096"
  shows "vt_next ((base + of_nat (4096 * k)) OR of_nat f) = of_nat (unat base + 4096 * k)"
proof -
  have b: "base + of_nat (4096 * k) = of_nat (unat base + 4096 * k)" by simp
  have "(unat base + 4096 * k) mod 4096 = 0" using assms(1) by simp
  moreover have "unat base + 4096 * k < 2 ^ 60" using assms(2,3) by simp
  ultimately show ?thesis unfolding b by (intro vt_next_or) (use assms(4) in auto)
qed

text \<open>The walk through the tables of a grant.\<close>

lemma vtd_walk_tables:
  assumes T: "sf_vtd_tables base bdf physical = Ok t" and b: "b < 256"
  shows "vtd_walk base t b iova =
    (if b = unat bdf \<and> SF_DMA_IOVA \<le> iova \<and> iova < SF_DMA_IOVA + 0x10000 then Some (physical + (iova - SF_DMA_IOVA)) else None)"
proof -
  note ok = vtd_tables_Ok[OF T]
  have tab: "vt_root t 0 = (base + 4096) OR 1"
    "vt_context t = (\<lambda>_. 0)(unat bdf * 2 := (base + 8192) OR 1, unat bdf * 2 + 1 := 0x101)"
    "vt_level3 t = (\<lambda>_. 0)(0 := (base + 12288) OR 3)" "vt_level2 t = (\<lambda>_. 0)(8 := (base + 16384) OR 3)"
    "vt_level1 t = (\<lambda>i. if i < 16 then (physical + of_nat i * 4096) OR 3 else 0)"
    using ok(6-10) by simp_all
  let ?a = "unat base"
  let ?j3 = "unat (drop_bit 30 iova AND 511)" and ?j2 = "unat (drop_bit 21 iova AND 511)" and ?j1 = "unat (drop_bit 12 iova AND 511)"
  have base: "of_nat ?a = base" by simp
  have nxt: "vt_next ((base + 4096) OR 1) = of_nat (?a + 4096 * 1)" "vt_next ((base + 8192) OR 1) = of_nat (?a + 4096 * 2)"
    "vt_next ((base + 12288) OR 3) = of_nat (?a + 4096 * 3)" "vt_next ((base + 16384) OR 3) = of_nat (?a + 4096 * 4)"
    using vt_entry[OF ok(1,3), of 1 1] vt_entry[OF ok(1,3), of 2 1] vt_entry[OF ok(1,3), of 3 3] vt_entry[OF ok(1,3), of 4 3] by simp_all
  have root: "vt_word base t base = (base + 4096) OR 1"
    using vt_word_at[of 0 0 ?a t] by (simp add: tab(1))
  have cl: "vt_word base t (of_nat (?a + 4096 * 1) + of_nat (16 * b)) = vt_context t (2 * b)"
    using vt_word_at[of 1 "2 * b" ?a t] b by simp
  have ch: "vt_word base t (of_nat (?a + 4096 * 1) + of_nat (16 * b) + 8) = vt_context t (2 * b + 1)"
    using vt_word_at[of 1 "2 * b + 1" ?a t] b by (simp add: algebra_simps)
  have l3: "vt_word base t (of_nat (?a + 4096 * 2) + 8 * (drop_bit 30 iova AND 511)) = vt_level3 t ?j3"
    using vt_word_index[of 2 "drop_bit 30 iova" ?a t] iova_index(3)[of iova] by simp
  have l2: "vt_word base t (of_nat (?a + 4096 * 3) + 8 * (drop_bit 21 iova AND 511)) = vt_level2 t ?j2"
    using vt_word_index[of 3 "drop_bit 21 iova" ?a t] iova_index(2)[of iova] by simp
  have l1: "vt_word base t (of_nat (?a + 4096 * 4) + 8 * (drop_bit 12 iova AND 511)) = vt_level1 t ?j1"
    using vt_word_index[of 4 "drop_bit 12 iova" ?a t] iova_index(1)[of iova] by simp
  have big: "iova \<ge> push_bit 39 1 \<longleftrightarrow> \<not> unat iova < 2 ^ 39" by (simp add: push_bit_eq_mult word_le_nat_alt not_less)
  have win: "?j3 = 0 \<and> ?j2 = 8 \<and> ?j1 < 16 \<longleftrightarrow> SF_DMA_IOVA \<le> iova \<and> iova < SF_DMA_IOVA + 0x10000" if "unat iova < 2 ^ 39"
    using iova_window[OF that] by (simp add: iova_index SF_DMA_IOVA_def word_le_nat_alt word_less_nat_alt)
  have small: "SF_DMA_IOVA \<le> iova \<and> iova < SF_DMA_IOVA + 0x10000 \<Longrightarrow> unat iova < 2 ^ 39"
    by (simp add: SF_DMA_IOVA_def word_less_nat_alt)
  have target: "vt_next ((physical + of_nat ?j1 * 4096) OR 3) + (iova AND 4095) = physical + (iova - SF_DMA_IOVA)"
    if r: "SF_DMA_IOVA \<le> iova \<and> iova < SF_DMA_IOVA + 0x10000"
  proof -
    define x where "x = unat iova"
    have xr: "0x1000000 \<le> x" "x < 0x1010000" using r by (simp_all add: x_def SF_DMA_IOVA_def word_le_nat_alt word_less_nat_alt)
    then obtain y where y: "x = 0x1000000 + y" "y < 0x10000" using le_Suc_ex[OF xr(1)] by auto
    have "(0x1000000 + y) div 4096 = 4096 + y div 4096" by simp
    moreover have "(4096 + y div 4096) mod 512 = y div 4096 mod 512" using mod_mult_self3[of 8 512 "y div 4096"] by simp
    moreover have "y div 4096 < 512" using y(2) by simp
    ultimately have j1: "?j1 = y div 4096" by (simp add: iova_index x_def[symmetric] y(1))
    have "iova = of_nat x" by (simp add: x_def)
    then have d: "iova - SF_DMA_IOVA = of_nat y" by (simp add: y(1) SF_DMA_IOVA_def)
    have "unat (iova AND 4095) = y mod 4096" using mod_mult_self3[of 4096 4096 y] by (simp add: page_offset x_def[symmetric] y(1))
    then have m: "iova AND 4095 = of_nat (y mod 4096)" by (metis of_nat_unat ucast_id)
    let ?p = "unat physical + 4096 * (y div 4096)"
    have "?p mod 4096 = 0" "?p < 2 ^ 60" using ok(2,4) y(2) by simp_all
    then have "vt_next (of_nat ?p OR of_nat 3) = of_nat ?p" by (intro vt_next_or) simp_all
    moreover have "(of_nat ?p :: u64) = physical + of_nat (y div 4096) * 4096" by simp
    ultimately have "vt_next ((physical + of_nat ?j1 * 4096) OR 3) = of_nat ?p" using j1 by (simp add: mult.commute)
    moreover have "(of_nat ?p :: u64) + of_nat (y mod 4096) = physical + of_nat y"
    proof -
      have "?p + y mod 4096 = unat physical + y" using div_mult_mod_eq[of y 4096] by simp
      then have "(of_nat (?p + y mod 4096) :: u64) = of_nat (unat physical + y)" by simp
      then show ?thesis unfolding of_nat_add[symmetric] by simp
    qed
    ultimately show ?thesis by (simp only: m d)
  qed
  have walk: "vtd_walk base t b iova = (if unat iova < 2 ^ 39 \<and> b = unat bdf \<and> ?j3 = 0 \<and> ?j2 = 8 \<and> ?j1 < 16
      then Some (vt_next ((physical + of_nat ?j1 * 4096) OR 3) + (iova AND 4095)) else None)"
  proof (cases "unat iova < 2 ^ 39 \<and> b = unat bdf")
    case False
    have "vt_context t (2 * b) = 0" if "b \<noteq> unat bdf" using that by (auto simp: tab(2))
    then show ?thesis using False unfolding vtd_walk_def Let_def root nxt(1) cl big by (auto simp: low_or_three)
  next
    case True
    have c: "vt_context t (2 * b) = (base + 8192) OR 1" "vt_context t (2 * b + 1) = 0x101" using True by (simp_all add: tab(2))
    have w: "vtd_walk base t b iova = (let e3 = vt_level3 t ?j3 in if e3 AND 3 \<noteq> 3 then None
        else let e2 = vt_word base t (vt_next e3 + 8 * (drop_bit 21 iova AND 511))
          in if e2 AND 3 \<noteq> 3 then None
             else let e1 = vt_word base t (vt_next e2 + 8 * (drop_bit 12 iova AND 511))
               in if e1 AND 3 \<noteq> 3 then None else Some (vt_next e1 + (iova AND 4095)))"
      using True unfolding vtd_walk_def Let_def root nxt(1) cl ch c nxt(2) l3 big by (simp add: low_or_three)
    show ?thesis
    proof (cases "?j3 = 0")
      case j3: True
      then have "vt_level3 t ?j3 = (base + 12288) OR 3" by (simp add: tab(3))
      note w = w[unfolded Let_def this nxt(3) l2]
      show ?thesis
      proof (cases "?j2 = 8")
        case j2: True
        then have "vt_level2 t ?j2 = (base + 16384) OR 3" by (simp add: tab(4))
        note w = w[unfolded this nxt(4) l1 tab(5)]
        show ?thesis unfolding w using True j2 j3 by (simp add: low_or_three)
      qed (simp add: w tab(4))
    qed (simp add: w tab(3))
  qed
  show ?thesis unfolding walk using win small target by auto
qed

section \<open>Register traffic\<close>

text \<open>Only hardware was touched.\<close>

definition hw_only :: "Kernel \<Rightarrow> Kernel \<Rightarrow> bool" where
  "hw_only ks ks' \<longleftrightarrow> (\<exists>h. ks' = ks\<lparr>ks_hw := h\<rparr>)"

lemma hw_only_refl [simp]: "hw_only ks ks"
  by (auto simp: hw_only_def intro: exI[of _ "ks_hw ks"])

lemma hw_only_trans: "hw_only a b \<Longrightarrow> hw_only b c \<Longrightarrow> hw_only a c"
  by (auto simp: hw_only_def)

lemma hw_only_simps [simp]:
  "hw_only ks (snd (hw_next ks))" "hw_only ks (hw_out w ks)" "hw_only ks (snd (r64 off ks))"
  "hw_only ks (w64 off n ks)" "hw_only ks (w32 off m ks)"
  by (auto simp: hw_only_def hw_next_def hw_out_def r64_def w64_def w32_def)

lemma r64_hw: "r64 off ks = (v, ks') \<Longrightarrow> hw_only ks ks'"
  by (metis hw_only_simps(3) snd_conv)

lemma wait64_loop_hw: "wait64_loop n off msk ks = (r, ks') \<Longrightarrow> hw_only ks ks'"
proof (induction n arbitrary: ks)
  case (Suc n)
  obtain v ks1 where r: "r64 off ks = (v, ks1)" by fastforce
  then show ?case using Suc r64_hw[OF r] hw_only_trans[of ks ks1 ks'] by (auto split: if_splits)
qed simp

lemma wait64_hw: "wait64 off msk ks = (r, ks') \<Longrightarrow> hw_only ks ks'"
  by (simp add: wait64_def wait64_loop_hw)

lemma hw_only_iommu: "hw_only ks ks' \<Longrightarrow> ks_iommu ks' = ks_iommu ks"
  by (auto simp: hw_only_def)

lemma iommu_fail_eq: "hw_only ks ks' \<Longrightarrow> iommu_fail ks' = (r, ks'') \<Longrightarrow> r = Err SF_DEVICE_GONE \<and> hw_only (set_iommu (\<lambda>m. m\<lparr>im_mode := 2\<rparr>) ks) ks''"
proof -
  assume "hw_only ks ks'" and f: "iommu_fail ks' = (r, ks'')"
  then obtain h where "ks' = ks\<lparr>ks_hw := h\<rparr>" by (auto simp: hw_only_def)
  then have "ks'' = (set_iommu (\<lambda>m. m\<lparr>im_mode := 2\<rparr>) ks)\<lparr>ks_hw := h\<rparr>" "r = Err SF_DEVICE_GONE"
    using f by (auto simp: iommu_fail_def set_iommu_def)
  then show ?thesis unfolding hw_only_def by blast
qed

text \<open>An invalidation reads and writes registers; when it fails the unit is disabled.\<close>

lemma iommu_invalidate_frame:
  assumes "iommu_invalidate ks = (r, ks')"
  shows "r = Ok () \<and> hw_only ks ks' \<or> r = Err SF_DEVICE_GONE \<and> hw_only (set_iommu (\<lambda>m. m\<lparr>im_mode := 2\<rparr>) ks) ks'"
proof -
  let ?k0 = "w64 0x28 (push_bit 63 1 OR push_bit 61 1) ks"
  have h0: "hw_only ks ?k0" by simp
  obtain r1 k1 where e1: "wait64 0x28 (push_bit 63 1) ?k0 = (r1, k1)" by fastforce
  have h1: "hw_only ks k1" using hw_only_trans[OF h0 wait64_hw[OF e1]] .
  obtain v2 k2 where e2: "r64 0x28 k1 = (v2, k2)" by fastforce
  have h2: "hw_only ks k2" using hw_only_trans[OF h1 r64_hw[OF e2]] .
  define flags :: u64 where "flags = (push_bit 63 1 OR push_bit 60 1) OR
    (if bit (im_capability (ks_iommu k2)) 54 then push_bit 48 1 else 0) OR (if bit (im_capability (ks_iommu k2)) 55 then push_bit 49 1 else 0)"
  let ?o = "im_iotlb_offset (ks_iommu k2)"
  have h3: "hw_only ks (w64 ?o flags k2)" using hw_only_trans[OF h2] by simp
  obtain r4 k4 where e4: "wait64 ?o (push_bit 63 1) (w64 ?o flags k2) = (r4, k4)" by fastforce
  have h4: "hw_only ks k4" using hw_only_trans[OF h3 wait64_hw[OF e4]] .
  obtain v5 k5 where e5: "r64 ?o k4 = (v5, k5)" by fastforce
  have h5: "hw_only ks k5" using hw_only_trans[OF h4 r64_hw[OF e5]] .
  note d = assms[unfolded iommu_invalidate_def Let_def e1 prod.case]
  show ?thesis
  proof (cases r1)
    case (Inl x)
    then show ?thesis using d iommu_fail_eq[OF h1] by simp
  next
    case (Inr x)
    note d = d[unfolded Inr sum.case e2 prod.case, folded flags_def, unfolded e4 prod.case]
    show ?thesis
    proof (cases "drop_bit 59 v2 AND 3 \<noteq> 1")
      case True
      then show ?thesis using d iommu_fail_eq[OF h2] by simp
    next
      case False
      note d = d[unfolded if_not_P[OF False]]
      show ?thesis
      proof (cases r4)
        case (Inl x)
        then show ?thesis using d iommu_fail_eq[OF h4] by simp
      next
        case (Inr x)
        then show ?thesis using d e5 h5 iommu_fail_eq[OF h5] by (auto split: if_splits)
      qed
    qed
  qed
qed

end
