(* ===== verification/SF_Iommu_Claims.thy ===== *)
theory SF_Iommu_Claims
  imports SF_Iommu_Walk SF_Memory_Claims
begin

text \<open>Confinement of DMA by the remapping unit.\<close>

definition vtd_view :: "Kernel \<Rightarrow> nat \<Rightarrow> u64 \<Rightarrow> u64 option" where
  "vtd_view ks = vtd_walk (im_address (ks_iommu ks)) (im_tables (ks_iommu ks))"

lemma vtd_walk_cleared:
  assumes "vt_root t = (\<lambda>_. 0)"
  shows "vtd_walk base t b iova = None"
  using assms by (simp add: vtd_walk_def vt_word_def)

text \<open>C34: A granted device reaches the DMA arena and nothing else.  When the remapping unit is
  active and grants a device, the arena appears at the fixed bus address, and a request by
  any bus-zero device is translated exactly when it is made by the granted device and lies
  in the 64 KiB window, to the corresponding byte of the arena; after a successful
  revocation no request of any device is translated.\<close>

theorem dma_confined:
  assumes "im_mode (ks_iommu ks) \<noteq> 0" "iommu_grant bdf physical ks = (Ok addr, ks')"
  shows "addr = SF_DMA_IOVA \<and>
    (\<forall>b iova. b < 256 \<longrightarrow> vtd_view ks' b iova =
       (if b = unat bdf \<and> SF_DMA_IOVA \<le> iova \<and> iova < SF_DMA_IOVA + 0x10000
        then Some (physical + (iova - SF_DMA_IOVA)) else None)) \<and>
    (\<forall>ks''. iommu_revoke bdf ks' = (Ok (), ks'') \<longrightarrow> (\<forall>b iova. vtd_view ks'' b iova = None))"
proof -
  let ?m = "ks_iommu ks"
  have g: "\<not> (im_mode ?m \<noteq> 1 \<or> im_active_bdf ?m \<noteq> - 1)" "\<not> (bdf \<ge> 256 \<or> im_covered ?m (unat bdf) = 0)"
    using assms by (auto simp: iommu_grant_def Let_def split: if_splits)
  obtain t where t: "sf_vtd_tables (im_address ?m) bdf physical = Ok t"
    using assms g by (cases "sf_vtd_tables (im_address ?m) bdf physical") (simp_all add: iommu_grant_def Let_def)
  define k0 where "k0 = set_iommu (\<lambda>m. m\<lparr>im_tables := t\<rparr>) ks"
  obtain r k1 where inv: "iommu_invalidate k0 = (r, k1)" by fastforce
  have r: "r = Ok ()" "addr = SF_DMA_IOVA" "ks' = set_iommu (\<lambda>m. m\<lparr>im_active_bdf := bdf\<rparr>) k1"
    using assms g t inv by (auto simp: iommu_grant_def Let_def k0_def[symmetric] split: sum.splits)
  have i1: "ks_iommu k1 = ?m\<lparr>im_tables := t\<rparr>"
    using iommu_invalidate_frame[OF inv] r(1) hw_only_iommu[of k0 k1] by (auto simp: k0_def set_iommu_def)
  have i': "ks_iommu ks' = ?m\<lparr>im_tables := t, im_active_bdf := bdf\<rparr>" by (simp add: r(3) set_iommu_def i1)
  have act: "bdf \<noteq> - 1" using g(2) by auto
  have view: "vtd_view ks' b iova = (if b = unat bdf \<and> SF_DMA_IOVA \<le> iova \<and> iova < SF_DMA_IOVA + 0x10000
        then Some (physical + (iova - SF_DMA_IOVA)) else None)" if "b < 256" for b iova
    using vtd_walk_tables[OF t that] by (simp add: vtd_view_def i')
  have gone: "vtd_view ks'' b iova = None" if rv: "iommu_revoke bdf ks' = (Ok (), ks'')" for ks'' b iova
  proof -
    define k2 where "k2 = set_iommu (\<lambda>m. m\<lparr>im_tables := t\<lparr>vt_context := (vt_context t)(unat bdf * 2 := 0)\<rparr>\<rparr>) ks'"
    obtain r2 k3 where inv2: "iommu_invalidate k2 = (r2, k3)" by fastforce
    have "ks'' = set_iommu (\<lambda>m. m\<lparr>im_tables := no_tables, im_active_bdf := - 1\<rparr>) k3"
      using rv g act inv2 by (auto simp: iommu_revoke_def Let_def i' k2_def split: sum.splits)
    then show ?thesis using vtd_walk_cleared[of no_tables] by (simp add: vtd_view_def set_iommu_def no_tables_def)
  qed
  show ?thesis using r(2) view gone by blast
qed

definition iommu_example :: Kernel where
  "iommu_example = example_kernel\<lparr>
     ks_iommu := (ks_iommu example_kernel)\<lparr>im_mode := 1, im_iotlb_offset := 0x108, im_covered := (\<lambda>_. 1)\<rparr>,
     ks_hw := \<lparr>hw_reads = \<lambda>_. 0x0A00000000000000, hw_log = []\<rparr>\<rparr>"

lemma wait64_first:
  "0 < n \<Longrightarrow> hw_reads (ks_hw ks) 0 AND msk = 0 \<Longrightarrow> wait64_loop n off msk ks = (Ok (), snd (r64 off ks))"
  by (cases n) (simp_all add: r64_def hw_next_def)

lemma iommu_example_grant:
  "\<exists>ks'. iommu_grant 3 0x2000000 iommu_example = (Ok SF_DMA_IOVA, ks')"
proof -
  let ?v = "0x0A00000000000000 :: u64"
  have h: "(push_bit 63 1 :: u64) = 0x8000000000000000" by simp
  have m: "ks_iommu example_kernel = ks_iommu example_blank" by (simp add: example_kernel_def set_phys_def)
  have t: "\<exists>t. sf_vtd_tables 0x93000 3 0x2000000 = Ok t" by (simp add: sf_vtd_tables_def SF_DMA_BYTES_def)
  then obtain t where t: "sf_vtd_tables 0x93000 3 0x2000000 = Ok t" by blast
  have s: "hw_reads (ks_hw (set_iommu f iommu_example)) = (\<lambda>_. ?v)" for f by (simp add: set_iommu_def iommu_example_def)
  have "\<exists>ks'. iommu_invalidate ks = (Ok (), ks')" if "hw_reads (ks_hw ks) = (\<lambda>_. ?v)" for ks
    using that by (simp add: iommu_invalidate_def Let_def w64_def hw_out_def wait64_def wait64_first r64_def hw_next_def h)
  then obtain k1 where "iommu_invalidate (set_iommu (\<lambda>m. m\<lparr>im_tables := t\<rparr>) iommu_example) = (Ok (), k1)" using s by blast
  then show ?thesis using t by (simp add: iommu_grant_def Let_def iommu_example_def m example_blank_def)
qed

theorem dma_confined_witness:
  "\<exists>ks'. iommu_grant 3 0x2000000 iommu_example = (Ok SF_DMA_IOVA, ks') \<and>
     vtd_view ks' 3 0x1000004 = Some 0x2000004 \<and> vtd_view ks' 4 0x1000004 = None \<and> vtd_view ks' 3 0x1010000 = None"
proof -
  obtain ks' where g: "iommu_grant 3 0x2000000 iommu_example = (Ok SF_DMA_IOVA, ks')" using iommu_example_grant by blast
  have m: "im_mode (ks_iommu iommu_example) \<noteq> 0" by (simp add: iommu_example_def)
  have v: "vtd_view ks' b iova = (if b = 3 \<and> SF_DMA_IOVA \<le> iova \<and> iova < SF_DMA_IOVA + 0x10000
      then Some (0x2000000 + (iova - SF_DMA_IOVA)) else None)" if "b < 256" for b iova
    using dma_confined[OF m g] that by simp
  show ?thesis using g v by (auto simp: SF_DMA_IOVA_def)
qed

end
