(* ===== verification/SF_Device.thy ===== *)
theory SF_Device
  imports SF_Ipc SF_Iommu
begin

text \<open>
  Device authorization (\<^verbatim>\<open>kernel/device.c\<close>): the single DMA arena, its owner, the
  configuration-space checks that precede a grant, release with quarantine, the fault poll
  and port access.  Serial diagnostics are not part of the model.
\<close>

section \<open>Ports and configuration space\<close>

definition outb :: "u16 \<Rightarrow> u8 \<Rightarrow> Kernel \<Rightarrow> Kernel" where
  "outb p v ks = hw_out (Outb p v) ks"

definition inb :: "u16 \<Rightarrow> Kernel \<Rightarrow> u8 \<times> Kernel" where
  "inb p ks = (case hw_next ks of (v, ks) \<Rightarrow> (ucast v, ks))"

definition outl :: "u16 \<Rightarrow> u32 \<Rightarrow> Kernel \<Rightarrow> Kernel" where
  "outl p v ks = hw_out (Outl p v) ks"

definition inl :: "u16 \<Rightarrow> Kernel \<Rightarrow> u32 \<times> Kernel" where
  "inl p ks = (case hw_next ks of (v, ks) \<Rightarrow> (ucast v, ks))"

definition config_read :: "u32 \<Rightarrow> u32 \<Rightarrow> Kernel \<Rightarrow> u32 \<times> Kernel" where
  "config_read bdf offset ks = inl 0xcfc (outl 0xcf8 (0x80000000 OR push_bit 8 bdf OR offset) ks)"

definition config_write_command :: "u32 \<Rightarrow> u16 \<Rightarrow> Kernel \<Rightarrow> Kernel" where
  "config_write_command bdf command ks = hw_out (Outw 0xcfc command) (outl 0xcf8 (0x80000004 OR push_bit 8 bdf) ks)"

definition pci_read :: "u64 \<Rightarrow> u64 \<Rightarrow> Kernel \<Rightarrow> int \<times> Kernel" where
  "pci_read bdf offset ks =
     (if bdf > 65535 \<or> offset > 252 \<or> offset AND 3 \<noteq> 0 then (sf_code SF_INVALID, ks)
      else case config_read (ucast bdf) (ucast offset) ks of (v, ks) \<Rightarrow> (uint v, ks))"

section \<open>The MMIO window of the kernel\<close>

definition space_device_mmio :: "Kernel \<Rightarrow> u64 \<Rightarrow> unit res \<times> Kernel" where
  "space_device_mmio ks physical =
     (if \<not> ks_mmio_ready ks \<or> physical AND 4095 \<noteq> 0 \<or> physical \<ge> 0x1000000000000 then (Err SF_DENIED, ks)
      else let ks = set_phys (wr64 (ks_device_pt ks) (physical OR 0x1b OR NX)) ks;
               ks = set_phys (wr64 (ks_mmio_pd ks + 8 * 511) (of_nat (ks_device_pt ks) OR 3)) ks;
               ks = set_phys (wr64 (ks_boot_mmio_pd ks + 8 * 511) (of_nat (ks_device_pt ks) OR 3)) ks
           in (Ok (), ks))"

section \<open>Status and release\<close>

definition device_status :: "Kernel \<Rightarrow> SfDmaStatus \<times> Kernel" where
  "device_status ks =
     (let d = (ks_dma_status ks)\<lparr>ds_size := 48, ds_mode := im_mode (ks_iommu ks), ds_owner := ks_device_owner ks,
            ds_probe_address := of_nat (ks_guard ks),
            ds_guard_intact := (if list_all (\<lambda>i. ks_phys ks (ks_guard ks + i) = 0xa5) [0..<4096] then 1 else 0),
            ds_active_mapping := (if iommu_active ks then 1 else 0)\<rparr>
      in (d, ks\<lparr>ks_dma_status := d\<rparr>))"

text \<open>The reset poll: \<open>n\<close> reads of the status register remain.\<close>

primrec reset_poll :: "nat \<Rightarrow> Task \<Rightarrow> Kernel \<Rightarrow> bool \<times> Kernel" where
  "reset_poll 0 t ks = (False, ks)"
| "reset_poll (Suc n) t ks =
     (case (if tk_device_modern t \<noteq> 0 then (case hw_next ks of (v, ks) \<Rightarrow> (ucast v, ks))
            else inb (ucast (tk_device_io t) + 18) ks) of (v, ks) \<Rightarrow>
        if v = 0 then (True, ks) else reset_poll n t ks)"

definition device_release :: "nat \<Rightarrow> Kernel \<Rightarrow> unit res \<times> Kernel" where
  "device_release ti ks =
     (let t = ks_tasks ks ti
      in if tk_device_io t = 0 then (if tk_device_fault t \<noteq> 0 then Err SF_DEVICE_GONE else Ok (), ks)
         else let ks = (if tk_device_modern t \<noteq> 0 then hw_out (MmioByte 0xffe00014 0) ks
                        else outb (ucast (tk_device_io t) + 18) 0 ks);
                  (command, ks) = config_read (tk_device_bdf t) 4 ks;
                  ks = config_write_command (tk_device_bdf t) (ucast command AND NOT 4) ks;
                  (reset, ks) = reset_poll 10000 t ks;
                  (invalidation, ks) = iommu_revoke (tk_device_bdf t) ks;
                  (command, ks) = config_read (tk_device_bdf t) 4 ks;
                  ks = (if bit command 2 \<or> \<not> reset \<or> invalidation \<noteq> Ok () then ks\<lparr>ks_quarantined := True\<rparr> else ks);
                  ks = put_task ti ((ks_tasks ks ti)\<lparr>tk_device_fault := (if ks_quarantined ks then 1 else 0), tk_device_io := 0\<rparr>) ks
              in (if ks_quarantined ks then Err SF_DEVICE_GONE else Ok (), ks))"

definition device_forget :: "nat \<Rightarrow> Kernel \<Rightarrow> Kernel" where
  "device_forget ti ks = (if ks_device_owner ks = tk_pid (ks_tasks ks ti) then ks\<lparr>ks_device_owner := 0\<rparr> else ks)"

section \<open>Grants\<close>

text \<open>The walk of the capability list: the bits found and the offset left over.\<close>

primrec virtio_caps :: "nat \<Rightarrow> u32 \<Rightarrow> u32 \<Rightarrow> u32 \<Rightarrow> Kernel \<Rightarrow> (u32 \<times> u32) res \<times> Kernel" where
  "virtio_caps 0 bdf cp found ks = (Ok (found, cp), ks)"
| "virtio_caps (Suc n) bdf cp found ks =
     (if cp = 0 then (Ok (found, cp), ks)
      else if cp < 0x40 \<or> cp > 0xfc \<or> cp AND 3 \<noteq> 0 then (Err SF_BAD_FORMAT, ks)
      else case config_read bdf cp ks of (h, ks) \<Rightarrow>
        if h AND 255 \<noteq> 9 then virtio_caps n bdf (drop_bit 8 h AND 255) found ks
        else let kind = drop_bit 24 h; len = drop_bit 16 h AND 255
          in if len < 16 \<or> cp > 240 then (Err SF_BAD_FORMAT, ks)
             else let (ident, ks) = config_read bdf (cp + 4) ks; ident = ident AND 255;
                      (off, ks) = config_read bdf (cp + 8) ks;
                      (size, ks) = config_read bdf (cp + 12) ks
               in if (kind = 1 \<or> kind = 2 \<or> kind = 4) \<and> ident \<noteq> 4 then (Err SF_DENIED, ks)
                  else let found = (if kind = 1 \<and> off = 0 \<and> size \<ge> 56 then found OR 1 else found);
                           (mult, ks) = (if kind = 2 \<and> off = 0x3000 \<and> size \<ge> 2 \<and> len \<ge> 20 \<and> cp \<le> 236
                                         then config_read bdf (cp + 16) ks else (0, ks));
                           found = (if kind = 2 \<and> off = 0x3000 \<and> size \<ge> 2 \<and> len \<ge> 20 \<and> cp \<le> 236 \<and> mult = 4
                                    then found OR 2 else found);
                           found = (if kind = 4 \<and> off = 0x2000 \<and> size \<ge> 8 then found OR 4 else found)
                    in virtio_caps n bdf (drop_bit 8 h AND 255) found ks)"

text \<open>The modern device: its BAR4 window, or the error.\<close>

definition modern_window :: "u32 \<Rightarrow> u32 \<Rightarrow> Kernel \<Rightarrow> u64 res \<times> Kernel" where
  "modern_window bdf bar ks =
     (if im_mode (ks_iommu ks) \<noteq> 1 \<or> bar AND 7 \<noteq> 4 then (Err SF_DENIED, ks)
      else let (hi, ks) = config_read bdf 36 ks; physical = push_bit 32 (ucast hi) OR ucast (bar AND NOT 15)
        in if physical AND 16383 \<noteq> 0 \<or> physical < 0xc0000000 \<or> physical \<ge> 0x1000000000000 - 16384 then (Err SF_DENIED, ks)
           else let (first, ks) = config_read bdf 0x34 ks
             in case virtio_caps 48 bdf (first AND 255) 0 ks of
                  (Err e, ks) \<Rightarrow> (Err e, ks)
                | (Ok (found, cp), ks) \<Rightarrow>
                    if found \<noteq> 7 \<or> cp \<noteq> 0 then (Err SF_DENIED, ks)
                    else (case space_device_mmio ks physical of
                            (Err _, ks) \<Rightarrow> (Err SF_DENIED, ks)
                          | (Ok _, ks) \<Rightarrow> (Ok physical, ks)))"

text \<open>Mapping a run of pages; stops at the first failure.\<close>

primrec map_run :: "(Kernel \<Rightarrow> nat \<Rightarrow> u64 \<Rightarrow> u64 \<Rightarrow> unit res \<times> Kernel) \<Rightarrow> nat \<Rightarrow> u64 \<Rightarrow> u64 \<Rightarrow> nat \<Rightarrow> Kernel \<Rightarrow> bool \<times> Kernel" where
  "map_run f ti v p 0 ks = (True, ks)"
| "map_run f ti v p (Suc n) ks =
     (case f ks ti v p of
        (Err _, ks) \<Rightarrow> (False, ks)
      | (Ok _, ks) \<Rightarrow> map_run f ti (v + 4096) (p + 4096) n ks)"

definition st16 :: "nat \<Rightarrow> u16 \<Rightarrow> Kernel \<Rightarrow> Kernel" where
  "st16 a v ks = set_phys (store a (le16 v)) ks"

definition st32 :: "nat \<Rightarrow> u32 \<Rightarrow> Kernel \<Rightarrow> Kernel" where
  "st32 a v ks = set_phys (store a (le32 v)) ks"

definition st64 :: "nat \<Rightarrow> u64 \<Rightarrow> Kernel \<Rightarrow> Kernel" where
  "st64 a v ks = set_phys (wr64 a v) ks"

definition give_up :: "nat \<Rightarrow> sf_error \<Rightarrow> Kernel \<Rightarrow> unit res \<times> Kernel" where
  "give_up ti e ks = (Err e, snd (device_release ti ks))"

text \<open>The tail of a grant: the task owns the arena from here on; \<open>args\<close> is the page of the
  start-up arguments.\<close>

definition device_attach :: "nat \<Rightarrow> u32 \<Rightarrow> u32 \<Rightarrow> bool \<Rightarrow> u32 \<Rightarrow> u64 \<Rightarrow> nat \<Rightarrow> Kernel \<Rightarrow> unit res \<times> Kernel" where
  "device_attach ti bdf rights modern bar physical args ks =
     (let t = ks_tasks ks ti;
          ks = put_task ti (t\<lparr>tk_device_io := (if modern then SF_DEVICE_MMIO else bar AND NOT 3)\<rparr>) ks;
          ks = ks\<lparr>ks_device_owner := tk_pid t\<rparr>;
          ks = set_phys (store (ks_dma ks) (replicate SF_DMA_BYTES 0)) ks;
          (ok, ks) = (if modern then map_run space_map_mmio ti (ucast SF_DEVICE_MMIO) physical 4 ks else (True, ks))
      in if \<not> ok then give_up ti SF_NO_SPACE ks
         else let (ok, ks) = map_run (\<lambda>ks ti v p. space_map ks ti v p 3) ti SF_DMA (of_nat (ks_dma ks)) (SF_DMA_BYTES div 4096) ks
           in if \<not> ok then give_up ti SF_NO_SPACE ks
              else case iommu_grant bdf (of_nat (ks_dma ks)) ks of
                  (Err e, ks) \<Rightarrow> give_up ti e ks
                | (Ok bus_address, ks) \<Rightarrow>
                    (let (command, ks) = config_read bdf 4 ks;
                         enable = (if modern then 6 else 5);
                         ks = config_write_command bdf (ucast command OR enable) ks;
                         (now, ks) = config_read bdf 4 ks
                     in if ucast now AND enable \<noteq> enable then give_up ti SF_DEVICE_GONE ks
                        else let ks = st64 (args + 72) SF_DMA ks;
                                 ks = st64 (args + 80) bus_address ks;
                                 ks = st32 (args + 88) (tk_device_io (ks_tasks ks ti)) ks;
                                 ks = st16 (args + 92) (ucast bdf) ks;
                                 ks = st16 (args + 94) (ucast (rights OR (if im_mode (ks_iommu ks) = 1 then 2 else 0) OR
                                        (if modern then 4 else 0))) ks
                          in (Ok (), ks)))"

definition device_grant :: "nat \<Rightarrow> u32 \<Rightarrow> u32 \<Rightarrow> nat \<Rightarrow> Kernel \<Rightarrow> unit res \<times> Kernel" where
  "device_grant ti bdf_plus_one rights args ks =
     (if bdf_plus_one = 0 \<or> bdf_plus_one > 65536 then (Err SF_INVALID, ks)
      else if ks_device_owner ks \<noteq> 0 \<or> ks_quarantined ks then (Err SF_BUSY, ks)
      else if im_mode (ks_iommu ks) = 2 then (Err SF_DEVICE_GONE, ks)
      else let bdf = bdf_plus_one - 1; (identity, ks) = config_read bdf 0 ks;
               modern = (identity = 0x10421af4); legacy_net = (identity = 0x10001af4)
        in if identity \<noteq> 0x10011af4 \<and> \<not> legacy_net \<and> \<not> modern then (Err SF_DENIED, ks)
           else if im_mode (ks_iommu ks) = 1 \<and> \<not> modern then (Err SF_DENIED, ks)
           else let (bar, ks) = config_read bdf (if modern then 32 else 16) ks;
                    (window, ks) = (if modern then modern_window bdf bar ks
                                    else if \<not> bit bar 0 \<or> bar AND NOT 3 < 0x1000 \<or> bar AND NOT 3 > 0xffc0 then (Err SF_DENIED, ks)
                                    else (Ok 0, ks))
             in case window of
                  Err e \<Rightarrow> (Err e, ks)
                | Ok physical \<Rightarrow>
                   (let t = ks_tasks ks ti;
                        t = (if modern then t\<lparr>tk_device_io := SF_DEVICE_MMIO, tk_device_modern := 1\<rparr>
                             else t\<lparr>tk_device_io := bar AND NOT 3\<rparr>);
                        ks = put_task ti (t\<lparr>tk_device_bdf := bdf\<rparr>) ks
                    in case device_release ti ks of
                         (Err _, ks) \<Rightarrow> (Err SF_DEVICE_GONE, ks)
                       | (Ok _, ks) \<Rightarrow> device_attach ti bdf rights modern bar physical args ks))"

section \<open>Port access\<close>

definition device_io :: "nat \<Rightarrow> u64 \<Rightarrow> u64 \<Rightarrow> u64 \<Rightarrow> Kernel \<Rightarrow> int \<times> Kernel" where
  "device_io ti port operation value ks =
     (let t = ks_tasks ks ti; width = (ucast (operation AND 255) :: u32); write = operation AND 256 \<noteq> 0
      in if operation AND NOT 0x1ff \<noteq> 0 \<or> width \<noteq> 1 \<and> width \<noteq> 2 \<and> width \<noteq> 4 then (sf_code SF_INVALID, ks)
         else if tk_device_modern t \<noteq> 0 \<or> tk_device_io t = 0 \<or> ks_device_owner ks \<noteq> tk_pid t \<or> port < ucast (tk_device_io t) \<or>
             port > ucast (tk_device_io t + 64 - width) then (sf_code SF_DENIED, ks)
         else if write then
           (0, if width = 1 then outb (ucast port) (ucast value) ks
               else if width = 2 then hw_out (Outw (ucast port) (ucast value)) ks
               else outl (ucast port) (ucast value) ks)
         else if width = 1 then (case inb (ucast port) ks of (v, ks) \<Rightarrow> (uint v, ks))
         else if width = 2 then (case hw_next ks of (v, ks) \<Rightarrow> (uint (ucast v :: u16), ks))
         else (case inl (ucast port) ks of (v, ks) \<Rightarrow> (uint v, ks)))"

end
