(* ===== verification/SF_Arguments.thy ===== *)
theory SF_Arguments
  imports SF_Bytes
begin

text \<open>
  Program arguments (\<^verbatim>\<open>services/arguments.c\<close>, \<^verbatim>\<open>services/argparse.c\<close>): packing an argument
  vector and an environment into the block the kernel copies, the kernel's check of the
  block, and the accessors of a started program.  A C string is the list of its bytes before
  the terminator; a returned pointer is an offset into the start-up page.
\<close>

section \<open>The packed block\<close>

definition SF_ARGUMENT_MAX :: nat where "SF_ARGUMENT_MAX = 8"
definition SF_ENVIRONMENT_MAX :: nat where "SF_ENVIRONMENT_MAX = 8"
definition SF_ARGUMENT_BYTES :: nat where "SF_ARGUMENT_BYTES = 512"
definition BOOT_ARGS :: nat where "BOOT_ARGS = 96"

record SfArguments =
  ar_count :: u32
  ar_bytes :: u32
  ar_env_count :: u32
  ar_reserved :: u32
  ar_data :: bytes

function skip_string :: "bytes \<Rightarrow> nat \<Rightarrow> nat \<Rightarrow> nat" where
  "skip_string d cursor fin = (if cursor < fin \<and> d ! (cursor - BOOT_ARGS) \<noteq> 0 then skip_string d (cursor + 1) fin else cursor)"
  by auto
termination by (relation "measure (\<lambda>(d, c, e). e - c)") auto

declare skip_string.simps [simp del]

primrec payload_walk :: "bytes \<Rightarrow> nat \<Rightarrow> nat list \<Rightarrow> nat \<Rightarrow> nat option" where
  "payload_walk d fin [] cursor = Some cursor"
| "payload_walk d fin (i # is) cursor =
     (if unat (rd_le32 d (i * 4)) \<noteq> cursor then None
      else let c = skip_string d cursor fin in if c = fin then None else payload_walk d fin is (c + 1))"

definition payload :: "bytes \<Rightarrow> nat \<Rightarrow> nat \<Rightarrow> unit res" where
  "payload d n count =
     (if count > SF_ARGUMENT_MAX + SF_ENVIRONMENT_MAX \<or> n > SF_ARGUMENT_BYTES then Err SF_BAD_FORMAT
      else if count = 0 then (if n \<noteq> 0 then Err SF_BAD_FORMAT else Ok ())
      else if n < count * 4 then Err SF_BAD_FORMAT
      else case payload_walk d (BOOT_ARGS + n) [0..<count] (BOOT_ARGS + count * 4) of
             None \<Rightarrow> Err SF_BAD_FORMAT
           | Some cursor \<Rightarrow> if cursor = BOOT_ARGS + n then Ok () else Err SF_BAD_FORMAT)"

definition sf_arguments_validate :: "SfArguments option \<Rightarrow> unit res" where
  "sf_arguments_validate a =
     (case a of
        None \<Rightarrow> Err SF_INVALID
      | Some a \<Rightarrow>
          if ar_reserved a \<noteq> 0 \<or> unat (ar_count a) > SF_ARGUMENT_MAX \<or> unat (ar_env_count a) > SF_ENVIRONMENT_MAX
          then Err SF_BAD_FORMAT
          else payload (ar_data a) (unat (ar_bytes a)) (unat (ar_count a) + unat (ar_env_count a)))"

section \<open>Environment names\<close>

definition name_char :: "nat \<Rightarrow> u8 \<Rightarrow> bool" where
  "name_char i c \<longleftrightarrow> c = 95 \<or> 65 \<le> c \<and> c \<le> 90 \<or> 97 \<le> c \<and> c \<le> 122 \<or> i \<noteq> 0 \<and> 48 \<le> c \<and> c \<le> 57"

text \<open>The byte of a C string at an index; the terminator beyond the last one.\<close>

definition at_str :: "bytes \<Rightarrow> nat \<Rightarrow> u8" where
  "at_str s i = (if i < length s then s ! i else 0)"

definition sf_environment_name_valid :: "bytes option \<Rightarrow> nat \<Rightarrow> bool" where
  "sf_environment_name_valid s n =
     (case s of None \<Rightarrow> False
      | Some s \<Rightarrow> n \<noteq> 0 \<and> n \<le> 63 \<and> list_all (\<lambda>i. name_char i (at_str s i)) [0..<n])"

text \<open>\<^verbatim>\<open>while(n<limit&&s[n]&&s[n]!='=')n++\<close>\<close>

definition key_scan :: "nat \<Rightarrow> bytes \<Rightarrow> nat" where
  "key_scan limit s = length (takeWhile (\<lambda>c. c \<noteq> 0 \<and> c \<noteq> 61) (take limit s))"

definition key_length :: "bytes \<Rightarrow> nat" where
  "key_length s = (let n = key_scan 64 s in if n < 64 \<and> at_str s n = 61 then n else 0)"

section \<open>The start-up page\<close>

text \<open>The string at an offset of the page.\<close>

definition str_at :: "bytes \<Rightarrow> nat \<Rightarrow> bytes" where
  "str_at p off = takeWhile (\<lambda>c. c \<noteq> 0) (drop off p)"

definition env_str :: "bytes \<Rightarrow> nat \<Rightarrow> bytes" where
  "env_str p i = str_at p (unat (rd_le32 p (unat (rd_le32 p 68) + i * 4)))"

definition sf_boot_arguments_validate :: "bytes option \<Rightarrow> nat \<Rightarrow> unit res" where
  "sf_boot_arguments_validate a n =
     (case a of
        None \<Rightarrow> Err SF_BAD_FORMAT
      | Some p \<Rightarrow>
         (let argc = unat (rd_le32 p 56); argv_offset = unat (rd_le32 p 60);
              envc = unat (rd_le32 p 64); env_offset = unat (rd_le32 p 68)
          in if n < BOOT_ARGS \<or> n > BOOT_ARGS + SF_ARGUMENT_BYTES then Err SF_BAD_FORMAT
             else if unat (rd_le32 p 0) \<noteq> n \<or> rd_le16 p 4 \<noteq> 1 \<or> rd_le16 p 6 \<noteq> 0 then Err SF_ABI_MISMATCH
             else if argc > SF_ARGUMENT_MAX \<or> envc > SF_ENVIRONMENT_MAX \<or> argv_offset \<noteq> (if argc \<noteq> 0 then BOOT_ARGS else 0) \<or>
                     env_offset \<noteq> (if envc \<noteq> 0 then BOOT_ARGS + argc * 4 else 0) then Err SF_BAD_FORMAT
             else case payload (drop BOOT_ARGS p) (n - BOOT_ARGS) (argc + envc) of
                 Err e \<Rightarrow> Err e
               | Ok _ \<Rightarrow>
                   if list_all (\<lambda>i. let s = env_str p i; k = key_length s
                        in sf_environment_name_valid (Some s) k \<and>
                           list_all (\<lambda>j. \<not> (key_length (env_str p j) = k \<and> take k s = take k (env_str p j))) [0..<i]) [0..<envc]
                   then Ok () else Err SF_BAD_FORMAT))"

definition sf_environment :: "bytes option \<Rightarrow> nat \<Rightarrow> nat \<Rightarrow> nat option" where
  "sf_environment a n index =
     (case sf_boot_arguments_validate a n of
        Err _ \<Rightarrow> None
      | Ok _ \<Rightarrow> (let p = the a in
          if index \<ge> unat (rd_le32 p 64) then None else Some (unat (rd_le32 p (unat (rd_le32 p 68) + index * 4)))))"

definition sf_environment_value :: "bytes option \<Rightarrow> nat \<Rightarrow> bytes option \<Rightarrow> nat option" where
  "sf_environment_value a n name =
     (case name of
        None \<Rightarrow> None
      | Some nm \<Rightarrow>
         (case sf_boot_arguments_validate a n of
            Err _ \<Rightarrow> None
          | Ok _ \<Rightarrow>
             (let p = the a; k = length (takeWhile (\<lambda>c. c \<noteq> 0) (take 64 nm))
              in if \<not> sf_environment_name_valid (Some nm) k then None
                 else map_option (\<lambda>i. unat (rd_le32 p (unat (rd_le32 p 68) + i * 4)) + k + 1)
                   (first_index (\<lambda>i. key_length (env_str p i) = k \<and> take k (env_str p i) = take k nm) (unat (rd_le32 p 64))))))"

definition sf_argument :: "bytes option \<Rightarrow> nat \<Rightarrow> nat \<Rightarrow> nat option" where
  "sf_argument a n index =
     (case sf_boot_arguments_validate a n of
        Err _ \<Rightarrow> None
      | Ok _ \<Rightarrow> (let p = the a in
          if index \<ge> unat (rd_le32 p 56) then None else Some (unat (rd_le32 p (unat (rd_le32 p 60) + index * 4)))))"

section \<open>Packing\<close>

text \<open>The measuring pass: \<open>used\<close> bytes are taken; \<open>seen\<close> are the environment strings before
  this one.\<close>

primrec pack_measure :: "bytes option list \<Rightarrow> bool \<Rightarrow> bytes list \<Rightarrow> nat \<Rightarrow> nat res" where
  "pack_measure [] env seen used = Ok used"
| "pack_measure (x # xs) env seen used =
     (case x of
        None \<Rightarrow> Err SF_INVALID
      | Some s \<Rightarrow>
         (let room = SF_ARGUMENT_BYTES - used; n = min room (length s)
          in if n = room then Err SF_NO_SPACE
             else if env \<and> (let key = length (takeWhile (\<lambda>c. c \<noteq> 61) (take n s))
                    in key = n \<or> \<not> sf_environment_name_valid (Some s) key \<or>
                       list_ex (\<lambda>other. length (takeWhile (\<lambda>c. c \<noteq> 61) other) = key \<and> take key s = take key other) seen)
             then Err SF_INVALID
             else pack_measure xs env (if env then seen @ [s] else seen) (used + n + 1)))"

text \<open>The copying pass.\<close>

primrec pack_copy :: "bytes list \<Rightarrow> nat \<Rightarrow> nat \<Rightarrow> bytes \<Rightarrow> bytes" where
  "pack_copy [] i cursor d = d"
| "pack_copy (s # ss) i cursor d =
     pack_copy ss (i + 1) (cursor + length s + 1)
       (put_at cursor (s @ [0]) (put_at (i * 4) (le32 (of_nat (BOOT_ARGS + cursor))) d))"

definition sf_invocation_pack :: "bytes option list option \<Rightarrow> nat \<Rightarrow> bytes option list option \<Rightarrow> nat \<Rightarrow> SfArguments res" where
  "sf_invocation_pack vals count environment env_count =
     (if vals = None \<and> count \<noteq> 0 \<or> environment = None \<and> env_count \<noteq> 0 then Err SF_INVALID
      else if count > SF_ARGUMENT_MAX \<or> env_count > SF_ENVIRONMENT_MAX then Err SF_NO_SPACE
      else let vs = (case vals of None \<Rightarrow> [] | Some xs \<Rightarrow> take count xs);
               es = (case environment of None \<Rightarrow> [] | Some xs \<Rightarrow> take env_count xs);
               tot = count + env_count
           in case pack_measure vs False [] (tot * 4) of
                Err e \<Rightarrow> Err e
              | Ok used \<Rightarrow>
                 (case pack_measure es True [] used of
                    Err e \<Rightarrow> Err e
                  | Ok used \<Rightarrow>
                      Ok \<lparr>ar_count = of_nat count, ar_bytes = of_nat used, ar_env_count = of_nat env_count, ar_reserved = 0,
                          ar_data = pack_copy (map the (vs @ es)) 0 (tot * 4) (replicate SF_ARGUMENT_BYTES 0)\<rparr>))"

definition sf_arguments_pack :: "bytes option list option \<Rightarrow> nat \<Rightarrow> SfArguments res" where
  "sf_arguments_pack vals count = sf_invocation_pack vals count None 0"

section \<open>Splitting a command line\<close>

definition space_char :: "u8 \<Rightarrow> bool" where
  "space_char c \<longleftrightarrow> c = 32 \<or> c = 9"

text \<open>One word: the open quote (0 for none), the text left, the bytes written.\<close>

fun split_word :: "u8 \<Rightarrow> bytes \<Rightarrow> bytes \<Rightarrow> (bytes \<times> bytes) res" where
  "split_word q [] w = (if q \<noteq> 0 then Err SF_INVALID else Ok (w, []))"
| "split_word q (c # cs) w =
     (if q = 0 \<and> space_char c then Ok (w, cs)
      else if c = 92 \<and> q \<noteq> 39 then
        (case cs of [] \<Rightarrow> Err SF_INVALID | d # ds \<Rightarrow> split_word q ds (w @ [d]))
      else if (c = 39 \<or> c = 34) \<and> q = 0 then split_word c cs w
      else if (c = 39 \<or> c = 34) \<and> q = c then split_word 0 cs w
      else split_word q cs (w @ [c]))"

lemma split_word_shorter: "split_word q cs w = Ok (v, rest) \<Longrightarrow> length rest \<le> length cs - 1"
proof (induction q cs w rule: split_word.induct)
  case (1 q w)
  then show ?case by (cases "q \<noteq> 0") simp_all
next
  case (2 q c cs w)
  consider "q = 0 \<and> space_char c" | "\<not> (q = 0 \<and> space_char c)" "c = 92 \<and> q \<noteq> 39"
    | "\<not> (q = 0 \<and> space_char c)" "\<not> (c = 92 \<and> q \<noteq> 39)" "(c = 39 \<or> c = 34) \<and> q = 0"
    | "\<not> (q = 0 \<and> space_char c)" "\<not> (c = 92 \<and> q \<noteq> 39)" "\<not> ((c = 39 \<or> c = 34) \<and> q = 0)" "(c = 39 \<or> c = 34) \<and> q = c"
    | "\<not> (q = 0 \<and> space_char c)" "\<not> (c = 92 \<and> q \<noteq> 39)" "\<not> ((c = 39 \<or> c = 34) \<and> q = 0)" "\<not> ((c = 39 \<or> c = 34) \<and> q = c)"
    by blast
  then show ?case
  proof cases
    case 1
    then show ?thesis using "2.prems" unfolding split_word.simps if_P[OF 1] by simp
  next
    case c: 2
    note e = "2.prems"[unfolded split_word.simps if_not_P[OF c(1)] if_P[OF c(2)]]
    show ?thesis
    proof (cases cs)
      case Nil
      then show ?thesis using e by simp
    next
      case (Cons d ds)
      have "split_word q ds (w @ [d]) = Ok (v, rest)" using e Cons by simp
      from "2.IH"(1)[OF c Cons this] show ?thesis using Cons by simp
    qed
  next
    case c: 3
    note e = "2.prems"[unfolded split_word.simps if_not_P[OF c(1)] if_not_P[OF c(2)] if_P[OF c(3)]]
    show ?thesis using "2.IH"(2)[OF c e] by simp
  next
    case c: 4
    note e = "2.prems"[unfolded split_word.simps if_not_P[OF c(1)] if_not_P[OF c(2)] if_not_P[OF c(3)] if_P[OF c(4)]]
    show ?thesis using "2.IH"(3)[OF c e] by simp
  next
    case c: 5
    note e = "2.prems"[unfolded split_word.simps if_not_P[OF c(1)] if_not_P[OF c(2)] if_not_P[OF c(3)] if_not_P[OF c(4)]]
    show ?thesis using "2.IH"(4)[OF c e] by simp
  qed
qed

function split_words :: "nat \<Rightarrow> bytes \<Rightarrow> bytes list \<Rightarrow> bytes list res" where
  "split_words capacity line ws =
     (case dropWhile space_char line of
        [] \<Rightarrow> Ok ws
      | c # cs \<Rightarrow>
          if length ws = capacity then Err SF_NO_SPACE
          else case split_word 0 (c # cs) [] of
            Err e \<Rightarrow> Err e
          | Ok (w, rest) \<Rightarrow> split_words capacity rest (ws @ [w]))"
  by auto
termination
proof (relation "measure (\<lambda>(k, line, ws). length line)", simp)
  fix capacity line ws c cs rest w x
  assume d: "dropWhile space_char line = c # cs" and s: "split_word 0 (c # cs) [] = Ok x" and x: "(w, rest) = x"
  have "split_word 0 (c # cs) [] = Ok (w, rest)" using s x by simp
  from split_word_shorter[OF this] have "length rest \<le> length cs" by simp
  moreover have "length (c # cs) \<le> length line" using length_dropWhile_le[of space_char line] d by simp
  ultimately show "((capacity, rest, ws @ [w]), (capacity, line, ws)) \<in> measure (\<lambda>(k, line, ws). length line)" by simp
qed

declare split_words.simps [simp del]

definition sf_arguments_split :: "bytes option \<Rightarrow> nat \<Rightarrow> bytes list res" where
  "sf_arguments_split line capacity =
     (case line of
        None \<Rightarrow> Err SF_INVALID
      | Some cs \<Rightarrow>
          if capacity = 0 \<or> capacity > SF_ARGUMENT_MAX + SF_ENVIRONMENT_MAX + 2 then Err SF_INVALID
          else split_words capacity cs [])"

end
