(* ===== verification/SF_Core.thy ===== *)
theory SF_Core
  imports SF_Device SF_Arguments
begin

text \<open>
  Tasks, system calls and interrupts (\<^verbatim>\<open>kernel/core.c\<close>) and the keyboard ring of
  \<^verbatim>\<open>kernel/arch.c\<close>.  \<open>None\<close> is a panic or a copy through a missing translation.  Kernel
  stacks, the FPU image and the loading of \<^verbatim>\<open>cr3\<close> are not part of the state.
\<close>

section \<open>Load plans\<close>

record SfLoadSegment =
  sg_rva :: u64
  sg_bytes :: u64
  sg_data :: u64
  sg_flags :: u32
  sg_reserved :: u32

record SfLoadPlan =
  lp_size :: u32
  lp_count :: u32
  lp_entry :: u64
  lp_image_base :: u64
  lp_grant_manager :: u32
  lp_grant_service :: u32
  lp_service_rights :: u32
  lp_grant_bundle :: u32
  lp_grant_device :: u32
  lp_device_rights :: u32
  lp_segments :: "nat \<Rightarrow> SfLoadSegment"
  lp_arguments :: SfArguments

definition PLAN_SIZE :: nat where "PLAN_SIZE = 832"

text \<open>The plan in a buffer, at the offsets of the C layout.\<close>

definition plan_segment :: "bytes \<Rightarrow> nat \<Rightarrow> SfLoadSegment" where
  "plan_segment b i = (let a = 48 + 32 * i in
     \<lparr>sg_rva = rd_le64 b a, sg_bytes = rd_le64 b (a + 8), sg_data = rd_le64 b (a + 16),
      sg_flags = rd_le32 b (a + 24), sg_reserved = rd_le32 b (a + 28)\<rparr>)"

definition plan_of :: "bytes \<Rightarrow> SfLoadPlan" where
  "plan_of b =
     \<lparr>lp_size = rd_le32 b 0, lp_count = rd_le32 b 4, lp_entry = rd_le64 b 8, lp_image_base = rd_le64 b 16,
      lp_grant_manager = rd_le32 b 24, lp_grant_service = rd_le32 b 28, lp_service_rights = rd_le32 b 32,
      lp_grant_bundle = rd_le32 b 36, lp_grant_device = rd_le32 b 40, lp_device_rights = rd_le32 b 44,
      lp_segments = plan_segment b,
      lp_arguments = \<lparr>ar_count = rd_le32 b 304, ar_bytes = rd_le32 b 308, ar_env_count = rd_le32 b 312,
        ar_reserved = rd_le32 b 316, ar_data = take SF_ARGUMENT_BYTES (drop 320 b)\<rparr>\<rparr>"

definition sf_image_base_valid :: "u64 \<Rightarrow> bool" where
  "sf_image_base_valid base \<longleftrightarrow> base = 0 \<or> base = SF_BASE \<or>
     base \<ge> SF_PIE_MIN \<and> base \<le> SF_DMA - SF_IMAGE_MAX \<and> base AND (SF_IMAGE_MAX - 1) = 0"

definition page_up :: "u64 \<Rightarrow> u64" where
  "page_up x = (x + 4095) AND NOT 4095"

text \<open>The checks of segment \<open>i\<close>; \<open>parent\<close> is \<open>None\<close> for the boot plan.\<close>

definition valid_segment :: "Kernel \<Rightarrow> SfLoadPlan \<Rightarrow> nat option \<Rightarrow> nat \<Rightarrow> bool" where
  "valid_segment ks p parent i =
     (let s = lp_segments p i; fin = page_up (sg_rva s + sg_bytes s)
      in \<not> (sg_rva s AND 4095 \<noteq> 0 \<or> sg_data s > - 1 - sg_bytes s \<or> sg_bytes s = 0 \<or> sg_bytes s > SF_IMAGE_MAX \<or> sg_reserved s \<noteq> 0) \<and>
         \<not> (sg_rva s \<ge> SF_IMAGE_MAX \<or> sg_bytes s > SF_IMAGE_MAX - sg_rva s \<or>
            sg_flags s \<noteq> 1 \<and> sg_flags s \<noteq> 3 \<and> sg_flags s \<noteq> 5) \<and>
         (case parent of
            Some ti \<Rightarrow> user_range ks ti (sg_data s) (sg_bytes s) False
          | None \<Rightarrow> \<not> (sg_data s > 0x40000000 \<or> sg_bytes s > 0x40000000 - sg_data s \<or> sg_data s < ks_kernel_end ks)) \<and>
         list_all (\<lambda>j. let q = lp_segments p j
            in \<not> (sg_rva s < page_up (sg_rva q + sg_bytes q) \<and> sg_rva q < fin)) [0..<i])"

definition valid_plan :: "Kernel \<Rightarrow> SfLoadPlan \<Rightarrow> nat option \<Rightarrow> bool" where
  "valid_plan ks p parent \<longleftrightarrow>
     \<not> (lp_size p \<noteq> of_nat PLAN_SIZE \<or> lp_count p = 0 \<or> lp_count p > 8 \<or> \<not> sf_image_base_valid (lp_image_base p) \<or>
        sf_arguments_validate (Some (lp_arguments p)) \<noteq> Ok () \<or> lp_grant_device p > 65536 \<or>
        lp_device_rights p AND NOT 1 \<noteq> 0 \<or> lp_grant_device p = 0 \<and> lp_device_rights p \<noteq> 0) \<and>
     list_all (valid_segment ks p parent) [0..<unat (lp_count p)] \<and>
     list_ex (\<lambda>i. let s = lp_segments p i
        in sg_flags s = 5 \<and> lp_entry p \<ge> sg_rva s \<and> lp_entry p - sg_rva s < sg_bytes s) [0..<unat (lp_count p)]"

section \<open>Building a task\<close>

text \<open>Steps that may jump to the failure label: the first error ends the run.\<close>

type_synonym build = "Kernel \<Rightarrow> (unit res \<times> Kernel) option"

primrec try_all :: "build list \<Rightarrow> build" where
  "try_all [] ks = Some (Ok (), ks)"
| "try_all (f # fs) ks =
     (case f ks of
        None \<Rightarrow> None
      | Some (Err e, ks) \<Rightarrow> Some (Err e, ks)
      | Some (Ok _, ks) \<Rightarrow> try_all fs ks)"

text \<open>The multiples of the page size below \<open>n\<close>.\<close>

definition page_offsets :: "u64 \<Rightarrow> u64 list" where
  "page_offsets n = map (\<lambda>i. of_nat i * 4096) [0..<(unat n + 4095) div 4096]"

text \<open>A fresh page of the task mapped at \<open>v\<close>.\<close>

definition map_fresh :: "nat \<Rightarrow> u64 \<Rightarrow> u32 \<Rightarrow> Kernel \<Rightarrow> nat res \<times> Kernel" where
  "map_fresh ti v flags ks =
     (case page_alloc ks (tk_pid (ks_tasks ks ti)) of
        (None, ks) \<Rightarrow> (Err SF_NO_SPACE, ks)
      | (Some page, ks) \<Rightarrow>
          (case space_map ks ti v (of_nat page) flags of
             (Err _, ks) \<Rightarrow> (Err SF_NO_SPACE, ks)
           | (Ok _, ks) \<Rightarrow> (Ok page, ks)))"

definition build_space :: "nat \<Rightarrow> build" where
  "build_space ti ks =
     (case space_new ks (tk_pid (ks_tasks ks ti)) of
        (None, ks) \<Rightarrow> Some (Err SF_NO_SPACE, put_task ti ((ks_tasks ks ti)\<lparr>tk_cr3 := 0\<rparr>) ks)
      | (Some p, ks) \<Rightarrow> Some (Ok (), put_task ti ((ks_tasks ks ti)\<lparr>tk_cr3 := of_nat p\<rparr>) ks))"

text \<open>One page of a segment: copied from the parent, or from memory for the boot plan.\<close>

definition build_page :: "nat \<Rightarrow> nat option \<Rightarrow> u64 \<Rightarrow> SfLoadSegment \<Rightarrow> u64 \<Rightarrow> build" where
  "build_page ti parent base s off ks =
     (case map_fresh ti (base + sg_rva s + off) (sg_flags s) ks of
        (Err e, ks) \<Rightarrow> Some (Err e, ks)
      | (Ok page, ks) \<Rightarrow>
         (let n = min 4096 (unat (sg_bytes s - off))
          in case parent of
               None \<Rightarrow> Some (Ok (), set_phys (store page (load (unat (sg_data s + off)) n (ks_phys ks))) ks)
             | Some pi \<Rightarrow>
                 (case copy_in ks pi (sg_data s + off) n of
                    None \<Rightarrow> None
                  | Some (Err _) \<Rightarrow> Some (Err SF_NO_SPACE, ks)
                  | Some (Ok bs) \<Rightarrow> Some (Ok (), set_phys (store page bs) ks))))"

definition build_segment :: "nat \<Rightarrow> nat option \<Rightarrow> u64 \<Rightarrow> SfLoadSegment \<Rightarrow> build" where
  "build_segment ti parent base s = try_all (map (build_page ti parent base s) (page_offsets (sg_bytes s)))"

definition build_stack_page :: "nat \<Rightarrow> nat \<Rightarrow> build" where
  "build_stack_page ti i ks =
     (case map_fresh ti (SF_STACK - of_nat i * 4096) 3 ks of
        (Err e, ks) \<Rightarrow> Some (Err e, ks) | (Ok _, ks) \<Rightarrow> Some (Ok (), ks))"

definition build_bundle :: "nat \<Rightarrow> nat \<Rightarrow> build" where
  "build_bundle ti args ks =
     (let map_page = (\<lambda>off ks. case space_map ks ti (SF_BUNDLE + off) (ks_bundle_phys ks + off) 1 of
            (Err _, ks) \<Rightarrow> Some (Err SF_NO_SPACE, ks) | (Ok _, ks) \<Rightarrow> Some (Ok (), ks))
      in case try_all (map map_page (page_offsets (ks_bundle_bytes ks))) ks of
           None \<Rightarrow> None
         | Some (Err e, ks) \<Rightarrow> Some (Err e, ks)
         | Some (Ok _, ks) \<Rightarrow> Some (Ok (), st64 (args + 16) (ks_bundle_bytes ks) (st64 (args + 8) SF_BUNDLE ks)))"

text \<open>A grant of an endpoint of the parent; the handle goes to the field at \<open>at\<close>.\<close>

definition build_grant :: "nat \<Rightarrow> nat \<Rightarrow> u32 \<Rightarrow> u32 \<Rightarrow> nat \<Rightarrow> build" where
  "build_grant ti pi handle rights at ks =
     (case ipc_grant ks pi ti handle rights of
        (h, ks) \<Rightarrow> if h < 0 then Some (Err SF_NO_SPACE, ks) else Some (Ok (), st32 at (of_int h) ks))"

definition build_header :: "nat \<Rightarrow> SfArguments \<Rightarrow> u32 \<Rightarrow> Kernel \<Rightarrow> Kernel" where
  "build_header args a pid ks =
     (let ks = st32 args (of_nat BOOT_ARGS + ar_bytes a) ks;
          ks = st16 (args + 4) 1 ks;
          ks = st32 (args + 24) pid ks;
          ks = st32 (args + 44) 1 ks;
          ks = st32 (args + 48) 1 ks;
          ks = st32 (args + 56) (ar_count a) ks;
          ks = st32 (args + 64) (ar_env_count a) ks;
          ks = (if ar_count a \<noteq> 0 then st32 (args + 60) (of_nat BOOT_ARGS) ks else ks);
          ks = (if ar_env_count a \<noteq> 0 then st32 (args + 68) (of_nat BOOT_ARGS + ar_count a * 4) ks else ks)
      in if ar_bytes a \<noteq> 0 then set_phys (store (args + BOOT_ARGS) (take (unat (ar_bytes a)) (ar_data a))) ks else ks)"

text \<open>From the argument page on; \<open>args\<close> is its address.\<close>

definition build_rest :: "nat \<Rightarrow> nat option \<Rightarrow> SfLoadPlan \<Rightarrow> nat \<Rightarrow> build" where
  "build_rest ti parent p args ks =
     (let ks = build_header args (lp_arguments p) (tk_pid (ks_tasks ks ti)) ks
      in try_all
           ((if parent = None \<or> lp_grant_bundle p \<noteq> 0 then [build_bundle ti args] else []) @
            (case parent of
               None \<Rightarrow> []
             | Some pi \<Rightarrow>
                 (if lp_grant_manager p \<noteq> 0 then [build_grant ti pi (lp_grant_manager p) RIGHT_SEND (args + 28)] else []) @
                 (if lp_grant_service p \<noteq> 0 then
                    [\<lambda>ks. if lp_service_rights p AND NOT 7 \<noteq> 0 then Some (Err SF_NO_SPACE, ks) else Some (Ok (), ks),
                     build_grant ti pi (lp_grant_service p) (lp_service_rights p) (args + 36)] else [])) @
            (if lp_grant_device p \<noteq> 0 then [\<lambda>ks. Some (device_grant ti (lp_grant_device p) (lp_device_rights p) args ks)] else [])) ks)"

definition build_arguments :: "nat \<Rightarrow> nat option \<Rightarrow> SfLoadPlan \<Rightarrow> build" where
  "build_arguments ti parent p ks =
     (case map_fresh ti SF_ARGS 1 ks of
        (Err e, ks) \<Rightarrow> Some (Err e, ks)
      | (Ok args, ks) \<Rightarrow> build_rest ti parent p args ks)"

definition build_task :: "nat \<Rightarrow> nat option \<Rightarrow> SfLoadPlan \<Rightarrow> build" where
  "build_task ti parent p =
     (let base = (if lp_image_base p \<noteq> 0 then lp_image_base p else SF_BASE)
      in try_all ([build_space ti] @
           map (\<lambda>i. build_segment ti parent base (lp_segments p i)) [0..<unat (lp_count p)] @
           map (build_stack_page ti) [1..<17] @
           [build_arguments ti parent p]))"

definition new_frame :: "SfLoadPlan \<Rightarrow> u64 \<Rightarrow> Frame" where
  "new_frame p base =
     \<lparr>fr_rax = 0, fr_rdi = SF_ARGS, fr_rsi = ucast (of_nat BOOT_ARGS + ar_bytes (lp_arguments p)), fr_rdx = 0, fr_vector = 0,
      fr_rip = base + lp_entry p, fr_cs = 0x1b, fr_rflags = 0x202, fr_rsp = SF_STACK - 8, fr_ss = 0x23\<rparr>"

text \<open>A slot taken for a new process; capability generations survive.\<close>

definition claim_slot :: "nat \<Rightarrow> u32 \<Rightarrow> u32 \<Rightarrow> Kernel \<Rightarrow> Kernel" where
  "claim_slot ti pid pages ks =
     (let t = ks_tasks ks ti
      in put_task ti (t\<lparr>tk_caps := (\<lambda>k. if k < 32 then (tk_caps t k)\<lparr>cp_endpoint := 0\<rparr> else tk_caps t k),
           tk_pid := pid, tk_state := T_EMPTY, tk_device_io := 0, tk_device_bdf := 0, tk_device_fault := 0, tk_device_modern := 0,
           tk_priority := 1, tk_cap_limit := SF_CAP_LIMIT_MAX, tk_page_limit := pages, tk_page_count := 0,
           tk_ready_since := ks_ticks ks\<rparr>) ks)"

definition task_failed :: "nat \<Rightarrow> sf_error \<Rightarrow> Kernel \<Rightarrow> Kernel" where
  "task_failed ti e ks =
     (let ks = snd (device_release ti ks);
          ks = ipc_cleanup ti ks;
          ks = pages_free ks (tk_pid (ks_tasks ks ti));
          ks = device_forget ti ks
      in put_task ti ((ks_tasks ks ti)\<lparr>tk_state := T_DEAD, tk_exit_status := of_int (sf_code e)\<rparr>) ks)"

definition task_started :: "nat \<Rightarrow> SfLoadPlan \<Rightarrow> Kernel \<Rightarrow> Kernel" where
  "task_started ti p ks =
     put_task ti ((ks_tasks ks ti)\<lparr>
       tk_frame := new_frame p (if lp_image_base p \<noteq> 0 then lp_image_base p else SF_BASE),
       tk_ready_since := ks_ticks ks, tk_state := T_READY, tk_exit_status := 0\<rparr>) ks"

definition task_new_limited :: "SfLoadPlan \<Rightarrow> bool \<Rightarrow> u32 \<Rightarrow> Kernel \<Rightarrow> (int \<times> Kernel) option" where
  "task_new_limited p bootstrap pages ks =
     (let parent = (if bootstrap then None else Some (nat (ks_current ks)))
      in if pages > SF_PAGE_LIMIT_MAX then Some (sf_code SF_INVALID, ks)
         else if \<not> valid_plan ks p parent \<or> parent = None \<and> lp_image_base p \<noteq> 0 \<and> lp_image_base p \<noteq> SF_BASE
         then Some (sf_code SF_INVALID, ks)
         else case first_index (\<lambda>i. tk_state (ks_tasks ks i) = T_EMPTY \<or> tk_state (ks_tasks ks i) = T_DEAD) SF_MAX_TASKS of
             None \<Rightarrow> Some (sf_code SF_NO_SPACE, ks)
           | Some ti \<Rightarrow>
              (case sf_pid_take (Some (ks_next_pid ks)) of
                 (Err e, _) \<Rightarrow> Some (sf_code e, ks)
               | (Ok pid, nxt) \<Rightarrow>
                  (case build_task ti parent p (claim_slot ti pid pages (ks\<lparr>ks_next_pid := the nxt\<rparr>)) of
                     None \<Rightarrow> None
                   | Some (Err e, ks) \<Rightarrow> Some (sf_code e, task_failed ti e ks)
                   | Some (Ok _, ks) \<Rightarrow> Some (uint pid, task_started ti p ks))))"

definition task_new :: "SfLoadPlan \<Rightarrow> bool \<Rightarrow> Kernel \<Rightarrow> (int \<times> Kernel) option" where
  "task_new p bootstrap ks = task_new_limited p bootstrap SF_PAGE_LIMIT_MAX ks"

definition task_dead :: "nat \<Rightarrow> 32 word \<Rightarrow> Kernel \<Rightarrow> Kernel" where
  "task_dead ti status ks =
     (let ks = snd (device_release ti ks);
          ks = ipc_cleanup ti ks;
          ks = put_task ti ((ks_tasks ks ti)\<lparr>tk_state := T_DEAD, tk_exit_status := status\<rparr>) ks;
          ks = pages_free ks (tk_pid (ks_tasks ks ti))
      in device_forget ti ks)"

end
