(* ===== verification/SF_Syscall.thy ===== *)
theory SF_Syscall
  imports SF_Core
begin

text \<open>
  The console ring, the poll of device faults and the system-call table
  (\<^verbatim>\<open>kernel/arch.c\<close>, \<^verbatim>\<open>kernel/device.c\<close>, \<^verbatim>\<open>kernel/core.c\<close>).
\<close>

section \<open>Console\<close>

text \<open>The interrupt handler drains the receiver: \<open>cs\<close> are the bytes it delivers before it
  reports itself empty.\<close>

definition console_byte :: "u8 \<Rightarrow> Console \<Rightarrow> Console" where
  "console_byte c s =
     (if cs_count s < 256
      then s\<lparr>cs_input := (cs_input s)(unat ((cs_head s + cs_count s) mod 256) := c), cs_count := cs_count s + 1\<rparr>
      else s\<lparr>cs_overflow := True\<rparr>)"

definition console_irq :: "bytes \<Rightarrow> Kernel \<Rightarrow> Kernel" where
  "console_irq cs ks = outb 0x20 0x20 (ks\<lparr>ks_console := fold console_byte cs (ks_console ks)\<rparr>)"

definition console_read :: "Kernel \<Rightarrow> int \<times> Kernel" where
  "console_read ks =
     (let s = ks_console ks
      in if cs_overflow s then
           (sf_code SF_EVENT_OVERFLOW, ks\<lparr>ks_console := s\<lparr>cs_overflow := False, cs_head := 0, cs_count := 0\<rparr>\<rparr>)
         else if cs_count s = 0 then (sf_code SF_WOULD_BLOCK, ks)
         else (uint (cs_input s (unat (cs_head s))),
               ks\<lparr>ks_console := s\<lparr>cs_head := (cs_head s + 1) mod 256, cs_count := cs_count s - 1\<rparr>\<rparr>))"

section \<open>Device faults\<close>

definition poll_fault :: "u32 \<times> u32 \<times> u64 \<Rightarrow> Kernel \<Rightarrow> Kernel" where
  "poll_fault f ks =
     (case f of (source, reason, address) \<Rightarrow>
        let d = ks_dma_status ks;
            ks = ks\<lparr>ks_dma_status := d\<lparr>ds_faults := ds_faults d + 1, ds_source := source, ds_reason := reason,
                   ds_last_address := address\<rparr>\<rparr>
        in case first_index (\<lambda>i. let t = ks_tasks ks i
                in tk_pid t = ks_device_owner ks \<and> tk_device_bdf t = source \<and> tk_state t \<noteq> T_DEAD) SF_MAX_TASKS of
             None \<Rightarrow> ks
           | Some i \<Rightarrow>
              (let ks = snd (device_release i ks);
                   ks = ks\<lparr>ks_quarantined := True\<rparr>;
                   ks = put_task i ((ks_tasks ks i)\<lparr>tk_device_fault := 1\<rparr>) ks
               in task_dead i (of_int (sf_code SF_DEVICE_GONE)) ks))"

primrec poll_loop :: "nat \<Rightarrow> Kernel \<Rightarrow> Kernel" where
  "poll_loop 0 ks = ks"
| "poll_loop (Suc n) ks =
     (case iommu_fault ks of
        (None, ks) \<Rightarrow> ks
      | (Some f, ks) \<Rightarrow> poll_loop n (poll_fault f ks))"

definition device_poll :: "Kernel \<Rightarrow> Kernel" where
  "device_poll ks = poll_loop 64 ks"

section \<open>System calls\<close>

definition SYS_EXIT :: u64 where "SYS_EXIT = 0"
definition SYS_YIELD :: u64 where "SYS_YIELD = 1"
definition SYS_LOG :: u64 where "SYS_LOG = 2"
definition SYS_TICKS :: u64 where "SYS_TICKS = 3"
definition SYS_SPAWN :: u64 where "SYS_SPAWN = 7"
definition SYS_KILL :: u64 where "SYS_KILL = 8"
definition SYS_TASK_STATUS :: u64 where "SYS_TASK_STATUS = 9"
definition SYS_CONSOLE_READ :: u64 where "SYS_CONSOLE_READ = 10"
definition SYS_SHUTDOWN :: u64 where "SYS_SHUTDOWN = 11"
definition SYS_MAP_TEST :: u64 where "SYS_MAP_TEST = 14"
definition SYS_PCI_READ :: u64 where "SYS_PCI_READ = 16"
definition SYS_PORT_IO :: u64 where "SYS_PORT_IO = 17"
definition SYS_DEVICE_RELEASE :: u64 where "SYS_DEVICE_RELEASE = 18"
definition SYS_DMA_STATUS :: u64 where "SYS_DMA_STATUS = 19"
definition SYS_TASK_PRIORITY :: u64 where "SYS_TASK_PRIORITY = 20"
definition SYS_TASK_CAP_LIMIT :: u64 where "SYS_TASK_CAP_LIMIT = 21"
definition SYS_SPAWN_LIMITED :: u64 where "SYS_SPAWN_LIMITED = 23"
definition SYS_TASK_PAGE_LIMIT :: u64 where "SYS_TASK_PAGE_LIMIT = 24"
definition SYS_IPC_STATS :: u64 where "SYS_IPC_STATS = 25"

definition SF_LIMIT_QUERY :: u64 where "SF_LIMIT_QUERY = 0"
definition SF_LIMIT_SET :: u64 where "SF_LIMIT_SET = 1"
definition SF_LIMIT_USED :: u64 where "SF_LIMIT_USED = 2"
definition SF_TASK_RUNNING :: int where "SF_TASK_RUNNING = 0x100000000"

text \<open>The first slot that satisfies a condition.\<close>

definition find_task :: "(Task \<Rightarrow> bool) \<Rightarrow> Kernel \<Rightarrow> nat option" where
  "find_task P ks = first_index (\<lambda>i. P (ks_tasks ks i)) SF_MAX_TASKS"

definition live_pid :: "u64 \<Rightarrow> Task \<Rightarrow> bool" where
  "live_pid a t \<longleftrightarrow> ucast (tk_pid t) = a \<and> (tk_state t = T_READY \<or> tk_state t = T_BLOCKED)"

definition sys_page_limit :: "nat \<Rightarrow> u64 \<Rightarrow> u64 \<Rightarrow> u64 \<Rightarrow> Kernel \<Rightarrow> int \<times> Kernel" where
  "sys_page_limit ti a b c ks =
     (if tk_pid (ks_tasks ks ti) \<noteq> 1 then (sf_code SF_DENIED, ks)
      else if a = 0 \<or> a > 0x7fffffff \<or> c \<noteq> SF_LIMIT_QUERY \<and> c \<noteq> SF_LIMIT_SET \<and> c \<noteq> SF_LIMIT_USED \<or>
              b > ucast SF_PAGE_LIMIT_MAX \<or> c \<noteq> SF_LIMIT_SET \<and> b \<noteq> 0 then (sf_code SF_INVALID, ks)
      else case find_task (live_pid a) ks of
          None \<Rightarrow> (sf_code SF_NOT_FOUND, ks)
        | Some i \<Rightarrow>
           (let x = ks_tasks ks i
            in if c = SF_LIMIT_USED then (uint (tk_page_count x), ks)
               else if c = SF_LIMIT_SET then
                 if ucast (tk_page_count x) > b then (sf_code SF_BUSY, ks)
                 else (uint (ucast b :: u32), put_task i (x\<lparr>tk_page_limit := ucast b\<rparr>) ks)
               else (uint (tk_page_limit x), ks)))"

definition sys_cap_limit :: "nat \<Rightarrow> u64 \<Rightarrow> u64 \<Rightarrow> u64 \<Rightarrow> Kernel \<Rightarrow> int \<times> Kernel" where
  "sys_cap_limit ti a b c ks =
     (if tk_pid (ks_tasks ks ti) \<noteq> 1 then (sf_code SF_DENIED, ks)
      else if a = 0 \<or> a > 0x7fffffff \<or> c \<noteq> SF_LIMIT_QUERY \<and> c \<noteq> SF_LIMIT_SET \<and> c \<noteq> SF_LIMIT_USED \<or>
              b > ucast SF_CAP_LIMIT_MAX \<or> c \<noteq> SF_LIMIT_SET \<and> b \<noteq> 0 then (sf_code SF_INVALID, ks)
      else case find_task (live_pid a) ks of
          None \<Rightarrow> (sf_code SF_NOT_FOUND, ks)
        | Some i \<Rightarrow>
           (let x = ks_tasks ks i
            in if c = SF_LIMIT_USED then (int (task_caps_used x), ks)
               else if c = SF_LIMIT_SET then
                 if of_nat (task_caps_used x) > b then (sf_code SF_BUSY, ks)
                 else (uint (ucast b :: u32), put_task i (x\<lparr>tk_cap_limit := ucast b\<rparr>) ks)
               else (uint (tk_cap_limit x), ks)))"

definition sys_priority :: "nat \<Rightarrow> u64 \<Rightarrow> u64 \<Rightarrow> u64 \<Rightarrow> Kernel \<Rightarrow> int \<times> Kernel" where
  "sys_priority ti a b c ks =
     (if tk_pid (ks_tasks ks ti) \<noteq> 1 then (sf_code SF_DENIED, ks)
      else if a = 0 \<or> a > 0x7fffffff \<or> c \<noteq> 0 \<and> c \<noteq> 1 \<or> b > ucast SF_PRIORITY_MAX \<or> c = 0 \<and> b \<noteq> 0 then (sf_code SF_INVALID, ks)
      else case find_task (live_pid a) ks of
          None \<Rightarrow> (sf_code SF_NOT_FOUND, ks)
        | Some i \<Rightarrow>
            if c = 1 then (uint (ucast b :: u32), put_task i ((ks_tasks ks i)\<lparr>tk_priority := ucast b\<rparr>) ks)
            else (uint (tk_priority (ks_tasks ks i)), ks))"

definition sys_spawn :: "nat \<Rightarrow> u64 \<Rightarrow> u32 \<Rightarrow> Kernel \<Rightarrow> (int \<times> Kernel) option" where
  "sys_spawn ti a pages ks =
     (case copy_in ks ti a PLAN_SIZE of
        None \<Rightarrow> None
      | Some (Err _) \<Rightarrow> Some (sf_code SF_DENIED, ks)
      | Some (Ok b) \<Rightarrow> task_new_limited (plan_of b) False pages ks)"

definition sys_log :: "nat \<Rightarrow> u64 \<Rightarrow> u64 \<Rightarrow> Kernel \<Rightarrow> (int \<times> Kernel) option" where
  "sys_log ti a b ks =
     (if b > 512 \<or> \<not> user_range ks ti a b False then Some (sf_code SF_DENIED, ks)
      else case copy_in ks ti a (unat b) of
          None \<Rightarrow> None
        | Some (Err _) \<Rightarrow> Some (uint b, ks)
        | Some (Ok s) \<Rightarrow> Some (uint b, hw_out (Serial (takeWhile (\<lambda>c. c \<noteq> 0) s)) ks))"

definition sys_kill :: "nat \<Rightarrow> u64 \<Rightarrow> u64 \<Rightarrow> Kernel \<Rightarrow> int \<times> Kernel" where
  "sys_kill ti a b ks =
     (if tk_pid (ks_tasks ks ti) \<noteq> 1 \<or> a = 1 then (sf_code SF_DENIED, ks)
      else case find_task (\<lambda>t. ucast (tk_pid t) = a \<and> tk_state t \<noteq> T_DEAD) ks of
          None \<Rightarrow> (sf_code SF_NOT_FOUND, ks)
        | Some i \<Rightarrow> (0, task_dead i (ucast b) ks))"

definition sys_status :: "nat \<Rightarrow> u64 \<Rightarrow> Kernel \<Rightarrow> int \<times> Kernel" where
  "sys_status ti a ks =
     (if tk_pid (ks_tasks ks ti) \<noteq> 1 then (sf_code SF_DENIED, ks)
      else case find_task (\<lambda>t. ucast (tk_pid t) = a \<and> tk_state t \<noteq> T_EMPTY) ks of
          None \<Rightarrow> (sf_code SF_NOT_FOUND, ks)
        | Some i \<Rightarrow> (if tk_state (ks_tasks ks i) = T_DEAD then sint (tk_exit_status (ks_tasks ks i)) else SF_TASK_RUNNING, ks))"

definition res_code :: "unit res \<Rightarrow> int" where
  "res_code r = (case r of Err e \<Rightarrow> sf_code e | Ok _ \<Rightarrow> 0)"

definition sys_device_release :: "nat \<Rightarrow> u64 \<Rightarrow> Kernel \<Rightarrow> int \<times> Kernel" where
  "sys_device_release ti a ks =
     (if a = 0 then map_prod res_code id (device_release ti ks)
      else if tk_pid (ks_tasks ks ti) \<noteq> 1 then (sf_code SF_DENIED, ks)
      else case find_task (\<lambda>t. ucast (tk_pid t) = a) ks of
          None \<Rightarrow> (sf_code SF_NOT_FOUND, ks)
        | Some i \<Rightarrow> map_prod res_code id (device_release i ks))"

text \<open>A structure copied to the caller; the result is that of the copy.\<close>

definition report :: "nat \<Rightarrow> u64 \<Rightarrow> bytes \<Rightarrow> Kernel \<Rightarrow> (int \<times> Kernel) option" where
  "report ti a bs ks = map_option (map_prod res_code id) (copy_out ks ti a bs)"

definition le64 :: "u64 \<Rightarrow> bytes" where
  "le64 v = le32 (ucast v) @ le32 (ucast (drop_bit 32 v))"

definition status_bytes :: "SfDmaStatus \<Rightarrow> bytes" where
  "status_bytes d = le32 (ds_size d) @ le32 (ds_mode d) @ le32 (ds_owner d) @ le32 (ds_faults d) @
     le64 (ds_last_address d) @ le64 (ds_probe_address d) @ le32 (ds_source d) @ le32 (ds_reason d) @
     le32 (ds_guard_intact d) @ le32 (ds_active_mapping d)"

definition syscall :: "Frame \<Rightarrow> Kernel \<Rightarrow> (int \<times> Kernel) option" where
  "syscall f ks =
     (let ti = nat (ks_current ks); pid = tk_pid (ks_tasks ks ti); n = fr_rax f; a = fr_rdi f; b = fr_rsi f; c = fr_rdx f
      in if n = SYS_EXIT then (if pid = 1 then None else Some (0, task_dead ti (ucast a) ks))
         else if n = SYS_YIELD then Some (0, ks)
         else if n = SYS_LOG then sys_log ti a b ks
         else if n = SYS_TICKS then Some (sint (ks_ticks ks), ks)
         else if n = SYS_IPC_STATS then
           (if pid \<noteq> 1 then Some (sf_code SF_DENIED, ks)
            else if b \<noteq> 24 \<or> c \<noteq> 0 then Some (sf_code SF_INVALID, ks)
            else report ti a (ipc_stats_snapshot ks) ks)
         else if n = SYS_TASK_PAGE_LIMIT then Some (sys_page_limit ti a b c ks)
         else if n = SYS_TASK_CAP_LIMIT then Some (sys_cap_limit ti a b c ks)
         else if n = SYS_TASK_PRIORITY then Some (sys_priority ti a b c ks)
         else if n = SYS_SPAWN_LIMITED then
           (if pid \<noteq> 1 then Some (sf_code SF_DENIED, ks)
            else if b > ucast SF_PAGE_LIMIT_MAX \<or> c \<noteq> 0 then Some (sf_code SF_INVALID, ks)
            else sys_spawn ti a (ucast b) ks)
         else if n = SYS_SPAWN then
           (if pid \<noteq> 1 then Some (sf_code SF_DENIED, ks) else sys_spawn ti a SF_PAGE_LIMIT_MAX ks)
         else if n = SYS_KILL then Some (sys_kill ti a b ks)
         else if n = SYS_TASK_STATUS then Some (sys_status ti a ks)
         else if n = SYS_CONSOLE_READ then (if pid \<noteq> 1 then Some (sf_code SF_DENIED, ks) else Some (console_read ks))
         else if n = SYS_SHUTDOWN then
           (if pid \<noteq> 1 then Some (sf_code SF_DENIED, ks) else Some (0, outb 0x604 0 (outl 0xf4 (ucast a) ks)))
         else if n = SYS_MAP_TEST then Some (sf_code SF_DENIED, ks)
         else if n = SYS_PCI_READ then (if pid \<noteq> 1 then Some (sf_code SF_DENIED, ks) else Some (pci_read a b ks))
         else if n = SYS_PORT_IO then Some (device_io ti a b c ks)
         else if n = SYS_DEVICE_RELEASE then Some (sys_device_release ti a ks)
         else if n = SYS_DMA_STATUS then
           (if pid \<noteq> 1 then Some (sf_code SF_DENIED, ks)
            else if b \<noteq> 48 then Some (sf_code SF_INVALID, ks)
            else case device_status ks of (d, ks) \<Rightarrow> report ti a (status_bytes d) ks)
         else ipc_syscall n a b c ks)"

end
