(* ===== verification/SF_Quiet.thy ===== *)
theory SF_Quiet
  imports SF_Syscall SF_Ipc_Queue SF_Iommu_Walk
begin

text \<open>
  What the parts of the kernel leave alone.  \<open>quiet\<close> relates two states with the same memory,
  owners and clock, in which tasks may have been woken, capabilities emptied or installed and
  device registers used; every operation without memory effect is shown to be quiet.
\<close>

section \<open>Capability slots age\<close>

text \<open>At one generation a slot may only lose its endpoint.\<close>

definition slot_age :: "Cap \<Rightarrow> Cap \<Rightarrow> bool" where
  "slot_age c c' \<longleftrightarrow> cp_generation c < cp_generation c' \<or>
     cp_generation c' = cp_generation c \<and> (cp_endpoint c' = cp_endpoint c \<or> cp_endpoint c' = 0)"

lemma slot_age_refl [simp]: "slot_age c c"
  by (simp add: slot_age_def)

lemma slot_age_trans: "slot_age a b \<Longrightarrow> slot_age b c \<Longrightarrow> slot_age a c"
  by (auto simp: slot_age_def)

lemma slot_age_drop [simp]: "slot_age c (c\<lparr>cp_endpoint := 0\<rparr>)"
  by (simp add: slot_age_def)

definition woken :: "Task \<Rightarrow> Task \<Rightarrow> bool" where
  "woken t t' \<longleftrightarrow> tk_pid t' = tk_pid t \<and> tk_cr3 t' = tk_cr3 t \<and> tk_recv_buffer t' = tk_recv_buffer t \<and>
     tk_page_count t' = tk_page_count t \<and> tk_page_limit t' = tk_page_limit t \<and>
     tk_wait_endpoint t' = tk_wait_endpoint t \<and> fr_rsp (tk_frame t') = fr_rsp (tk_frame t) \<and>
     (tk_state t' = tk_state t \<or> tk_state t = T_BLOCKED \<and> tk_state t' = T_READY) \<and>
     (\<forall>k. slot_age (tk_caps t k) (tk_caps t' k))"

lemma woken_refl [simp]: "woken t t"
  by (simp add: woken_def)

lemma woken_trans: "woken a b \<Longrightarrow> woken b c \<Longrightarrow> woken a c"
  unfolding woken_def by (auto intro: slot_age_trans)

lemma woken_alive: "woken t t' \<Longrightarrow> alive t' = alive t"
  by (auto simp: woken_def alive_def)

section \<open>Quiet steps\<close>

definition quiet :: "Kernel \<Rightarrow> Kernel \<Rightarrow> bool" where
  "quiet ks ks' \<longleftrightarrow>
     ks_phys ks' = ks_phys ks \<and> ks_page_owner ks' = ks_page_owner ks \<and> ks_pool ks' = ks_pool ks \<and>
     ks_dma ks' = ks_dma ks \<and> ks_kernel_pd ks' = ks_kernel_pd ks \<and> ks_mmio_pd ks' = ks_mmio_pd ks \<and>
     ks_mmio_ready ks' = ks_mmio_ready ks \<and> ks_device_pt ks' = ks_device_pt ks \<and>
     ks_boot_mmio_pd ks' = ks_boot_mmio_pd ks \<and> ks_guard ks' = ks_guard ks \<and> ks_kernel_end ks' = ks_kernel_end ks \<and>
     ks_bundle_phys ks' = ks_bundle_phys ks \<and> ks_bundle_bytes ks' = ks_bundle_bytes ks \<and>
     ks_device_owner ks' = ks_device_owner ks \<and> ks_next_pid ks' = ks_next_pid ks \<and>
     ks_current ks' = ks_current ks \<and> ks_ticks ks' = ks_ticks ks \<and>
     (\<forall>i. woken (ks_tasks ks i) (ks_tasks ks' i))"

lemma quiet_refl [simp]: "quiet ks ks"
  by (simp add: quiet_def)

lemma quiet_trans: "quiet a b \<Longrightarrow> quiet b c \<Longrightarrow> quiet a c"
  unfolding quiet_def by (intro conjI allI) (simp_all, meson woken_trans)

lemma quiet_woken: "quiet ks ks' \<Longrightarrow> woken (ks_tasks ks i) (ks_tasks ks' i)"
  by (simp add: quiet_def)

lemma quiet_alive: "quiet ks ks' \<Longrightarrow> alive (ks_tasks ks' i) = alive (ks_tasks ks i)"
  by (rule woken_alive[OF quiet_woken])

lemma quiet_fold:
  assumes "\<And>x ks. quiet ks (f x ks)"
  shows "quiet ks (fold f xs ks)"
  by (induction xs arbitrary: ks) (auto intro: quiet_trans assms)

lemma quiet_put_task: "woken (ks_tasks ks i) t \<Longrightarrow> quiet ks (put_task i t ks)"
  by (simp add: quiet_def put_task_def)

lemma quiet_put_endpoint [simp]: "quiet ks (put_endpoint i e ks)"
  by (simp add: quiet_def put_endpoint_def)

lemma quiet_put_cap: "slot_age (tk_caps (ks_tasks ks i) k) c \<Longrightarrow> quiet ks (put_cap i k c ks)"
  unfolding put_cap_def by (rule quiet_put_task) (simp add: woken_def)

lemma woken_wake: "tk_state t = T_BLOCKED \<Longrightarrow> woken t (wake ks v t)"
  by (simp add: woken_def wake_def)

lemma woken_drop: "woken t (drop_endpoint ks i t)"
proof -
  define t1 where "t1 = (if tk_state t = T_BLOCKED \<and> tk_wait_endpoint t = of_nat i + 1
               then wake ks (of_int (sf_code SF_REVOKED)) t else t)"
  have "woken t t1" using woken_wake[of t ks] by (simp add: t1_def)
  moreover have "woken t1 (drop_endpoint ks i t)"
    unfolding drop_endpoint_def t1_def[symmetric] Let_def by (simp add: woken_def)
  ultimately show ?thesis by (rule woken_trans)
qed

lemma quiet_invalidate [simp]: "quiet ks (invalidate i ks)"
  unfolding invalidate_def Let_def by (auto simp: quiet_def put_endpoint_def woken_drop)

lemma quiet_close_cap [simp]: "quiet ks (close_cap ti k ks)"
proof -
  let ?c = "(tk_caps (ks_tasks ks ti) k)\<lparr>cp_endpoint := 0\<rparr>"
  have "quiet ks (put_cap ti k ?c ks)" by (rule quiet_put_cap) simp
  then show ?thesis using quiet_trans[OF _ quiet_invalidate] by (simp add: close_cap_def Let_def)
qed

lemma quiet_cleanup [simp]: "quiet ks (ipc_cleanup ti ks)"
  unfolding ipc_cleanup_def Let_def by (rule quiet_trans[OF quiet_fold quiet_fold]) auto

lemma quiet_deadlines [simp]: "quiet ks (ipc_deadlines ks)"
  by (simp add: quiet_def ipc_deadlines_def Let_def woken_wake)

lemma quiet_install: "install ks ti ep r = (h, ks') \<Longrightarrow> quiet ks ks'"
proof (erule install_cases)
  fix s g
  assume s: "cap_slot (ks_tasks ks ti) = Some s" "g = cp_generation (tk_caps (ks_tasks ks ti) s) + 1"
    "ks' = put_cap ti s \<lparr>cp_endpoint = of_nat ep + 1, cp_epoch = ep_epoch (ks_endpoints ks ep), cp_rights = r, cp_generation = g\<rparr> ks"
  have "cp_generation (tk_caps (ks_tasks ks ti) s) < g"
    using cap_slot_SomeD(4)[OF s(1)] by (simp add: s(2) word_less_nat_alt)
  then show "quiet ks ks'" unfolding s(3) by (intro quiet_put_cap) (simp add: slot_age_def)
qed simp

lemma quiet_grant: "ipc_grant ks src dst h r = (v, ks') \<Longrightarrow> quiet ks ks'"
  by (auto simp: ipc_grant_def intro: quiet_install split: option.splits if_splits)

section \<open>Hardware traffic is quiet\<close>

text \<open>Stronger: endpoints and capabilities are untouched as well.\<close>

definition still :: "Kernel \<Rightarrow> Kernel \<Rightarrow> bool" where
  "still ks ks' \<longleftrightarrow> quiet ks ks' \<and> ks_endpoints ks' = ks_endpoints ks \<and> (\<forall>i. tk_caps (ks_tasks ks' i) = tk_caps (ks_tasks ks i))"

lemma still_refl [simp]: "still ks ks"
  by (simp add: still_def)

lemma still_trans: "still a b \<Longrightarrow> still b c \<Longrightarrow> still a c"
  unfolding still_def using quiet_trans by auto

lemma hw_only_still: "hw_only ks ks' \<Longrightarrow> still ks ks'"
  by (auto simp: hw_only_def still_def quiet_def)

lemma still_set_iommu [simp]: "still ks (set_iommu f ks)"
  by (simp add: still_def quiet_def set_iommu_def)

lemma still_hw_out [simp]: "still ks (hw_out w ks)"
  by (rule hw_only_still) simp

lemma still_writes: "still ks (w32 off v ks)" "still ks (w64 off n ks)"
  by (simp_all add: w32_def w64_def)

lemma still_ports [simp]: "still ks (outb p v ks)" "still ks (outl p w ks)"
  by (simp_all add: outb_def outl_def)

lemma still_next: "hw_next ks = (v, ks') \<Longrightarrow> still ks ks'"
  by (metis hw_only_simps(1) snd_conv hw_only_still)

lemma still_reads: "inb p ks = (b, ks') \<Longrightarrow> still ks ks'" "inl p ks = (w, ks') \<Longrightarrow> still ks ks'"
  by (auto simp: inb_def inl_def intro: still_next split: prod.splits)

lemma still_config: "config_read bdf off ks = (v, ks') \<Longrightarrow> still ks ks'"
  unfolding config_read_def using still_trans[OF still_ports(2) still_reads(2)] .

lemma still_config_write [simp]: "still ks (config_write_command bdf c ks)"
  unfolding config_write_command_def by (rule still_trans[OF still_ports(2) still_hw_out])

lemma still_invalidate: "iommu_invalidate ks = (r, ks') \<Longrightarrow> still ks ks'"
  using iommu_invalidate_frame[of ks r ks'] hw_only_still[of _ ks'] still_trans[OF still_set_iommu] by blast

lemma still_iommu_revoke: "iommu_revoke bdf ks = (r, ks') \<Longrightarrow> still ks ks'"
  unfolding iommu_revoke_def Let_def
  by (auto split: if_splits prod.splits sum.splits intro: still_trans[OF still_set_iommu still_invalidate]
      still_trans[OF still_trans[OF still_set_iommu still_invalidate] still_set_iommu])

lemma still_iommu_grant: "iommu_grant bdf p ks = (r, ks') \<Longrightarrow> still ks ks'"
  unfolding iommu_grant_def Let_def
  by (auto split: if_splits prod.splits sum.splits intro: still_trans[OF still_set_iommu still_invalidate]
      still_trans[OF still_trans[OF still_set_iommu still_invalidate] still_set_iommu])

lemma still_fault: "iommu_fault ks = (r, ks') \<Longrightarrow> still ks ks'"
proof -
  have "fault_scan n off ks = (r, ks') \<Longrightarrow> still ks ks'" for n off ks
  proof (induction n arbitrary: off ks)
    case (Suc n)
    obtain h k1 where h: "r64 (off + 8) ks = (h, k1)" by fastforce
    obtain l k2 where l: "r64 off k1 = (l, k2)" by fastforce
    have s1: "still ks k1" using hw_only_still[OF r64_hw[OF h]] .
    have s2: "still k1 (w32 0x34 1 (w64 (off + 8) (push_bit 63 1) k2))"
      by (rule still_trans[OF hw_only_still[OF r64_hw[OF l]]], rule still_trans[OF still_writes(2) still_writes(1)])
    show ?case using Suc.prems Suc.IH[of "off + 16" k1] h l s1 s2 still_trans[OF s1]
      by (auto split: if_splits)
  qed simp
  then show "iommu_fault ks = (r, ks') \<Longrightarrow> still ks ks'" by (auto simp: iommu_fault_def Let_def split: if_splits)
qed

lemma still_reset_poll: "reset_poll n t ks = (r, ks') \<Longrightarrow> still ks ks'"
proof (induction n arbitrary: ks)
  case (Suc n)
  obtain v k1 where v: "(if tk_device_modern t \<noteq> 0 then (case hw_next ks of (v, ks) \<Rightarrow> (ucast v, ks))
            else inb (ucast (tk_device_io t) + 18) ks) = (v, k1)" by fastforce
  then have "still ks k1" by (auto intro: still_next still_reads split: if_splits prod.splits)
  then show ?case using Suc v still_trans[of ks k1] by (auto split: if_splits)
qed simp

lemma still_put_task: "woken (ks_tasks ks i) t \<Longrightarrow> tk_caps t = tk_caps (ks_tasks ks i) \<Longrightarrow> still ks (put_task i t ks)"
  by (simp add: still_def quiet_put_task)

lemma still_quarantine [simp]: "still ks (ks\<lparr>ks_quarantined := q\<rparr>)" "still ks (ks\<lparr>ks_dma_status := d\<rparr>)"
  "still ks (ks\<lparr>ks_console := c\<rparr>)"
  by (simp_all add: still_def quiet_def)

lemma still_device_release: "device_release ti ks = (r, ks') \<Longrightarrow> still ks ks'"
proof (cases "tk_device_io (ks_tasks ks ti) = 0")
  case False
  let ?t = "ks_tasks ks ti"
  assume rel: "device_release ti ks = (r, ks')"
  define k1 where "k1 = (if tk_device_modern ?t \<noteq> 0 then hw_out (MmioByte 0xffe00014 0) ks else outb (ucast (tk_device_io ?t) + 18) 0 ks)"
  obtain c2 k2 where k2: "config_read (tk_device_bdf ?t) 4 k1 = (c2, k2)" by fastforce
  define k3 where "k3 = config_write_command (tk_device_bdf ?t) (ucast c2 AND NOT 4) k2"
  obtain r4 k4 where k4: "reset_poll 10000 ?t k3 = (r4, k4)" by fastforce
  obtain r5 k5 where k5: "iommu_revoke (tk_device_bdf ?t) k4 = (r5, k5)" by fastforce
  obtain c6 k6 where k6: "config_read (tk_device_bdf ?t) 4 k5 = (c6, k6)" by fastforce
  define k7 where "k7 = (if bit c6 2 \<or> \<not> r4 \<or> r5 \<noteq> Ok () then k6\<lparr>ks_quarantined := True\<rparr> else k6)"
  have "still ks k1" by (simp add: k1_def)
  then have "still ks k2" using still_config[OF k2] still_trans by blast
  then have "still ks k3" using still_trans[OF _ still_config_write] by (simp add: k3_def)
  then have "still ks k4" using still_reset_poll[OF k4] still_trans by blast
  then have "still ks k5" using still_iommu_revoke[OF k5] still_trans by blast
  then have "still ks k6" using still_config[OF k6] still_trans by blast
  then have s7: "still ks k7" using still_trans[OF _ still_quarantine(1)] by (simp add: k7_def)
  have "ks' = put_task ti ((ks_tasks k7 ti)\<lparr>tk_device_fault := (if ks_quarantined k7 then 1 else 0), tk_device_io := 0\<rparr>) k7"
    using rel unfolding device_release_def Let_def if_not_P[OF False] k1_def[symmetric] k2 prod.case k3_def[symmetric] k4 k5 k6 k7_def[symmetric]
    by simp
  moreover have "still k7 \<dots>" by (rule still_put_task) (simp_all add: woken_def)
  ultimately show ?thesis using still_trans[OF s7] by simp
qed (simp add: device_release_def)

lemma still_release [simp]: "still ks (snd (device_release ti ks))"
  using still_device_release[of ti ks] by (metis prod.collapse)

lemma still_pci_read: "pci_read a b ks = (r, ks') \<Longrightarrow> still ks ks'"
  by (auto simp: pci_read_def intro: still_config split: if_splits prod.splits)

lemma still_device_io: "device_io ti p o' v ks = (r, ks') \<Longrightarrow> still ks ks'"
  unfolding device_io_def Let_def
  by (auto intro: still_reads still_next split: if_splits prod.splits)

lemma still_device_status: "device_status ks = (d, ks') \<Longrightarrow> still ks ks'"
  by (auto simp: device_status_def Let_def)

lemma still_console_read: "console_read ks = (r, ks') \<Longrightarrow> still ks ks'"
  by (auto simp: console_read_def Let_def split: if_splits)

lemma still_console_irq [simp]: "still ks (console_irq cs ks)"
  unfolding console_irq_def by (rule still_trans[OF still_quarantine(3) still_ports(1)])

lemma still_quiet: "still ks ks' \<Longrightarrow> quiet ks ks'"
  by (simp add: still_def)

section \<open>Death of a task\<close>

lemma task_dead_alive: "alive (ks_tasks (task_dead ti st ks) i) \<longleftrightarrow> i \<noteq> ti \<and> alive (ks_tasks ks i)"
proof -
  define k1 where "k1 = ipc_cleanup ti (snd (device_release ti ks))"
  have q: "quiet ks k1" unfolding k1_def by (rule quiet_trans[OF still_quiet[OF still_release] quiet_cleanup])
  then have a: "alive (ks_tasks k1 i) = alive (ks_tasks ks i)" by (rule quiet_alive)
  define k2 where "k2 = put_task ti ((ks_tasks k1 ti)\<lparr>tk_state := T_DEAD, tk_exit_status := st\<rparr>) k1"
  have "alive (ks_tasks k2 i) \<longleftrightarrow> i \<noteq> ti \<and> alive (ks_tasks k1 i)" by (simp add: k2_def alive_def)
  moreover have "tk_state (ks_tasks (task_dead ti st ks) i) = tk_state (ks_tasks k2 i)"
    unfolding task_dead_def Let_def k1_def[symmetric] k2_def[symmetric] device_forget_def
    using pages_free_task[of k2] by simp
  ultimately show ?thesis using a by (simp add: alive_def)
qed

end
