(* ===== verification/SF_Machine.thy ===== *)
theory SF_Machine
  imports SF_Quiet
begin

text \<open>
  The scheduler loop and interrupt dispatch of \<^verbatim>\<open>kernel/core.c\<close>, and the machine they form with
  user programs and devices.  The loop kills tasks with a non-canonical stack pointer until it
  finds one to run or nothing is left to do; it terminates because every round has one live
  task less.
\<close>

section \<open>Scheduling\<close>

datatype machine = Running Kernel | Halted Kernel | Panicked

definition sched_entries :: "Kernel \<Rightarrow> nat \<Rightarrow> SfSchedEntry" where
  "sched_entries ks j =
     (let t = ks_tasks ks j
      in \<lparr>se_ready_since = tk_ready_since t, se_priority = tk_priority t, se_ready = (if tk_state t = T_READY then 1 else 0)\<rparr>)"

definition sched_choice :: "Kernel \<Rightarrow> int" where
  "sched_choice ks = sf_sched_pick (Some (sched_entries ks)) SF_MAX_TASKS (ks_current ks) (ks_ticks ks)"

definition bad_stack :: "Task \<Rightarrow> bool" where
  "bad_stack t \<longleftrightarrow> fr_rsp (tk_frame t) \<ge> 0x0000800000000000 \<and> fr_rsp (tk_frame t) < 0xffff800000000000"

definition run_task :: "nat \<Rightarrow> Kernel \<Rightarrow> Kernel" where
  "run_task i ks = put_task i ((ks_tasks ks i)\<lparr>tk_ready_since := ks_ticks ks\<rparr>) (ks\<lparr>ks_current := int i\<rparr>)"

definition live_tasks :: "Kernel \<Rightarrow> nat set" where
  "live_tasks ks = {i. i < SF_MAX_TASKS \<and> alive (ks_tasks ks i)}"

lemma sched_choice_ready:
  assumes "0 \<le> sched_choice ks"
  shows "nat (sched_choice ks) < SF_MAX_TASKS" "tk_state (ks_tasks ks (nat (sched_choice ks))) = T_READY"
proof -
  have c: "- 1 \<le> ks_current ks" "ks_current ks < int SF_MAX_TASKS"
    using assms by (auto simp: sched_choice_def sf_sched_pick_def SF_MAX_TASKS_def split: if_splits)
  have n: "0 < SF_MAX_TASKS" by (simp add: SF_MAX_TASKS_def)
  have "nat (sched_choice ks) < SF_MAX_TASKS \<and> tk_state (ks_tasks ks (nat (sched_choice ks))) = T_READY"
    using n order_refl c
  proof (cases rule: sched_pick_cases[where es = "sched_entries ks" and now = "ks_ticks ks"])
    case idle
    then show ?thesis using assms by (simp add: sched_choice_def)
  next
    case (pick s)
    then have "\<not> sched_skip (sched_entries ks (nat (sched_choice ks)))" by (simp add: sched_choice_def first_max_def)
    then show ?thesis using pick(1) sched_index_less[OF n]
      by (simp add: sched_choice_def sched_skip_def sched_entries_def Let_def split: if_splits)
  qed
  then show "nat (sched_choice ks) < SF_MAX_TASKS" "tk_state (ks_tasks ks (nat (sched_choice ks))) = T_READY" by auto
qed

lemma task_dead_live: "live_tasks (task_dead i st ks) = live_tasks ks - {i}"
  by (auto simp: live_tasks_def task_dead_alive)

function schedule_loop :: "Kernel \<Rightarrow> machine" where
  "schedule_loop ks =
     (let i = sched_choice ks; t = ks_tasks ks (nat i)
      in if i < 0 then Halted ks
         else if bad_stack t then
           if tk_pid t = 1 then Panicked else schedule_loop (task_dead (nat i) (- 113) ks)
         else Running (run_task (nat i) ks))"
  by auto
termination
proof (relation "measure (\<lambda>ks. card (live_tasks ks))", simp)
  fix ks i t
  assume i: "i = sched_choice ks" "t = ks_tasks ks (nat i)" "\<not> i < 0"
  then have "nat i \<in> live_tasks ks" using sched_choice_ready[of ks] by (simp add: live_tasks_def alive_def)
  then have "card (live_tasks (task_dead (nat i) (- 113) ks)) < card (live_tasks ks)"
    unfolding task_dead_live by (intro card_Diff1_less) (simp_all add: live_tasks_def)
  then show "(task_dead (nat i) (- 113) ks, ks) \<in> measure (\<lambda>ks. card (live_tasks ks))" by simp
qed

declare schedule_loop.simps [simp del]

definition schedule :: "Kernel \<Rightarrow> machine" where
  "schedule ks =
     (let ti = nat (ks_current ks)
      in if ks_current ks \<ge> 0 \<and> tk_state (ks_tasks ks ti) = T_READY
         then schedule_loop (put_task ti ((ks_tasks ks ti)\<lparr>tk_ready_since := ks_ticks ks\<rparr>) ks)
         else schedule_loop ks)"

section \<open>Interrupts\<close>

text \<open>The part that runs in every mode; \<open>cs\<close> are the bytes the serial port delivers.\<close>

definition irq_entry :: "u64 \<Rightarrow> bytes \<Rightarrow> Kernel \<Rightarrow> Kernel" where
  "irq_entry vector cs ks =
     (let ks = (if vector = 32 then ipc_deadlines (outb 0x20 0x20 (ks\<lparr>ks_ticks := ks_ticks ks + 1\<rparr>)) else ks)
      in if vector = 36 then console_irq cs ks else ks)"

text \<open>An interrupt of the kernel itself, which only the halt in the scheduler allows.\<close>

definition kernel_interrupt :: "u64 \<Rightarrow> bytes \<Rightarrow> Kernel \<Rightarrow> machine" where
  "kernel_interrupt vector cs ks = (if vector < 32 then Panicked else schedule_loop (irq_entry vector cs ks))"

definition set_frame :: "nat \<Rightarrow> Frame \<Rightarrow> Kernel \<Rightarrow> Kernel" where
  "set_frame ti f ks = put_task ti ((ks_tasks ks ti)\<lparr>tk_frame := f\<rparr>) ks"

definition set_rax :: "nat \<Rightarrow> u64 \<Rightarrow> Kernel \<Rightarrow> Kernel" where
  "set_rax ti v ks = set_frame ti ((tk_frame (ks_tasks ks ti))\<lparr>fr_rax := v\<rparr>) ks"

definition user_interrupt :: "Frame \<Rightarrow> bytes \<Rightarrow> Kernel \<Rightarrow> machine" where
  "user_interrupt f cs ks =
     (let ti = nat (ks_current ks);
          ks = device_poll (set_frame ti f (irq_entry (fr_vector f) cs ks))
      in if tk_state (ks_tasks ks ti) = T_DEAD then schedule ks
         else if fr_vector f = 128 then
           (case syscall f ks of
              None \<Rightarrow> Panicked
            | Some (r, ks) \<Rightarrow> schedule (set_rax ti (of_int r) ks))
         else if fr_vector f < 32 then
           (if tk_pid (ks_tasks ks ti) = 1 then Panicked
            else schedule (task_dead ti (- 100 - ucast (fr_vector f)) ks))
         else schedule ks)"

definition interrupt_dispatch :: "Frame \<Rightarrow> bytes \<Rightarrow> Kernel \<Rightarrow> machine" where
  "interrupt_dispatch f cs ks =
     (if fr_cs f AND 3 = 0 then kernel_interrupt (fr_vector f) cs ks else user_interrupt f cs ks)"

section \<open>The machine\<close>

text \<open>A program stores a byte through one of its own mappings; a device stores a byte in the
  arena; the processor traps with some frame.\<close>

datatype event = User_Store u64 u8 | Device_Store nat u8 | Trap Frame bytes

definition user_store :: "u64 \<Rightarrow> u8 \<Rightarrow> Kernel \<Rightarrow> Kernel" where
  "user_store v b ks =
     (let ti = nat (ks_current ks)
      in if page_ok ks ti True v then set_phys (store (the (user_phys ks ti v)) [b]) ks else ks)"

definition device_store :: "nat \<Rightarrow> u8 \<Rightarrow> Kernel \<Rightarrow> Kernel" where
  "device_store off b ks = (if off < SF_DMA_BYTES then set_phys (store (ks_dma ks + off) [b]) ks else ks)"

fun machine_step :: "event \<Rightarrow> machine \<Rightarrow> machine" where
  "machine_step e Panicked = Panicked"
| "machine_step (User_Store v b) (Running ks) = Running (user_store v b ks)"
| "machine_step (Device_Store off b) (Running ks) = Running (device_store off b ks)"
| "machine_step (Trap f cs) (Running ks) = (if fr_cs f AND 3 = 0 then Running ks else interrupt_dispatch f cs ks)"
| "machine_step (User_Store v b) (Halted ks) = Halted ks"
| "machine_step (Device_Store off b) (Halted ks) = Halted (device_store off b ks)"
| "machine_step (Trap f cs) (Halted ks) = (if fr_cs f AND 3 = 0 then interrupt_dispatch f cs ks else Halted ks)"

end
