(* ===== verification/SF_Cap_Typed.thy ===== *)
theory SF_Cap_Typed
  imports SF_Quiet
begin

text \<open>
  Well-formed endpoints and capability tables: rings hold whole messages, every capability of a
  task names a live endpoint in its current epoch with known rights, and every blocked task
  waits on a live endpoint.  Each operation of \<^verbatim>\<open>ipc.c\<close> keeps this.
\<close>

section \<open>Rings\<close>

definition queue_full :: "(nat \<Rightarrow> bytes) \<Rightarrow> bool" where
  "queue_full q \<longleftrightarrow> (\<forall>j<8. length (q j) = MSG_SIZE)"

definition rings_ok :: "Kernel \<Rightarrow> bool" where
  "rings_ok ks \<longleftrightarrow> (\<forall>i. ep_ok (ks_endpoints ks i) \<and> queue_full (ep_queue (ks_endpoints ks i)))"

lemma queue_full_upd: "queue_full q \<Longrightarrow> length m = MSG_SIZE \<Longrightarrow> queue_full (q(i := m))"
  by (simp add: queue_full_def)

lemma compact_full:
  assumes "queue_full q" "fold (compact_step pid req h) xs (k, q) = (k', q')"
  shows "queue_full q'"
  using assms
proof (induction xs arbitrary: k q)
  case (Cons i xs)
  obtain k1 q1 where s: "compact_step pid req h i (k, q) = (k1, q1)" by fastforce
  have "length (q ((h + i) mod 8)) = MSG_SIZE" using Cons.prems(1) by (simp add: queue_full_def)
  then have "queue_full q1" using s Cons.prems(1) queue_full_upd by (auto simp: compact_step_def Let_def split: if_splits)
  then show ?case using Cons.IH[of q1 k1] Cons.prems(2) s by simp
qed simp

lemma clear_full: "queue_full q \<Longrightarrow> queue_full (fold (\<lambda>i q. q((h + i) mod 8 := replicate MSG_SIZE 0)) xs q)"
  by (induction xs arbitrary: q) (simp_all add: queue_full_upd)

lemma cancel_full:
  assumes "queue_full (ep_queue e)" "ep_cancel pid req e = (n, e')"
  shows "queue_full (ep_queue e')" "ep_owner e' = ep_owner e" "ep_epoch e' = ep_epoch e"
proof -
  obtain k q where f: "fold (compact_step pid req (unat (ep_head e))) [0..<unat (ep_count e)] (0, ep_queue e) = (k, q)"
    by fastforce
  have "queue_full q" using compact_full[OF assms(1) f] .
  then show "queue_full (ep_queue e')" "ep_owner e' = ep_owner e" "ep_epoch e' = ep_epoch e"
    using assms(2) f clear_full[of q] by (auto simp: ep_cancel_def Let_def split: if_splits)
qed

lemma push_full: "queue_full (ep_queue e) \<Longrightarrow> length m = MSG_SIZE \<Longrightarrow> queue_full (ep_queue (ep_push m e))"
  by (simp add: ep_push_def queue_full_upd)

lemma pop_full: "queue_full (ep_queue e) \<Longrightarrow> queue_full (ep_queue (ep_pop e))"
  by (simp add: ep_pop_def)

section \<open>Capabilities\<close>

text \<open>The endpoint behind a number of a capability or of a wait.\<close>

definition ep_at :: "Kernel \<Rightarrow> u32 \<Rightarrow> Endpoint" where
  "ep_at ks x = ks_endpoints ks (unat x - 1)"

definition cap_ok :: "Kernel \<Rightarrow> Cap \<Rightarrow> bool" where
  "cap_ok ks c \<longleftrightarrow> cp_endpoint c \<noteq> 0 \<longrightarrow> unat (cp_endpoint c) \<le> ENDPOINTS \<and> ep_owner (ep_at ks (cp_endpoint c)) \<noteq> 0 \<and>
     cp_epoch c = ep_epoch (ep_at ks (cp_endpoint c)) \<and> cp_rights c \<le> 7"

definition wait_ok :: "Kernel \<Rightarrow> Task \<Rightarrow> bool" where
  "wait_ok ks t \<longleftrightarrow> tk_state t = T_BLOCKED \<longrightarrow> tk_wait_endpoint t \<noteq> 0 \<and> unat (tk_wait_endpoint t) \<le> ENDPOINTS \<and>
     ep_owner (ep_at ks (tk_wait_endpoint t)) \<noteq> 0"

definition typed :: "Kernel \<Rightarrow> bool" where
  "typed ks \<longleftrightarrow> (\<forall>i<SF_MAX_TASKS. (\<forall>k<32. cap_ok ks (tk_caps (ks_tasks ks i) k)) \<and> wait_ok ks (ks_tasks ks i))"

definition eps_ok :: "Kernel \<Rightarrow> bool" where
  "eps_ok ks \<longleftrightarrow> rings_ok ks \<and> typed ks"

lemma eps_ring: "eps_ok ks \<Longrightarrow> ep_ok (ks_endpoints ks i)" "eps_ok ks \<Longrightarrow> queue_full (ep_queue (ks_endpoints ks i))"
  by (simp_all add: eps_ok_def rings_ok_def)

text \<open>Endpoints in use stay, capabilities may be dropped, tasks may wake.\<close>

lemma typed_mono:
  assumes t: "typed ks" and e: "\<And>j. ep_owner (ks_endpoints ks j) \<noteq> 0 \<Longrightarrow>
      ep_owner (ks_endpoints ks' j) \<noteq> 0 \<and> ep_epoch (ks_endpoints ks' j) = ep_epoch (ks_endpoints ks j)"
    and c: "\<And>i k. i < SF_MAX_TASKS \<Longrightarrow> k < 32 \<Longrightarrow> tk_caps (ks_tasks ks' i) k = tk_caps (ks_tasks ks i) k \<or> cp_endpoint (tk_caps (ks_tasks ks' i) k) = 0"
    and w: "\<And>i. i < SF_MAX_TASKS \<Longrightarrow> tk_state (ks_tasks ks' i) = T_BLOCKED \<Longrightarrow>
      tk_state (ks_tasks ks i) = T_BLOCKED \<and> tk_wait_endpoint (ks_tasks ks' i) = tk_wait_endpoint (ks_tasks ks i)"
  shows "typed ks'"
  unfolding typed_def
proof (intro allI impI conjI)
  fix i assume i: "i < SF_MAX_TASKS"
  show "cap_ok ks' (tk_caps (ks_tasks ks' i) k)" if "k < 32" for k
    using t i that c[OF i that] e[of "unat (cp_endpoint (tk_caps (ks_tasks ks i) k)) - 1"]
    by (auto simp: typed_def cap_ok_def ep_at_def)
  show "wait_ok ks' (ks_tasks ks' i)"
    using t i w[OF i] e[of "unat (tk_wait_endpoint (ks_tasks ks i)) - 1"] by (auto simp: typed_def wait_ok_def ep_at_def)
qed

lemma eps_quiet:
  assumes "eps_ok ks" "quiet ks ks'" "ks_endpoints ks' = ks_endpoints ks"
    and "\<And>i k. i < SF_MAX_TASKS \<Longrightarrow> k < 32 \<Longrightarrow> tk_caps (ks_tasks ks' i) k = tk_caps (ks_tasks ks i) k \<or> cp_endpoint (tk_caps (ks_tasks ks' i) k) = 0"
  shows "eps_ok ks'"
proof -
  have w: "tk_state (ks_tasks ks i) = T_BLOCKED \<and> tk_wait_endpoint (ks_tasks ks' i) = tk_wait_endpoint (ks_tasks ks i)"
    if "tk_state (ks_tasks ks' i) = T_BLOCKED" for i
    using quiet_woken[OF assms(2), of i] that by (auto simp: woken_def)
  have t: "typed ks" using assms(1) by (simp add: eps_ok_def)
  have "typed ks'" by (rule typed_mono[OF t _ assms(4) w]) (simp_all add: assms(3))
  then show ?thesis using assms(1,3) by (simp add: eps_ok_def rings_ok_def)
qed

lemma eps_still: "eps_ok ks \<Longrightarrow> still ks ks' \<Longrightarrow> eps_ok ks'"
  by (rule eps_quiet) (auto simp: still_def)

lemma eps_same:
  assumes "ks_endpoints ks' = ks_endpoints ks" "\<And>i. tk_caps (ks_tasks ks' i) = tk_caps (ks_tasks ks i)"
    "\<And>i. tk_state (ks_tasks ks' i) = tk_state (ks_tasks ks i)" "\<And>i. tk_wait_endpoint (ks_tasks ks' i) = tk_wait_endpoint (ks_tasks ks i)"
  shows "eps_ok ks' = eps_ok ks"
  by (simp add: eps_ok_def rings_ok_def typed_def cap_ok_def wait_ok_def ep_at_def assms)

text \<open>A new ring of the same endpoint.\<close>

lemma eps_ring_put:
  assumes "eps_ok ks" "ep_ok e" "queue_full (ep_queue e)" "ep_owner e = ep_owner (ks_endpoints ks i)" "ep_epoch e = ep_epoch (ks_endpoints ks i)"
  shows "eps_ok (put_endpoint i e ks)"
proof -
  have t: "typed ks" using assms(1) by (simp add: eps_ok_def)
  have "typed (put_endpoint i e ks)" by (rule typed_mono[OF t]) (auto simp: assms(4,5))
  then show ?thesis using assms by (simp add: eps_ok_def rings_ok_def)
qed

section \<open>Operations\<close>

lemma index_word: "0 < unat (x :: u32) \<Longrightarrow> unat x \<le> ENDPOINTS \<Longrightarrow> i < ENDPOINTS \<Longrightarrow> unat x - 1 = i \<longleftrightarrow> x = of_nat i + 1"
proof -
  assume x: "0 < unat x" "unat x \<le> ENDPOINTS" "i < ENDPOINTS"
  then have "unat (of_nat i + 1 :: u32) = i + 1" by (simp add: unat_word_ariths unat_of_nat ENDPOINTS_def)
  then show ?thesis using x by (auto simp: word_unat_eq_iff)
qed

lemma invalidate_task:
  "ks_tasks (invalidate i ks) j = (if j < SF_MAX_TASKS then drop_endpoint (put_endpoint i ((ks_endpoints ks i)\<lparr>ep_owner := 0, ep_count := 0,
     ep_epoch := ep_epoch (ks_endpoints ks i) + 1\<rparr>) ks) i (ks_tasks ks j) else ks_tasks ks j)"
  by (simp add: invalidate_def Let_def)

lemma typed_invalidate:
  assumes t: "typed ks" and i: "i < ENDPOINTS"
  shows "typed (invalidate i ks)"
  unfolding typed_def
proof (intro allI impI conjI)
  fix j assume j: "j < SF_MAX_TASKS"
  let ?t = "ks_tasks ks j" and ?u = "ks_tasks (invalidate i ks) j"
  have at: "ep_at (invalidate i ks) x = ep_at ks x" if "x \<noteq> 0" "unat x \<le> ENDPOINTS" "x \<noteq> of_nat i + 1" for x
    using index_word[of x i] that i by (auto simp: ep_at_def invalidate_endpoints unat_gt_0)
  show "cap_ok (invalidate i ks) (tk_caps ?u k)" if k: "k < 32" for k
  proof -
    have "tk_caps ?u k = (if cp_endpoint (tk_caps ?t k) = of_nat i + 1 then (tk_caps ?t k)\<lparr>cp_endpoint := 0\<rparr> else tk_caps ?t k)"
      using j k by (simp add: invalidate_task drop_endpoint_def wake_def Let_def)
    moreover have "cap_ok ks (tk_caps ?t k)" using t j k by (simp add: typed_def)
    ultimately show ?thesis using at by (auto simp: cap_ok_def)
  qed
  have w: "tk_state ?u = (if tk_state ?t = T_BLOCKED \<and> tk_wait_endpoint ?t = of_nat i + 1 then T_READY else tk_state ?t)"
    "tk_wait_endpoint ?u = tk_wait_endpoint ?t" using j by (simp_all add: invalidate_task drop_endpoint_def wake_def Let_def)
  show "wait_ok (invalidate i ks) ?u" using t j w at[of "tk_wait_endpoint ?t"] by (auto simp: typed_def wait_ok_def split: if_splits)
qed

lemma eps_invalidate:
  assumes "eps_ok ks" "i < ENDPOINTS"
  shows "eps_ok (invalidate i ks)"
  using assms typed_invalidate[of ks i] by (auto simp: eps_ok_def rings_ok_def invalidate_endpoints ep_ok_def)

lemma put_cap_caps: "tk_caps (ks_tasks (put_cap ti k c ks) i) = (if i = ti then (tk_caps (ks_tasks ks ti))(k := c) else tk_caps (ks_tasks ks i))"
  by (simp add: put_cap_def)

lemma typed_put_cap:
  assumes "typed ks" "cap_ok ks c"
  shows "typed (put_cap ti k c ks)"
  unfolding typed_def
proof (intro allI impI conjI)
  have at: "ep_at (put_cap ti k c ks) = ep_at ks" by (simp add: ep_at_def fun_eq_iff)
  have wt: "tk_wait_endpoint (ks_tasks (put_cap ti k c ks) j) = tk_wait_endpoint (ks_tasks ks j)" for j by (simp add: put_cap_def)
  fix j assume j: "j < SF_MAX_TASKS"
  show "cap_ok (put_cap ti k c ks) (tk_caps (ks_tasks (put_cap ti k c ks) j) l)" if "l < 32" for l
    using assms j that by (auto simp: typed_def cap_ok_def at put_cap_caps)
  show "wait_ok (put_cap ti k c ks) (ks_tasks (put_cap ti k c ks) j)"
    unfolding wait_ok_def at wt put_cap_simps(3) using assms(1) j by (simp add: typed_def wait_ok_def)
qed

lemma eps_put_task:
  assumes "eps_ok ks" "\<forall>k<32. tk_caps t k = tk_caps (ks_tasks ks ti) k \<or> cp_endpoint (tk_caps t k) = 0"
    "tk_state t = T_BLOCKED \<Longrightarrow> wait_ok ks t" "ti < SF_MAX_TASKS"
  shows "eps_ok (put_task ti t ks)"
proof -
  have at: "ep_at (put_task ti t ks) = ep_at ks" by (simp add: ep_at_def fun_eq_iff)
  have "cap_ok ks (tk_caps t k)" if "k < 32" for k
  proof (cases "cp_endpoint (tk_caps t k) = 0")
    case False
    then have "tk_caps t k = tk_caps (ks_tasks ks ti) k" using assms(2) that by blast
    then show ?thesis using assms(1,4) that by (simp add: eps_ok_def typed_def)
  qed (simp add: cap_ok_def)
  moreover have "wait_ok ks t" using assms(3) by (cases "tk_state t = T_BLOCKED") (simp_all add: wait_ok_def)
  ultimately have "typed (put_task ti t ks)" using assms(1) by (simp add: eps_ok_def typed_def cap_ok_def wait_ok_def at)
  then show ?thesis using assms(1) by (simp add: eps_ok_def rings_ok_def)
qed

lemma eps_put_cap: "eps_ok ks \<Longrightarrow> cap_ok ks c \<Longrightarrow> eps_ok (put_cap ti k c ks)"
  using typed_put_cap by (simp add: eps_ok_def rings_ok_def)

lemma eps_cap: "eps_ok ks \<Longrightarrow> ti < SF_MAX_TASKS \<Longrightarrow> k < 32 \<Longrightarrow> cap_ok ks (tk_caps (ks_tasks ks ti) k)"
  by (simp add: eps_ok_def typed_def)

lemma eps_close:
  assumes e: "eps_ok ks" and t: "ti < SF_MAX_TASKS" "k < 32"
  shows "eps_ok (close_cap ti k ks)"
proof -
  let ?x = "cp_endpoint (tk_caps (ks_tasks ks ti) k)"
  have "unat ?x \<le> ENDPOINTS" using eps_cap[OF e t] by (cases "?x = 0") (simp_all add: cap_ok_def)
  then have "unat ?x - 1 < ENDPOINTS" by (simp add: ENDPOINTS_def)
  moreover have "eps_ok (put_cap ti k ((tk_caps (ks_tasks ks ti) k)\<lparr>cp_endpoint := 0\<rparr>) ks)"
    by (rule eps_put_cap[OF e]) (simp add: cap_ok_def)
  ultimately show ?thesis by (simp add: close_cap_def Let_def eps_invalidate)
qed

lemma fold_invariant_kernel: "(\<And>x ks. x \<in> set xs \<Longrightarrow> P ks \<Longrightarrow> P (f x ks)) \<Longrightarrow> P ks \<Longrightarrow> P (fold f xs ks)"
  by (induction xs arbitrary: ks) auto

lemma eps_cleanup: "eps_ok ks \<Longrightarrow> ti < SF_MAX_TASKS \<Longrightarrow> eps_ok (ipc_cleanup ti ks)"
  unfolding ipc_cleanup_def Let_def
  by (intro fold_invariant_kernel[where P = eps_ok]) (auto simp: eps_close eps_invalidate)

lemma eps_deadlines: "eps_ok ks \<Longrightarrow> eps_ok (ipc_deadlines ks)"
  by (rule eps_quiet[OF _ quiet_deadlines]) (simp_all add: ipc_deadlines_def Let_def wake_def)

lemma eps_install:
  assumes e: "eps_ok ks" and i: "install ks ti ep r = (h, ks')" and p: "ep < ENDPOINTS" "ep_owner (ks_endpoints ks ep) \<noteq> 0" "r \<le> 7"
  shows "eps_ok ks'"
  using i
proof (cases rule: install_cases)
  case (slot s g)
  have "unat (of_nat ep + 1 :: u32) = ep + 1" using p(1) by (simp add: unat_word_ariths unat_of_nat ENDPOINTS_def)
  then show ?thesis unfolding slot(5) using p by (intro eps_put_cap[OF e]) (simp add: cap_ok_def ep_at_def)
qed (simp add: e)

lemma cap_target:
  assumes e: "eps_ok ks" and t: "ti < SF_MAX_TASKS" and c: "cap ks ti h r = Some k"
  shows "cap_ep ks ti k < ENDPOINTS" "cp_rights (tk_caps (ks_tasks ks ti) k) \<le> 7" "ep_owner (ks_endpoints ks (cap_ep ks ti k)) \<noteq> 0"
    "cp_endpoint (tk_caps (ks_tasks ks ti) k) \<noteq> 0" "unat (cp_endpoint (tk_caps (ks_tasks ks ti) k)) \<le> ENDPOINTS"
  using eps_cap[OF e t cap_SomeD(1)[OF c]] cap_SomeD(3,6)[OF c] by (auto simp: cap_ok_def cap_ep_def ENDPOINTS_def)

lemma and_below: "(a :: u32) AND b = a \<Longrightarrow> b \<le> 7 \<Longrightarrow> a \<le> 7"
  using word_and_le1[of a b] by (metis order_trans)

lemma eps_grant:
  assumes e: "eps_ok ks" and s: "src < SF_MAX_TASKS" and g: "ipc_grant ks src dst h r = (v, ks')"
  shows "eps_ok ks'"
proof (cases "cap ks src (ucast h) RIGHT_DELEGATE")
  case None
  then show ?thesis using g e by (simp add: ipc_grant_def)
next
  case (Some k)
  note c = cap_target[OF e s Some]
  show ?thesis
  proof (cases "r AND cp_rights (tk_caps (ks_tasks ks src) k) = r")
    case True
    then show ?thesis using g Some eps_install[OF e _ c(1,3) and_below[OF True c(2)]] by (simp add: ipc_grant_def)
  qed (use g e Some in \<open>simp add: ipc_grant_def\<close>)
qed

end
