(* ===== verification/SF_Kernel_Inv.thy ===== *)
theory SF_Kernel_Inv
  imports SF_Machine SF_Cap_Typed
begin

text \<open>
  The invariant of the whole kernel: page tables belong to the tasks that use them, every
  live task has an address space, the buffer of every blocked receiver stays mapped, process
  numbers are unique among live tasks and never reused, and endpoint rings are well formed.
\<close>

section \<open>Placement of the kernel's objects\<close>

definition apart :: "Kernel \<Rightarrow> nat \<Rightarrow> bool" where
  "apart ks a \<longleftrightarrow> a + 4096 \<le> ks_pool ks \<or> ks_pool ks + 4096 * POOL_PAGES \<le> a"

definition bundle_apart :: "Kernel \<Rightarrow> nat \<Rightarrow> nat \<Rightarrow> bool" where
  "bundle_apart ks a n \<longleftrightarrow> unat (ks_bundle_phys ks) + unat (ks_bundle_bytes ks) + 4096 \<le> a \<or> a + n \<le> unat (ks_bundle_phys ks)"

definition kernel_layout :: "Kernel \<Rightarrow> bool" where
  "kernel_layout ks \<longleftrightarrow> layout_ok ks \<and> apart ks (ks_mmio_pd ks) \<and> apart ks (ks_device_pt ks) \<and>
     apart ks (ks_boot_mmio_pd ks) \<and> ks_bundle_phys ks AND 4095 = 0 \<and>
     unat (ks_bundle_phys ks) + unat (ks_bundle_bytes ks) \<le> 2 ^ 30 \<and>
     bundle_apart ks (ks_pool ks) (4096 * POOL_PAGES) \<and> bundle_apart ks (ks_dma ks) SF_DMA_BYTES"

definition same_places :: "Kernel \<Rightarrow> Kernel \<Rightarrow> bool" where
  "same_places ks ks' \<longleftrightarrow> ks_pool ks' = ks_pool ks \<and> ks_dma ks' = ks_dma ks \<and> ks_kernel_pd ks' = ks_kernel_pd ks \<and>
     ks_mmio_pd ks' = ks_mmio_pd ks \<and> ks_device_pt ks' = ks_device_pt ks \<and> ks_boot_mmio_pd ks' = ks_boot_mmio_pd ks \<and>
     ks_bundle_phys ks' = ks_bundle_phys ks \<and> ks_bundle_bytes ks' = ks_bundle_bytes ks"

lemma same_places_layout: "same_places ks ks' \<Longrightarrow> kernel_layout ks' = kernel_layout ks"
  by (simp add: same_places_def kernel_layout_def layout_ok_def apart_def bundle_apart_def)

lemma kernel_layoutD: "kernel_layout ks \<Longrightarrow> layout_ok ks"
  by (simp add: kernel_layout_def)

section \<open>The invariant\<close>

definition tasks_ok :: "Kernel \<Rightarrow> (nat \<Rightarrow> page_kind) \<Rightarrow> bool" where
  "tasks_ok ks kind \<longleftrightarrow> (\<forall>i<SF_MAX_TASKS.
     (alive (ks_tasks ks i) \<longrightarrow> has_space ks kind i) \<and>
     (tk_state (ks_tasks ks i) = T_BLOCKED \<longrightarrow> user_range ks i (tk_recv_buffer (ks_tasks ks i)) (of_nat MSG_SIZE) True))"

definition pids_ok :: "Kernel \<Rightarrow> bool" where
  "pids_ok ks \<longleftrightarrow> 0 < ks_next_pid ks \<and> ks_next_pid ks \<le> 0x80000000 \<and>
     (\<forall>i<SF_MAX_TASKS. tk_pid (ks_tasks ks i) < ks_next_pid ks) \<and>
     (\<forall>i<SF_MAX_TASKS. \<forall>j<SF_MAX_TASKS. alive (ks_tasks ks i) \<longrightarrow> alive (ks_tasks ks j) \<longrightarrow>
        tk_pid (ks_tasks ks i) = tk_pid (ks_tasks ks j) \<longrightarrow> i = j)"

definition base_inv :: "Kernel \<Rightarrow> (nat \<Rightarrow> page_kind) \<Rightarrow> bool" where
  "base_inv ks kind \<longleftrightarrow> kernel_layout ks \<and> spaces_ok ks kind \<and> eps_ok ks \<and> tasks_ok ks kind \<and> pids_ok ks"

text \<open>A slot that was never used has no process number.\<close>

definition empty_ok :: "nat set \<Rightarrow> Kernel \<Rightarrow> bool" where
  "empty_ok X ks \<longleftrightarrow> (\<forall>i<SF_MAX_TASKS. i \<notin> X \<longrightarrow> tk_state (ks_tasks ks i) = T_EMPTY \<longrightarrow> tk_pid (ks_tasks ks i) = 0)"

definition kernel_inv :: "Kernel \<Rightarrow> (nat \<Rightarrow> page_kind) \<Rightarrow> bool" where
  "kernel_inv ks kind \<longleftrightarrow> base_inv ks kind \<and> empty_ok {} ks"

section \<open>Quiet steps keep it\<close>

lemma quiet_places: "quiet ks ks' \<Longrightarrow> same_places ks ks'"
  by (simp add: quiet_def same_places_def)

lemma quiet_own_page: "quiet ks ks' \<Longrightarrow> own_page ks' kind pid k p = own_page ks kind pid k p"
  by (simp add: quiet_def own_page_def pool_addr_def)

lemma quiet_fields:
  assumes "quiet ks ks'"
  shows "ks_phys ks' = ks_phys ks" "ks_next_pid ks' = ks_next_pid ks" "ks_current ks' = ks_current ks"
    "ks_device_owner ks' = ks_device_owner ks" "ks_page_owner ks' = ks_page_owner ks" "ks_ticks ks' = ks_ticks ks"
    "ks_pool ks' = ks_pool ks" "ks_dma ks' = ks_dma ks" "ks_bundle_phys ks' = ks_bundle_phys ks" "ks_bundle_bytes ks' = ks_bundle_bytes ks"
    "tk_pid (ks_tasks ks' i) = tk_pid (ks_tasks ks i)" "tk_cr3 (ks_tasks ks' i) = tk_cr3 (ks_tasks ks i)"
    "tk_recv_buffer (ks_tasks ks' i) = tk_recv_buffer (ks_tasks ks i)"
  using assms quiet_woken[OF assms, of i] by (simp_all add: quiet_def woken_def)

lemma quiet_entry: "quiet ks ks' \<Longrightarrow> entry_ok ks' kind pid k j e = entry_ok ks kind pid k j e"
  by (cases k) (simp_all add: entry_ok_def table_entry_def leaf_entry_def quiet_own_page dma_page_def bundle_page_def quiet_fields)

lemma quiet_spaces: "quiet ks ks' \<Longrightarrow> spaces_ok ks' kind = spaces_ok ks kind"
  by (simp add: spaces_ok_def quiet_entry quiet_fields pool_addr_def)

lemma quiet_space: "quiet ks ks' \<Longrightarrow> has_space ks' kind i = has_space ks kind i"
  by (simp add: has_space_def quiet_own_page quiet_fields)

lemma quiet_range: "quiet ks ks' \<Longrightarrow> user_range ks' i v n w = user_range ks i v n w"
  by (intro translation_cong(3)) (simp_all add: quiet_fields)

lemma quiet_state: "quiet ks ks' \<Longrightarrow> tk_state (ks_tasks ks' i) = tk_state (ks_tasks ks i) \<or>
    tk_state (ks_tasks ks i) = T_BLOCKED \<and> tk_state (ks_tasks ks' i) = T_READY"
  using quiet_woken[of ks ks' i] by (simp add: woken_def)

lemma quiet_blocked: "quiet ks ks' \<Longrightarrow> tk_state (ks_tasks ks' i) = T_BLOCKED \<Longrightarrow> tk_state (ks_tasks ks i) = T_BLOCKED"
  "quiet ks ks' \<Longrightarrow> tk_state (ks_tasks ks' i) = T_EMPTY \<Longrightarrow> tk_state (ks_tasks ks i) = T_EMPTY"
  using quiet_state[of ks ks' i] by auto

lemma quiet_tasks: "quiet ks ks' \<Longrightarrow> tasks_ok ks kind \<Longrightarrow> tasks_ok ks' kind"
  unfolding tasks_ok_def by (simp add: quiet_space quiet_range quiet_fields quiet_alive quiet_blocked)

lemma quiet_pids: "quiet ks ks' \<Longrightarrow> pids_ok ks' = pids_ok ks"
  unfolding pids_ok_def by (simp add: quiet_fields quiet_alive)

lemma quiet_empty: "quiet ks ks' \<Longrightarrow> empty_ok X ks \<Longrightarrow> empty_ok X ks'"
  unfolding empty_ok_def by (simp add: quiet_fields quiet_blocked)

lemma base_quiet: "base_inv ks kind \<Longrightarrow> quiet ks ks' \<Longrightarrow> eps_ok ks' \<Longrightarrow> base_inv ks' kind"
  unfolding base_inv_def using same_places_layout[OF quiet_places] quiet_spaces quiet_tasks quiet_pids by blast

lemma base_still: "base_inv ks kind \<Longrightarrow> still ks ks' \<Longrightarrow> base_inv ks' kind"
  using base_quiet[OF _ still_quiet, of ks kind ks'] eps_still[of ks ks'] by (simp add: base_inv_def)

section \<open>Memory steps keep it\<close>

lemma mem_only_places:
  assumes "mem_only ks ks'"
  shows "same_places ks ks'"
proof -
  have e: "ks' = ks\<lparr>ks_phys := ks_phys ks', ks_page_owner := ks_page_owner ks', ks_tasks := ks_tasks ks'\<rparr>"
    using assms by (simp add: mem_only_def)
  show ?thesis unfolding same_places_def by (subst e, simp)+
qed

lemma grows_alive: "grows ks kind ks' kind' \<Longrightarrow> alive (ks_tasks ks' i) = alive (ks_tasks ks i)"
  by (simp add: alive_def mem_only_fields[OF growsD(1)])

lemma base_grows:
  assumes b: "base_inv ks kind" and s: "spaces_ok ks' kind'" and g: "grows ks kind ks' kind'"
  shows "base_inv ks' kind'"
proof -
  note f = mem_only_fields[OF growsD(1)[OF g]]
  have "tasks_ok ks' kind'"
    using b grows_has_space[OF g] grows_user_range[OF _ _ g]
    unfolding base_inv_def tasks_ok_def grows_alive[OF g] f by (auto simp: alive_def)
  moreover have "pids_ok ks'" using b unfolding base_inv_def pids_ok_def grows_alive[OF g] f by blast
  moreover have "eps_ok ks'" using b eps_same[of ks' ks, OF f(3,13,11,15)] by (simp add: base_inv_def)
  moreover have "kernel_layout ks'" using b same_places_layout[OF mem_only_places[OF growsD(1)[OF g]]] by (simp add: base_inv_def)
  ultimately show ?thesis using s by (simp add: base_inv_def)
qed

lemma grows_empty: "grows ks kind ks' kind' \<Longrightarrow> empty_ok X ks' = empty_ok X ks"
  unfolding empty_ok_def by (simp add: mem_only_fields[OF growsD(1)])

lemma set_phys_places: "same_places ks (set_phys f ks)"
  by (simp add: same_places_def set_phys_def)

lemma base_store:
  assumes b: "base_inv ks kind" and t: "tables_same ks kind (f (ks_phys ks))"
  shows "base_inv (set_phys f ks) kind"
proof -
  have s: "spaces_ok ks kind" using b by (simp add: base_inv_def)
  have "tasks_ok (set_phys f ks) kind"
    using b tables_same_space[where f = f, OF _ t] tables_same_translation(3)[where f = f, OF s _ t]
    unfolding base_inv_def tasks_ok_def by (auto simp: alive_def)
  then show ?thesis
    using b spaces_ok_store[where f = f, OF s t] same_places_layout[OF set_phys_places, of f ks]
      eps_same[of "set_phys f ks" ks]
    by (simp add: base_inv_def pids_ok_def)
qed

text \<open>Stores that cannot reach the page pool.\<close>

lemma apart_tables:
  assumes "\<And>x. m x \<noteq> ks_phys ks x \<Longrightarrow> x < ks_pool ks \<or> ks_pool ks + 4096 * POOL_PAGES \<le> x"
  shows "tables_same ks kind m"
  unfolding tables_same_def
proof (intro allI impI)
  fix i x assume i: "i < POOL_PAGES" "pool_addr ks i \<le> x" "x < pool_addr ks i + 4096"
  then have "pool_addr ks i + 4096 \<le> ks_pool ks + 4096 * POOL_PAGES" "ks_pool ks \<le> pool_addr ks i" by (auto simp: pool_addr_def)
  then show "m x = ks_phys ks x" using assms[of x] i by (cases "m x = ks_phys ks x") auto
qed

lemma apart_word: "apart ks a \<Longrightarrow> j < 512 \<Longrightarrow> tables_same ks kind (wr64 (a + 8 * j) v (ks_phys ks))"
  by (intro apart_tables) (auto simp: wr64_def apart_def split: if_splits)

lemma dma_tables:
  assumes "layout_ok ks" "off + length bs \<le> SF_DMA_BYTES"
  shows "tables_same ks kind (store (ks_dma ks + off) bs (ks_phys ks))"
  using assms by (intro apart_tables) (auto simp: store_def layout_ok_def split: if_splits)

lemma page_tables:
  assumes "layout_ok ks" "own_page ks kind pid PK_Data p" "off + length bs \<le> 4096"
  shows "tables_same ks kind (store (p + off) bs (ks_phys ks))"
  using assms by (intro user_frame_tables_same[of ks kind pid p]) (auto simp: user_frame_def)

section \<open>Replacing a task\<close>

lemma pids_unique:
  "pids_ok ks \<Longrightarrow> i < SF_MAX_TASKS \<Longrightarrow> j < SF_MAX_TASKS \<Longrightarrow> alive (ks_tasks ks i) \<Longrightarrow> alive (ks_tasks ks j) \<Longrightarrow>
   tk_pid (ks_tasks ks i) = tk_pid (ks_tasks ks j) \<Longrightarrow> i = j"
  unfolding pids_ok_def by blast

lemma base_put_task:
  assumes b: "base_inv ks kind" and p: "tk_pid t < ks_next_pid ks"
    and al: "alive t \<Longrightarrow> tk_pid t = tk_pid (ks_tasks ks ti) \<and> tk_cr3 t = tk_cr3 (ks_tasks ks ti) \<and> has_space ks kind ti \<and>
      (\<forall>j<SF_MAX_TASKS. alive (ks_tasks ks j) \<longrightarrow> tk_pid (ks_tasks ks j) = tk_pid t \<longrightarrow> j = ti)"
    and bl: "tk_state t = T_BLOCKED \<Longrightarrow> user_range ks ti (tk_recv_buffer t) (of_nat MSG_SIZE) True \<and> wait_ok ks t"
    and c: "\<forall>k<32. tk_caps t k = tk_caps (ks_tasks ks ti) k \<or> cp_endpoint (tk_caps t k) = 0" and ti: "ti < SF_MAX_TASKS"
  shows "base_inv (put_task ti t ks) kind"
proof -
  let ?ks = "put_task ti t ks"
  have same: "tk_pid t = tk_pid (ks_tasks ks ti)" "tk_cr3 t = tk_cr3 (ks_tasks ks ti)" "has_space ks kind ti"
    if "alive t" using al[OF that] by blast+
  have pl: "same_places ks ?ks" by (simp add: same_places_def put_task_def)
  have bp: "ks_bundle_phys ?ks = ks_bundle_phys ks" "ks_bundle_bytes ?ks = ks_bundle_bytes ks" by (simp_all add: put_task_def)
  have own: "own_page ?ks kd pid kk q = own_page ks kd pid kk q" for kd pid kk q by (simp add: own_page_def pool_addr_def)
  have en: "entry_ok ?ks kd pid kk j e = entry_ok ks kd pid kk j e" for kd pid kk j e
    by (cases kk) (simp_all add: entry_ok_def table_entry_def leaf_entry_def own dma_page_def bundle_page_def bp)
  have sp: "spaces_ok ?ks kind = spaces_ok ks kind" by (simp add: spaces_ok_def en pool_addr_def)
  have hs: "has_space ?ks kind j = has_space ks kind j" if "j = ti \<Longrightarrow> alive t" for j
    by (cases "j = ti") (use that same in \<open>simp_all add: has_space_def own\<close>)
  have ur: "user_range ?ks j v n w = user_range ks j v n w" if "j = ti \<Longrightarrow> alive t" for j v n w
    by (rule translation_cong(3)) (use that same in \<open>simp_all split: if_splits\<close>)
  have "tasks_ok ?ks kind"
    unfolding tasks_ok_def
  proof (intro allI impI conjI)
    fix j assume j: "j < SF_MAX_TASKS"
    show "has_space ?ks kind j" if "alive (ks_tasks ?ks j)"
      using that j b same hs[of j] by (cases "j = ti") (auto simp: base_inv_def tasks_ok_def)
    show "user_range ?ks j (tk_recv_buffer (ks_tasks ?ks j)) (of_nat MSG_SIZE) True" if "tk_state (ks_tasks ?ks j) = T_BLOCKED"
      using that j b bl ur[of j] by (cases "j = ti") (auto simp: base_inv_def tasks_ok_def alive_def)
  qed
  moreover have "pids_ok ?ks"
  proof -
    have pk: "pids_ok ks" using b by (simp add: base_inv_def)
    have un: "j = ti" if "alive t" "j < SF_MAX_TASKS" "alive (ks_tasks ks j)" "tk_pid (ks_tasks ks j) = tk_pid t" for j
      by (rule al[OF that(1), THEN conjunct2, THEN conjunct2, THEN conjunct2, rule_format, OF that(2-4)])
    have "i = j" if h: "i < SF_MAX_TASKS" "j < SF_MAX_TASKS" "alive (ks_tasks ?ks i)" "alive (ks_tasks ?ks j)"
      "tk_pid (ks_tasks ?ks i) = tk_pid (ks_tasks ?ks j)" for i j
    proof (cases "i = ti \<or> j = ti")
      case True
      then show ?thesis
      proof
        assume i: "i = ti"
        show ?thesis
        proof (cases "j = ti")
          case False
          then have "alive t" "alive (ks_tasks ks j)" "tk_pid (ks_tasks ks j) = tk_pid t" using h i by simp_all
          then show ?thesis using un[OF _ h(2)] False by blast
        qed (simp add: i)
      next
        assume j: "j = ti"
        show ?thesis
        proof (cases "i = ti")
          case False
          then have "alive t" "alive (ks_tasks ks i)" "tk_pid (ks_tasks ks i) = tk_pid t" using h j by simp_all
          then show ?thesis using un[OF _ h(1)] False by blast
        qed (simp add: j)
      qed
    next
      case False
      then show ?thesis using h by (intro pids_unique[OF pk]) simp_all
    qed
    moreover have "tk_pid (ks_tasks ?ks i) < ks_next_pid ?ks" if "i < SF_MAX_TASKS" for i
      using that pk p by (cases "i = ti") (simp_all add: pids_ok_def)
    moreover have "0 < ks_next_pid ?ks" "ks_next_pid ?ks \<le> 0x80000000" using pk by (simp_all add: pids_ok_def)
    ultimately show ?thesis unfolding pids_ok_def by blast
  qed
  ultimately show ?thesis
    using b sp same_places_layout[OF pl] eps_put_task[OF _ c _ ti] bl by (simp add: base_inv_def)
qed

section \<open>The owner of the device\<close>

lemma base_owner:
  assumes b: "base_inv ks kind" and o: "\<forall>i<POOL_PAGES. ks_page_owner ks i \<noteq> 0 \<longrightarrow> ks_page_owner ks i \<noteq> ks_device_owner ks"
  shows "base_inv (ks\<lparr>ks_device_owner := d\<rparr>) kind"
proof -
  let ?ks = "ks\<lparr>ks_device_owner := d\<rparr>"
  have own: "own_page ?ks kd pid kk q = own_page ks kd pid kk q" for kd pid kk q by (simp add: own_page_def pool_addr_def)
  have en: "entry_ok ?ks kd pid kk j e" if "entry_ok ks kd pid kk j e" "pid \<noteq> ks_device_owner ks" for kd pid kk j e
    using that by (cases kk) (auto simp: entry_ok_def table_entry_def leaf_entry_def own dma_page_def bundle_page_def)
  have "spaces_ok ?ks kind" using b o by (auto simp: base_inv_def spaces_ok_def pool_addr_def intro!: en)
  moreover have "user_range ?ks j v n w = user_range ks j v n w" for j v n w by (rule translation_cong(3)) simp_all
  moreover have "has_space ?ks kind j = has_space ks kind j" for j by (simp add: has_space_def own)
  ultimately show ?thesis using b same_places_layout[of ks ?ks] eps_same[of ?ks ks]
    by (auto simp: base_inv_def tasks_ok_def pids_ok_def same_places_def)
qed

section \<open>Pages of a process that is gone\<close>

lemma base_free:
  assumes b: "base_inv ks kind" and pid: "0 < pid" "pid \<le> 0x7fffffff"
    and d: "\<forall>i<SF_MAX_TASKS. alive (ks_tasks ks i) \<longrightarrow> tk_pid (ks_tasks ks i) \<noteq> pid"
  shows "base_inv (pages_free ks pid) kind"
proof -
  let ?ks = "pages_free ks pid"
  define k0 where "k0 = ks\<lparr>ks_page_owner := \<lambda>i. if i < POOL_PAGES \<and> ks_page_owner ks i = pid then 0 else ks_page_owner ks i\<rparr>"
  define f where "f = (\<lambda>_ :: nat \<Rightarrow> u8. ks_phys ?ks)"
  have s: "spaces_ok ks kind" and tk: "tasks_ok ks kind" using b by (simp_all add: base_inv_def)
  have a0: "pool_addr k0 = pool_addr ks" by (simp add: k0_def pool_addr_def fun_eq_iff)
  have t: "tk_pid (ks_tasks ?ks i) = tk_pid (ks_tasks ks i)" "tk_cr3 (ks_tasks ?ks i) = tk_cr3 (ks_tasks ks i)"
    "tk_state (ks_tasks ?ks i) = tk_state (ks_tasks ks i)" "tk_recv_buffer (ks_tasks ?ks i) = tk_recv_buffer (ks_tasks ks i)" for i
    by (simp_all add: pages_free_task)
  have al: "alive (ks_tasks ?ks i) = alive (ks_tasks ks i)" for i by (simp add: alive_def t)
  have own0: "own_page k0 kind q k p" if "own_page ks kind q k p" "q \<noteq> pid" for q k p
    using that unfolding own_page_def a0 by (auto simp: k0_def)
  have s0: "spaces_ok k0 kind"
    unfolding spaces_ok_def a0
  proof (intro allI impI)
    fix i j assume i: "i < POOL_PAGES" "ks_page_owner k0 i \<noteq> 0" "j < (512::nat)"
    then have o: "ks_page_owner ks i \<noteq> pid" "ks_page_owner k0 i = ks_page_owner ks i" by (auto simp: k0_def split: if_splits)
    have "entry_ok ks kind (ks_page_owner ks i) (kind i) j (rd64 (ks_phys ks) (pool_addr ks i + 8 * j))"
      using spaces_okD[OF s i(1) refl _ i(3)] i(2) o(2) by simp
    then show "entry_ok k0 kind (ks_page_owner k0 i) (kind i) j (rd64 (ks_phys k0) (pool_addr ks i + 8 * j))"
      using own0 o unfolding o(2)
      by (auto simp: entry_ok_def table_entry_def leaf_entry_def dma_page_def bundle_page_def k0_def split: page_kind.splits)
  qed
  have same: "tables_same k0 kind (f (ks_phys k0))"
    unfolding tables_same_def a0
  proof (intro allI impI)
    fix i x assume "i < POOL_PAGES" "ks_page_owner k0 i \<noteq> 0" "pool_addr ks i \<le> x" "x < pool_addr ks i + 4096"
    then show "f (ks_phys k0) x = ks_phys k0 x"
      using pages_free_other_page[of i ks pid x] by (auto simp: f_def k0_def split: if_splits)
  qed
  have rng: "user_range ?ks i v n w = user_range ks i v n w" if i: "i < SF_MAX_TASKS" "alive (ks_tasks ks i)" for i v n w
  proof -
    have "has_space k0 kind i" using tk i d own0 by (auto simp: tasks_ok_def has_space_def k0_def)
    then have "user_range (set_phys f k0) i v n w = user_range k0 i v n w" by (rule tables_same_translation(3)[where f = f, OF s0 _ same])
    moreover have "user_range (set_phys f k0) i v n w = user_range ?ks i v n w"
      by (rule translation_cong(3)) (simp_all add: t f_def k0_def)
    moreover have "user_range k0 i v n w = user_range ks i v n w" by (rule translation_cong(3)) (simp_all add: k0_def)
    ultimately show ?thesis by simp
  qed
  have "tasks_ok ?ks kind"
    using tk d rng pages_free_has_space[OF _ _ pid, of ks kind] unfolding tasks_ok_def al t by (auto simp: alive_def)
  moreover have "pids_ok ?ks" using b unfolding base_inv_def pids_ok_def al t by (simp add: pages_free_eq uncounted_def freed_def)
  moreover have "same_places ks ?ks" by (simp add: same_places_def pages_free_eq uncounted_def freed_def)
  moreover have "ks_endpoints ?ks = ks_endpoints ks" by (simp add: pages_free_eq uncounted_def freed_def)
  then have "eps_ok ?ks = eps_ok ks" by (rule eps_same) (simp_all add: pages_free_task)
  ultimately show ?thesis
    using b pages_free_spaces[OF s pid] same_places_layout[of ks ?ks] by (simp add: base_inv_def)
qed

end
