(* ===== verification/SF_Kernel_Ipc.thy ===== *)
theory SF_Kernel_Ipc
  imports SF_Kernel_Inv
begin

text \<open>
  Communication keeps the invariant of the kernel, and never runs into the panic of a lost
  receive buffer.
\<close>

section \<open>Results\<close>

definition kinv :: "Kernel \<Rightarrow> bool" where
  "kinv ks \<longleftrightarrow> (\<exists>kind. kernel_inv ks kind)"

text \<open>Capability slots age, no task gets a stack pointer that cannot be restored, and a slot
  that changes its process gets a new number.\<close>

definition task_age :: "Task \<Rightarrow> Task \<Rightarrow> bool" where
  "task_age t t' \<longleftrightarrow> (\<forall>k. slot_age (tk_caps t k) (tk_caps t' k)) \<and>
     (fr_rsp (tk_frame t') = fr_rsp (tk_frame t) \<or> \<not> bad_stack t')"

definition ages :: "Kernel \<Rightarrow> Kernel \<Rightarrow> bool" where
  "ages ks ks' \<longleftrightarrow> ks_next_pid ks \<le> ks_next_pid ks' \<and> (\<forall>i. task_age (ks_tasks ks i) (ks_tasks ks' i) \<and>
     (tk_pid (ks_tasks ks' i) = tk_pid (ks_tasks ks i) \<or> ks_next_pid ks \<le> tk_pid (ks_tasks ks' i)))"

lemma task_age_refl [simp]: "task_age t t"
  by (simp add: task_age_def)

lemma task_age_same: "tk_caps t' = tk_caps t \<Longrightarrow> tk_frame t' = tk_frame t \<Longrightarrow> task_age t t'"
  by (simp add: task_age_def)

lemma task_age_trans: "task_age a b \<Longrightarrow> task_age b c \<Longrightarrow> task_age a c"
  by (auto simp: task_age_def bad_stack_def intro: slot_age_trans)

definition good :: "Kernel \<Rightarrow> Kernel \<Rightarrow> bool" where
  "good ks ks' \<longleftrightarrow> kinv ks' \<and> ages ks ks' \<and> ks_current ks' = ks_current ks"

lemma ages_refl [simp]: "ages ks ks"
  by (simp add: ages_def)

lemma ages_trans:
  assumes "ages a b" "ages b c"
  shows "ages a c"
  unfolding ages_def
proof (intro conjI allI)
  show n: "ks_next_pid a \<le> ks_next_pid c" using assms by (auto simp: ages_def)
  fix i
  show "task_age (ks_tasks a i) (ks_tasks c i)" using assms unfolding ages_def by (meson task_age_trans)
  show "tk_pid (ks_tasks c i) = tk_pid (ks_tasks a i) \<or> ks_next_pid a \<le> tk_pid (ks_tasks c i)"
    using assms unfolding ages_def by (metis order_trans)
qed

lemma quiet_age: "quiet ks ks' \<Longrightarrow> ages ks ks'"
  using quiet_woken[of ks ks'] by (simp add: ages_def task_age_def woken_def quiet_fields(2))

lemma good_refl: "kinv ks \<Longrightarrow> good ks ks"
  by (simp add: good_def)

lemma good_trans: "good a b \<Longrightarrow> good b c \<Longrightarrow> good a c"
  unfolding good_def using ages_trans by auto

lemma good_quiet: "kinv ks \<Longrightarrow> quiet ks ks' \<Longrightarrow> eps_ok ks' \<Longrightarrow> good ks ks'"
  unfolding good_def kinv_def kernel_inv_def using base_quiet quiet_empty quiet_age quiet_fields(3) by blast

lemma kinv_eps: "kinv ks \<Longrightarrow> eps_ok ks"
  by (auto simp: kinv_def kernel_inv_def base_inv_def)

lemma good_still: "kinv ks \<Longrightarrow> still ks ks' \<Longrightarrow> good ks ks'"
  using good_quiet[OF _ still_quiet, of ks ks'] kinv_eps[of ks] eps_still[of ks ks'] by simp

lemma good_store:
  assumes "kernel_inv ks kind" "tables_same ks kind (f (ks_phys ks))"
  shows "good ks (set_phys f ks)"
  using assms base_store[where f = f] unfolding good_def kinv_def kernel_inv_def
  by (auto simp: ages_def empty_ok_def)

text \<open>A checked copy to a live task.\<close>

lemma copy_out_good:
  assumes k: "kinv ks" and t: "ti < SF_MAX_TASKS" "alive (ks_tasks ks ti)" and l: "length bs < 2 ^ 64"
    and r: "user_range ks ti dst (of_nat (length bs)) True"
  obtains f where "copy_out ks ti dst bs = Some (Ok (), set_phys f ks)" "good ks (set_phys f ks)"
proof -
  obtain kind where i: "kernel_inv ks kind" using k by (auto simp: kinv_def)
  then have "layout_ok ks" "spaces_ok ks kind" "has_space ks kind ti"
    using t by (auto simp: kernel_inv_def base_inv_def tasks_ok_def kernel_layout_def)
  from copy_out_tables[OF this l r] obtain f where f: "copy_out ks ti dst bs = Some (Ok (), set_phys f ks)"
    "tables_same ks kind (f (ks_phys ks))" .
  then show thesis using that good_store[where f = f, OF i f(2)] by blast
qed

lemma copy_out_total:
  assumes "kinv ks" "ti < SF_MAX_TASKS" "alive (ks_tasks ks ti)" "length bs < 2 ^ 64"
  shows "\<exists>r ks'. copy_out ks ti dst bs = Some (r, ks') \<and> good ks ks'"
proof (cases "user_range ks ti dst (of_nat (length bs)) True")
  case True
  from copy_out_good[OF assms this] show ?thesis by metis
next
  case False
  then show ?thesis using good_refl[OF assms(1)] by (simp add: copy_out_def)
qed

section \<open>The communication calls\<close>

lemma alive_pid: "kinv ks \<Longrightarrow> ti < SF_MAX_TASKS \<Longrightarrow> alive (ks_tasks ks ti) \<Longrightarrow> tk_pid (ks_tasks ks ti) \<noteq> 0"
  by (auto simp: kinv_def kernel_inv_def base_inv_def tasks_ok_def has_space_def)

lemma eps_claim:
  assumes e: "eps_ok ks" and f: "ep_owner (ks_endpoints ks i) = 0"
    and n: "ep_ok x" "queue_full (ep_queue x)"
  shows "eps_ok (put_endpoint i x ks)"
proof -
  have t: "typed ks" using e by (simp add: eps_ok_def)
  have "typed (put_endpoint i x ks)" by (rule typed_mono[OF t]) (use f in auto)
  then show ?thesis using e n by (simp add: eps_ok_def rings_ok_def)
qed

lemma create_good:
  assumes k: "kinv ks" and t: "ti < SF_MAX_TASKS" "alive (ks_tasks ks ti)" and c: "sys_ep_create ti ks = (r, ks')"
  shows "good ks ks'"
proof (cases "cap_slot (ks_tasks ks ti) = None \<or> first_index (\<lambda>i. ep_owner (ks_endpoints ks i) = 0) ENDPOINTS = None")
  case True
  then show ?thesis using c good_refl[OF k] by (auto simp: sys_ep_create_def split: option.splits if_splits)
next
  case False
  then obtain s i where s: "cap_slot (ks_tasks ks ti) = Some s" "first_index (\<lambda>i. ep_owner (ks_endpoints ks i) = 0) ENDPOINTS = Some i"
    by auto
  define e where "e = (ks_endpoints ks i)\<lparr>ep_owner := tk_pid (ks_tasks ks ti), ep_epoch := ep_epoch (ks_endpoints ks i) + 1,
      ep_head := 0, ep_count := 0\<rparr>"
  obtain h ks1 where inst: "install (put_endpoint i e ks) ti i 7 = (h, ks1)" by fastforce
  have "0 \<le> h" using inst s by (cases rule: install_cases) auto
  then have ks': "ks' = ks1" using c inst s by (auto simp: sys_ep_create_def Let_def e_def)
  note i = first_index_SomeD[OF s(2)]
  have "eps_ok (put_endpoint i e ks)" using eps_ring[OF kinv_eps[OF k], of i]
    by (intro eps_claim[OF kinv_eps[OF k] i(2)]) (simp_all add: e_def ep_ok_def)
  then have "eps_ok ks'" using eps_install[OF _ inst] i(1) alive_pid[OF k t] ks' by (simp add: e_def)
  moreover have "quiet ks ks'" using quiet_trans[OF quiet_put_endpoint quiet_install[OF inst]] ks' by simp
  ultimately show ?thesis using good_quiet[OF k] by blast
qed

lemma close_good: "kinv ks \<Longrightarrow> ti < SF_MAX_TASKS \<Longrightarrow> sys_cap_close ti a ks = (r, ks') \<Longrightarrow> good ks ks'"
  using good_quiet[OF _ quiet_close_cap] good_refl eps_close[OF kinv_eps] cap_SomeD(1)
  by (auto simp: sys_cap_close_def split: option.splits)

lemma rights_small:
  assumes "(b :: u64) AND NOT 7 = 0"
  shows "(ucast b :: u32) \<le> 7"
proof -
  have m: "(7 :: u64) = mask 3" "(7 :: u32) = mask 3" by (simp_all add: mask_eq_exp_minus_1)
  have "\<not> (bit b n \<and> bit (NOT 7 :: u64) n)" for n using assms by (metis bit_and_iff bit_0_eq bot_apply bot_bool_def)
  then have "n < 3" if "bit b n" for n using that bit_imp_le_length[OF that] by (auto simp: m bit_simps)
  then have "ucast b AND mask 3 = (ucast b :: u32)" by (auto simp: bit_eq_iff bit_simps)
  then show ?thesis unfolding m(2) using word_and_le1[of "ucast b" "mask 3 :: u32"] by simp
qed

lemma derive_good:
  assumes k: "kinv ks" and t: "ti < SF_MAX_TASKS" and d: "sys_cap_derive ti a b ks = (r, ks')"
  shows "good ks ks'"
proof (cases "ks' = ks")
  case False
  then obtain j where j: "cap ks ti a RIGHT_DELEGATE = Some j" "b AND NOT 7 = 0"
    and i: "install ks ti (cap_ep ks ti j) (ucast b) = (r, ks')"
    using d by (auto simp: sys_cap_derive_def split: option.splits if_splits)
  note c = cap_target[OF kinv_eps[OF k] t j(1)]
  show ?thesis using good_quiet[OF k quiet_install[OF i]] eps_install[OF kinv_eps[OF k] i c(1,3) rights_small[OF j(2)]] by blast
qed (simp add: good_refl k)

lemma revoke_good: "kinv ks \<Longrightarrow> ti < SF_MAX_TASKS \<Longrightarrow> sys_cap_revoke ti a ks = (r, ks') \<Longrightarrow> good ks ks'"
  using good_quiet[OF _ quiet_invalidate] good_refl eps_invalidate[OF kinv_eps cap_target(1)[OF kinv_eps]]
  by (auto simp: sys_cap_revoke_def split: option.splits if_splits)

lemma cancel_good:
  assumes k: "kinv ks" and c: "sys_send_cancel ti a b c ks = (r, ks')"
  shows "good ks ks'"
proof -
  consider "ks' = ks" | i n e' where "ks' = put_endpoint i e' ks" "ep_cancel (tk_pid (ks_tasks ks ti)) b (ks_endpoints ks i) = (n, e')"
    using c by (auto simp: sys_send_cancel_def Let_def split: option.splits if_splits prod.splits)
  then show ?thesis
  proof cases
    case 1
    then show ?thesis using good_refl[OF k] by simp
  next
    case 2
    note e = eps_ring[OF kinv_eps[OF k], of i]
    have "eps_ok ks'" unfolding 2(1)
      by (rule eps_ring_put[OF kinv_eps[OF k] ep_cancel_ok(1)[OF e(1) 2(2)] cancel_full[OF e(2) 2(2)]])
    then show ?thesis using good_quiet[OF k] 2(1) by simp
  qed
qed

text \<open>The counters of copied bytes.\<close>

lemma still_counters [simp]: "still ks (ks\<lparr>ks_send_bytes := n\<rparr>)" "still ks (ks\<lparr>ks_receive_bytes := n\<rparr>)"
  by (simp_all add: still_def quiet_def)

lemma message_bytes:
  assumes "copy_in ks ti b MSG_SIZE = Some (Ok m)"
  shows "length m = MSG_SIZE" "length (put_at 12 (le32 pid) m) = MSG_SIZE"
proof -
  show l: "length m = MSG_SIZE" using assms copy_in_bytes[of MSG_SIZE ks ti b] by (auto simp: MSG_SIZE_def split: if_splits)
  show "length (put_at 12 (le32 pid) m) = MSG_SIZE" using l by (simp add: put_at_def le32_def MSG_SIZE_def)
qed

lemma blocked_receiver:
  assumes "kinv ks" "j < SF_MAX_TASKS" "tk_state (ks_tasks ks j) = T_BLOCKED"
  shows "alive (ks_tasks ks j)" "user_range ks j (tk_recv_buffer (ks_tasks ks j)) (of_nat MSG_SIZE) True"
  using assms by (auto simp: alive_def kinv_def kernel_inv_def base_inv_def tasks_ok_def)

lemma deliver_good:
  assumes k: "kinv ks" and j: "j < SF_MAX_TASKS" "tk_state (ks_tasks ks j) = T_BLOCKED" and m: "length m = MSG_SIZE"
  shows "\<exists>ks1. copy_out ks j (tk_recv_buffer (ks_tasks ks j)) m = Some (Ok (), ks1) \<and>
    (\<forall>n v. good ks (put_task j (wake (ks1\<lparr>ks_receive_bytes := n\<rparr>) v (ks_tasks (ks1\<lparr>ks_receive_bytes := n\<rparr>) j)) (ks1\<lparr>ks_receive_bytes := n\<rparr>)))"
proof -
  note b = blocked_receiver[OF k j]
  have l: "length m < 2 ^ 64" using m by (simp add: MSG_SIZE_def)
  have r: "user_range ks j (tk_recv_buffer (ks_tasks ks j)) (of_nat (length m)) True" using b(2) m by simp
  from copy_out_good[OF k j(1) b(1) l r] obtain f where f: "copy_out ks j (tk_recv_buffer (ks_tasks ks j)) m = Some (Ok (), set_phys f ks)"
    "good ks (set_phys f ks)" .
  have kf: "kinv (set_phys f ks)" using f(2) by (simp add: good_def)
  have "good (set_phys f ks) (put_task j (wake (k\<lparr>ks_receive_bytes := n\<rparr>) v (ks_tasks (k\<lparr>ks_receive_bytes := n\<rparr>) j)) (k\<lparr>ks_receive_bytes := n\<rparr>))"
    if "k = set_phys f ks" for n v k
  proof (rule good_still[OF kf], rule still_trans[OF still_counters(2)])
    show "still ((set_phys f ks)\<lparr>ks_receive_bytes := n\<rparr>) (put_task j (wake (k\<lparr>ks_receive_bytes := n\<rparr>) v (ks_tasks (k\<lparr>ks_receive_bytes := n\<rparr>) j)) (k\<lparr>ks_receive_bytes := n\<rparr>))"
      unfolding that using j(2) by (intro still_put_task woken_wake) (simp_all add: wake_def)
  qed
  then show ?thesis using f good_trans by blast
qed

lemma send_good:
  assumes k: "kinv ks"
  shows "\<exists>r ks'. sys_send ti a b ks = Some (r, ks') \<and> good ks ks'"
proof (cases "cap ks ti a RIGHT_SEND")
  case None
  then show ?thesis using good_refl[OF k] by (simp add: sys_send_def)
next
  case (Some s)
  let ?x = "cp_endpoint (tk_caps (ks_tasks ks ti) s)" and ?pid = "tk_pid (ks_tasks ks ti)"
  let ?ep = "unat ?x - 1"
  define ks0 where "ks0 = ks\<lparr>ks_send_bytes := copied (ks_send_bytes ks) MSG_SIZE\<rparr>"
  have g0: "good ks ks0" using good_still[OF k] by (simp add: ks0_def)
  then have k0: "kinv ks0" by (simp add: good_def)
  have t0: "ks_tasks ks0 = ks_tasks ks" by (simp add: ks0_def)
  consider "copy_in ks ti b MSG_SIZE = Some (Err SF_DENIED)" | m where "copy_in ks ti b MSG_SIZE = Some (Ok m)"
    using copy_in_bytes[of MSG_SIZE ks ti b] by (auto simp: MSG_SIZE_def split: if_splits)
  then show ?thesis
  proof cases
    case 1
    then show ?thesis using Some good_refl[OF k] by (simp add: sys_send_def)
  next
    case (2 m)
    let ?m = "put_at 12 (le32 ?pid) m"
    note ml = message_bytes(2)[OF 2]
    show ?thesis
    proof (cases "message_ok m \<and> \<not> (ms_deadline m \<noteq> 0 \<and> now_ns ks0 \<ge> ms_deadline m)")
      case False
      then show ?thesis using Some 2 g0 by (auto simp: sys_send_def Let_def ks0_def[symmetric])
    next
      case True
      note d = sys_send_def[of ti a b ks, unfolded Some option.case 2 sum.case Let_def, folded ks0_def, unfolded t0]
      show ?thesis
      proof (cases "first_index (\<lambda>j. tk_state (ks_tasks ks j) = T_BLOCKED \<and> tk_wait_endpoint (ks_tasks ks j) = ?x) SF_MAX_TASKS")
        case None
        have e: "ep_ok (ks_endpoints ks0 ?ep)" "queue_full (ep_queue (ks_endpoints ks0 ?ep))"
          using eps_ring[OF kinv_eps[OF k0]] by simp_all
        show ?thesis
        proof (cases "ep_count (ks_endpoints ks0 ?ep) = 8")
          case full: True
          then show ?thesis using True None g0 d by auto
        next
          case False
          then have "unat (ep_count (ks_endpoints ks0 ?ep)) < 8" using e(1) by (simp add: ep_ok_def word_unat_eq_iff)
          then have "eps_ok (put_endpoint ?ep (ep_push ?m (ks_endpoints ks0 ?ep)) ks0)"
            using ep_push_ok(1)[OF e(1)] push_full[OF e(2) ml] by (intro eps_ring_put[OF kinv_eps[OF k0]]) (simp_all add: ep_push_def)
          then have "good ks0 (put_endpoint ?ep (ep_push ?m (ks_endpoints ks0 ?ep)) ks0)" using good_quiet[OF k0] by simp
          then show ?thesis using True None False good_trans[OF g0] d by auto
        qed
      next
        case (Some j)
        then have j: "j < SF_MAX_TASKS" "tk_state (ks_tasks ks0 j) = T_BLOCKED" using first_index_SomeD[OF Some] by (simp_all add: t0)
        from deliver_good[OF k0 j ml] obtain ks1 where o: "copy_out ks0 j (tk_recv_buffer (ks_tasks ks0 j)) ?m = Some (Ok (), ks1)"
          and g: "\<And>n v. good ks0 (put_task j (wake (ks1\<lparr>ks_receive_bytes := n\<rparr>) v (ks_tasks (ks1\<lparr>ks_receive_bytes := n\<rparr>) j)) (ks1\<lparr>ks_receive_bytes := n\<rparr>))"
          by blast
        show ?thesis using True Some o good_trans[OF g0 g] d by (auto simp: t0)
      qed
    qed
  qed
qed

text \<open>The task that made the call.\<close>

definition running :: "Kernel \<Rightarrow> bool" where
  "running ks \<longleftrightarrow> 0 \<le> ks_current ks \<and> nat (ks_current ks) < SF_MAX_TASKS \<and> tk_state (ks_tasks ks (nat (ks_current ks))) = T_READY"

lemma runningD: "running ks \<Longrightarrow> nat (ks_current ks) < SF_MAX_TASKS" "running ks \<Longrightarrow> alive (ks_tasks ks (nat (ks_current ks)))"
  by (simp_all add: running_def alive_def)

text \<open>A live task that starts to wait for a message.\<close>

lemma block_good:
  assumes k: "kinv ks" and t: "ti < SF_MAX_TASKS" "alive (ks_tasks ks ti)" and r: "user_range ks ti b (of_nat MSG_SIZE) True"
    and x: "x \<noteq> 0" "unat x \<le> ENDPOINTS" "ep_owner (ep_at ks x) \<noteq> 0"
  shows "good ks (put_task ti ((ks_tasks ks ti)\<lparr>tk_state := T_BLOCKED, tk_wait_endpoint := x, tk_recv_buffer := b, tk_wait_deadline := c\<rparr>) ks)"
    (is "good ks ?ks")
proof -
  obtain kind where i: "kernel_inv ks kind" using k by (auto simp: kinv_def)
  then have b: "base_inv ks kind" by (simp add: kernel_inv_def)
  have "base_inv ?ks kind"
    using b t r x by (intro base_put_task) (auto simp: base_inv_def tasks_ok_def pids_ok_def wait_ok_def)
  moreover have "empty_ok {} ?ks" using i t by (auto simp: kernel_inv_def empty_ok_def)
  ultimately show ?thesis unfolding good_def kinv_def kernel_inv_def by (auto simp: ages_def task_age_same)
qed

lemma recv_good:
  assumes k: "kinv ks" and t: "ti < SF_MAX_TASKS" "alive (ks_tasks ks ti)"
  shows "\<exists>r ks'. sys_recv ti a b c ks = Some (r, ks') \<and> good ks ks'"
proof (cases "cap ks ti a RIGHT_RECV")
  case None
  then show ?thesis using good_refl[OF k] by (simp add: sys_recv_def)
next
  case (Some s)
  let ?ep = "unat (cp_endpoint (tk_caps (ks_tasks ks ti) s)) - 1"
  let ?e = "ks_endpoints ks ?ep"
  have eo: "ep_ok ?e" "queue_full (ep_queue ?e)" using eps_ring[OF kinv_eps[OF k]] by simp_all
  note d = sys_recv_def[of ti a b c ks, unfolded Some option.case Let_def]
  show ?thesis
  proof (cases "user_range ks ti b (of_nat MSG_SIZE) True")
    case False
    then show ?thesis using good_refl[OF k] d by auto
  next
    case rng: True
    show ?thesis
    proof (cases "ep_count ?e = 0")
      case False
      let ?m = "ep_queue ?e (unat (ep_head ?e))"
      have ml: "length ?m = MSG_SIZE" using eo by (simp add: ep_ok_def queue_full_def)
      have "length ?m < 2 ^ 64" "user_range ks ti b (of_nat (length ?m)) True" using ml rng by (simp_all add: MSG_SIZE_def)
      from copy_out_good[OF k t this] obtain f where f: "copy_out ks ti b ?m = Some (Ok (), set_phys f ks)" "good ks (set_phys f ks)" .
      let ?k1 = "(set_phys f ks)\<lparr>ks_receive_bytes := copied (ks_receive_bytes (set_phys f ks)) MSG_SIZE\<rparr>"
      have "good ks ?k1" using f(2) by (intro good_trans[OF f(2) good_still[OF _ still_counters(2)]]) (simp add: good_def)
      then have k1: "kinv ?k1" "good ks ?k1" by (simp_all add: good_def)
      have "eps_ok (put_endpoint ?ep (ep_pop ?e) ?k1)"
        using ep_pop_ok(1)[OF eo(1) False] pop_full[OF eo(2)] by (intro eps_ring_put[OF kinv_eps[OF k1(1)]]) (simp_all add: ep_pop_def)
      then have "good ?k1 (put_endpoint ?ep (ep_pop ?e) ?k1)" using good_quiet[OF k1(1)] by simp
      then show ?thesis using d rng False f(1) good_trans[OF k1(2)] by auto
    next
      case True
      have "ep_owner (ep_at ks (cp_endpoint (tk_caps (ks_tasks ks ti) s))) \<noteq> 0"
        using cap_target(3)[OF kinv_eps[OF k] t(1) Some] by (simp add: ep_at_def cap_ep_def)
      from block_good[OF k t rng cap_target(4,5)[OF kinv_eps[OF k] t(1) Some] this]
      show ?thesis using True d rng good_refl[OF k] by auto
    qed
  qed
qed

text \<open>A call that returns, in a good state.\<close>

definition returns :: "Kernel \<Rightarrow> ('a \<times> Kernel) option \<Rightarrow> bool" where
  "returns ks m \<longleftrightarrow> (\<exists>r ks'. m = Some (r, ks') \<and> good ks ks')"

lemma returns_if: "(P \<Longrightarrow> returns ks m) \<Longrightarrow> (\<not> P \<Longrightarrow> returns ks n) \<Longrightarrow> returns ks (if P then m else n)"
  by simp

lemma returns_good: "(\<And>r ks'. p = (r, ks') \<Longrightarrow> good ks ks') \<Longrightarrow> returns ks (Some p)"
  by (cases p) (simp add: returns_def)

lemma returns_same: "kinv ks \<Longrightarrow> returns ks (Some (v, ks))"
  by (simp add: returns_def good_refl)

lemma ipc_returns:
  assumes k: "kinv ks" and r: "running ks"
  shows "returns ks (ipc_syscall call a b c ks)"
  unfolding ipc_syscall_def Let_def
  by (intro returns_if returns_same[OF k] returns_good)
    (erule create_good[OF k runningD[OF r]] close_good[OF k runningD(1)[OF r]] derive_good[OF k runningD(1)[OF r]]
       revoke_good[OF k runningD(1)[OF r]] cancel_good[OF k] |
     simp add: returns_def send_good[OF k] recv_good[OF k runningD[OF r]])+

end
