(* ===== verification/SF_Kernel_Calls.thy ===== *)
theory SF_Kernel_Calls
  imports SF_Kernel_Ipc
begin

text \<open>
  The death of a task and the remaining system calls that build no task.
\<close>

section \<open>Death\<close>

lemma kinvE:
  assumes "kinv ks"
  obtains kind where "base_inv ks kind" "empty_ok {} ks"
  using assms by (auto simp: kinv_def kernel_inv_def)

lemma kinvI: "base_inv ks kind \<Longrightarrow> empty_ok {} ks \<Longrightarrow> kinv ks"
  by (auto simp: kinv_def kernel_inv_def)

text \<open>A process number between the bounds of the kernel.\<close>

lemma pid_bounds:
  assumes "base_inv ks kind" "i < SF_MAX_TASKS" "tk_pid (ks_tasks ks i) \<noteq> 0"
  shows "0 < tk_pid (ks_tasks ks i)" "tk_pid (ks_tasks ks i) \<le> 0x7fffffff"
proof -
  show "0 < tk_pid (ks_tasks ks i)" using assms(3) by (simp add: word_gt_0)
  have "tk_pid (ks_tasks ks i) < ks_next_pid ks" "ks_next_pid ks \<le> 0x80000000" using assms by (auto simp: base_inv_def pids_ok_def)
  then have "tk_pid (ks_tasks ks i) < 0x80000000" by simp
  then show "tk_pid (ks_tasks ks i) \<le> 0x7fffffff" by (simp add: word_less_nat_alt word_le_nat_alt)
qed

text \<open>Freeing everything a process holds, once no live task has its number.\<close>

definition reap :: "nat \<Rightarrow> Kernel \<Rightarrow> Kernel" where
  "reap ti ks = device_forget ti (pages_free ks (tk_pid (ks_tasks ks ti)))"

lemma reap_fields:
  "ks_current (reap ti ks) = ks_current ks" "tk_pid (ks_tasks (reap ti ks) i) = tk_pid (ks_tasks ks i)"
  "tk_state (ks_tasks (reap ti ks) i) = tk_state (ks_tasks ks i)" "tk_caps (ks_tasks (reap ti ks) i) = tk_caps (ks_tasks ks i)"
  "ks_next_pid (reap ti ks) = ks_next_pid ks" "tk_frame (ks_tasks (reap ti ks) i) = tk_frame (ks_tasks ks i)"
proof -
  have "ks_current (pages_free ks p) = ks_current ks" "ks_next_pid (pages_free ks p) = ks_next_pid ks" for p
    by (simp_all add: pages_free_eq uncounted_def freed_def)
  then show "ks_current (reap ti ks) = ks_current ks" "tk_pid (ks_tasks (reap ti ks) i) = tk_pid (ks_tasks ks i)"
    "tk_state (ks_tasks (reap ti ks) i) = tk_state (ks_tasks ks i)" "tk_caps (ks_tasks (reap ti ks) i) = tk_caps (ks_tasks ks i)"
    "ks_next_pid (reap ti ks) = ks_next_pid ks" "tk_frame (ks_tasks (reap ti ks) i) = tk_frame (ks_tasks ks i)"
    by (simp_all add: reap_def device_forget_def pages_free_task)
qed

lemma base_reap:
  assumes b: "base_inv ks kind" and t: "ti < SF_MAX_TASKS"
    and d: "\<forall>i<SF_MAX_TASKS. alive (ks_tasks ks i) \<longrightarrow> tk_pid (ks_tasks ks i) \<noteq> tk_pid (ks_tasks ks ti)"
  shows "base_inv (reap ti ks) kind"
proof (cases "tk_pid (ks_tasks ks ti) = 0")
  case True
  then have "pages_free ks (tk_pid (ks_tasks ks ti)) = ks" by (simp add: pages_free_def)
  then have "reap ti ks = ks \<or> reap ti ks = ks\<lparr>ks_device_owner := 0\<rparr> \<and> ks_device_owner ks = 0"
    using True by (simp add: reap_def device_forget_def)
  then show ?thesis using b base_owner[OF b, of 0] by auto
next
  case False
  note p = pid_bounds[OF b t False]
  let ?ks = "pages_free ks (tk_pid (ks_tasks ks ti))"
  have f: "base_inv ?ks kind" by (rule base_free[OF b p d])
  moreover have "base_inv (?ks\<lparr>ks_device_owner := 0\<rparr>) kind" if "ks_device_owner ?ks = tk_pid (ks_tasks ks ti)"
    using that pages_free_owner[OF p, of ks] False by (intro base_owner[OF f]) auto
  moreover have "tk_pid (ks_tasks ?ks ti) = tk_pid (ks_tasks ks ti)" by (simp add: pages_free_task)
  ultimately show ?thesis by (simp add: reap_def device_forget_def)
qed

definition dying :: "nat \<Rightarrow> Kernel \<Rightarrow> Kernel" where
  "dying ti ks = ipc_cleanup ti (snd (device_release ti ks))"

lemma dying_quiet: "quiet ks (dying ti ks)"
  unfolding dying_def by (rule quiet_trans[OF still_quiet[OF still_release] quiet_cleanup])

lemma dying_eps:
  assumes "eps_ok ks" "ti < SF_MAX_TASKS"
  shows "eps_ok (dying ti ks)"
  unfolding dying_def using eps_cleanup[OF eps_still[OF assms(1) still_release] assms(2)] .

lemma dying_base: "base_inv ks kind \<Longrightarrow> ti < SF_MAX_TASKS \<Longrightarrow> base_inv (dying ti ks) kind"
  by (rule base_quiet[OF _ dying_quiet dying_eps]) (simp_all add: base_inv_def)

lemma task_dead_alt:
  "task_dead ti st ks = reap ti (put_task ti ((ks_tasks (dying ti ks) ti)\<lparr>tk_state := T_DEAD, tk_exit_status := st\<rparr>) (dying ti ks))"
  by (simp add: task_dead_def reap_def dying_def Let_def)

lemma task_dead_good:
  assumes k: "kinv ks" and t: "ti < SF_MAX_TASKS" "tk_state (ks_tasks ks ti) \<noteq> T_DEAD"
  shows "good ks (task_dead ti st ks)"
proof -
  from k obtain kind where b: "base_inv ks kind" and e: "empty_ok {} ks" by (rule kinvE)
  define k1 where "k1 = dying ti ks"
  define k2 where "k2 = put_task ti ((ks_tasks k1 ti)\<lparr>tk_state := T_DEAD, tk_exit_status := st\<rparr>) k1"
  have q: "quiet ks k1" and b1: "base_inv k1 kind" using dying_quiet dying_base[OF b t(1)] by (simp_all add: k1_def)
  have b2: "base_inv k2 kind" unfolding k2_def
    using b1 t(1) by (intro base_put_task) (auto simp: alive_def base_inv_def pids_ok_def)
  have d: "\<forall>i<SF_MAX_TASKS. alive (ks_tasks k2 i) \<longrightarrow> tk_pid (ks_tasks k2 i) \<noteq> tk_pid (ks_tasks k2 ti)"
  proof (intro allI impI notI)
    fix i assume i: "i < SF_MAX_TASKS" "alive (ks_tasks k2 i)" "tk_pid (ks_tasks k2 i) = tk_pid (ks_tasks k2 ti)"
    then have n: "i \<noteq> ti" by (auto simp: k2_def alive_def)
    then have a: "alive (ks_tasks ks i)" "tk_pid (ks_tasks ks i) = tk_pid (ks_tasks ks ti)"
      using i quiet_alive[OF q, of i] quiet_fields(11)[OF q] by (simp_all add: k2_def)
    have "tk_pid (ks_tasks ks i) \<noteq> 0" using b i(1) a(1) by (auto simp: base_inv_def tasks_ok_def has_space_def)
    then have "tk_state (ks_tasks ks ti) \<noteq> T_EMPTY" using e t(1) a(2) by (auto simp: empty_ok_def)
    then have "alive (ks_tasks ks ti)" using t(2) by (cases "tk_state (ks_tasks ks ti)") (auto simp: alive_def)
    then show False using pids_unique[of ks i ti] b i(1) t(1) a n by (simp add: base_inv_def)
  qed
  have "base_inv (reap ti k2) kind" using base_reap[OF b2 t(1) d] .
  moreover have "empty_ok {} (reap ti k2)"
    using quiet_empty[OF q e] by (auto simp: empty_ok_def reap_fields k2_def)
  moreover have "ages ks (reap ti k2)" using quiet_age[OF q] by (auto simp: ages_def task_age_def bad_stack_def reap_fields k2_def)
  moreover have "ks_current (reap ti k2) = ks_current ks" by (simp add: reap_fields k2_def quiet_fields(3)[OF q])
  moreover have "task_dead ti st ks = reap ti k2" by (simp add: task_dead_alt k1_def k2_def)
  ultimately show ?thesis using kinvI by (simp add: good_def)
qed

section \<open>The poll of device faults\<close>

lemma still_state: "still ks ks' \<Longrightarrow> tk_state (ks_tasks ks i) \<noteq> T_DEAD \<Longrightarrow> tk_state (ks_tasks ks' i) \<noteq> T_DEAD"
  using quiet_state[OF still_quiet, of ks ks' i] by auto

lemma poll_fault_good:
  assumes k: "kinv ks"
  shows "good ks (poll_fault f ks)"
proof -
  obtain source reason address where f: "f = (source, reason, address)" by (cases f)
  define k0 where "k0 = ks\<lparr>ks_dma_status := (ks_dma_status ks)\<lparr>ds_faults := ds_faults (ks_dma_status ks) + 1, ds_source := source,
    ds_reason := reason, ds_last_address := address\<rparr>\<rparr>"
  have s0: "still ks k0" by (simp add: k0_def)
  define P where "P = (\<lambda>i. tk_pid (ks_tasks k0 i) = ks_device_owner k0 \<and> tk_device_bdf (ks_tasks k0 i) = source \<and>
    tk_state (ks_tasks k0 i) \<noteq> T_DEAD)"
  note d = poll_fault_def[of f ks, unfolded f prod.case Let_def, folded k0_def, folded P_def]
  show ?thesis
  proof (cases "first_index P SF_MAX_TASKS")
    case None
    then show ?thesis using d f good_still[OF k s0] by simp
  next
    case (Some i)
    then have i: "i < SF_MAX_TASKS" "tk_state (ks_tasks k0 i) \<noteq> T_DEAD" using first_index_SomeD[OF Some] by (simp_all add: P_def)
    define k1 where "k1 = (snd (device_release i k0))\<lparr>ks_quarantined := True\<rparr>"
    define k2 where "k2 = put_task i ((ks_tasks k1 i)\<lparr>tk_device_fault := 1\<rparr>) k1"
    have "still k0 k1" unfolding k1_def by (rule still_trans[OF still_release still_quarantine(1)])
    moreover have "still k1 k2" unfolding k2_def by (rule still_put_task) (simp_all add: woken_def)
    ultimately have s: "still k0 k2" by (rule still_trans)
    have g: "good ks k2" by (rule good_still[OF k still_trans[OF s0 s]])
    moreover have "good k2 (task_dead i (of_int (sf_code SF_DEVICE_GONE)) k2)"
      using g i(1) still_state[OF s i(2)] by (intro task_dead_good) (simp_all add: good_def)
    moreover have "poll_fault f ks = task_dead i (of_int (sf_code SF_DEVICE_GONE)) k2"
      unfolding f d Some option.case k1_def[symmetric] k2_def[symmetric] ..
    ultimately show ?thesis using good_trans by simp
  qed
qed

lemma poll_loop_good: "kinv ks \<Longrightarrow> good ks (poll_loop n ks)"
proof (induction n arbitrary: ks)
  case (Suc n)
  obtain r k1 where r: "iommu_fault ks = (r, k1)" by fastforce
  have g1: "good ks k1" using good_still[OF Suc.prems still_fault[OF r]] .
  show ?case
  proof (cases r)
    case None
    then show ?thesis using g1 r by simp
  next
    case (Some f)
    have "good k1 (poll_fault f k1)" using g1 by (intro poll_fault_good) (simp add: good_def)
    moreover from this have "good (poll_fault f k1) (poll_loop n (poll_fault f k1))" by (intro Suc.IH) (simp add: good_def)
    ultimately show ?thesis using good_trans[OF g1] good_trans r Some by auto
  qed
qed (simp add: good_refl)

lemma device_poll_good: "kinv ks \<Longrightarrow> good ks (device_poll ks)"
  by (simp add: device_poll_def poll_loop_good)

section \<open>System calls that build no task\<close>

text \<open>Changes of a task that the invariant does not see, whatever its state.\<close>

lemma kinv_tune:
  assumes k: "kinv ks" and i: "i < SF_MAX_TASKS"
    and t: "tk_pid t = tk_pid (ks_tasks ks i)" "tk_cr3 t = tk_cr3 (ks_tasks ks i)" "tk_state t = tk_state (ks_tasks ks i)"
      "tk_recv_buffer t = tk_recv_buffer (ks_tasks ks i)" "tk_caps t = tk_caps (ks_tasks ks i)"
      "tk_wait_endpoint t = tk_wait_endpoint (ks_tasks ks i)"
  shows "kinv (put_task i t ks)"
proof -
  from k obtain kind where b: "base_inv ks kind" and e: "empty_ok {} ks" by (rule kinvE)
  have un: "\<forall>j<SF_MAX_TASKS. alive (ks_tasks ks j) \<longrightarrow> tk_pid (ks_tasks ks j) = tk_pid t \<longrightarrow> j = i" if "alive t"
  proof (intro allI impI)
    fix j assume "j < SF_MAX_TASKS" "alive (ks_tasks ks j)" "tk_pid (ks_tasks ks j) = tk_pid t"
    then show "j = i" using pids_unique[of ks j i] b i that t by (simp add: base_inv_def alive_def)
  qed
  have hs: "has_space ks kind i" if "alive t" using b i that t(3) by (auto simp: base_inv_def tasks_ok_def alive_def)
  have bl: "user_range ks i (tk_recv_buffer t) (of_nat MSG_SIZE) True \<and> wait_ok ks t" if "tk_state t = T_BLOCKED"
    using b i that t by (simp add: base_inv_def tasks_ok_def eps_ok_def typed_def wait_ok_def)
  have "base_inv (put_task i t ks) kind"
  proof (rule base_put_task[OF b _ _ bl _ i])
    show "tk_pid t < ks_next_pid ks" using b i t(1) by (simp add: base_inv_def pids_ok_def)
    show "\<forall>k<32. tk_caps t k = tk_caps (ks_tasks ks i) k \<or> cp_endpoint (tk_caps t k) = 0" using t(5) by simp
    assume a: "alive t"
    show "tk_pid t = tk_pid (ks_tasks ks i) \<and> tk_cr3 t = tk_cr3 (ks_tasks ks i) \<and> has_space ks kind i \<and>
      (\<forall>j<SF_MAX_TASKS. alive (ks_tasks ks j) \<longrightarrow> tk_pid (ks_tasks ks j) = tk_pid t \<longrightarrow> j = i)"
      by (intro conjI t(1,2) hs[OF a] un[OF a])
  qed
  moreover have "empty_ok {} (put_task i t ks)" using e t by (auto simp: empty_ok_def)
  ultimately show ?thesis by (rule kinvI)
qed

lemma good_tune:
  assumes k: "kinv ks" and i: "i < SF_MAX_TASKS"
    and t: "tk_pid t = tk_pid (ks_tasks ks i)" "tk_cr3 t = tk_cr3 (ks_tasks ks i)" "tk_state t = tk_state (ks_tasks ks i)"
      "tk_recv_buffer t = tk_recv_buffer (ks_tasks ks i)" "tk_caps t = tk_caps (ks_tasks ks i)"
      "tk_wait_endpoint t = tk_wait_endpoint (ks_tasks ks i)" "fr_rsp (tk_frame t) = fr_rsp (tk_frame (ks_tasks ks i)) \<or> \<not> bad_stack t"
  shows "good ks (put_task i t ks)"
  using kinv_tune[OF k i t(1-6)] t by (auto simp: good_def ages_def task_age_def)

lemma find_task_live:
  assumes "find_task (live_pid a) ks = Some i"
  shows "i < SF_MAX_TASKS" "alive (ks_tasks ks i)"
  using first_index_SomeD[OF assms[unfolded find_task_def]] by (simp_all add: live_pid_def alive_def)

lemma page_limit_good: "kinv ks \<Longrightarrow> sys_page_limit ti a b c ks = (r, ks') \<Longrightarrow> good ks ks'"
  by (auto simp: sys_page_limit_def Let_def good_refl find_task_live intro!: good_tune split: if_splits option.splits)

lemma cap_limit_good: "kinv ks \<Longrightarrow> sys_cap_limit ti a b c ks = (r, ks') \<Longrightarrow> good ks ks'"
  by (auto simp: sys_cap_limit_def Let_def good_refl find_task_live intro!: good_tune split: if_splits option.splits)

lemma priority_good: "kinv ks \<Longrightarrow> sys_priority ti a b c ks = (r, ks') \<Longrightarrow> good ks ks'"
  by (auto simp: sys_priority_def good_refl find_task_live intro!: good_tune split: if_splits option.splits)

lemma kill_good:
  assumes k: "kinv ks" and s: "sys_kill ti a b ks = (r, ks')"
  shows "good ks ks'"
proof (cases "ks' = ks")
  case False
  then obtain i where i: "find_task (\<lambda>t. ucast (tk_pid t) = a \<and> tk_state t \<noteq> T_DEAD) ks = Some i" "ks' = task_dead i (ucast b) ks"
    using s by (auto simp: sys_kill_def split: if_splits option.splits)
  then show ?thesis using first_index_SomeD[OF i(1)[unfolded find_task_def]] by (auto intro: task_dead_good[OF k])
qed (simp add: good_refl k)

lemma status_good: "kinv ks \<Longrightarrow> sys_status ti a ks = (r, ks') \<Longrightarrow> good ks ks'"
  by (auto simp: sys_status_def good_refl split: if_splits option.splits)

lemma release_good: "kinv ks \<Longrightarrow> sys_device_release ti a ks = (r, ks') \<Longrightarrow> good ks ks'"
  by (auto simp: sys_device_release_def good_refl good_still[OF _ still_release, of ks] map_prod_def
      split: if_splits option.splits prod.splits intro: good_still[OF _ still_device_release])

lemma log_returns:
  assumes k: "kinv ks"
  shows "returns ks (sys_log ti a b ks)"
proof (cases "b > 512 \<or> \<not> user_range ks ti a b False")
  case False
  then have "unat b < 2 ^ 64" "user_range ks ti a (of_nat (unat b)) False" using unsigned_less[of b] by auto
  then obtain bs where "copy_in ks ti a (unat b) = Some (Ok bs)" using copy_in_bytes[of "unat b" ks ti a] by auto
  then show ?thesis using False good_still[OF k still_hw_out] by (simp add: sys_log_def returns_def)
qed (simp add: sys_log_def returns_same[OF k])

lemma report_returns:
  assumes "kinv ks" "ti < SF_MAX_TASKS" "alive (ks_tasks ks ti)" "length bs < 2 ^ 64"
  shows "returns ks (report ti a bs ks)"
  using copy_out_total[OF assms, of a] by (auto simp: report_def returns_def)

end
