(* ===== verification/SF_Kernel_Stage.thy ===== *)
theory SF_Kernel_Stage
  imports SF_Kernel_Calls
begin

text \<open>
  Building a task.  Between the claim of a slot and the end of construction the invariant holds
  with one exception: the slot under construction has a process number but is not live.
\<close>

section \<open>A slot under construction\<close>

definition claimed :: "nat \<Rightarrow> Kernel \<Rightarrow> (nat \<Rightarrow> page_kind) \<Rightarrow> bool" where
  "claimed ti ks kind \<longleftrightarrow> base_inv ks kind \<and> empty_ok {ti} ks \<and> ti < SF_MAX_TASKS \<and>
     tk_state (ks_tasks ks ti) = T_EMPTY \<and> tk_pid (ks_tasks ks ti) \<noteq> 0 \<and>
     (\<forall>j<SF_MAX_TASKS. alive (ks_tasks ks j) \<longrightarrow> tk_pid (ks_tasks ks j) \<noteq> tk_pid (ks_tasks ks ti))"

text \<open>With an address space, and data pages \<open>A\<close> of its own.\<close>

definition building :: "nat \<Rightarrow> nat set \<Rightarrow> Kernel \<Rightarrow> (nat \<Rightarrow> page_kind) \<Rightarrow> bool" where
  "building ti A ks kind \<longleftrightarrow> claimed ti ks kind \<and> has_space ks kind ti \<and>
     (\<forall>p\<in>A. own_page ks kind (tk_pid (ks_tasks ks ti)) PK_Data p)"

definition since :: "Kernel \<Rightarrow> Kernel \<Rightarrow> bool" where
  "since ks ks' \<longleftrightarrow> ages ks ks' \<and> ks_current ks' = ks_current ks \<and> same_places ks ks' \<and>
     (\<forall>i. tk_pid (ks_tasks ks' i) = tk_pid (ks_tasks ks i))"

lemma since_refl [simp]: "since ks ks"
  by (simp add: since_def same_places_def)

lemma since_trans: "since a b \<Longrightarrow> since b c \<Longrightarrow> since a c"
  unfolding since_def using ages_trans by (auto simp: same_places_def)

lemma since_quiet: "quiet ks ks' \<Longrightarrow> since ks ks'"
  using quiet_age quiet_fields(3,11) quiet_places by (simp add: since_def)

lemma mem_only_frame:
  assumes "mem_only ks ks'"
  shows "tk_frame (ks_tasks ks' i) = tk_frame (ks_tasks ks i)"
proof -
  obtain n where "ks_tasks ks' i = (ks_tasks ks i)\<lparr>tk_page_count := n\<rparr>" using assms by (auto simp: mem_only_def)
  then show ?thesis by simp
qed

lemma since_grows: "grows ks kind ks' kind' \<Longrightarrow> since ks ks'"
  using mem_only_fields[OF growsD(1)] mem_only_places[OF growsD(1)] mem_only_frame[OF growsD(1)]
  by (simp add: since_def ages_def task_age_same)

lemma since_phys [simp]: "since ks (set_phys f ks)"
  by (simp add: since_def ages_def set_phys_places)

lemma claimed_grows:
  assumes c: "claimed ti ks kind" and s: "spaces_ok ks' kind'" and g: "grows ks kind ks' kind'"
  shows "claimed ti ks' kind'"
  using c base_grows[OF _ s g] grows_empty[OF g] unfolding claimed_def grows_alive[OF g] mem_only_fields[OF growsD(1)[OF g]] by blast

lemma building_grows:
  assumes b: "building ti A ks kind" and s: "spaces_ok ks' kind'" and g: "grows ks kind ks' kind'"
  shows "building ti A ks' kind'"
proof -
  have "tk_pid (ks_tasks ks ti) \<noteq> 0" using b by (simp add: building_def claimed_def)
  then show ?thesis
    using b claimed_grows[OF _ s g] grows_has_space[OF g] own_page_kept[OF growsD(2)[OF g]]
    unfolding building_def mem_only_fields[OF growsD(1)[OF g]] by blast
qed

lemma claimed_quiet:
  assumes c: "claimed ti ks kind" and q: "quiet ks ks'" and e: "eps_ok ks'"
  shows "claimed ti ks' kind"
proof -
  have "tk_state (ks_tasks ks' ti) = T_EMPTY" using c quiet_state[OF q, of ti] by (auto simp: claimed_def)
  then show ?thesis using c base_quiet[OF _ q e] quiet_empty[OF q]
    unfolding claimed_def quiet_alive[OF q] quiet_fields(11)[OF q] by blast
qed

lemma building_quiet: "building ti A ks kind \<Longrightarrow> quiet ks ks' \<Longrightarrow> eps_ok ks' \<Longrightarrow> building ti A ks' kind"
  unfolding building_def by (simp add: quiet_fields(11) quiet_space quiet_own_page claimed_quiet[of ti ks kind ks'])

lemma building_still: "building ti A ks kind \<Longrightarrow> still ks ks' \<Longrightarrow> building ti A ks' kind"
  using building_quiet[OF _ still_quiet, of ti A ks kind ks'] eps_still[of ks ks']
  by (simp add: building_def claimed_def base_inv_def)

lemma building_store:
  assumes b: "building ti A ks kind" and t: "tables_same ks kind (f (ks_phys ks))"
  shows "building ti A (set_phys f ks) kind"
  using b base_store[where f = f, OF _ t] tables_same_space[where f = f, OF _ t]
  unfolding building_def claimed_def by (simp add: empty_ok_def own_page_def pool_addr_def)

section \<open>Stages\<close>

text \<open>Construction has come from \<open>k0\<close> to \<open>ks\<close>.\<close>

definition stage :: "nat \<Rightarrow> nat set \<Rightarrow> Kernel \<Rightarrow> Kernel \<Rightarrow> bool" where
  "stage ti A k0 ks \<longleftrightarrow> (\<exists>kind. building ti A ks kind) \<and> since k0 ks"

lemma stageE:
  assumes "stage ti A k0 ks"
  obtains kind where "building ti A ks kind" "since k0 ks" "layout_ok ks" "spaces_ok ks kind" "has_space ks kind ti" "kernel_layout ks"
  using assms by (auto simp: stage_def building_def claimed_def base_inv_def kernel_layout_def)

lemma stage_grows: "stage ti A k0 ks \<Longrightarrow> building ti A ks kind \<Longrightarrow> spaces_ok ks' kind' \<Longrightarrow> grows ks kind ks' kind' \<Longrightarrow> stage ti A k0 ks'"
  unfolding stage_def using building_grows since_trans[OF _ since_grows] by blast

lemma stage_quiet: "stage ti A k0 ks \<Longrightarrow> quiet ks ks' \<Longrightarrow> eps_ok ks' \<Longrightarrow> stage ti A k0 ks'"
  unfolding stage_def using building_quiet since_trans[OF _ since_quiet] by blast

lemma stage_still: "stage ti A k0 ks \<Longrightarrow> still ks ks' \<Longrightarrow> stage ti A k0 ks'"
  unfolding stage_def using building_still since_trans[OF _ since_quiet[OF still_quiet]] by blast

lemma stage_eps: "stage ti A k0 ks \<Longrightarrow> eps_ok ks"
  by (auto simp: stage_def building_def claimed_def base_inv_def)

lemma stage_mono: "stage ti A k0 ks \<Longrightarrow> B \<subseteq> A \<Longrightarrow> stage ti B k0 ks"
  unfolding stage_def building_def by blast

lemma stage_store:
  assumes s: "stage ti A k0 ks" and p: "p \<in> A" and l: "off + length bs \<le> 4096"
  shows "stage ti A k0 (set_phys (store (p + off) bs) ks)"
proof -
  from s obtain kind where b: "building ti A ks kind" "since k0 ks" "layout_ok ks" by (rule stageE)
  have "own_page ks kind (tk_pid (ks_tasks ks ti)) PK_Data p" using b(1) p by (simp add: building_def)
  then have t: "tables_same ks kind (store (p + off) bs (ks_phys ks))" using page_tables[OF b(3) _ l] by blast
  show ?thesis using building_store[where f = "store (p + off) bs", OF b(1) t] since_trans[OF b(2) since_phys]
    by (auto simp: stage_def)
qed

lemma le_lengths [simp]: "length (le16 h) = 2" "length (le32 w) = 4"
  by (simp_all add: le16_def le32_def)

lemma stage_st16: "stage ti A k0 ks \<Longrightarrow> p \<in> A \<Longrightarrow> off + 2 \<le> 4096 \<Longrightarrow> stage ti A k0 (st16 (p + off) v ks)"
  unfolding st16_def by (rule stage_store) simp_all

lemma stage_st32: "stage ti A k0 ks \<Longrightarrow> p \<in> A \<Longrightarrow> off + 4 \<le> 4096 \<Longrightarrow> stage ti A k0 (st32 (p + off) v ks)"
  unfolding st32_def by (rule stage_store) simp_all

lemma wr64_store: "wr64 a v = store a (map (\<lambda>i. ucast (drop_bit (8 * i) v)) [0..<8])"
  by (auto simp: wr64_def store_def fun_eq_iff)

lemma stage_st64: "stage ti A k0 ks \<Longrightarrow> p \<in> A \<Longrightarrow> off + 8 \<le> 4096 \<Longrightarrow> stage ti A k0 (st64 (p + off) v ks)"
  unfolding st64_def wr64_store by (rule stage_store) simp_all

text \<open>A build step that returns and keeps a condition.\<close>

definition keeps :: "(Kernel \<Rightarrow> bool) \<Rightarrow> build \<Rightarrow> bool" where
  "keeps Q f \<longleftrightarrow> (\<forall>ks. Q ks \<longrightarrow> (\<exists>r ks'. f ks = Some (r, ks') \<and> Q ks'))"

lemma keepsD: "keeps Q f \<Longrightarrow> Q ks \<Longrightarrow> \<exists>r ks'. f ks = Some (r, ks') \<and> Q ks'"
  by (simp add: keeps_def)

lemma keeps_try_all:
  assumes "\<And>f. f \<in> set fs \<Longrightarrow> keeps Q f"
  shows "keeps Q (try_all fs)"
  using assms
proof (induction fs)
  case (Cons f fs)
  show ?case unfolding keeps_def
  proof (intro allI impI)
    fix ks assume "Q ks"
    then obtain r k1 where f: "f ks = Some (r, k1)" "Q k1" using Cons.prems[of f] keepsD by fastforce
    show "\<exists>r ks'. try_all (f # fs) ks = Some (r, ks') \<and> Q ks'"
    proof (cases r)
      case (Inl e)
      then show ?thesis using f by simp
    next
      case (Inr u)
      then show ?thesis using f keepsD[OF Cons.IH, of k1] Cons.prems by simp
    qed
  qed
qed (simp add: keeps_def)

section \<open>Fresh pages\<close>

lemma map_fresh_stage:
  assumes s: "stage ti A k0 ks" and m: "map_fresh ti v fl ks = (r, ks')"
  shows "(\<forall>e. r = Err e \<longrightarrow> stage ti A k0 ks') \<and> (\<forall>p. r = Ok p \<longrightarrow> stage ti (insert p A) k0 ks')"
proof -
  from s obtain kind where b: "building ti A ks kind" "since k0 ks" "layout_ok ks" "spaces_ok ks kind" "has_space ks kind ti"
    by (rule stageE)
  let ?pid = "tk_pid (ks_tasks ks ti)"
  obtain q k1 where a: "page_alloc ks ?pid = (q, k1)" by fastforce
  show ?thesis
  proof (cases q)
    case None
    then show ?thesis using m a page_alloc_None[of ks ?pid k1] s by (auto simp: map_fresh_def)
  next
    case (Some page)
    obtain i where i: "i < POOL_PAGES" "page = pool_addr ks i" "ks_page_owner k1 i = ?pid" "?pid \<noteq> 0"
      and g: "\<forall>k. grows ks kind k1 (kind(i := k))" "\<forall>k. spaces_ok k1 (kind(i := k))"
      by (rule grows_alloc[OF b(4) a[unfolded Some]])
    define kd where "kd = kind(i := PK_Data)"
    have g1: "grows ks kind k1 kd" "spaces_ok k1 kd" using g by (simp_all add: kd_def)
    note f = mem_only_fields[OF growsD(1)[OF g1(1)]]
    have l1: "layout_ok k1" using pages_kept_layout[OF growsD(2)[OF g1(1)]] b(3) by simp
    have h1: "has_space k1 kd ti" using grows_has_space[OF g1(1) b(5)] .
    have pg: "page < 2 ^ 52" using pool_outside_layout[OF b(3) i(1)] i(2) by simp
    have own: "own_page k1 kd ?pid PK_Data page"
      using i pages_kept_addr[OF growsD(2)[OF g1(1)]] by (auto simp: own_page_def kd_def)
    have un: "unat (of_nat page :: u64) = page" using pg by (simp add: unat_of_nat)
    have mp: "mappable k1 kd (tk_pid (ks_tasks k1 ti)) (of_nat page) fl"
      using own pg by (simp add: mappable_def user_frame_def f un)
    obtain x k2 where x: "space_map k1 ti v (of_nat page) fl = (x, k2)" by fastforce
    from space_map_step[OF l1 g1(2) h1 mp x] obtain k' where k': "spaces_ok k2 k'" "grows k1 kd k2 k'" by blast
    have st: "stage ti A k0 k2" using stage_grows[OF s b(1) k'(1) grows_trans[OF g1(1) k'(2)]] .
    have "building ti (insert page A) k2 k'"
      using building_grows[OF b(1) k'(1) grows_trans[OF g1(1) k'(2)]] own_page_kept[OF growsD(2)[OF k'(2)] i(4) own]
      by (auto simp: building_def mem_only_fields[OF growsD(1)[OF k'(2)]] f)
    then have "stage ti (insert page A) k0 k2" using st by (auto simp: stage_def)
    then show ?thesis using m a Some x st by (auto simp: map_fresh_def split: sum.splits)
  qed
qed

lemma copy_in_short:
  assumes "n \<le> 4096"
  obtains "copy_in ks pi a n = Some (Err SF_DENIED)" | bs where "copy_in ks pi a n = Some (Ok bs)" "length bs = n"
  using copy_in_bytes[of n ks pi a] assms by (auto split: if_splits)

lemma build_page_keeps: "keeps (stage ti A k0) (build_page ti parent base s off)"
  unfolding keeps_def
proof (intro allI impI)
  fix ks assume s: "stage ti A k0 ks"
  obtain x k1 where m: "map_fresh ti (base + sg_rva s + off) (sg_flags s) ks = (x, k1)" by fastforce
  note st = map_fresh_stage[OF s m]
  let ?n = "min 4096 (unat (sg_bytes s - off))"
  show "\<exists>r ks'. build_page ti parent base s off ks = Some (r, ks') \<and> stage ti A k0 ks'"
  proof (cases x)
    case (Inl e)
    then show ?thesis using m st by (simp add: build_page_def)
  next
    case (Inr page)
    have S: "stage ti (insert page A) k0 k1" using st Inr by simp
    have P: "stage ti A k0 (set_phys (store page bs) k1)" if "length bs = ?n" for bs
      using stage_mono[OF stage_store[OF S, of page 0 bs]] that by auto
    show ?thesis
    proof (cases parent)
      case None
      have "length (load (unat (sg_data s + off)) ?n (ks_phys k1)) = ?n" by (simp add: load_def)
      from P[OF this] show ?thesis using m Inr None by (auto simp: build_page_def Let_def)
    next
      case (Some pi)
      have "?n \<le> 4096" by simp
      then show ?thesis
      proof (cases rule: copy_in_short[of ?n k1 pi "sg_data s + off"])
        case 1
        then show ?thesis using m Inr Some stage_mono[OF S subset_insertI] by (auto simp: build_page_def Let_def)
      next
        case (2 bs)
        then show ?thesis using m Inr Some P[OF 2(2)] by (auto simp: build_page_def Let_def)
      qed
    qed
  qed
qed

lemma build_segment_keeps: "keeps (stage ti A k0) (build_segment ti parent base s)"
  unfolding build_segment_def by (rule keeps_try_all) (auto intro: build_page_keeps)

lemma build_stack_keeps: "keeps (stage ti A k0) (build_stack_page ti i)"
  unfolding keeps_def
proof (intro allI impI)
  fix ks assume s: "stage ti A k0 ks"
  obtain x k1 where m: "map_fresh ti (SF_STACK - of_nat i * 4096) 3 ks = (x, k1)" by fastforce
  show "\<exists>r ks'. build_stack_page ti i ks = Some (r, ks') \<and> stage ti A k0 ks'"
    using map_fresh_stage[OF s m] m stage_mono[OF _ subset_insertI] by (cases x) (auto simp: build_stack_page_def)
qed

section \<open>The argument page\<close>

lemma arguments_short: "sf_arguments_validate (Some a) = Ok () \<Longrightarrow> unat (ar_bytes a) \<le> 512"
  by (auto simp: sf_arguments_validate_def payload_def Let_def SF_ARGUMENT_BYTES_def split: if_splits)

lemma header_stage:
  assumes "stage ti A k0 ks" "args \<in> A" "unat (ar_bytes a) \<le> 512"
  shows "stage ti A k0 (build_header args a pid ks)"
proof -
  note st = stage_st32[where p = args, OF _ assms(2)] stage_st16[where p = args, OF _ assms(2)]
  have z: "stage ti A k0 (st32 args v k)" if "stage ti A k0 k" for v k using stage_st32[OF that assms(2), of 0] by simp
  have d: "stage ti A k0 (set_phys (store (args + BOOT_ARGS) (take (unat (ar_bytes a)) (ar_data a))) k)" if "stage ti A k0 k" for k
    using stage_store[OF that assms(2), of BOOT_ARGS "take (unat (ar_bytes a)) (ar_data a)"] assms(3) by (simp add: BOOT_ARGS_def)
  show ?thesis unfolding build_header_def Let_def by (auto intro!: d st z assms(1))
qed

section \<open>The bundle\<close>

lemma page_offset_below:
  assumes "off \<in> set (page_offsets n)" "unat n \<le> 2 ^ 30"
  shows "unat off < unat n" "unat off mod 4096 = 0"
proof -
  from assms(1) obtain i where i: "i < (unat n + 4095) div 4096" "off = of_nat i * 4096" by (auto simp: page_offsets_def)
  have l: "i * 4096 < unat n" using i(1) by linarith
  then have "i * 4096 < 2 ^ LENGTH(64)" using assms(2) by simp
  then have "unat (of_nat (i * 4096) :: u64) = i * 4096" unfolding unat_of_nat by (rule mod_less)
  then have "unat off = i * 4096" using i(2) by simp
  then show "unat off < unat n" "unat off mod 4096 = 0" using l by simp_all
qed

lemma bundle_mappable:
  assumes l: "kernel_layout ks" and off: "unat off < unat (ks_bundle_bytes ks)"
  shows "mappable ks kind pid (ks_bundle_phys ks + off) 1"
proof -
  have b: "unat (ks_bundle_phys ks) + unat (ks_bundle_bytes ks) \<le> 2 ^ 30" using l by (simp add: kernel_layout_def)
  then have "unat (ks_bundle_phys ks + off) = unat (ks_bundle_phys ks) + unat off" using off by (intro unat_add_lem[THEN iffD1]) simp
  then show ?thesis using b off by (simp add: mappable_def bundle_page_def)
qed

lemma bundle_page_keeps:
  assumes "unat off < unat (ks_bundle_bytes k0)"
  shows "keeps (stage ti A k0) (\<lambda>ks. case space_map ks ti (SF_BUNDLE + off) (ks_bundle_phys ks + off) 1 of
            (Err _, ks) \<Rightarrow> Some (Err SF_NO_SPACE, ks) | (Ok _, ks) \<Rightarrow> Some (Ok (), ks))"
  unfolding keeps_def
proof (intro allI impI)
  fix ks assume s: "stage ti A k0 ks"
  then obtain kind where b: "building ti A ks kind" "since k0 ks" "layout_ok ks" "spaces_ok ks kind" "has_space ks kind ti" "kernel_layout ks"
    by (rule stageE)
  have off: "unat off < unat (ks_bundle_bytes ks)" using assms b(2) by (simp add: since_def same_places_def)
  obtain x k1 where x: "space_map ks ti (SF_BUNDLE + off) (ks_bundle_phys ks + off) 1 = (x, k1)" by fastforce
  from space_map_step[OF b(3-5) bundle_mappable[OF b(6) off] x] have "stage ti A k0 k1" using stage_grows[OF s b(1)] by blast
  then show "\<exists>r ks'. (case space_map ks ti (SF_BUNDLE + off) (ks_bundle_phys ks + off) 1 of
            (Err _, ks) \<Rightarrow> Some (Err SF_NO_SPACE, ks) | (Ok _, ks) \<Rightarrow> Some (Ok (), ks)) = Some (r, ks') \<and> stage ti A k0 ks'"
    using x by (cases x) auto
qed

lemma build_bundle_keeps:
  assumes p: "args \<in> A"
  shows "keeps (stage ti A k0) (build_bundle ti args)"
  unfolding keeps_def
proof (intro allI impI)
  fix ks assume s: "stage ti A k0 ks"
  then obtain kind where b: "since k0 ks" "kernel_layout ks" by (rule stageE)
  have eq: "ks_bundle_bytes ks = ks_bundle_bytes k0" using b(1) by (simp add: since_def same_places_def)
  have sm: "unat (ks_bundle_bytes k0) \<le> 2 ^ 30" using b(2) eq by (simp add: kernel_layout_def)
  let ?f = "\<lambda>off ks. case space_map ks ti (SF_BUNDLE + off) (ks_bundle_phys ks + off) 1 of
            (Err _, ks) \<Rightarrow> Some (Err SF_NO_SPACE, ks) | (Ok _, ks) \<Rightarrow> Some (Ok (), ks)"
  have "keeps (stage ti A k0) (try_all (map ?f (page_offsets (ks_bundle_bytes k0))))"
    by (rule keeps_try_all) (use page_offset_below(1)[OF _ sm] bundle_page_keeps in auto)
  from keepsD[OF this s] obtain r k1 where r: "try_all (map ?f (page_offsets (ks_bundle_bytes k0))) ks = Some (r, k1)" "stage ti A k0 k1"
    by blast
  have "stage ti A k0 (st64 (args + 16) (ks_bundle_bytes k1) (st64 (args + 8) SF_BUNDLE k1))"
    by (intro stage_st64 r(2) p) simp_all
  then show "\<exists>r ks'. build_bundle ti args ks = Some (r, ks') \<and> stage ti A k0 ks'"
    using r by (cases r) (auto simp: build_bundle_def eq)
qed

section \<open>Grants of endpoints\<close>

lemma build_grant_keeps:
  assumes p: "args \<in> A" "off + 4 \<le> 4096" and s: "pi < SF_MAX_TASKS"
  shows "keeps (stage ti A k0) (build_grant ti pi h rights (args + off))"
  unfolding keeps_def
proof (intro allI impI)
  fix ks assume st: "stage ti A k0 ks"
  obtain v k1 where g: "ipc_grant ks pi ti h rights = (v, k1)" by fastforce
  have "stage ti A k0 k1" using stage_quiet[OF st quiet_grant[OF g]] eps_grant[OF stage_eps[OF st] s g] by blast
  then show "\<exists>r ks'. build_grant ti pi h rights (args + off) ks = Some (r, ks') \<and> stage ti A k0 ks'"
    using g stage_st32[OF _ p] by (simp add: build_grant_def)
qed

section \<open>The grant of a device\<close>

lemma stage_config: "stage ti A k0 ks \<Longrightarrow> config_read bdf off ks = (v, ks') \<Longrightarrow> stage ti A k0 ks'"
  using stage_still still_config by blast

lemma still_caps: "virtio_caps n bdf cp found ks = (r, ks') \<Longrightarrow> still ks ks'"
proof (induction n arbitrary: cp found ks)
  case (Suc n)
  show ?case
  proof (cases "cp = 0 \<or> (cp < 0x40 \<or> cp > 0xfc \<or> cp AND 3 \<noteq> 0)")
    case True
    then show ?thesis using Suc.prems by (auto split: if_splits)
  next
    case c1: False
    then have c0: "cp \<noteq> 0" "\<not> (cp < 0x40 \<or> cp > 0xfc \<or> cp AND 3 \<noteq> 0)" by auto
    obtain h k1 where h: "config_read bdf cp ks = (h, k1)" by fastforce
    note d = virtio_caps.simps(2)[of n bdf cp found ks, unfolded if_not_P[OF c0(1)] if_not_P[OF c0(2)] h prod.case]
    note s1 = still_config[OF h]
    show ?thesis
    proof (cases "h AND 255 \<noteq> 9")
      case True
      show ?thesis using Suc.IH[OF Suc.prems[unfolded d[unfolded if_P[OF True]]]] still_trans[OF s1] by blast
    next
      case c2: False
      let ?kind = "drop_bit 24 h" and ?len = "drop_bit 16 h AND 255"
      note d2 = d[unfolded if_not_P[OF c2] Let_def]
      show ?thesis
      proof (cases "?len < 16 \<or> cp > 240")
        case True
        show ?thesis using Suc.prems[unfolded d2[unfolded if_P[OF True]]] s1 by simp
      next
        case c3: False
        obtain a k2 where a: "config_read bdf (cp + 4) k1 = (a, k2)" by fastforce
        obtain b k3 where b: "config_read bdf (cp + 8) k2 = (b, k3)" by fastforce
        obtain c k4 where c: "config_read bdf (cp + 12) k3 = (c, k4)" by fastforce
        have s4: "still ks k4"
          using still_trans[OF s1 still_trans[OF still_config[OF a] still_trans[OF still_config[OF b] still_config[OF c]]]] .
        note d3 = d2[unfolded if_not_P[OF c3] a b c prod.case]
        let ?p = "?kind = 2 \<and> b = 0x3000 \<and> c \<ge> 2 \<and> ?len \<ge> 20 \<and> cp \<le> 236"
        obtain m k5 where m: "(if ?p then config_read bdf (cp + 16) k4 else (0, k4)) = (m, k5)" by fastforce
        have "still k4 k5" using m still_config by (auto split: if_splits)
        then have s5: "still ks k5" using still_trans[OF s4] by blast
        note d4 = d3[unfolded m prod.case]
        show ?thesis
        proof (cases "(?kind = 1 \<or> ?kind = 2 \<or> ?kind = 4) \<and> a AND 255 \<noteq> 4")
          case True
          show ?thesis using Suc.prems[unfolded d4[unfolded if_P[OF True]]] s4 by simp
        next
          case c4: False
          note d5 = d4[unfolded if_not_P[OF c4]]
          show ?thesis using Suc.IH[OF Suc.prems[unfolded d5]] still_trans[OF s5] by blast
        qed
      qed
    qed
  qed
qed simp

end
