(* ===== verification/SF_Kernel_Spawn.thy ===== *)
theory SF_Kernel_Spawn
  imports SF_Kernel_Stage
begin

text \<open>
  Creation of a task keeps the invariant of the kernel, whether it succeeds or fails at any stage:
  the grants, the undoing of a failed start, the claim of a slot and the system call.
\<close>

text \<open>Stages of a grant, with the owner of the arena.\<close>

definition owned :: "nat \<Rightarrow> nat set \<Rightarrow> Kernel \<Rightarrow> u32 \<Rightarrow> Kernel \<Rightarrow> bool" where
  "owned ti A k0 d ks \<longleftrightarrow> stage ti A k0 ks \<and> ks_device_owner ks = d"

lemma owned_still: "owned ti A k0 d ks \<Longrightarrow> still ks ks' \<Longrightarrow> owned ti A k0 d ks'"
  using stage_still quiet_fields(4)[OF still_quiet] by (auto simp: owned_def)

lemma owned_config: "owned ti A k0 d ks \<Longrightarrow> config_read bdf off ks = (v, ks') \<Longrightarrow> owned ti A k0 d ks'"
  using owned_still still_config by blast

lemma owned_apart:
  assumes s: "owned ti A k0 d ks" and a: "apart ks a" "j < 512"
  shows "owned ti A k0 d (set_phys (wr64 (a + 8 * j) v) ks)"
proof -
  from s obtain kind where b: "building ti A ks kind" "since k0 ks" "ks_device_owner ks = d" by (auto simp: owned_def stage_def)
  show ?thesis
    using building_store[where f = "wr64 (a + 8 * j) v", OF b(1) apart_word[OF a]] since_trans[OF b(2) since_phys] b(3)
    by (auto simp: owned_def stage_def)
qed

lemma owned_layout: "owned ti A k0 d ks \<Longrightarrow> kernel_layout ks"
  by (auto simp: owned_def elim: stageE)

lemma owned_mmio:
  assumes s: "owned ti A k0 d ks" and m: "space_device_mmio ks p = (r, ks')"
  shows "owned ti A k0 d ks'"
proof -
  define k1 where "k1 = set_phys (wr64 (ks_device_pt ks + 8 * 0) (p OR 0x1b OR NX)) ks"
  define k2 where "k2 = set_phys (wr64 (ks_mmio_pd k1 + 8 * 511) (of_nat (ks_device_pt k1) OR 3)) k1"
  define k3 where "k3 = set_phys (wr64 (ks_boot_mmio_pd k2 + 8 * 511) (of_nat (ks_device_pt k2) OR 3)) k2"
  have lay: "apart k (ks_device_pt k)" "apart k (ks_mmio_pd k)" "apart k (ks_boot_mmio_pd k)" if "owned ti A k0 d k" for k
    using owned_layout[OF that] by (simp_all add: kernel_layout_def)
  have "owned ti A k0 d k1" unfolding k1_def using s lay(1)[OF s] by (rule owned_apart) simp
  then have "owned ti A k0 d k2" unfolding k2_def using lay(2) by (intro owned_apart) simp_all
  then have "owned ti A k0 d k3" unfolding k3_def using lay(3) by (intro owned_apart) simp_all
  moreover have "ks' = ks \<or> ks' = k3" using m by (auto simp: space_device_mmio_def k1_def k2_def k3_def Let_def split: if_splits)
  ultimately show ?thesis using s by auto
qed

lemma window_stage:
  assumes s: "owned ti A k0 d ks" and w: "modern_window bdf bar ks = (r, ks')"
  shows "owned ti A k0 d ks' \<and> (\<forall>p. r = Ok p \<longrightarrow> unat p + 4096 * 4 \<le> 2 ^ 52)"
proof (cases "im_mode (ks_iommu ks) \<noteq> 1 \<or> bar AND 7 \<noteq> 4")
  case True
  then show ?thesis using w s by (auto simp: modern_window_def)
next
  case c1: False
  obtain hi k1 where hi: "config_read bdf 36 ks = (hi, k1)" by fastforce
  note s1 = owned_config[OF s hi]
  define p :: u64 where "p = push_bit 32 (ucast hi) OR ucast (bar AND NOT 15)"
  note w1 = w[unfolded modern_window_def if_not_P[OF c1] hi Let_def prod.case, folded p_def]
  show ?thesis
  proof (cases "p AND 16383 \<noteq> 0 \<or> p < 0xc0000000 \<or> p \<ge> 0x1000000000000 - 16384")
    case True
    then show ?thesis using w1[unfolded if_P[OF True]] s1 by auto
  next
    case c2: False
    then have pb: "unat p + 4096 * 4 \<le> 2 ^ 52" by (simp add: word_le_nat_alt)
    obtain f k2 where f: "config_read bdf 0x34 k1 = (f, k2)" by fastforce
    obtain v k3 where v: "virtio_caps 48 bdf (f AND 255) 0 k2 = (v, k3)" by fastforce
    note w2 = w1[unfolded if_not_P[OF c2] f prod.case v]
    have s3: "owned ti A k0 d k3" using owned_still[OF owned_config[OF s1 f] still_caps[OF v]] .
    obtain x k4 where x: "space_device_mmio k3 p = (x, k4)" by fastforce
    have "(r, ks') \<in> {(Err e, k3) | e. True} \<union> {(Err SF_DENIED, k4), (Ok p, k4)}"
      using w2 x by (auto split: sum.splits if_splits)
    then show ?thesis using s3 owned_mmio[OF s3 x] pb by auto
  qed
qed

section \<open>Runs of mappings\<close>

lemma owned_grows:
  assumes s: "owned ti A k0 d ks" and b: "building ti A ks kind" and k: "spaces_ok ks' kind'" "grows ks kind ks' kind'"
  shows "owned ti A k0 d ks'"
  using s stage_grows[OF _ b k] mem_only_fields(7)[OF growsD(1)[OF k(2)]] by (simp add: owned_def)

lemma mmio_run_stage:
  "owned ti A k0 d ks \<Longrightarrow> unat p + 4096 * n \<le> 2 ^ 52 \<Longrightarrow> map_run space_map_mmio ti v p n ks = (ok, ks') \<Longrightarrow> owned ti A k0 d ks'"
proof (induction n arbitrary: v p ks)
  case (Suc n)
  then obtain kind where b: "building ti A ks kind" "layout_ok ks" "spaces_ok ks kind" "has_space ks kind ti"
    by (auto simp: owned_def elim: stageE)
  obtain x k1 where x: "space_map_mmio ks ti v p = (x, k1)" by fastforce
  have "unat p < 2 ^ 52" using Suc.prems(2) by simp
  from space_map_mmio_step[OF b(2-4) this x] have s1: "owned ti A k0 d k1" using owned_grows[OF Suc.prems(1) b(1)] by blast
  have "unat (p + 4096) = unat p + 4096" using Suc.prems(2) by (intro unat_add_lem[THEN iffD1, of p 4096, simplified]) simp
  then show ?case using Suc.IH[OF s1, of "p + 4096" "v + 4096"] Suc.prems(2,3) x s1 by (cases x) auto
qed simp

lemma dma_run_stage:
  "owned ti A k0 (tk_pid (ks_tasks ks ti)) ks \<Longrightarrow> unat p = ks_dma ks + off \<Longrightarrow> off + 4096 * n \<le> SF_DMA_BYTES \<Longrightarrow>
   map_run (\<lambda>ks ti v p. space_map ks ti v p 3) ti v p n ks = (ok, ks') \<Longrightarrow>
   owned ti A k0 (tk_pid (ks_tasks ks ti)) ks' \<and> tk_pid (ks_tasks ks' ti) = tk_pid (ks_tasks ks ti)"
proof (induction n arbitrary: v p off ks)
  case (Suc n)
  from Suc.prems(1) obtain kind where b: "building ti A ks kind" "layout_ok ks" "spaces_ok ks kind" "has_space ks kind ti"
    by (auto simp: owned_def elim: stageE)
  obtain x k1 where x: "space_map ks ti v p 3 = (x, k1)" by fastforce
  have dm: "ks_dma ks + SF_DMA_BYTES \<le> 2 ^ 30" using b(2) by (simp add: layout_ok_def)
  then have pb: "unat p + 4096 * Suc n \<le> 2 ^ 30" using Suc.prems(2,3) by linarith
  have "mappable ks kind (tk_pid (ks_tasks ks ti)) p 3"
    using Suc.prems(1-3) pb by (simp add: mappable_def user_frame_def dma_page_def owned_def)
  from space_map_step[OF b(2-4) this x] obtain kd where k: "spaces_ok k1 kd" "grows ks kind k1 kd" by blast
  note s1 = owned_grows[OF Suc.prems(1) b(1) k] and f = mem_only_fields[OF growsD(1)[OF k(2)]]
  have un: "unat (p + 4096) = unat p + 4096" using pb by (intro unat_add_lem[THEN iffD1, of p 4096, simplified]) simp
  show ?case
  proof (cases x)
    case (Inl e)
    then show ?thesis using Suc.prems(4) x s1 f by simp
  next
    case (Inr u)
    have "map_run (\<lambda>ks ti v p. space_map ks ti v p 3) ti (v + 4096) (p + 4096) n k1 = (ok, ks')" using Suc.prems(4) x Inr by simp
    with Suc.IH[of k1 "p + 4096" "off + 4096" "v + 4096"] show ?thesis using s1 f Suc.prems(2,3) un by simp
  qed
qed simp

section \<open>Attaching the device\<close>

lemma owned_take:
  assumes "owned ti A k0 0 ks"
  shows "owned ti A k0 (tk_pid (ks_tasks ks ti)) (ks\<lparr>ks_device_owner := tk_pid (ks_tasks ks ti)\<rparr>)"
proof -
  let ?ks = "ks\<lparr>ks_device_owner := tk_pid (ks_tasks ks ti)\<rparr>"
  from assms obtain kind where b: "building ti A ks kind" "since k0 ks" "ks_device_owner ks = 0" by (auto simp: owned_def stage_def)
  have "base_inv ks kind" using b(1) by (simp add: building_def claimed_def)
  then have "base_inv ?ks kind" using b(3) by (intro base_owner) simp_all
  moreover have "own_page ?ks kind p k q = own_page ks kind p k q" for p k q by (simp add: own_page_def pool_addr_def)
  ultimately have "building ti A ?ks kind" using b(1) by (simp add: building_def claimed_def empty_ok_def has_space_def)
  moreover have "since k0 ?ks" by (rule since_trans[OF b(2)]) (simp add: since_def ages_def same_places_def)
  ultimately show ?thesis by (auto simp: owned_def stage_def)
qed

lemma owned_clear:
  assumes "owned ti A k0 d ks"
  shows "owned ti A k0 d (set_phys (store (ks_dma ks) (replicate SF_DMA_BYTES 0)) ks)"
proof -
  from assms obtain kind where b: "building ti A ks kind" "since k0 ks" "layout_ok ks" "ks_device_owner ks = d"
    by (auto simp: owned_def elim: stageE)
  have t: "tables_same ks kind (store (ks_dma ks) (replicate SF_DMA_BYTES 0) (ks_phys ks))"
    using dma_tables[OF b(3), of 0 "replicate SF_DMA_BYTES 0"] by simp
  show ?thesis
    using building_store[where f = "store (ks_dma ks) (replicate SF_DMA_BYTES 0)", OF b(1) t] since_trans[OF b(2) since_phys] b(4)
    by (auto simp: owned_def stage_def)
qed

lemma owned_tune:
  assumes "owned ti A k0 d ks" "woken (ks_tasks ks ti) t" "tk_caps t = tk_caps (ks_tasks ks ti)"
  shows "owned ti A k0 d (put_task ti t ks)"
  using owned_still[OF assms(1) still_put_task[OF assms(2,3)]] .

lemma stage_give_up: "stage ti A k0 ks \<Longrightarrow> give_up ti e ks = (r, ks') \<Longrightarrow> stage ti A k0 ks'"
  using stage_still[OF _ still_release] by (auto simp: give_up_def)

text \<open>The tail of a grant, after the arena has an owner.\<close>

lemma attach_tail_stage:
  assumes s: "stage ti A k0 ks" and p: "args \<in> A"
    and t: "(let (command, ks) = config_read bdf 4 ks;
                 enable = (if modern then 6 else 5);
                 ks = config_write_command bdf (ucast command OR enable) ks;
                 (now, ks) = config_read bdf 4 ks
             in if ucast now AND enable \<noteq> (enable :: u16) then give_up ti SF_DEVICE_GONE ks
                else let ks = st64 (args + 72) SF_DMA ks;
                         ks = st64 (args + 80) bus_address ks;
                         ks = st32 (args + 88) (tk_device_io (ks_tasks ks ti)) ks;
                         ks = st16 (args + 92) (ucast bdf) ks;
                         ks = st16 (args + 94) (ucast (rights OR (if im_mode (ks_iommu ks) = 1 then 2 else 0) OR
                                (if modern then 4 else 0))) ks
                  in (Ok (), ks)) = (r, ks')"
  shows "stage ti A k0 ks'"
proof -
  obtain c k1 where c: "config_read bdf 4 ks = (c, k1)" by fastforce
  define en :: u16 where "en = (if modern then 6 else 5)"
  define k2 where "k2 = config_write_command bdf (ucast c OR en) k1"
  obtain n k3 where n: "config_read bdf 4 k2 = (n, k3)" by fastforce
  have s1: "stage ti A k0 k1" using stage_config[OF s c] .
  have "stage ti A k0 k2" unfolding k2_def by (rule stage_still[OF s1 still_config_write])
  then have s3: "stage ti A k0 k3" using stage_config[OF _ n] by blast
  note t1 = t[unfolded Let_def c prod.case, folded en_def, folded k2_def, unfolded n prod.case]
  show ?thesis
  proof (cases "ucast n AND en \<noteq> en")
    case True
    show ?thesis using stage_give_up[OF s3 t1[unfolded if_P[OF True]]] .
  next
    case False
    define k4 where "k4 = st64 (args + 80) bus_address (st64 (args + 72) SF_DMA k3)"
    have s4: "stage ti A k0 k4" unfolding k4_def by (intro stage_st64 s3 p) simp_all
    note t2 = t1[unfolded if_not_P[OF False], folded k4_def]
    have "stage ti A k0 (st16 (args + 94) x (st16 (args + 92) y (st32 (args + 88) z k4)))" for x y z
      by (intro stage_st16 stage_st32 s4 p) simp_all
    then show ?thesis using t2 by (metis prod.inject)
  qed
qed

lemma device_attach_stage:
  assumes s: "owned ti A k0 0 ks" and p: "args \<in> A" and ph: "unat physical + 4096 * 4 \<le> 2 ^ 52"
    and d: "device_attach ti bdf rights modern bar physical args ks = (r, ks')"
  shows "stage ti A k0 ks'"
proof -
  let ?t = "(ks_tasks ks ti)\<lparr>tk_device_io := (if modern then SF_DEVICE_MMIO else bar AND NOT 3)\<rparr>"
  let ?pid = "tk_pid (ks_tasks ks ti)"
  define k1 where "k1 = put_task ti ?t ks"
  define k2 where "k2 = k1\<lparr>ks_device_owner := ?pid\<rparr>"
  define k3 where "k3 = set_phys (store (ks_dma k2) (replicate SF_DMA_BYTES 0)) k2"
  obtain ok k4 where m: "(if modern then map_run space_map_mmio ti (ucast SF_DEVICE_MMIO) physical 4 k3 else (True, k3)) = (ok, k4)" by fastforce
  have "owned ti A k0 0 k1" unfolding k1_def using s by (rule owned_tune) (simp_all add: woken_def)
  then have "owned ti A k0 ?pid k2" using owned_take[of ti A k0 k1] by (simp add: k2_def k1_def)
  then have s3: "owned ti A k0 ?pid k3" unfolding k3_def by (rule owned_clear)
  then have s4: "owned ti A k0 ?pid k4" using m mmio_run_stage[OF s3 ph] by (auto split: if_splits)
  have pid: "tk_pid (ks_tasks k4 ti) = ?pid" using s s4 by (simp add: owned_def stage_def since_def)
  note d1 = d[unfolded device_attach_def Let_def, folded k1_def, folded k2_def, folded k3_def, unfolded m prod.case]
  show ?thesis
  proof (cases ok)
    case False
    then show ?thesis using d1 stage_give_up s4 by (auto simp: owned_def)
  next
    case True
    obtain ok2 k5 where m2: "map_run (\<lambda>ks ti v p. space_map ks ti v p 3) ti SF_DMA (of_nat (ks_dma k4)) (SF_DMA_BYTES div 4096) k4 = (ok2, k5)" by fastforce
    have "ks_dma k4 + SF_DMA_BYTES \<le> 2 ^ 30" using owned_layout[OF s4] by (simp add: kernel_layout_def layout_ok_def)
    then have un: "unat (of_nat (ks_dma k4) :: u64) = ks_dma k4 + 0" by (simp add: unat_of_nat SF_DMA_BYTES_def)
    have s5: "stage ti A k0 k5"
      using dma_run_stage[OF s4[folded pid] un _ m2] by (simp add: owned_def SF_DMA_BYTES_def)
    have "\<not> \<not> ok" using True by simp
    note d2 = d1[unfolded if_not_P[OF this] m2 prod.case]
    show ?thesis
    proof (cases ok2)
      case False
      then show ?thesis using d2 stage_give_up[OF s5] by auto
    next
      case True
      then have "\<not> \<not> ok2" by simp
      note d3 = d2[unfolded if_not_P[OF this]]
      obtain g k6 where g: "iommu_grant bdf (of_nat (ks_dma k5)) k5 = (g, k6)" by fastforce
      have s6: "stage ti A k0 k6" using stage_still[OF s5 still_iommu_grant[OF g]] .
      show ?thesis
      proof (cases g)
        case (Inl e)
        then show ?thesis using d3 g stage_give_up[OF s6] by auto
      next
        case (Inr bus)
        note d4 = d3[unfolded g Inr prod.case sum.case]
        show ?thesis by (rule attach_tail_stage[OF s6 p]) (unfold Let_def, rule d4)
      qed
    qed
  qed
qed

lemma device_grant_stage:
  assumes s: "stage ti A k0 ks" and p: "args \<in> A" and d: "device_grant ti bp rights args ks = (r, ks')"
  shows "stage ti A k0 ks'"
proof (cases "bp = 0 \<or> bp > 65536 \<or> ks_device_owner ks \<noteq> 0 \<or> ks_quarantined ks \<or> im_mode (ks_iommu ks) = 2")
  case True
  then show ?thesis using d s by (auto simp: device_grant_def split: if_splits)
next
  case False
  then have c: "\<not> (bp = 0 \<or> bp > 65536)" "\<not> (ks_device_owner ks \<noteq> 0 \<or> ks_quarantined ks)" "\<not> im_mode (ks_iommu ks) = 2" by auto
  then have s0: "owned ti A k0 0 ks" using s by (simp add: owned_def)
  let ?bdf = "bp - 1"
  obtain ident k1 where i: "config_read ?bdf 0 ks = (ident, k1)" by fastforce
  note s1 = owned_config[OF s0 i]
  define modern where "modern \<longleftrightarrow> ident = 0x10421af4"
  note d1 = d[unfolded device_grant_def if_not_P[OF c(1)] if_not_P[OF c(2)] if_not_P[OF c(3)] Let_def i prod.case, folded modern_def]
  show ?thesis
  proof (cases "(ident \<noteq> 0x10011af4 \<and> \<not> ident = 0x10001af4 \<and> \<not> modern) \<or> (im_mode (ks_iommu k1) = 1 \<and> \<not> modern)")
    case True
    then show ?thesis using d1 s1 by (auto simp: owned_def split: if_splits)
  next
    case False
    then have e: "\<not> (ident \<noteq> 0x10011af4 \<and> \<not> ident = 0x10001af4 \<and> \<not> modern)" "\<not> (im_mode (ks_iommu k1) = 1 \<and> \<not> modern)" by auto
    obtain bar k2 where b: "config_read ?bdf (if modern then 32 else 16) k1 = (bar, k2)" by fastforce
    note s2 = owned_config[OF s1 b]
    obtain w k3 where w: "(if modern then modern_window ?bdf bar k2
        else if \<not> bit bar 0 \<or> bar AND NOT 3 < 0x1000 \<or> bar AND NOT 3 > 0xffc0 then (Err SF_DENIED, k2)
        else (Ok 0, k2)) = (w, k3)" by fastforce
    have s3: "owned ti A k0 0 k3" and ph: "\<And>x. w = Ok x \<Longrightarrow> unat x + 4096 * 4 \<le> 2 ^ 52"
      using w s2 window_stage[OF s2] by (auto split: if_splits)
    note d2 = d1[unfolded if_not_P[OF e(1)] if_not_P[OF e(2)] b prod.case w]
    show ?thesis
    proof (cases w)
      case (Inl x)
      then show ?thesis using d2 s3 by (auto simp: owned_def)
    next
      case (Inr x)
      let ?t = "if modern then (ks_tasks k3 ti)\<lparr>tk_device_io := SF_DEVICE_MMIO, tk_device_modern := 1\<rparr>
             else (ks_tasks k3 ti)\<lparr>tk_device_io := bar AND NOT 3\<rparr>"
      define k4 where "k4 = put_task ti (?t\<lparr>tk_device_bdf := ?bdf\<rparr>) k3"
      have s4: "owned ti A k0 0 k4" unfolding k4_def using s3 by (rule owned_tune) (simp_all add: woken_def)
      obtain y k5 where y: "device_release ti k4 = (y, k5)" by fastforce
      note s5 = owned_still[OF s4 still_device_release[OF y]]
      note d3 = d2[unfolded Inr sum.case, folded k4_def, unfolded y prod.case]
      show ?thesis
      proof (cases y)
        case (Inl z)
        then show ?thesis using d3 s5 by (auto simp: owned_def)
      next
        case (Inr z)
        show ?thesis using device_attach_stage[OF s5 p ph[OF \<open>w = Inr x\<close>] d3[unfolded Inr sum.case]] .
      qed
    qed
  qed
qed

section \<open>The whole construction\<close>

lemma build_rest_keeps:
  assumes p: "args \<in> A" and v: "unat (ar_bytes (lp_arguments pl)) \<le> 512"
    and pa: "\<And>pi. parent = Some pi \<Longrightarrow> pi < SF_MAX_TASKS"
  shows "keeps (stage ti A k0) (build_rest ti parent pl args)"
proof -
  have dg: "keeps (stage ti A k0) (\<lambda>ks. Some (device_grant ti x y args ks))" for x y
    unfolding keeps_def using device_grant_stage[OF _ p] by (metis prod.collapse)
  have nop: "keeps (stage ti A k0) (\<lambda>ks. if c then Some (Err SF_NO_SPACE, ks) else Some (Ok (), ks))" for c
    by (auto simp: keeps_def)
  let ?fs = "(if parent = None \<or> lp_grant_bundle pl \<noteq> 0 then [build_bundle ti args] else []) @
            (case parent of
               None \<Rightarrow> []
             | Some pi \<Rightarrow>
                 (if lp_grant_manager pl \<noteq> 0 then [build_grant ti pi (lp_grant_manager pl) RIGHT_SEND (args + 28)] else []) @
                 (if lp_grant_service pl \<noteq> 0 then
                    [\<lambda>ks. if lp_service_rights pl AND NOT 7 \<noteq> 0 then Some (Err SF_NO_SPACE, ks) else Some (Ok (), ks),
                     build_grant ti pi (lp_grant_service pl) (lp_service_rights pl) (args + 36)] else [])) @
            (if lp_grant_device pl \<noteq> 0 then [\<lambda>ks. Some (device_grant ti (lp_grant_device pl) (lp_device_rights pl) args ks)] else [])"
  have k: "keeps (stage ti A k0) (try_all ?fs)"
  proof (rule keeps_try_all)
    fix f assume "f \<in> set ?fs"
    then show "keeps (stage ti A k0) f"
      using build_bundle_keeps[OF p] build_grant_keeps[OF p _ pa] dg nop by (auto split: if_splits option.splits)
  qed
  show ?thesis unfolding keeps_def
  proof (intro allI impI)
    fix ks assume s: "stage ti A k0 ks"
    show "\<exists>r ks'. build_rest ti parent pl args ks = Some (r, ks') \<and> stage ti A k0 ks'"
      unfolding build_rest_def Let_def by (rule keepsD[OF k header_stage[OF s p v]])
  qed
qed

lemma build_arguments_keeps:
  assumes v: "unat (ar_bytes (lp_arguments pl)) \<le> 512" and pa: "\<And>pi. parent = Some pi \<Longrightarrow> pi < SF_MAX_TASKS"
  shows "keeps (stage ti A k0) (build_arguments ti parent pl)"
  unfolding keeps_def
proof (intro allI impI)
  fix ks assume s: "stage ti A k0 ks"
  obtain x k1 where m: "map_fresh ti SF_ARGS 1 ks = (x, k1)" by fastforce
  note st = map_fresh_stage[OF s m]
  show "\<exists>r ks'. build_arguments ti parent pl ks = Some (r, ks') \<and> stage ti A k0 ks'"
  proof (cases x)
    case (Inl e)
    then show ?thesis using m st by (simp add: build_arguments_def)
  next
    case (Inr page)
    have "stage ti (insert page A) k0 k1" using st Inr by simp
    from keepsD[OF build_rest_keeps[OF insertI1 v pa] this]
    obtain r ks' where "build_rest ti parent pl page k1 = Some (r, ks')" "stage ti (insert page A) k0 ks'" by blast
    then show ?thesis using m Inr stage_mono[OF _ subset_insertI] by (simp add: build_arguments_def)
  qed
qed

lemma claimed_put:
  assumes c: "claimed ti ks kind" and t: "tk_pid t = tk_pid (ks_tasks ks ti)" "tk_state t = T_EMPTY" "tk_caps t = tk_caps (ks_tasks ks ti)"
  shows "claimed ti (put_task ti t ks) kind"
proof -
  have "base_inv (put_task ti t ks) kind"
    using c t by (intro base_put_task) (auto simp: claimed_def alive_def base_inv_def pids_ok_def)
  then show ?thesis using c t by (auto simp: claimed_def empty_ok_def alive_def)
qed

lemma since_put: "tk_pid t = tk_pid (ks_tasks ks ti) \<Longrightarrow> tk_caps t = tk_caps (ks_tasks ks ti) \<Longrightarrow>
    tk_frame t = tk_frame (ks_tasks ks ti) \<Longrightarrow> since ks (put_task ti t ks)"
  by (simp add: since_def ages_def same_places_def put_task_def task_age_same)

lemma own_page_put: "own_page (put_task ti t ks) kind p k q = own_page ks kind p k q"
  by (simp add: own_page_def pool_addr_def)

lemma build_space_stage:
  assumes c: "claimed ti k0 kind"
  shows "\<exists>r ks'. build_space ti k0 = Some (r, ks') \<and> since k0 ks' \<and> (\<exists>kind'. claimed ti ks' kind') \<and> (r = Ok () \<longrightarrow> stage ti {} k0 ks')"
proof -
  have l: "layout_ok k0" "spaces_ok k0 kind" "tk_pid (ks_tasks k0 ti) \<noteq> 0" using c by (auto simp: claimed_def base_inv_def kernel_layout_def)
  let ?pid = "tk_pid (ks_tasks k0 ti)"
  obtain q k1 where q: "space_new k0 ?pid = (q, k1)" by fastforce
  from space_new_step[OF l(1,2) q] obtain kd where k: "spaces_ok k1 kd" "grows k0 kind k1 kd"
    and r: "\<And>p. q = Some p \<Longrightarrow> p < 2 ^ 64 \<and> own_page k1 kd ?pid PK_P4 p \<and> bit (rd64 (ks_phys k1) p) 0" by blast
  have c1: "claimed ti k1 kd" using claimed_grows[OF c k] .
  have pid: "tk_pid (ks_tasks k1 ti) = ?pid" using mem_only_fields(10)[OF growsD(1)[OF k(2)]] .
  define ks' where "ks' = put_task ti ((ks_tasks k1 ti)\<lparr>tk_cr3 := (case q of None \<Rightarrow> 0 | Some p \<Rightarrow> of_nat p)\<rparr>) k1"
  have cl: "claimed ti ks' kd" unfolding ks'_def using c1 by (intro claimed_put) (simp_all add: claimed_def)
  have si: "since k0 ks'" unfolding ks'_def by (rule since_trans[OF since_grows[OF k(2)] since_put]) simp_all
  show ?thesis
  proof (cases q)
    case None
    then show ?thesis using q cl si by (auto simp: build_space_def ks'_def)
  next
    case (Some p)
    have "unat (of_nat p :: u64) = p" using r[OF Some] by (simp add: unat_of_nat)
    then have "has_space ks' kd ti"
      using r[OF Some] Some l(3) pid by (simp add: has_space_def ks'_def own_page_put)
    then have "stage ti {} k0 ks'" using cl si by (auto simp: stage_def building_def)
    then show ?thesis using q cl si Some by (auto simp: build_space_def ks'_def)
  qed
qed

lemma build_task_result:
  assumes c: "claimed ti k0 kind" and v: "unat (ar_bytes (lp_arguments pl)) \<le> 512" and pa: "\<And>pi. parent = Some pi \<Longrightarrow> pi < SF_MAX_TASKS"
  shows "\<exists>r ks'. build_task ti parent pl k0 = Some (r, ks') \<and> since k0 ks' \<and> (\<exists>kind'. claimed ti ks' kind') \<and> (r = Ok () \<longrightarrow> stage ti {} k0 ks')"
proof -
  let ?base = "if lp_image_base pl \<noteq> 0 then lp_image_base pl else SF_BASE"
  let ?fs = "map (\<lambda>i. build_segment ti parent ?base (lp_segments pl i)) [0..<unat (lp_count pl)] @
           map (build_stack_page ti) [1..<17] @ [build_arguments ti parent pl]"
  have e: "build_task ti parent pl k0 = try_all (build_space ti # ?fs) k0" by (simp add: build_task_def Let_def)
  have "keeps (stage ti {} k0) (try_all ?fs)"
    by (rule keeps_try_all) (use build_segment_keeps build_stack_keeps build_arguments_keeps[OF v pa] in auto)
  note K = keepsD[OF this]
  from build_space_stage[OF c] obtain r k1 where r: "build_space ti k0 = Some (r, k1)" "since k0 k1" "\<exists>kind'. claimed ti k1 kind'"
    "r = Ok () \<longrightarrow> stage ti {} k0 k1" by blast
  show ?thesis
  proof (cases r)
    case (Inl x)
    then show ?thesis using r unfolding e try_all.simps by simp
  next
    case (Inr u)
    then have "stage ti {} k0 k1" using r(4) by simp
    from K[OF this] obtain x k2 where x: "try_all ?fs k1 = Some (x, k2)" "stage ti {} k0 k2" by blast
    have "build_task ti parent pl k0 = Some (x, k2)" unfolding e try_all.simps r(1) Inr option.case prod.case sum.case by (rule x(1))
    then show ?thesis using x(2) unfolding stage_def building_def by blast
  qed
qed

section \<open>The end of construction\<close>

lemma task_failed_alt:
  "task_failed ti e ks = put_task ti ((ks_tasks (reap ti (dying ti ks)) ti)\<lparr>tk_state := T_DEAD, tk_exit_status := of_int (sf_code e)\<rparr>)
     (reap ti (dying ti ks))"
  by (simp add: task_failed_def reap_def dying_def Let_def)

lemma failed_good:
  assumes c: "claimed ti ks kind"
  shows "good ks (task_failed ti e ks)"
proof -
  define k1 where "k1 = dying ti ks"
  define k2 where "k2 = reap ti k1"
  have q: "quiet ks k1" using dying_quiet by (simp add: k1_def)
  have c1: "claimed ti k1 kind"
    using c claimed_quiet[OF c q] dying_eps[of ks ti] by (auto simp: k1_def claimed_def base_inv_def)
  then have b: "base_inv k1 kind" "ti < SF_MAX_TASKS" "\<forall>i<SF_MAX_TASKS. alive (ks_tasks k1 i) \<longrightarrow> tk_pid (ks_tasks k1 i) \<noteq> tk_pid (ks_tasks k1 ti)"
    by (simp_all add: claimed_def)
  have b2: "base_inv k2 kind" unfolding k2_def by (rule base_reap[OF b])
  let ?t = "(ks_tasks k2 ti)\<lparr>tk_state := T_DEAD, tk_exit_status := of_int (sf_code e)\<rparr>"
  have "base_inv (put_task ti ?t k2) kind"
    using b2 b(2) by (intro base_put_task) (auto simp: alive_def base_inv_def pids_ok_def)
  moreover have "empty_ok {} (put_task ti ?t k2)"
    using c1 by (auto simp: claimed_def empty_ok_def k2_def reap_fields)
  moreover have "ages ks (put_task ti ?t k2)" using quiet_age[OF q] by (auto simp: ages_def task_age_def bad_stack_def reap_fields k2_def)
  moreover have "ks_current (put_task ti ?t k2) = ks_current ks" by (simp add: reap_fields k2_def quiet_fields(3)[OF q])
  ultimately show ?thesis using kinvI by (simp add: good_def task_failed_alt k1_def[symmetric] k2_def[symmetric])
qed

lemma started_good:
  assumes c: "building ti A ks kind"
  shows "good ks (task_started ti p ks)"
proof -
  let ?t = "(ks_tasks ks ti)\<lparr>tk_frame := new_frame p (if lp_image_base p \<noteq> 0 then lp_image_base p else SF_BASE),
       tk_ready_since := ks_ticks ks, tk_state := T_READY, tk_exit_status := 0\<rparr>"
  have b: "base_inv ks kind" "ti < SF_MAX_TASKS" "has_space ks kind ti" "empty_ok {ti} ks"
    "\<forall>i<SF_MAX_TASKS. alive (ks_tasks ks i) \<longrightarrow> tk_pid (ks_tasks ks i) \<noteq> tk_pid (ks_tasks ks ti)"
    using c by (simp_all add: building_def claimed_def)
  have p: "tk_pid (ks_tasks ks ti) < ks_next_pid ks" using b(1,2) by (simp add: base_inv_def pids_ok_def)
  have "base_inv (put_task ti ?t ks) kind"
    using b(2,3,5) p by (intro base_put_task[OF b(1)]) auto
  moreover have "empty_ok {} (put_task ti ?t ks)" using b(4) by (auto simp: empty_ok_def)
  ultimately show ?thesis using kinvI
    by (auto simp: good_def task_started_def ages_def task_age_def bad_stack_def new_frame_def SF_STACK_def)
qed

section \<open>Claiming a slot\<close>

lemma base_next_pid:
  assumes b: "base_inv ks kind" and n: "ks_next_pid ks \<le> n" "n \<le> 0x80000000"
  shows "base_inv (ks\<lparr>ks_next_pid := n\<rparr>) kind"
proof -
  let ?ks = "ks\<lparr>ks_next_pid := n\<rparr>"
  have own: "own_page ?ks kd pid kk q = own_page ks kd pid kk q" for kd pid kk q by (simp add: own_page_def pool_addr_def)
  have "entry_ok ?ks kd pid kk j e = entry_ok ks kd pid kk j e" for kd pid kk j e
    by (cases kk) (auto simp: entry_ok_def table_entry_def leaf_entry_def own dma_page_def bundle_page_def)
  then have "spaces_ok ?ks kind" using b by (simp add: base_inv_def spaces_ok_def pool_addr_def)
  moreover have "user_range ?ks j v m w = user_range ks j v m w" for j v m w by (rule translation_cong(3)) simp_all
  moreover have "has_space ?ks kind j = has_space ks kind j" for j by (simp add: has_space_def own)
  moreover have "pids_ok ?ks" using b n unfolding base_inv_def pids_ok_def by (auto intro: less_le_trans)
  ultimately show ?thesis using b same_places_layout[of ks ?ks] eps_same[of ?ks ks]
    by (simp add: base_inv_def tasks_ok_def same_places_def)
qed

lemma claim_slot_claimed:
  assumes k: "kinv ks" and ti: "ti < SF_MAX_TASKS" "\<not> alive (ks_tasks ks ti)"
    and pid: "sf_pid_take (Some (ks_next_pid ks)) = (Ok pid, nxt)"
  obtains kind where "claimed ti (claim_slot ti pid pages (ks\<lparr>ks_next_pid := the nxt\<rparr>)) kind"
    "ages ks (claim_slot ti pid pages (ks\<lparr>ks_next_pid := the nxt\<rparr>))"
    "ks_current (claim_slot ti pid pages (ks\<lparr>ks_next_pid := the nxt\<rparr>)) = ks_current ks"
proof -
  from k obtain kind where b: "base_inv ks kind" and e: "empty_ok {} ks" by (rule kinvE)
  have p: "pid = ks_next_pid ks" "nxt = Some (pid + 1)" "pid \<noteq> 0" "pid \<le> 0x7fffffff"
    using pid by (auto simp: sf_pid_take_def SF_PID_MAX_def split: if_splits)
  have lt: "pid < pid + 1" "pid + 1 \<le> 0x80000000"
    using p(4) unat_less_inc[of pid "0x80000000"] by (simp_all add: word_less_nat_alt word_le_nat_alt)
  let ?k = "ks\<lparr>ks_next_pid := pid + 1\<rparr>"
  have b1: "base_inv ?k kind" using base_next_pid[OF b, of "pid + 1"] p(1) lt by simp
  define t where "t = ks_tasks (claim_slot ti pid pages ?k) ti"
  have t: "tk_pid t = pid" "tk_state t = T_EMPTY" "tk_caps t k = (if k < 32 then (tk_caps (ks_tasks ks ti) k)\<lparr>cp_endpoint := 0\<rparr> else tk_caps (ks_tasks ks ti) k)" for k
    by (simp_all add: t_def claim_slot_def Let_def)
  have fr: "tk_frame t = tk_frame (ks_tasks ks ti)" by (simp add: t_def claim_slot_def Let_def)
  have cs: "claim_slot ti pid pages ?k = put_task ti t ?k" by (simp add: t_def claim_slot_def Let_def put_task_def)
  have "base_inv (put_task ti t ?k) kind"
    using t lt ti(1) by (intro base_put_task[OF b1]) (auto simp: alive_def)
  moreover have "tk_pid (ks_tasks ks j) \<noteq> pid" if "j < SF_MAX_TASKS" for j
    using b that p(1) by (auto simp: base_inv_def pids_ok_def)
  ultimately have "claimed ti (put_task ti t ?k) kind" using t p(3) e ti by (auto simp: claimed_def empty_ok_def alive_def)
  moreover have "ages ks (put_task ti t ?k)" using p(1) lt(1) by (simp add: ages_def task_age_def t fr)
  ultimately show thesis using that[of kind] p(2) cs by simp
qed

lemma task_new_returns:
  assumes k: "kinv ks" and p: "\<not> bootstrap \<Longrightarrow> nat (ks_current ks) < SF_MAX_TASKS"
  shows "returns ks (task_new_limited pl bootstrap pages ks)"
proof -
  let ?parent = "if bootstrap then None else Some (nat (ks_current ks))"
  let ?bad = "\<not> valid_plan ks pl ?parent \<or> ?parent = None \<and> lp_image_base pl \<noteq> 0 \<and> lp_image_base pl \<noteq> SF_BASE"
  let ?free = "\<lambda>i. tk_state (ks_tasks ks i) = T_EMPTY \<or> tk_state (ks_tasks ks i) = T_DEAD"
  show ?thesis
  proof (cases "pages > SF_PAGE_LIMIT_MAX \<or> ?bad \<or> first_index ?free SF_MAX_TASKS = None \<or>
      (\<exists>e x. sf_pid_take (Some (ks_next_pid ks)) = (Err e, x))")
    case True
    then show ?thesis using returns_same[OF k] by (auto simp: task_new_limited_def Let_def split: option.splits)
  next
    case False
    then have c: "\<not> pages > SF_PAGE_LIMIT_MAX" "\<not> ?bad" by blast+
    obtain ti where ti: "first_index ?free SF_MAX_TASKS = Some ti" using False by auto
    obtain pid nxt where pid: "sf_pid_take (Some (ks_next_pid ks)) = (Ok pid, nxt)"
      using False by (metis old.sum.exhaust surj_pair)
    define k0 where "k0 = claim_slot ti pid pages (ks\<lparr>ks_next_pid := the nxt\<rparr>)"
    have "ti < SF_MAX_TASKS" "\<not> alive (ks_tasks ks ti)" using first_index_SomeD[OF ti] by (auto simp: alive_def)
    from claim_slot_claimed[OF k this pid, of pages] obtain kind where cl: "claimed ti k0 kind" "ages ks k0" "ks_current k0 = ks_current ks"
      unfolding k0_def by blast
    have v: "unat (ar_bytes (lp_arguments pl)) \<le> 512" using c(2) arguments_short by (auto simp: valid_plan_def)
    have "\<And>pi. ?parent = Some pi \<Longrightarrow> pi < SF_MAX_TASKS" using p by (auto split: if_splits)
    from build_task_result[OF cl(1) v this] obtain r k1 where r: "build_task ti ?parent pl k0 = Some (r, k1)" "since k0 k1"
      "\<exists>kind'. claimed ti k1 kind'" "r = Ok () \<longrightarrow> stage ti {} k0 k1" by blast
    note d = task_new_limited_def[of pl bootstrap pages ks, unfolded Let_def if_not_P[OF c(1)] if_not_P[OF c(2)] ti option.case pid prod.case sum.case,
        folded k0_def, unfolded r(1) option.case prod.case]
    have g: "good ks ks'" if "good k1 ks'" for ks'
      using that cl(2,3) r(2) ages_trans unfolding good_def since_def by metis
    show ?thesis
    proof (cases r)
      case (Inl e)
      from r(3) obtain kind' where "claimed ti k1 kind'" ..
      from g[OF failed_good[OF this]] show ?thesis using d Inl by (auto simp: returns_def)
    next
      case (Inr u)
      then have "stage ti {} k0 k1" using r(4) by simp
      then obtain kind' where "building ti {} k1 kind'" by (rule stageE)
      from g[OF started_good[OF this]] show ?thesis using d Inr by (auto simp: returns_def)
    qed
  qed
qed

lemma spawn_returns:
  assumes k: "kinv ks" and p: "nat (ks_current ks) < SF_MAX_TASKS"
  shows "returns ks (sys_spawn ti a pages ks)"
  using copy_in_bytes[of PLAN_SIZE ks ti a] task_new_returns[OF k p] returns_same[OF k]
  by (auto simp: sys_spawn_def PLAN_SIZE_def)

end
