(* ===== verification/SF_Kernel_Entry.thy ===== *)
theory SF_Kernel_Entry
  imports SF_Kernel_Spawn
begin

text \<open>
  Every event keeps the invariant of the kernel: system calls, interrupts, the scheduler, stores
  of programs through their own mappings and stores of the device into the arena.
\<close>

section \<open>System calls\<close>

lemma base_fields:
  assumes p: "same_places ks ks'" and f: "ks_phys ks' = ks_phys ks" "ks_page_owner ks' = ks_page_owner ks"
    "ks_device_owner ks' = ks_device_owner ks" "ks_next_pid ks' = ks_next_pid ks" "ks_endpoints ks' = ks_endpoints ks"
    "ks_tasks ks' = ks_tasks ks" and b: "base_inv ks kind"
  shows "base_inv ks' kind"
proof -
  have pl: "ks_pool ks' = ks_pool ks" "ks_dma ks' = ks_dma ks" "ks_bundle_phys ks' = ks_bundle_phys ks" "ks_bundle_bytes ks' = ks_bundle_bytes ks"
    using p by (simp_all add: same_places_def)
  have own: "own_page ks' kd pid kk q = own_page ks kd pid kk q" for kd pid kk q by (simp add: own_page_def pool_addr_def pl f)
  have en: "entry_ok ks' kd pid kk j e = entry_ok ks kd pid kk j e" for kd pid kk j e
    by (cases kk) (simp_all add: entry_ok_def table_entry_def leaf_entry_def own dma_page_def bundle_page_def pl f)
  have "user_range ks' j v m w = user_range ks j v m w" for j v m w by (rule translation_cong(3)) (simp_all add: f)
  moreover have "has_space ks' kind j = has_space ks kind j" for j by (simp add: has_space_def own f)
  ultimately show ?thesis using b same_places_layout[OF p] eps_same[of ks' ks]
    by (simp add: base_inv_def tasks_ok_def spaces_ok_def pids_ok_def en pool_addr_def pl f)
qed

lemma kinv_current: "kinv ks \<Longrightarrow> kinv (ks\<lparr>ks_current := c\<rparr>)"
  and kinv_ticks: "kinv ks \<Longrightarrow> kinv (ks\<lparr>ks_ticks := n\<rparr>)"
proof -
  assume "kinv ks"
  then obtain kind where b: "base_inv ks kind" and e: "empty_ok {} ks" by (rule kinvE)
  show "kinv (ks\<lparr>ks_current := c\<rparr>)" by (rule kinvI, rule base_fields[OF _ _ _ _ _ _ _ b]) (use e in \<open>simp_all add: same_places_def empty_ok_def\<close>)
  show "kinv (ks\<lparr>ks_ticks := n\<rparr>)" by (rule kinvI, rule base_fields[OF _ _ _ _ _ _ _ b]) (use e in \<open>simp_all add: same_places_def empty_ok_def\<close>)
qed

lemma returns_still: "kinv ks \<Longrightarrow> still ks ks' \<Longrightarrow> returns ks (Some (v, ks'))"
  by (simp add: returns_def good_still)

lemma returns_trans: "good ks k1 \<Longrightarrow> returns k1 m \<Longrightarrow> returns ks m"
  unfolding returns_def using good_trans by blast

lemma status_length [simp]: "length (status_bytes d) = 48"
  by (simp add: status_bytes_def le64_def)

lemma snapshot_length [simp]: "length (ipc_stats_snapshot ks) = 24"
  by (simp add: ipc_stats_snapshot_def)

lemma quiet_ready: "quiet ks ks' \<Longrightarrow> tk_state (ks_tasks ks i) = T_READY \<Longrightarrow> tk_state (ks_tasks ks' i) = T_READY"
  using quiet_state[of ks ks' i] by auto

lemma running_quiet: "quiet ks ks' \<Longrightarrow> running ks \<Longrightarrow> running ks'"
  by (simp add: running_def quiet_fields(3) quiet_ready)

lemma dma_status_returns:
  assumes k: "kinv ks" and r: "running ks"
  shows "returns ks (case device_status ks of (d, ks') \<Rightarrow> report (nat (ks_current ks)) a (status_bytes d) ks')"
proof -
  obtain d k1 where d: "device_status ks = (d, k1)" by fastforce
  note s = still_device_status[OF d]
  have c: "ks_current k1 = ks_current ks" using quiet_fields(3)[OF still_quiet[OF s]] .
  have "returns k1 (report (nat (ks_current k1)) a (status_bytes d) k1)"
    using good_still[OF k s] runningD[OF running_quiet[OF still_quiet[OF s] r]] by (intro report_returns) (simp_all add: good_def)
  then show ?thesis using returns_trans[OF good_still[OF k s]] d c by simp
qed

lemma syscall_returns:
  assumes k: "kinv ks" and r: "running ks" and x: "fr_rax f = SYS_EXIT \<Longrightarrow> tk_pid (ks_tasks ks (nat (ks_current ks))) \<noteq> 1"
  shows "returns ks (syscall f ks)"
proof -
  note t = runningD[OF r]
  have e: "returns ks (Some (0, task_dead (nat (ks_current ks)) st ks))" for st
    using task_dead_good[OF k t(1)] t(2) by (auto simp: returns_def alive_def)
  have o: "returns ks (Some (0, outb p v (outl q w ks)))" for p v q w
    by (rule returns_still[OF k still_trans[OF still_ports(2) still_ports(1)]])
  show ?thesis unfolding syscall_def Let_def
    by (intro returns_if returns_same[OF k] log_returns[OF k] spawn_returns[OF k t(1)] ipc_returns[OF k r] report_returns[OF k t] o e
        dma_status_returns[OF k r] returns_good)
      (use x page_limit_good[OF k] cap_limit_good[OF k] priority_good[OF k] kill_good[OF k] status_good[OF k] release_good[OF k]
        good_still[OF k still_console_read] good_still[OF k still_pci_read] good_still[OF k still_device_io] in \<open>auto simp: \<close>)
qed

section \<open>Interrupt entry\<close>

lemma good_ticks: "kinv ks \<Longrightarrow> good ks (ks\<lparr>ks_ticks := n\<rparr>)"
  by (simp add: good_def kinv_ticks ages_def)

lemma irq_entry_good:
  assumes k: "kinv ks"
  shows "good ks (irq_entry v cs ks)" "tk_state (ks_tasks ks i) = T_READY \<Longrightarrow> tk_state (ks_tasks (irq_entry v cs ks) i) = T_READY"
proof -
  let ?n = "ks\<lparr>ks_ticks := ks_ticks ks + 1\<rparr>"
  define k1 where "k1 = (if v = 32 then ipc_deadlines (outb 0x20 0x20 ?n) else ks)"
  have o: "still ?n (outb 0x20 0x20 ?n)" by simp
  have g0: "good ks ?n" using good_ticks[OF k] .
  then have kn: "kinv ?n" by (simp add: good_def)
  note g1 = good_still[OF kn o]
  then have ko: "kinv (outb 0x20 0x20 ?n)" by (simp add: good_def)
  have "good ks (ipc_deadlines (outb 0x20 0x20 ?n))"
    using good_trans[OF g0 good_trans[OF g1 good_quiet[OF ko quiet_deadlines eps_deadlines[OF kinv_eps[OF ko]]]]] .
  then have g: "good ks k1" using good_refl[OF k] by (simp add: k1_def)
  then have kk: "kinv k1" by (simp add: good_def)
  show "good ks (irq_entry v cs ks)"
    unfolding irq_entry_def Let_def k1_def[symmetric] using g good_trans[OF g good_still[OF kk still_console_irq]] by simp
  assume r: "tk_state (ks_tasks ks i) = T_READY"
  then have "tk_state (ks_tasks k1 i) = T_READY"
    using quiet_ready[OF quiet_trans[OF still_quiet[OF o] quiet_deadlines], of i] by (simp add: k1_def)
  then show "tk_state (ks_tasks (irq_entry v cs ks) i) = T_READY"
    unfolding irq_entry_def Let_def k1_def[symmetric] using quiet_ready[OF still_quiet[OF still_console_irq]] by simp
qed

text \<open>The poll of device faults leaves a ready task ready, or kills it.\<close>

lemma task_dead_state: "tk_state (ks_tasks ks i) = T_READY \<Longrightarrow> tk_state (ks_tasks (task_dead j st ks) i) \<in> {T_READY, T_DEAD}"
  using quiet_ready[OF dying_quiet] by (simp add: task_dead_alt reap_fields)

lemma task_dead_dead: "tk_state (ks_tasks ks i) = T_DEAD \<Longrightarrow> tk_state (ks_tasks (task_dead j st ks) i) = T_DEAD"
  using quiet_state[OF dying_quiet[of ks j], of i] by (auto simp: task_dead_alt reap_fields)

lemma poll_fault_state:
  assumes "tk_state (ks_tasks ks i) \<in> {T_READY, T_DEAD}"
  shows "tk_state (ks_tasks (poll_fault f ks) i) \<in> {T_READY, T_DEAD}"
proof -
  have st: "tk_state (ks_tasks k' i) \<in> {T_READY, T_DEAD}" if "still k k'" "tk_state (ks_tasks k i) \<in> {T_READY, T_DEAD}" for k k'
    using quiet_state[OF still_quiet[OF that(1)], of i] that(2) by auto
  have td: "tk_state (ks_tasks (task_dead j x k) i) \<in> {T_READY, T_DEAD}" if "tk_state (ks_tasks k i) \<in> {T_READY, T_DEAD}" for j x k
    using task_dead_state[of k i] task_dead_dead[of k i] that by auto
  have fl: "still k (put_task j ((ks_tasks k j)\<lparr>tk_device_fault := 1\<rparr>) k)" for j k
    by (rule still_put_task) (simp_all add: woken_def)
  obtain a b c where f: "f = (a, b, c)" by (cases f)
  show ?thesis unfolding f poll_fault_def prod.case Let_def
  proof (split option.split, intro conjI impI allI)
    show "tk_state (ks_tasks (ks\<lparr>ks_dma_status := d\<rparr>) i) \<in> {T_READY, T_DEAD}" for d using assms by simp
    fix d j
    have "still (ks\<lparr>ks_dma_status := d\<rparr>) (put_task j ((ks_tasks ((snd (device_release j (ks\<lparr>ks_dma_status := d\<rparr>)))\<lparr>ks_quarantined := True\<rparr>) j)\<lparr>tk_device_fault := 1\<rparr>)
        ((snd (device_release j (ks\<lparr>ks_dma_status := d\<rparr>)))\<lparr>ks_quarantined := True\<rparr>))"
      by (rule still_trans[OF still_trans[OF still_release still_quarantine(1)] fl])
    then show "tk_state (ks_tasks (task_dead j (of_int (sf_code SF_DEVICE_GONE)) (put_task j ((ks_tasks ((snd (device_release j (ks\<lparr>ks_dma_status := d\<rparr>)))\<lparr>ks_quarantined := True\<rparr>) j)\<lparr>tk_device_fault := 1\<rparr>)
        ((snd (device_release j (ks\<lparr>ks_dma_status := d\<rparr>)))\<lparr>ks_quarantined := True\<rparr>))) i) \<in> {T_READY, T_DEAD}"
      by (rule td[OF st]) (use assms in simp)
  qed
qed

lemma device_poll_state:
  "tk_state (ks_tasks ks i) \<in> {T_READY, T_DEAD} \<Longrightarrow> tk_state (ks_tasks (device_poll ks) i) \<in> {T_READY, T_DEAD}"
proof -
  have "tk_state (ks_tasks ks i) \<in> {T_READY, T_DEAD} \<Longrightarrow> tk_state (ks_tasks (poll_loop n ks) i) \<in> {T_READY, T_DEAD}" for n
  proof (induction n arbitrary: ks)
    case (Suc n)
    obtain r k1 where r: "iommu_fault ks = (r, k1)" by fastforce
    have "tk_state (ks_tasks k1 i) \<in> {T_READY, T_DEAD}"
      using quiet_state[OF still_quiet[OF still_fault[OF r]], of i] Suc.prems by auto
    then show ?case using r Suc.IH poll_fault_state by (auto split: option.split)
  qed simp
  then show "tk_state (ks_tasks ks i) \<in> {T_READY, T_DEAD} \<Longrightarrow> tk_state (ks_tasks (device_poll ks) i) \<in> {T_READY, T_DEAD}"
    by (simp add: device_poll_def)
qed

end
