(* ===== verification/SF_Kernel_Run.thy ===== *)
theory SF_Kernel_Run
  imports SF_Kernel_Entry
begin

text \<open>
  The machine as a whole.  Scheduling and interrupt dispatch keep the invariant of the kernel, so
  every run of events does; a run panics only after one of the events listed as fatal, and
  capability slots only age along it.
\<close>

section \<open>The scheduler\<close>

text \<open>The first process has been made, and its saved stack pointer can be restored.\<close>

definition init_safe :: "Kernel \<Rightarrow> bool" where
  "init_safe ks \<longleftrightarrow> 1 < ks_next_pid ks \<and> (\<forall>i<SF_MAX_TASKS. tk_pid (ks_tasks ks i) = 1 \<longrightarrow> \<not> bad_stack (ks_tasks ks i))"

lemma init_safe_ages:
  assumes "init_safe ks" "ages ks ks'"
  shows "init_safe ks'"
  unfolding init_safe_def
proof (intro conjI allI impI)
  show "1 < ks_next_pid ks'" using assms by (auto simp: init_safe_def ages_def)
  fix i assume i: "i < SF_MAX_TASKS" "tk_pid (ks_tasks ks' i) = 1"
  then have "tk_pid (ks_tasks ks i) = 1"
    using assms by (auto simp: init_safe_def ages_def not_less dest: spec[of _ i])
  then have "\<not> bad_stack (ks_tasks ks i)" using assms(1) i(1) by (simp add: init_safe_def)
  moreover have "fr_rsp (tk_frame (ks_tasks ks' i)) = fr_rsp (tk_frame (ks_tasks ks i)) \<or> \<not> bad_stack (ks_tasks ks' i)"
    using assms(2) by (simp add: ages_def task_age_def)
  ultimately show "\<not> bad_stack (ks_tasks ks' i)" by (auto simp: bad_stack_def)
qed

text \<open>What the scheduler may return from a state.\<close>

definition resumes :: "Kernel \<Rightarrow> machine \<Rightarrow> bool" where
  "resumes ks m \<longleftrightarrow> (case m of
     Running ks' \<Rightarrow> kinv ks' \<and> running ks' \<and> ages ks ks'
   | Halted ks' \<Rightarrow> kinv ks' \<and> ages ks ks'
   | Panicked \<Rightarrow> \<not> init_safe ks)"

lemma resumes_trans: "ages ks k1 \<Longrightarrow> resumes k1 m \<Longrightarrow> resumes ks m"
  using ages_trans init_safe_ages by (cases m) (auto simp: resumes_def)

lemma run_task_resumes:
  assumes k: "kinv ks" and i: "i < SF_MAX_TASKS" "tk_state (ks_tasks ks i) = T_READY"
  shows "resumes ks (Running (run_task i ks))"
proof -
  let ?k = "ks\<lparr>ks_current := int i\<rparr>"
  have "good ?k (put_task i ((ks_tasks ks i)\<lparr>tk_ready_since := ks_ticks ks\<rparr>) ?k)"
    using kinv_current[OF k] i by (intro good_tune) (simp_all add: alive_def)
  moreover have "ages ks ?k" by (simp add: ages_def)
  ultimately show ?thesis using i ages_trans by (auto simp: resumes_def run_task_def good_def running_def)
qed

lemma schedule_loop_resumes: "kinv ks \<Longrightarrow> resumes ks (schedule_loop ks)"
proof (induction ks rule: schedule_loop.induct)
  case (1 ks)
  let ?i = "sched_choice ks"
  let ?t = "ks_tasks ks (nat ?i)"
  show ?case
  proof (cases "?i < 0")
    case True
    then show ?thesis using "1.prems" by (simp add: schedule_loop.simps[of ks] Let_def resumes_def)
  next
    case False
    then have i: "nat ?i < SF_MAX_TASKS" "tk_state ?t = T_READY" using sched_choice_ready[of ks] by simp_all
    show ?thesis
    proof (cases "bad_stack ?t")
      case bad: True
      show ?thesis
      proof (cases "tk_pid ?t = 1")
        case True
        then show ?thesis using False bad i by (simp add: schedule_loop.simps[of ks] Let_def resumes_def init_safe_def) blast
      next
        case ne: False
        have g: "good ks (task_dead (nat ?i) (- 113) ks)" using task_dead_good[OF "1.prems" i(1)] i(2) by simp
        then have "resumes (task_dead (nat ?i) (- 113) ks) (schedule_loop (task_dead (nat ?i) (- 113) ks))"
          using "1.IH"[OF refl refl False bad ne] by (simp add: good_def)
        then have "resumes ks (schedule_loop (task_dead (nat ?i) (- 113) ks))" using g resumes_trans unfolding good_def by blast
        then show ?thesis using False bad ne by (simp add: schedule_loop.simps[of ks] Let_def)
      qed
    next
      case good: False
      then show ?thesis using False run_task_resumes[OF "1.prems" i] by (simp add: schedule_loop.simps[of ks] Let_def)
    qed
  qed
qed

lemma schedule_resumes:
  assumes k: "kinv ks" and c: "0 \<le> ks_current ks \<Longrightarrow> nat (ks_current ks) < SF_MAX_TASKS"
  shows "resumes ks (schedule ks)"
proof (cases "ks_current ks \<ge> 0 \<and> tk_state (ks_tasks ks (nat (ks_current ks))) = T_READY")
  case True
  let ?i = "nat (ks_current ks)"
  let ?k = "put_task ?i ((ks_tasks ks ?i)\<lparr>tk_ready_since := ks_ticks ks\<rparr>) ks"
  have "good ks ?k" using k c True by (intro good_tune) (simp_all add: alive_def)
  then show ?thesis using True resumes_trans[OF _ schedule_loop_resumes, of ks ?k] by (simp add: schedule_def Let_def good_def)
next
  case False
  then show ?thesis using schedule_loop_resumes[OF k] by (auto simp: schedule_def Let_def)
qed

section \<open>Every event\<close>

definition machine_inv :: "machine \<Rightarrow> bool" where
  "machine_inv m \<longleftrightarrow> (case m of Running ks \<Rightarrow> kinv ks \<and> running ks | Halted ks \<Rightarrow> kinv ks | Panicked \<Rightarrow> True)"

definition kernel_of :: "machine \<Rightarrow> Kernel option" where
  "kernel_of m = (case m of Running ks \<Rightarrow> Some ks | Halted ks \<Rightarrow> Some ks | Panicked \<Rightarrow> None)"

text \<open>Events that end the machine: the first process exits, faults or leaves a stack pointer
  that cannot be restored; the kernel itself takes an exception.\<close>

fun fatal :: "event \<Rightarrow> machine \<Rightarrow> bool" where
  "fatal (Trap f cs) (Running ks) \<longleftrightarrow> tk_pid (ks_tasks ks (nat (ks_current ks))) = 1 \<and>
     (fr_vector f < 32 \<or> fr_vector f = 128 \<and> fr_rax f = SYS_EXIT \<or> fr_rsp f \<ge> 0x0000800000000000 \<and> fr_rsp f < 0xffff800000000000)"
| "fatal (Trap f cs) (Halted ks) \<longleftrightarrow> fr_vector f < 32"
| "fatal e m \<longleftrightarrow> False"

text \<open>One event leads from \<open>ks\<close> to \<open>m\<close>; \<open>ok\<close> excludes the end of the machine.\<close>

definition slots_age :: "Kernel \<Rightarrow> Kernel \<Rightarrow> bool" where
  "slots_age ks ks' \<longleftrightarrow> (\<forall>i k. slot_age (tk_caps (ks_tasks ks i) k) (tk_caps (ks_tasks ks' i) k))"

definition proceeds :: "bool \<Rightarrow> Kernel \<Rightarrow> machine \<Rightarrow> bool" where
  "proceeds ok ks m \<longleftrightarrow> machine_inv m \<and> (case kernel_of m of
     None \<Rightarrow> \<not> (ok \<and> init_safe ks)
   | Some ks' \<Rightarrow> slots_age ks ks' \<and> (ok \<longrightarrow> init_safe ks \<longrightarrow> init_safe ks'))"

lemma slots_age_trans: "slots_age a b \<Longrightarrow> slots_age b c \<Longrightarrow> slots_age a c"
  unfolding slots_age_def using slot_age_trans by blast

lemma ages_slots: "ages ks ks' \<Longrightarrow> slots_age ks ks'"
  by (simp add: ages_def slots_age_def task_age_def)

lemma ages_init: "init_safe ks \<Longrightarrow> ages ks ks' \<Longrightarrow> tk_pid (ks_tasks ks' i) = 1 \<Longrightarrow> tk_pid (ks_tasks ks i) = 1"
  by (auto simp: init_safe_def ages_def not_less dest: spec[of _ i])

lemma good_current: "good ks ks' \<Longrightarrow> ks_current ks' = ks_current ks"
  by (simp add: good_def)

text \<open>From the state before an event through a kernel step to the scheduler.\<close>

lemma resumes_proceeds:
  assumes s: "slots_age ks k1" "ok \<Longrightarrow> init_safe ks \<Longrightarrow> init_safe k1" and r: "resumes k1 m"
  shows "proceeds ok ks m"
  using assms init_safe_ages ages_slots slots_age_trans
  by (cases m) (auto simp: proceeds_def machine_inv_def kernel_of_def resumes_def)

lemma set_frame_kinv: "kinv ks \<Longrightarrow> ti < SF_MAX_TASKS \<Longrightarrow> kinv (set_frame ti f ks)"
  unfolding set_frame_def by (rule kinv_tune) simp_all

lemma set_frame_slots [simp]: "slots_age ks (set_frame ti f ks)"
  by (simp add: slots_age_def set_frame_def)

lemma set_frame_safe:
  assumes "init_safe ks" "tk_pid (ks_tasks ks ti) = 1 \<Longrightarrow> \<not> (fr_rsp f \<ge> 0x0000800000000000 \<and> fr_rsp f < 0xffff800000000000)"
  shows "init_safe (set_frame ti f ks)"
  using assms by (simp add: init_safe_def set_frame_def bad_stack_def)

lemma set_rax_good: "kinv ks \<Longrightarrow> ti < SF_MAX_TASKS \<Longrightarrow> good ks (set_rax ti v ks)"
  unfolding set_rax_def set_frame_def by (rule good_tune) simp_all

text \<open>From the poll of devices on.\<close>

definition serve :: "Frame \<Rightarrow> nat \<Rightarrow> Kernel \<Rightarrow> machine" where
  "serve f ti ks =
     (if tk_state (ks_tasks ks ti) = T_DEAD then schedule ks
      else if fr_vector f = 128 then
        (case syscall f ks of None \<Rightarrow> Panicked | Some (r, ks) \<Rightarrow> schedule (set_rax ti (of_int r) ks))
      else if fr_vector f < 32 then
        (if tk_pid (ks_tasks ks ti) = 1 then Panicked else schedule (task_dead ti (- 100 - ucast (fr_vector f)) ks))
      else schedule ks)"

lemma user_interrupt_serve:
  "user_interrupt f cs ks = serve f (nat (ks_current ks)) (device_poll (set_frame (nat (ks_current ks)) f (irq_entry (fr_vector f) cs ks)))"
  by (simp add: user_interrupt_def serve_def Let_def)

lemma serve_resumes:
  assumes k: "kinv ks" and c: "ks_current ks = int ti" "ti < SF_MAX_TASKS" and s: "tk_state (ks_tasks ks ti) \<in> {T_READY, T_DEAD}"
    and x: "tk_state (ks_tasks ks ti) \<noteq> T_DEAD \<Longrightarrow> tk_pid (ks_tasks ks ti) = 1 \<Longrightarrow>
      \<not> fr_vector f < 32 \<and> \<not> (fr_vector f = 128 \<and> fr_rax f = SYS_EXIT)"
  shows "resumes ks (serve f ti ks)"
proof -
  have sc: "resumes ks (schedule k1)" if "good ks k1" for k1
    using that c by (intro resumes_trans[OF _ schedule_resumes]) (auto simp: good_def)
  show ?thesis
  proof (cases "tk_state (ks_tasks ks ti) = T_DEAD")
    case True
    then show ?thesis using sc[OF good_refl[OF k]] by (simp add: serve_def)
  next
    case False
    then have r: "running ks" using s c by (simp add: running_def)
    show ?thesis
    proof (cases "fr_vector f = 128")
      case v: True
      have "returns ks (syscall f ks)" using x[OF False] v c by (intro syscall_returns[OF k r]) auto
      then obtain r' k1 where k1: "syscall f ks = Some (r', k1)" "good ks k1" by (auto simp: returns_def)
      then have "good ks (set_rax ti (of_int r') k1)" using set_rax_good[OF _ c(2)] good_trans by (auto simp: good_def)
      then show ?thesis using sc False v k1(1) by (simp add: serve_def)
    next
      case v: False
      have "good ks (task_dead ti st ks)" for st using task_dead_good[OF k c(2)] False by blast
      then show ?thesis using sc False v x[OF False] sc[OF good_refl[OF k]] by (auto simp: serve_def)
    qed
  qed
qed

lemma serve_outcome:
  assumes k: "kinv ks" and c: "ks_current ks = int ti" "ti < SF_MAX_TASKS" and s: "tk_state (ks_tasks ks ti) \<in> {T_READY, T_DEAD}"
  shows "resumes ks (serve f ti ks) \<or> serve f ti ks = Panicked \<and> tk_pid (ks_tasks ks ti) = 1 \<and>
    (fr_vector f < 32 \<or> fr_vector f = 128 \<and> fr_rax f = SYS_EXIT)"
proof (cases "tk_state (ks_tasks ks ti) \<noteq> T_DEAD \<and> tk_pid (ks_tasks ks ti) = 1 \<and> (fr_vector f < 32 \<or> fr_vector f = 128 \<and> fr_rax f = SYS_EXIT)")
  case True
  have "nat (ks_current ks) = ti" using c by simp
  then have "fr_rax f = SYS_EXIT \<Longrightarrow> syscall f ks = None" using True by (simp add: syscall_def Let_def)
  then have "serve f ti ks = Panicked" using True by (auto simp: serve_def)
  then show ?thesis using True by blast
next
  case False
  then show ?thesis using serve_resumes[OF assms] by blast
qed

lemma user_interrupt_proceeds:
  assumes k: "kinv ks" and r: "running ks"
  shows "proceeds (\<not> fatal (Trap f cs) (Running ks)) ks (user_interrupt f cs ks)"
proof -
  define ti where "ti = nat (ks_current ks)"
  have ti: "ti < SF_MAX_TASKS" "ks_current ks = int ti" "tk_state (ks_tasks ks ti) = T_READY" using r by (auto simp: running_def ti_def)
  define k1 where "k1 = irq_entry (fr_vector f) cs ks"
  define k2 where "k2 = set_frame ti f k1"
  define k3 where "k3 = device_poll k2"
  let ?ok = "\<not> fatal (Trap f cs) (Running ks)"
  have g1: "good ks k1" "tk_state (ks_tasks k1 ti) = T_READY" using irq_entry_good[OF k] ti(3) by (simp_all add: k1_def)
  have kk2: "kinv k2" using g1 ti(1) set_frame_kinv by (simp add: k2_def good_def)
  have g3: "good k2 k3" using device_poll_good[OF kk2] by (simp add: k3_def)
  have s3: "tk_state (ks_tasks k3 ti) \<in> {T_READY, T_DEAD}"
    unfolding k3_def by (rule device_poll_state) (use g1 in \<open>simp add: k2_def set_frame_def\<close>)
  have c3: "ks_current k3 = int ti" using good_current[OF g3] good_current[OF g1(1)] ti(2) by (simp add: k2_def set_frame_def)
  have sl: "slots_age ks k3"
    using g1 g3 ages_slots slots_age_trans[OF slots_age_trans[OF _ set_frame_slots]] unfolding good_def k2_def by blast
  have safe: "init_safe k3 \<and> (tk_pid (ks_tasks k3 ti) = 1 \<longrightarrow> tk_pid (ks_tasks ks ti) = 1)" if "init_safe ks" "?ok"
  proof -
    have i1: "init_safe k1" using init_safe_ages[OF that(1)] g1(1) by (simp add: good_def)
    have p1: "tk_pid (ks_tasks k1 ti) = 1 \<Longrightarrow> tk_pid (ks_tasks ks ti) = 1" using ages_init[OF that(1)] g1(1) unfolding good_def by blast
    have i2: "init_safe k2" unfolding k2_def by (rule set_frame_safe[OF i1]) (use that(2) p1 in \<open>auto simp: ti_def\<close>)
    have "tk_pid (ks_tasks k3 ti) = 1 \<Longrightarrow> tk_pid (ks_tasks k2 ti) = 1" using ages_init[OF i2] g3 unfolding good_def by blast
    then show ?thesis using init_safe_ages[OF i2] g3 p1 by (auto simp: good_def k2_def set_frame_def)
  qed
  have u: "user_interrupt f cs ks = serve f ti k3" by (simp add: user_interrupt_serve k1_def k2_def k3_def ti_def)
  have kk3: "kinv k3" using g3 by (simp add: good_def)
  from serve_outcome[OF kk3 c3 ti(1) s3, of f] show ?thesis
  proof
    assume "resumes k3 (serve f ti k3)"
    then show ?thesis unfolding u by (intro resumes_proceeds[OF sl]) (use safe in blast)
  next
    assume p: "serve f ti k3 = Panicked \<and> tk_pid (ks_tasks k3 ti) = 1 \<and> (fr_vector f < 32 \<or> fr_vector f = 128 \<and> fr_rax f = SYS_EXIT)"
    then have "\<not> (?ok \<and> init_safe ks)" using safe by (auto simp: ti_def)
    then show ?thesis unfolding u using p by (simp add: proceeds_def machine_inv_def kernel_of_def)
  qed
qed

section \<open>Stores\<close>

lemma phys_proceeds:
  assumes "kinv (set_phys f ks)"
  shows "running ks \<Longrightarrow> proceeds ok ks (Running (set_phys f ks))" "proceeds ok ks (Halted (set_phys f ks))"
  using assms by (auto simp: proceeds_def machine_inv_def kernel_of_def running_def slots_age_def init_safe_def)

lemma same_proceeds: "machine_inv m \<Longrightarrow> kernel_of m = Some ks \<Longrightarrow> proceeds ok ks m"
  by (auto simp: proceeds_def slots_age_def)

lemma device_store_kinv:
  assumes k: "kinv ks"
  shows "\<exists>f. device_store off b ks = set_phys f ks \<and> kinv (set_phys f ks)"
proof (cases "off < SF_DMA_BYTES")
  case True
  from k obtain kind where i: "kernel_inv ks kind" by (auto simp: kinv_def)
  then have "layout_ok ks" by (simp add: kernel_inv_def base_inv_def kernel_layout_def)
  then have "tables_same ks kind (store (ks_dma ks + off) [b] (ks_phys ks))" using True by (intro dma_tables) simp_all
  from good_store[where f = "store (ks_dma ks + off) [b]", OF i this] show ?thesis using True by (auto simp: device_store_def good_def)
next
  case False
  then show ?thesis using k by (intro exI[of _ "\<lambda>m. m"]) (simp add: device_store_def set_phys_def)
qed

lemma user_store_kinv:
  assumes k: "kinv ks" and r: "running ks"
  shows "\<exists>f. user_store v b ks = set_phys f ks \<and> kinv (set_phys f ks)"
proof (cases "page_ok ks (nat (ks_current ks)) True v")
  case True
  let ?ti = "nat (ks_current ks)"
  from k obtain kind where i: "kernel_inv ks kind" by (auto simp: kinv_def)
  then have l: "layout_ok ks" "spaces_ok ks kind" "has_space ks kind ?ti"
    using runningD[OF r] by (auto simp: kernel_inv_def base_inv_def kernel_layout_def tasks_ok_def)
  from write_target[OF l True] obtain x f where x: "user_phys ks ?ti v = Some x" "x = f + unat v mod 4096"
    and u: "user_frame ks kind (tk_pid (ks_tasks ks ?ti)) f" by metis
  have "tables_same ks kind (store x [b] (ks_phys ks))"
    using x(2) mod_less_divisor[of 4096 "unat v"] by (intro user_frame_tables_same[OF l(1) u]) simp_all
  from good_store[where f = "store x [b]", OF i this] show ?thesis using True x(1) by (auto simp: user_store_def Let_def good_def)
next
  case False
  then show ?thesis using k by (intro exI[of _ "\<lambda>m. m"]) (simp add: user_store_def set_phys_def)
qed

section \<open>The machine\<close>

lemma kernel_interrupt_proceeds:
  assumes k: "kinv ks"
  shows "proceeds (\<not> fatal (Trap f cs) (Halted ks)) ks (kernel_interrupt (fr_vector f) cs ks)"
proof (cases "fr_vector f < 32")
  case True
  then show ?thesis by (simp add: kernel_interrupt_def proceeds_def machine_inv_def kernel_of_def)
next
  case False
  let ?k = "irq_entry (fr_vector f) cs ks"
  have g: "good ks ?k" using irq_entry_good(1)[OF k] .
  then have "resumes ?k (schedule_loop ?k)" using schedule_loop_resumes by (simp add: good_def)
  then have "proceeds True ks (schedule_loop ?k)"
    using g init_safe_ages by (intro resumes_proceeds[of ks ?k]) (auto simp: good_def ages_slots)
  then show ?thesis using False by (simp add: kernel_interrupt_def)
qed

lemma machine_step_proceeds:
  assumes m: "machine_inv m" "kernel_of m = Some ks"
  shows "proceeds (\<not> fatal e m) ks (machine_step e m)"
proof (cases m)
  case (Running k)
  then have k: "kinv ks" "running ks" "m = Running ks" using m by (auto simp: machine_inv_def kernel_of_def)
  show ?thesis
  proof (cases e)
    case (User_Store v b)
    then show ?thesis using user_store_kinv[OF k(1,2), of v b] phys_proceeds(1)[OF _ k(2)] k(3) by auto
  next
    case (Device_Store off b)
    then show ?thesis using device_store_kinv[OF k(1), of off b] phys_proceeds(1)[OF _ k(2)] k(3) by auto
  next
    case (Trap f cs)
    then show ?thesis using user_interrupt_proceeds[OF k(1,2), of f cs] same_proceeds[OF m] k(3) by (simp add: interrupt_dispatch_def)
  qed
next
  case (Halted k)
  then have k: "kinv ks" "m = Halted ks" using m by (auto simp: machine_inv_def kernel_of_def)
  show ?thesis
  proof (cases e)
    case (User_Store v b)
    then show ?thesis using same_proceeds[OF m] k(2) by simp
  next
    case (Device_Store off b)
    then show ?thesis using device_store_kinv[OF k(1), of off b] phys_proceeds(2) k(2) by auto
  next
    case (Trap f cs)
    then show ?thesis using kernel_interrupt_proceeds[OF k(1), of f cs] same_proceeds[OF m] k(2) by (simp add: interrupt_dispatch_def)
  qed
qed (use m in \<open>simp add: kernel_of_def\<close>)

text \<open>Runs.\<close>

definition run :: "event list \<Rightarrow> machine \<Rightarrow> machine" where
  "run es m = fold machine_step es m"

lemma run_simps [simp]: "run [] m = m" "run (e # es) m = run es (machine_step e m)" "run (es @ fs) m = run fs (run es m)"
  by (simp_all add: run_def)

lemma machine_step_inv: "machine_inv m \<Longrightarrow> machine_inv (machine_step e m)"
  using machine_step_proceeds[of m _ e] by (cases m) (auto simp: kernel_of_def proceeds_def)

lemma run_machine_inv: "machine_inv m \<Longrightarrow> machine_inv (run es m)"
  by (induction es arbitrary: m) (simp_all add: machine_step_inv)

lemma run_panicked: "run es Panicked = Panicked"
  by (induction es) simp_all

lemma run_slots:
  assumes "machine_inv m" "kernel_of m = Some ks" "kernel_of (run es m) = Some ks'"
  shows "slots_age ks ks'"
  using assms
proof (induction es arbitrary: m ks)
  case Nil
  then show ?case by (simp add: slots_age_def)
next
  case (Cons e es)
  note p = machine_step_proceeds[OF Cons.prems(1,2), of e]
  show ?case
  proof (cases "kernel_of (machine_step e m)")
    case None
    then have "machine_step e m = Panicked" by (cases "machine_step e m") (simp_all add: kernel_of_def)
    then show ?thesis using Cons.prems(3) by (simp add: run_panicked kernel_of_def)
  next
    case (Some k1)
    then have "slots_age ks k1" "machine_inv (machine_step e m)" using p by (simp_all add: proceeds_def)
    then show ?thesis using Cons.IH[OF _ Some] Cons.prems(3) slots_age_trans by simp
  qed
qed

end
