(* ===== verification/SF_Boot.thy ===== *)
theory SF_Boot
  imports SF_Machine
begin

text \<open>
  The start of the kernel: discovery of the remapping unit (\<^verbatim>\<open>kernel/acpi.c\<close>), its
  initialization (\<^verbatim>\<open>iommu_init\<close>, \<^verbatim>\<open>space_mmio_init\<close>, \<^verbatim>\<open>device_init\<close>), the processor setup as far as
  it is visible outside the processor, and \<^verbatim>\<open>kernel_main\<close> of \<^verbatim>\<open>core.c\<close>.  Descriptor tables, control
  registers and serial diagnostics are not part of the state; \<open>None\<close> is a panic.
\<close>

section \<open>Boot information\<close>

record SfBootSegment =
  bs_physical :: u64
  bs_rva :: u64
  bs_file_bytes :: u64
  bs_memory_bytes :: u64
  bs_flags :: u32
  bs_reserved :: u32

record SfBootInfo =
  bi_magic :: u32
  bi_boot_type :: u32
  bi_memory_map :: u64
  bi_memory_map_size :: u64
  bi_descriptor_size :: u64
  bi_entry_count :: u64
  bi_acpi_rsdp :: u64
  bi_size :: u32
  bi_version :: u32
  bi_segment_count :: u32
  bi_init_entry :: u64
  bi_bundle :: u64
  bi_bundle_bytes :: u64
  bi_segments :: "nat \<Rightarrow> SfBootSegment"

definition BOOT_INFO :: nat where "BOOT_INFO = 472"

definition ld32 :: "(nat \<Rightarrow> u8) \<Rightarrow> nat \<Rightarrow> u32" where
  "ld32 m a = rd_le32 (load a 4 m) 0"

definition boot_segment :: "(nat \<Rightarrow> u8) \<Rightarrow> nat \<Rightarrow> SfBootSegment" where
  "boot_segment m a = \<lparr>bs_physical = rd64 m a, bs_rva = rd64 m (a + 8), bs_file_bytes = rd64 m (a + 16),
     bs_memory_bytes = rd64 m (a + 24), bs_flags = ld32 m (a + 32), bs_reserved = ld32 m (a + 36)\<rparr>"

definition boot_info :: "(nat \<Rightarrow> u8) \<Rightarrow> nat \<Rightarrow> SfBootInfo" where
  "boot_info m a = \<lparr>bi_magic = ld32 m a, bi_boot_type = ld32 m (a + 4), bi_memory_map = rd64 m (a + 40),
     bi_memory_map_size = rd64 m (a + 48), bi_descriptor_size = rd64 m (a + 56), bi_entry_count = rd64 m (a + 64),
     bi_acpi_rsdp = rd64 m (a + 72), bi_size = ld32 m (a + 112), bi_version = ld32 m (a + 116),
     bi_segment_count = ld32 m (a + 120), bi_init_entry = rd64 m (a + 128), bi_bundle = rd64 m (a + 136),
     bi_bundle_bytes = rd64 m (a + 144), bi_segments = (\<lambda>i. boot_segment m (a + 152 + 40 * i))\<rparr>"

text \<open>Entry \<open>i\<close> of the firmware's memory map has one of the types and covers the range.\<close>

definition map_covers :: "(nat \<Rightarrow> u8) \<Rightarrow> SfBootInfo \<Rightarrow> u32 \<Rightarrow> u32 \<Rightarrow> u64 \<Rightarrow> u64 \<Rightarrow> nat \<Rightarrow> bool" where
  "map_covers m b t1 t2 start n i =
     (let a = unat (bi_memory_map b) + 40 * i; physical = rd64 m a; pages = rd64 m (a + 16); type = ld32 m (a + 32);
          len = pages * 4096
      in pages \<le> 0xfffffffffffff \<and> (type = t1 \<or> type = t2) \<and> start \<ge> physical \<and> start - physical \<le> len \<and>
         n \<le> len - (start - physical))"

definition boot_memory :: "(nat \<Rightarrow> u8) \<Rightarrow> SfBootInfo \<Rightarrow> u64 \<Rightarrow> u64 \<Rightarrow> bool" where
  "boot_memory m b start n \<longleftrightarrow>
     \<not> (start \<ge> 0x40000000 \<or> n = 0 \<or> n > 0x40000000 - start) \<and>
     list_ex (map_covers m b 1 2 start n) [0..<unat (bi_entry_count b)]"

section \<open>Discovery of the remapping unit\<close>

type_synonym phys_read = "u64 \<Rightarrow> nat \<Rightarrow> bytes option"

definition firmware_read :: "(nat \<Rightarrow> u8) \<Rightarrow> SfBootInfo \<Rightarrow> phys_read" where
  "firmware_read m b address n =
     (if address < 4096 \<or> address \<ge> 0x40000000 \<or> of_nat n > 0x40000000 - address then None
      else if list_ex (map_covers m b 9 10 address (of_nat n)) [0..<unat (bi_entry_count b)]
      then Some (load (unat address) n m) else None)"

function checksum_loop :: "phys_read \<Rightarrow> u64 \<Rightarrow> nat \<Rightarrow> nat \<Rightarrow> u8 \<Rightarrow> bool" where
  "checksum_loop read a n off s =
     (if off \<ge> n then s = 0
      else let k = min 256 (n - off)
        in case read (a + of_nat off) k of
             None \<Rightarrow> False
           | Some b \<Rightarrow> checksum_loop read a n (off + k) (s + sum_list b))"
  by auto
termination by (relation "measure (\<lambda>(_, _, n, off, _). n - off)") auto

declare checksum_loop.simps [simp del]

definition checksum :: "phys_read \<Rightarrow> u64 \<Rightarrow> u32 \<Rightarrow> bool" where
  "checksum read a n \<longleftrightarrow> \<not> a > - 1 - ucast n \<and> checksum_loop read a (unat n) 0 0"

definition acpi_table :: "phys_read \<Rightarrow> u64 \<Rightarrow> bytes \<Rightarrow> nat res" where
  "acpi_table read a magic =
     (case read a 36 of
        None \<Rightarrow> Err SF_BAD_FORMAT
      | Some h \<Rightarrow>
          if take 4 h \<noteq> magic then Err SF_BAD_FORMAT
          else let n = rd_le32 h 4
            in if n \<ge> 36 \<and> n \<le> 4096 \<and> checksum read a n then Ok (unat n) else Err SF_BAD_FORMAT)"

text \<open>The table of tables: \<open>k\<close> entries remain; the address of the only \<^verbatim>\<open>DMAR\<close>, or zero.\<close>

primrec rsdt_scan :: "nat \<Rightarrow> phys_read \<Rightarrow> u64 \<Rightarrow> nat \<Rightarrow> u64 \<Rightarrow> u64 res" where
  "rsdt_scan 0 read at stride dmar = Ok dmar"
| "rsdt_scan (Suc k) read at stride dmar =
     (case read at stride of
        None \<Rightarrow> Err SF_BAD_FORMAT
      | Some e \<Rightarrow>
         (let address = (if stride = 8 then rd_le64 e 0 else ucast (rd_le32 e 0))
          in case read address 4 of
               None \<Rightarrow> Err SF_BAD_FORMAT
             | Some sig \<Rightarrow>
                 if sig = [0x44, 0x4d, 0x41, 0x52] then
                   if dmar \<noteq> 0 then Err SF_BAD_FORMAT else rsdt_scan k read (at + of_nat stride) stride address
                 else rsdt_scan k read (at + of_nat stride) stride dmar))"

text \<open>The device scopes of a unit; \<open>cov\<close> marks the functions it covers.\<close>

function scope_walk :: "phys_read \<Rightarrow> u64 \<Rightarrow> nat \<Rightarrow> nat \<Rightarrow> (nat \<Rightarrow> u8) \<Rightarrow> unit res \<times> (nat \<Rightarrow> u8)" where
  "scope_walk read a n pos cov =
     (if pos \<ge> n then (Ok (), cov)
      else case (if n - pos < 8 then None else read (a + of_nat pos) 8) of
          None \<Rightarrow> (Err SF_BAD_FORMAT, cov)
        | Some s \<Rightarrow>
           (if s ! 0 = 0 \<or> s ! 0 > 5 \<or> s ! 1 < 8 \<or> unat (s ! 1) > n - pos \<or> (s ! 1 - 6) AND 1 \<noteq> 0 \<or> s ! 2 \<noteq> 0 \<or> s ! 3 \<noteq> 0
            then (Err SF_BAD_FORMAT, cov)
            else if s ! 0 = 1 then
              if s ! 1 \<noteq> 8 \<or> s ! 5 \<noteq> 0 \<or> s ! 6 > 31 \<or> s ! 7 > 7 then (Err SF_DENIED, cov)
              else scope_walk read a n (pos + unat (s ! 1)) (cov(unat (s ! 6) * 8 + unat (s ! 7) := 1))
            else scope_walk read a n (pos + unat (s ! 1)) cov))"
  by auto
termination
  by (relation "measure (\<lambda>(_, _, n, pos, _). n - pos)") (auto simp: word_le_nat_alt word_less_nat_alt not_less)

declare scope_walk.simps [simp del]

definition SF_VTD_MMIO :: u64 where "SF_VTD_MMIO = 0xfed90000"

text \<open>The remapping structures of the table: one unit, segment zero.\<close>

function dmar_walk :: "phys_read \<Rightarrow> u64 \<Rightarrow> nat \<Rightarrow> nat \<Rightarrow> nat \<Rightarrow> (nat \<Rightarrow> u8) \<Rightarrow> unit res \<times> (nat \<Rightarrow> u8)" where
  "dmar_walk read dmar n off units cov =
     (if off \<ge> n then (if units \<noteq> 1 then Err SF_BAD_FORMAT else Ok (), cov)
      else case (if n - off < 4 then None else read (dmar + of_nat off) 4) of
          None \<Rightarrow> (Err SF_BAD_FORMAT, cov)
        | Some e \<Rightarrow>
           (let type = rd_le16 e 0; len = unat (rd_le16 e 2)
            in if len < 4 \<or> len > n - off then (Err SF_BAD_FORMAT, cov)
               else if type \<noteq> 0 \<or> len < 16 then (Err SF_DENIED, cov)
               else case read (dmar + of_nat off) 16 of
                   None \<Rightarrow> (Err SF_DENIED, cov)
                 | Some e \<Rightarrow>
                     if e ! 4 > 1 \<or> e ! 5 \<noteq> 0 \<or> rd_le16 e 6 \<noteq> 0 \<or> rd_le64 e 8 \<noteq> SF_VTD_MMIO \<or> units \<noteq> 0 then (Err SF_DENIED, cov)
                     else (case scope_walk read (dmar + of_nat off) len 16
                                  (if e ! 4 \<noteq> 0 then (\<lambda>i. if i < 256 then 1 else cov i) else cov) of
                             (Err x, cov) \<Rightarrow> (Err x, cov)
                           | (Ok _, cov) \<Rightarrow> dmar_walk read dmar n (off + len) (units + 1) cov)))"
  by auto
termination by (relation "measure (\<lambda>(_, _, n, off, _, _). n - off)") auto

declare dmar_walk.simps [simp del]

text \<open>The result and what has been marked; success means the one register base the kernel knows.\<close>

definition sf_acpi_dmar :: "phys_read \<Rightarrow> u64 \<Rightarrow> unit res \<times> (nat \<Rightarrow> u8)" where
  "sf_acpi_dmar read rsdp =
     (let none = (\<lambda>_. 0); bad = (Err SF_BAD_FORMAT, none)
      in if rsdp = 0 then (Err SF_NOT_FOUND, none)
         else case read rsdp 20 of
           None \<Rightarrow> bad
         | Some r \<Rightarrow>
             if take 8 r \<noteq> [0x52, 0x53, 0x44, 0x20, 0x50, 0x54, 0x52, 0x20] \<or> \<not> checksum read rsdp 20 then bad
             else case (if r ! 15 \<ge> 2 then
                          (case read rsdp 36 of
                             None \<Rightarrow> None
                           | Some x \<Rightarrow>
                               if rd_le32 x 20 < 36 \<or> rd_le32 x 20 > 4096 \<or> \<not> checksum read rsdp (rd_le32 x 20) then None
                               else if rd_le64 x 24 \<noteq> 0 then Some (rd_le64 x 24, 8) else Some (ucast (rd_le32 r 16), 4))
                        else Some (ucast (rd_le32 r 16), 4 :: nat)) of
                 None \<Rightarrow> bad
               | Some (root, stride) \<Rightarrow>
                  (case acpi_table read root (if stride = 8 then [0x58, 0x53, 0x44, 0x54] else [0x52, 0x53, 0x44, 0x54]) of
                     Err _ \<Rightarrow> bad
                   | Ok n \<Rightarrow>
                       if (n - 36) mod stride \<noteq> 0 then bad
                       else case rsdt_scan ((n - 36) div stride) read (root + 36) stride 0 of
                           Err _ \<Rightarrow> bad
                         | Ok dmar \<Rightarrow>
                             if dmar = 0 then (Err SF_NOT_FOUND, none)
                             else case acpi_table read dmar [0x44, 0x4d, 0x41, 0x52] of
                                 Err _ \<Rightarrow> bad
                               | Ok n \<Rightarrow>
                                   if n < 48 then bad
                                   else case read dmar 48 of
                                       None \<Rightarrow> bad
                                     | Some h \<Rightarrow>
                                         if h ! 36 < 38 \<or> h ! 36 > 63 \<or> list_ex (\<lambda>i. h ! i \<noteq> 0) [38..<48] then bad
                                         else dmar_walk read dmar n 48 0 none))"

section \<open>The remapping unit\<close>

primrec wait32_loop :: "nat \<Rightarrow> u32 \<Rightarrow> u32 \<Rightarrow> u32 \<Rightarrow> Kernel \<Rightarrow> unit res \<times> Kernel" where
  "wait32_loop 0 off msk val ks = (Err SF_TIMEOUT, ks)"
| "wait32_loop (Suc n) off msk val ks =
     (case r32 off ks of (v, ks) \<Rightarrow> if v AND msk = val then (Ok (), ks) else wait32_loop n off msk val ks)"

definition wait32 :: "u32 \<Rightarrow> u32 \<Rightarrow> u32 \<Rightarrow> Kernel \<Rightarrow> unit res \<times> Kernel" where
  "wait32 off msk val ks = wait32_loop 1000000 off msk val ks"

text \<open>The page directory of the fourth gigabyte in the tables the firmware left.\<close>

definition boot_p3_entry :: "u64 \<Rightarrow> (nat \<Rightarrow> u8) \<Rightarrow> u64" where
  "boot_p3_entry cr3 m = rd64 m (frame_addr (rd64 m (unat cr3)) + 8 * 3)"

definition space_mmio_init :: "u64 \<Rightarrow> u64 \<Rightarrow> Kernel \<Rightarrow> unit res \<times> Kernel" where
  "space_mmio_init cr3 address ks =
     (if address \<noteq> 0xfed90000 then (Err SF_DENIED, ks)
      else let p3_3 = boot_p3_entry cr3 (ks_phys ks); p2 = frame_addr p3_3; i = unat (drop_bit 21 address AND 511)
        in if p3_3 AND 1 = 0 \<or> rd64 (ks_phys ks) (p2 + 8 * i) AND 128 = 0 then (Err SF_BAD_FORMAT, ks)
           else let ks = set_phys (wr64 (p2 + 8 * i) ((address AND NOT 0x1fffff) OR 0x9b OR NX)) ks;
                    ks = set_phys (wr64 (ks_mmio_pd ks + 8 * i) (of_nat (ks_mmio_pt ks) OR 3)) ks;
                    ks = set_phys (wr64 (ks_mmio_pt ks + 8 * unat (drop_bit 12 address AND 511)) (address OR 0x1b OR NX)) ks
                in (Ok (), ks\<lparr>ks_boot_mmio_pd := p2, ks_mmio_ready := True\<rparr>))"

definition set_mode :: "u32 \<Rightarrow> Kernel \<Rightarrow> Kernel" where
  "set_mode n ks = set_iommu (\<lambda>m. m\<lparr>im_mode := n\<rparr>) ks"

text \<open>Whether the unit offers what the kernel needs, from its capability register and the
  offsets computed from it; the status register is read only when the rest holds.\<close>

definition iommu_supported :: "Iommu \<Rightarrow> bool" where
  "iommu_supported m \<longleftrightarrow> bit (im_capability m) 9 \<and> drop_bit 16 (im_capability m) AND 63 \<ge> 38 \<and>
     im_iotlb_offset m \<ge> 0x88 \<and> im_iotlb_offset m \<le> 4088 \<and> im_fault_offset m \<ge> 0x100 \<and>
     im_fault_offset m \<le> 4096 - im_fault_records m * 16 \<and> im_fault_records m \<le> 64"

text \<open>The commands that install the empty tables and switch translation on.\<close>

definition iommu_start :: "Kernel \<Rightarrow> Kernel" where
  "iommu_start ks =
     (let ks = w32 0x38 (push_bit 31 1) (set_iommu (\<lambda>m. m\<lparr>im_tables := no_tables\<rparr>) ks);
          ks = w32 0x18 (push_bit 30 1) (w64 0x20 (im_address (ks_iommu ks)) ks)
      in case wait32 0x1c (push_bit 30 1) (push_bit 30 1) ks of
           (Err _, ks) \<Rightarrow> ks
         | (Ok _, ks) \<Rightarrow>
             (case iommu_invalidate ks of
                (Err _, ks) \<Rightarrow> ks
              | (Ok _, ks) \<Rightarrow>
                  (case (if bit (im_capability (ks_iommu ks)) 4
                         then wait32 0x1c (push_bit 27 1) 0 (w32 0x18 (push_bit 27 1) ks) else (Ok (), ks)) of
                     (Err _, ks) \<Rightarrow> ks
                   | (Ok _, ks) \<Rightarrow>
                       (case wait32 0x1c (push_bit 31 1) (push_bit 31 1) (w32 0x18 (push_bit 31 1) ks) of
                          (Err _, ks) \<Rightarrow> ks
                        | (Ok _, ks) \<Rightarrow> set_mode 1 ks))))"

text \<open>The registers a unit must not have set: translation, interrupt remapping, queued
  invalidation.\<close>

definition iommu_probe :: "Kernel \<Rightarrow> Kernel" where
  "iommu_probe ks =
     (case r64 8 ks of (c, ks) \<Rightarrow> case r64 16 ks of (extended, ks) \<Rightarrow>
        let ks = set_iommu (\<lambda>m. m\<lparr>im_capability := c, im_iotlb_offset := ucast (drop_bit 8 extended AND 1023) * 16 + 8,
              im_fault_offset := ucast (drop_bit 24 c AND 1023) * 16,
              im_fault_records := ucast (drop_bit 40 c AND 255) + 1\<rparr>) ks
        in if \<not> iommu_supported (ks_iommu ks) then snd (r32 0x1c ks)
           else case r32 0x1c ks of (v, ks) \<Rightarrow>
             if v AND (push_bit 31 1 OR push_bit 26 1 OR push_bit 25 1) \<noteq> 0 then snd (r32 0x1c ks) else iommu_start ks)"

definition iommu_init :: "u64 \<Rightarrow> SfBootInfo \<Rightarrow> Kernel \<Rightarrow> Kernel" where
  "iommu_init cr3 b ks =
     (case sf_acpi_dmar (firmware_read (ks_phys ks) b) (bi_acpi_rsdp b) of (r, cov) \<Rightarrow>
        let ks = set_iommu (\<lambda>m. m\<lparr>im_covered := cov\<rparr>) ks
        in case r of
             Err x \<Rightarrow> if x = SF_NOT_FOUND then ks else set_mode 2 ks
           | Ok _ \<Rightarrow>
               (case space_mmio_init cr3 SF_VTD_MMIO (set_mode 2 ks) of
                  (Err _, ks) \<Rightarrow> ks
                | (Ok _, ks) \<Rightarrow> iommu_probe ks))"

section \<open>Devices and processor\<close>

text \<open>Function \<open>bdf\<close> of bus zero may not master the bus.\<close>

definition stop_dma :: "nat \<Rightarrow> Kernel \<Rightarrow> Kernel" where
  "stop_dma bdf ks =
     (case config_read (of_nat bdf) 0 ks of (v, ks) \<Rightarrow>
        if v = - 1 then ks
        else case config_read (of_nat bdf) 4 ks of (c, ks) \<Rightarrow>
          if bit c 2 then config_write_command (of_nat bdf) (ucast c AND NOT 4) ks else ks)"

definition device_init :: "u64 \<Rightarrow> nat \<Rightarrow> Kernel \<Rightarrow> Kernel" where
  "device_init cr3 b ks =
     (let ks = fold stop_dma [0..<256] (set_phys (store (ks_guard ks) (replicate 4096 0xa5)) ks)
      in iommu_init cr3 (boot_info (ks_phys ks) b) ks)"

text \<open>The features the processor reports decide; then the interrupt controller and timer.\<close>

definition arch_init :: "Kernel \<Rightarrow> Kernel option" where
  "arch_init ks =
     (case hw_next ks of (v, ks) \<Rightarrow>
        if (ucast v :: u32) AND 0x07000001 \<noteq> 0x07000001 then None
        else Some (fold (\<lambda>(p, v). outb p v)
          [(0x20, 0x11), (0xa0, 0x11), (0x21, 32), (0xa1, 40), (0x21, 4), (0xa1, 2), (0x21, 1), (0xa1, 1), (0x21, 0xee),
           (0xa1, 0xff), (0x3f9, 1), (0x43, 0x36), (0x40, 156), (0x40, 46)] ks))"

section \<open>The entry point\<close>

definition boot_accepted :: "(nat \<Rightarrow> u8) \<Rightarrow> nat \<Rightarrow> SfBootInfo \<Rightarrow> bool" where
  "boot_accepted m a b \<longleftrightarrow>
     \<not> (a \<ge> 0x40000000 \<or> bi_magic b \<noteq> 0x5f1f0f05 \<or> bi_boot_type b \<noteq> 1 \<or> unat (bi_size b) \<noteq> BOOT_INFO \<or> bi_version b \<noteq> 1 \<or>
        bi_segment_count b = 0 \<or> bi_segment_count b > 8) \<and>
     \<not> (bi_bundle b AND 4095 \<noteq> 0 \<or> bi_bundle_bytes b = 0 \<or> bi_bundle_bytes b > 0x400000 \<or> bi_bundle b \<ge> 0x40000000 \<or>
        bi_bundle_bytes b > 0x40000000 - bi_bundle b) \<and>
     \<not> (bi_descriptor_size b \<noteq> 40 \<or> bi_entry_count b = 0 \<or> bi_entry_count b > 2048 \<or>
        bi_memory_map_size b \<noteq> bi_entry_count b * 40 \<or> bi_memory_map b \<ge> 0x40000000 \<or>
        bi_memory_map_size b > 0x40000000 - bi_memory_map b) \<and>
     boot_memory m b (of_nat a) (of_nat BOOT_INFO) \<and> boot_memory m b (bi_bundle b) (bi_bundle_bytes b)"

text \<open>Two ranges that overlap, in 64-bit arithmetic.\<close>

definition boot_overlap :: "u64 \<Rightarrow> u64 \<Rightarrow> u64 \<Rightarrow> u64 \<Rightarrow> bool" where
  "boot_overlap a n c k \<longleftrightarrow> a < c + k \<and> c < a + n"

definition boot_segment_ok :: "(nat \<Rightarrow> u8) \<Rightarrow> SfBootInfo \<Rightarrow> nat \<Rightarrow> bool" where
  "boot_segment_ok m b i =
     (let s = bi_segments b i
      in \<not> (bs_reserved s \<noteq> 0 \<or> bs_file_bytes s > bs_memory_bytes s \<or> bs_physical s AND 4095 \<noteq> 0 \<or>
            \<not> boot_memory m b (bs_physical s) (page_up (bs_memory_bytes s))) \<and>
         \<not> boot_overlap (bs_physical s) (bs_memory_bytes s) (bi_bundle b) (bi_bundle_bytes b) \<and>
         \<not> list_ex (\<lambda>j. boot_overlap (bs_physical s) (bs_memory_bytes s) (bs_physical (bi_segments b j))
              (bs_memory_bytes (bi_segments b j))) [0..<i])"

definition boot_plan :: "SfBootInfo \<Rightarrow> SfLoadPlan" where
  "boot_plan b =
     \<lparr>lp_size = of_nat PLAN_SIZE, lp_count = bi_segment_count b, lp_entry = bi_init_entry b, lp_image_base = 0,
      lp_grant_manager = 0, lp_grant_service = 0, lp_service_rights = 0, lp_grant_bundle = 0, lp_grant_device = 0,
      lp_device_rights = 0,
      lp_segments = (\<lambda>i. if i < unat (bi_segment_count b)
        then let s = bi_segments b i in \<lparr>sg_rva = bs_rva s, sg_bytes = bs_memory_bytes s, sg_data = bs_physical s,
          sg_flags = bs_flags s, sg_reserved = 0\<rparr>
        else \<lparr>sg_rva = 0, sg_bytes = 0, sg_data = 0, sg_flags = 0, sg_reserved = 0\<rparr>),
      lp_arguments = \<lparr>ar_count = 0, ar_bytes = 0, ar_env_count = 0, ar_reserved = 0,
        ar_data = replicate SF_ARGUMENT_BYTES 0\<rparr>\<rparr>"

text \<open>The second half, after the hardware is set up: segments, the first task, the scheduler.\<close>

definition boot_start :: "nat \<Rightarrow> Kernel \<Rightarrow> machine" where
  "boot_start a ks =
     (let b = boot_info (ks_phys ks) a
      in if \<not> list_all (boot_segment_ok (ks_phys ks) b) [0..<unat (bi_segment_count b)] then Panicked
         else case task_new (boot_plan b) True ks of
             None \<Rightarrow> Panicked
           | Some (r, ks) \<Rightarrow> if r \<noteq> 1 then Panicked else schedule ks)"

definition kernel_main :: "u64 \<Rightarrow> nat \<Rightarrow> Kernel \<Rightarrow> machine" where
  "kernel_main cr3 a ks =
     (let b = boot_info (ks_phys ks) a
      in if \<not> boot_accepted (ks_phys ks) a b then Panicked
         else case arch_init (ks\<lparr>ks_bundle_phys := bi_bundle b, ks_bundle_bytes := bi_bundle_bytes b\<rparr>) of
             None \<Rightarrow> Panicked
           | Some ks \<Rightarrow> boot_start a (device_init cr3 a ks))"

text \<open>Where the linker places the static objects, and the state their initializers give.\<close>

record Image =
  ig_pool :: nat
  ig_kernel_pd :: nat
  ig_mmio_pd :: nat
  ig_mmio_pt :: nat
  ig_device_pt :: nat
  ig_dma :: nat
  ig_guard :: nat
  ig_kernel_end :: u64
  ig_tables :: u64

definition zero_task :: Task where
  "zero_task = \<lparr>tk_pid = 0, tk_state = T_EMPTY, tk_wait_endpoint = 0, tk_exit_status = 0, tk_cr3 = 0, tk_recv_buffer = 0,
     tk_wait_deadline = 0, tk_frame = \<lparr>fr_rax = 0, fr_rdi = 0, fr_rsi = 0, fr_rdx = 0, fr_vector = 0, fr_rip = 0, fr_cs = 0,
       fr_rflags = 0, fr_rsp = 0, fr_ss = 0\<rparr>, tk_device_io = 0, tk_device_bdf = 0, tk_device_fault = 0,
     tk_device_modern = 0, tk_priority = 0, tk_cap_limit = 0, tk_page_limit = 0, tk_page_count = 0, tk_ready_since = 0,
     tk_caps = \<lambda>_. \<lparr>cp_endpoint = 0, cp_epoch = 0, cp_rights = 0, cp_generation = 0\<rparr>\<rparr>"

definition cold_kernel :: "Image \<Rightarrow> (nat \<Rightarrow> u8) \<Rightarrow> Hardware \<Rightarrow> Kernel" where
  "cold_kernel g m hw = \<lparr>ks_tasks = \<lambda>_. zero_task, ks_current = - 1, ks_ticks = 0, ks_next_pid = 1,
     ks_endpoints = \<lambda>_. \<lparr>ep_owner = 0, ep_epoch = 0, ep_head = 0, ep_count = 0, ep_queue = \<lambda>_. replicate MSG_SIZE 0\<rparr>,
     ks_send_bytes = 0, ks_receive_bytes = 0, ks_phys = m, ks_page_owner = \<lambda>_. 0, ks_mmio_ready = False,
     ks_pool = ig_pool g, ks_kernel_pd = ig_kernel_pd g, ks_mmio_pd = ig_mmio_pd g, ks_dma = ig_dma g,
     ks_bundle_phys = 0, ks_bundle_bytes = 0, ks_device_owner = 0, ks_quarantined = False, ks_hw = hw,
     ks_device_pt = ig_device_pt g, ks_boot_mmio_pd = 0, ks_guard = ig_guard g, ks_kernel_end = ig_kernel_end g,
     ks_iommu = \<lparr>im_mode = 0, im_iotlb_offset = 0, im_fault_offset = 0, im_fault_records = 0, im_capability = 0,
       im_covered = \<lambda>_. 0, im_active_bdf = - 1, im_tables = no_tables, im_address = ig_tables g\<rparr>,
     ks_dma_status = \<lparr>ds_size = 0, ds_mode = 0, ds_owner = 0, ds_faults = 0, ds_last_address = 0, ds_probe_address = 0,
       ds_source = 0, ds_reason = 0, ds_guard_intact = 0, ds_active_mapping = 0\<rparr>,
     ks_console = \<lparr>cs_input = \<lambda>_. 0, cs_head = 0, cs_count = 0, cs_overflow = False\<rparr>, ks_mmio_pt = ig_mmio_pt g\<rparr>"

end
