(* ===== verification/Spec2Isabelle.thy ===== *)
theory Spec2Isabelle
  imports SF_Prelude SF_Sched SF_Manager SF_Cycle SF_Supervisor SF_Version SF_Update
    SF_Net_Correct SF_Memory_Claims SF_Libc_Stdio SF_Libc_Malloc SF_Stack_Claims
    SF_Ipc_Claims SF_Iommu_Claims SF_Kernel_Run SF_Boot
begin

text \<open>Header.\<close>

end
